(* ===== verification/Prelude.thy ===== *)
theory Prelude
  imports "HOL-Library.Word" "HOL-Library.Monad_Syntax"
begin

text \<open>
  Shared vocabulary of the development: the machine types of the C sources (bytes,
  32-bit and 64-bit unsigned integers), bounded reads from a byte buffer, and the list,
  option and word lemmas that several components use.
\<close>

unbundle bit_operations_syntax

section \<open>Machine types\<close>

type_synonym byte = "8 word"
type_synonym u16 = "16 word"
type_synonym u32 = "32 word"
type_synonym u64 = "64 word"

text \<open>
  Quantities that the sources hold in a \<^verbatim>\<open>uint\<close> but that are used as sizes and indices are
  natural numbers; \<open>wrap32\<close> writes the wrap-around of an arithmetic result out.
\<close>

definition wrap32 :: "nat \<Rightarrow> nat" where
  "wrap32 n = n mod 4294967296"

named_theorems wrap_simps \<open>wrap-around that does not happen\<close>

lemma wrap32_small [simp, wrap_simps]: "n < 4294967296 \<Longrightarrow> wrap32 n = n"
  by (simp add: wrap32_def)

lemma wrap32_less [simp, intro]: "wrap32 n < 4294967296"
  by (simp add: wrap32_def)

lemma wrap32_le: "wrap32 n \<le> n"
  by (simp add: wrap32_def)

text \<open>A size or a difference of pointers that the sources convert to a 32-bit \<^verbatim>\<open>int\<close>.\<close>

definition to_int :: "int \<Rightarrow> int" where
  "to_int n = (n + 2147483648) mod 4294967296 - 2147483648"

lemma to_int_id [simp]: "- 2147483648 \<le> n \<Longrightarrow> n < 2147483648 \<Longrightarrow> to_int n = n"
  by (simp add: to_int_def)

text \<open>The value of an expression of type \<^verbatim>\<open>int\<close>: an overflow is undefined in C.\<close>

definition c_int :: "int \<Rightarrow> int option" where
  "c_int n = (if - 2147483648 \<le> n \<and> n < 2147483648 then Some n else None)"

lemma c_int_Some [simp]: "- 2147483648 \<le> n \<Longrightarrow> n < 2147483648 \<Longrightarrow> c_int n = Some n"
  by (simp add: c_int_def)

section \<open>Bounded reads\<close>

text \<open>
  A read through a pointer into a buffer: \<^const>\<open>None\<close> when the address lies outside the
  buffer, which the C code does not check.
\<close>

definition rd :: "'a list \<Rightarrow> nat \<Rightarrow> 'a option" where
  "rd p i = (if i < length p then Some (p ! i) else None)"

lemma rd_Some [simp]: "i < length p \<Longrightarrow> rd p i = Some (p ! i)"
  by (simp add: rd_def)

lemma rd_None [simp]: "length p \<le> i \<Longrightarrow> rd p i = None"
  by (simp add: rd_def)

lemma rd_Cons_0 [simp]: "rd (x # xs) 0 = Some x"
  by (simp add: rd_def)

lemma rd_Cons_Suc [simp]: "rd (x # xs) (Suc n) = rd xs n"
  by (simp add: rd_def)

lemma rd_Cons_numeral [simp]: "rd (x # xs) (numeral n) = rd xs (pred_numeral n)"
  by (simp add: numeral_eq_Suc)

lemma rd_Nil [simp]: "rd [] n = None"
  by (simp add: rd_def)

lemma rd_eq_Some_conv: "rd p i = Some x \<longleftrightarrow> i < length p \<and> p ! i = x"
  by (auto simp: rd_def)

text \<open>
  A read of a NUL-terminated string: the terminator follows the characters.
\<close>

definition cstr_at :: "byte list \<Rightarrow> nat \<Rightarrow> byte" where
  "cstr_at s i = (if i < length s then s ! i else 0)"

lemma cstr_at_less [simp]: "i < length s \<Longrightarrow> cstr_at s i = s ! i"
  by (simp add: cstr_at_def)

lemma cstr_at_end [simp]: "length s \<le> i \<Longrightarrow> cstr_at s i = 0"
  by (simp add: cstr_at_def)

text \<open>The same with the reads tracked: \<^const>\<open>None\<close> behind the terminator.\<close>

definition cstr_rd :: "byte list \<Rightarrow> nat \<Rightarrow> byte option" where
  "cstr_rd s i = (if i \<le> length s then Some (cstr_at s i) else None)"

section \<open>Option monad\<close>

text \<open>The operator \<^verbatim>\<open>&&\<close>, whose second operand is evaluated only if the first holds.\<close>

definition and_then :: "bool option \<Rightarrow> bool option \<Rightarrow> bool option" where
  "and_then p q = do { b \<leftarrow> p; if b then q else Some False }"

lemma and_then_simps [simp]: "and_then (Some b) q = (if b then q else Some False)" "and_then None q = None"
  by (simp_all add: and_then_def)

lemma bind_eq_Some_iff [simp]:
  "Option.bind m f = Some y \<longleftrightarrow> (\<exists>x. m = Some x \<and> f x = Some y)"
  by (cases m) auto

lemma ex_bool_simps [simp]: "\<exists>b. b" "\<exists>b. \<not> b"
  by blast+

section \<open>Bytes of a word\<close>

text \<open>Every byte value is below 256; case analysis by enumeration is done on these.\<close>

lemma unat_byte_less [simp]: "unat (b :: byte) < 256"
  using unsigned_less [of b, where 'a = nat] by simp

lemma unat_u16_less: "unat (b :: u16) < 65536"
  using unsigned_less [of b, where 'a = nat] by simp

lemma unat_u32_less: "unat (b :: u32) < 4294967296"
  using unsigned_less [of b, where 'a = nat] by simp

lemma unat_u64_less: "unat (b :: u64) < 18446744073709551616"
  using unsigned_less [of b, where 'a = nat] by simp

lemmas unat_word_less = unat_byte_less unat_u16_less unat_u32_less unat_u64_less

text \<open>Truncation that loses nothing, and the arithmetic reading of the bit operations.\<close>

lemmas trunc_simps = word_unat_eq_iff word_less_nat_alt unsigned_ucast_eq unsigned_take_bit_eq
  take_bit_nat_eq_self

lemma unat_take_bit: "unat (take_bit n w) = unat w mod 2 ^ n" for w :: "'a::len word"
  by (rule trans [OF unsigned_take_bit_eq take_bit_eq_mod])

lemma unat_drop_bit: "unat (drop_bit n w) = unat w div 2 ^ n" for w :: "'a::len word"
proof -
  have "take_bit LENGTH('a) (unat w) = unat w"
    by (simp add: take_bit_nat_eq_self)
  then show ?thesis
    by (metis unsigned_drop_bit_eq drop_bit_eq_div)
qed

lemma unat_ucast_up: "LENGTH('a) \<le> LENGTH('b) \<Longrightarrow> unat (ucast b :: 'b::len word) = unat b"
  for b :: "'a::len word"
proof -
  assume le: "LENGTH('a) \<le> LENGTH('b)"
  have "unat b < 2 ^ LENGTH('a)"
    using unsigned_less [of b, where 'a = nat] by simp
  also have "\<dots> \<le> 2 ^ LENGTH('b)"
    using le by simp
  finally show ?thesis
    by (simp only: unsigned_ucast_eq unsigned_take_bit_eq take_bit_nat_eq_self)
qed

lemma or_eq_add: "a AND b = 0 \<Longrightarrow> a OR b = a + (b :: 'a::len word)"
  by (simp add: disjunctive_add_eq_or)

lemma push_or: "unat x < 2 ^ k \<Longrightarrow> push_bit k y OR x = push_bit k y + (x :: 'a::len word)"
proof (rule or_eq_add)
  assume "unat x < 2 ^ k"
  then have "take_bit k x = x"
    by (simp add: word_unat_eq_iff unsigned_take_bit_eq take_bit_nat_eq_self)
  then have "push_bit k y AND x = push_bit k y AND take_bit k x" by simp
  also have "\<dots> = 0" by (rule bit_word_eqI) (auto simp: bit_simps)
  finally show "push_bit k y AND x = 0" .
qed

lemma unat_push_or:
  fixes x y :: "'a::len word"
  assumes "unat x < 2 ^ k" "unat y * 2 ^ k + unat x < 2 ^ LENGTH('a)"
  shows "unat (push_bit k y OR x) = unat y * 2 ^ k + unat x"
proof -
  have "unat (push_bit k y) = take_bit LENGTH('a) (push_bit k (unat y))"
    by (rule unsigned_push_bit_eq)
  also have "\<dots> = unat y * 2 ^ k"
    using assms(2) by (subst take_bit_nat_eq_self) (simp_all add: push_bit_eq_mult)
  finally show ?thesis
    using assms by (simp add: push_or unat_word_ariths(1) del: push_bit_eq_mult)
qed

lemma map_unat_inj: "map unat xs = map unat ys \<Longrightarrow> xs = (ys :: 'a::len word list)"
  by (rule map_injective) (auto intro: injI)

end
