(* ===== verification/Wire.thy ===== *)
theory Wire
  imports Prelude
begin

text \<open>
  The integer formats of the client/server protocol: the little-endian stores and loads of
  \<^verbatim>\<open>MySQL/my_global.h\<close> and the length-coded integers of \<^verbatim>\<open>MySQL/pack.c\<close>.  A store returns
  the bytes it writes; a load reads from the start of the buffer it is given.
\<close>

section \<open>Prefix codecs\<close>

text \<open>
  What the protocol relies on whenever it puts values one after the other in a packet:
  decoding what was encoded returns the value and stops exactly at the end of the code.
  \<open>ok\<close> is the set of values the encoder is meant for.
\<close>

locale prefix_codec =
  fixes enc :: "'a \<Rightarrow> byte list"
    and dec :: "byte list \<Rightarrow> ('a \<times> byte list) option"
    and ok :: "'a \<Rightarrow> bool"
  assumes dec_enc: "ok x \<Longrightarrow> dec (enc x @ rest) = Some (x, rest)"
begin

primrec dec_many :: "nat \<Rightarrow> byte list \<Rightarrow> ('a list \<times> byte list) option" where
  "dec_many 0 p = Some ([], p)"
| "dec_many (Suc n) p =
     (case dec p of None \<Rightarrow> None
      | Some (x, p') \<Rightarrow> (case dec_many n p' of None \<Rightarrow> None
                         | Some (xs, p'') \<Rightarrow> Some (x # xs, p'')))"

lemma dec_many_enc:
  "list_all ok xs \<Longrightarrow> dec_many (length xs) (concat (map enc xs) @ rest) = Some (xs, rest)"
  by (induction xs) (simp_all add: dec_enc)

lemma enc_prefix_unique:
  assumes "ok x" "ok y" "enc x @ r = enc y @ s"
  shows "x = y \<and> r = s"
proof -
  have "Some (x, r) = Some (y, s)"
    by (metis dec_enc assms)
  then show ?thesis by simp
qed

lemma enc_inj: "ok x \<Longrightarrow> ok y \<Longrightarrow> enc x = enc y \<Longrightarrow> x = y"
  using enc_prefix_unique [of x y "[]" "[]"] by simp

lemma concat_enc_inj:
  assumes "list_all ok xs" "list_all ok ys" "length xs = length ys"
    and "concat (map enc xs) @ r = concat (map enc ys) @ s"
  shows "xs = ys \<and> r = s"
proof -
  have "Some (xs, r) = Some (ys, s)"
    by (metis dec_many_enc assms)
  then show ?thesis by simp
qed

lemma concat_enc_unique:
  assumes "\<And>x. enc x \<noteq> []"
  shows "list_all ok xs \<Longrightarrow> list_all ok ys \<Longrightarrow> concat (map enc xs) = concat (map enc ys) \<Longrightarrow> xs = ys"
proof (induction xs arbitrary: ys)
  case Nil
  show ?case
  proof (cases ys)
    case (Cons y zs)
    then have "enc y = []" using Nil by simp
    then show ?thesis using assms [of y] by blast
  qed simp
next
  case (Cons x xs)
  have "ys \<noteq> []"
  proof
    assume "ys = []"
    then have "enc x = []" using Cons.prems by simp
    then show False using assms [of x] by blast
  qed
  then obtain y zs where ys: "ys = y # zs" by (cases ys) simp_all
  then have "x = y \<and> concat (map enc xs) = concat (map enc zs)"
    using Cons.prems enc_prefix_unique [of x y] by simp
  then show ?case using Cons ys by simp
qed

end

section \<open>Little-endian stores and loads\<close>

definition int2store :: "u32 \<Rightarrow> byte list" where
  "int2store a = [ucast a, ucast (drop_bit 8 a)]"

definition int3store :: "u64 \<Rightarrow> byte list" where
  "int3store a = [ucast a, ucast (drop_bit 8 a), ucast (drop_bit 16 a)]"

definition int4store :: "u32 \<Rightarrow> byte list" where
  "int4store a = [ucast a, ucast (drop_bit 8 a), ucast (drop_bit 16 a), ucast (drop_bit 24 a)]"

definition int8store :: "u64 \<Rightarrow> byte list" where
  "int8store a =
     (let def_temp = ucast a :: u32; def_temp2 = ucast (drop_bit 32 a) :: u32
      in int4store def_temp @ int4store def_temp2)"

definition uint2korr :: "byte list \<Rightarrow> u16 option" where
  "uint2korr A = do {
     a0 \<leftarrow> rd A 0; a1 \<leftarrow> rd A 1;
     Some (ucast a0 + push_bit 8 (ucast a1)) }"

definition uint3korr :: "byte list \<Rightarrow> u32 option" where
  "uint3korr A = do {
     a0 \<leftarrow> rd A 0; a1 \<leftarrow> rd A 1; a2 \<leftarrow> rd A 2;
     Some (ucast a0 + push_bit 8 (ucast a1) + push_bit 16 (ucast a2)) }"

definition uint4korr :: "byte list \<Rightarrow> u32 option" where
  "uint4korr A = do {
     a0 \<leftarrow> rd A 0; a1 \<leftarrow> rd A 1; a2 \<leftarrow> rd A 2; a3 \<leftarrow> rd A 3;
     Some (ucast a0 + push_bit 8 (ucast a1) + push_bit 16 (ucast a2) + push_bit 24 (ucast a3)) }"

definition uint8korr :: "byte list \<Rightarrow> u64 option" where
  "uint8korr A = do {
     lo \<leftarrow> uint4korr A; hi \<leftarrow> uint4korr (drop 4 A);
     Some (ucast lo + push_bit 32 (ucast hi)) }"

named_theorems store_simps \<open>unfolding of the stores and loads on explicit buffers\<close>

lemmas [store_simps] = int2store_def int3store_def int4store_def int8store_def
  uint2korr_def uint3korr_def uint4korr_def uint8korr_def Let_def

lemma length_stores [simp]:
  "length (int2store a) = 2" "length (int3store b) = 3"
  "length (int4store a) = 4" "length (int8store b) = 8"
  by (simp_all add: store_simps)

text \<open>Joining disjoint byte fields: addition is the union of the bits.\<close>

lemma join2: "ucast (ucast a :: byte) + push_bit 8 (ucast (ucast (drop_bit 8 a) :: byte)) = a"
  for a :: u16
  by (subst disjunctive_add) (auto simp: bit_simps intro!: bit_word_eqI)

lemma join4:
  "ucast (ucast a :: byte) + push_bit 8 (ucast (ucast (drop_bit 8 a) :: byte))
     + push_bit 16 (ucast (ucast (drop_bit 16 a) :: byte))
     + push_bit 24 (ucast (ucast (drop_bit 24 a) :: byte)) = a"
  for a :: u32
  apply ((subst disjunctive_add, force simp: bit_simps)+)
  apply (rule bit_word_eqI)
  subgoal for n
    by (cases "n < 8"; cases "n < 16"; cases "n < 24") (auto simp: bit_simps)
  done


lemma join3:
  "ucast (ucast a :: byte) + push_bit 8 (ucast (ucast (drop_bit 8 a) :: byte))
     + push_bit 16 (ucast (ucast (drop_bit 16 a) :: byte)) = (ucast (take_bit 24 a) :: u32)"
  for a :: u64
  apply ((subst disjunctive_add, force simp: bit_simps)+)
  apply (rule bit_word_eqI)
  subgoal for n
    by (cases "n < 8"; cases "n < 16"; cases "n < 24") (auto simp: bit_simps)
  done

lemma join2_u32:
  "ucast (ucast a :: byte) + push_bit 8 (ucast (ucast (drop_bit 8 a) :: byte)) = (ucast a :: u16)"
  for a :: u32
  by (subst disjunctive_add) (auto simp: bit_simps intro!: bit_word_eqI)

lemma join8: "ucast (ucast a :: u32) + push_bit 32 (ucast (ucast (drop_bit 32 a) :: u32)) = a"
  for a :: u64
  by (subst disjunctive_add) (auto simp: bit_simps intro!: bit_word_eqI)

lemma uint2korr_int2store: "uint2korr (int2store a @ rest) = Some (ucast a)"
  by (simp add: store_simps join2_u32)

lemma uint3korr_int3store: "uint3korr (int3store a @ rest) = Some (ucast (take_bit 24 a))"
  by (simp add: store_simps join3)

lemma uint4korr_int4store: "uint4korr (int4store a @ rest) = Some a"
  by (simp add: store_simps join4)

lemma uint8korr_int8store: "uint8korr (int8store a @ rest) = Some a"
proof -
  have "drop 4 (int4store b @ ys) = ys" for b ys
    by (simp add: int4store_def)
  then show ?thesis
    by (simp add: int8store_def uint8korr_def Let_def uint4korr_int4store join8)
qed

lemma uint4korr_int8store: "uint4korr (int8store a @ rest) = Some (ucast a)"
  by (simp add: int8store_def Let_def uint4korr_int4store)

lemmas korr_store = uint2korr_int2store uint3korr_int3store uint4korr_int4store
  uint8korr_int8store uint4korr_int8store

section \<open>Length-coded integers (pack.c)\<close>

text \<open>\<^verbatim>\<open>ulong\<close> is 64 bits wide (LP64); \<^verbatim>\<open>NULL_LENGTH\<close> is \<^verbatim>\<open>((unsigned long) ~0)\<close>.\<close>

definition NULL_LENGTH :: u64 where
  "NULL_LENGTH = NOT 0"

text \<open>
  The result is the length and the advanced packet pointer; \<^const>\<open>None\<close> is a read past the end
  of the packet, which the C code does not check.
\<close>

definition net_field_length :: "byte list \<Rightarrow> (u64 \<times> byte list) option" where
  "net_field_length packet = do {
     pos \<leftarrow> rd packet 0;
     if pos < 251 then Some (ucast pos, drop 1 packet)
     else if pos = 251 then Some (NULL_LENGTH, drop 1 packet)
     else if pos = 252 then do { v \<leftarrow> uint2korr (drop 1 packet); Some (ucast v, drop 3 packet) }
     else if pos = 253 then do { v \<leftarrow> uint3korr (drop 1 packet); Some (ucast v, drop 4 packet) }
     else do { v \<leftarrow> uint4korr (drop 1 packet); Some (ucast v, drop 9 packet) } }"

definition net_field_length_ll :: "byte list \<Rightarrow> (u64 \<times> byte list) option" where
  "net_field_length_ll packet = do {
     pos \<leftarrow> rd packet 0;
     if pos < 251 then Some (ucast pos, drop 1 packet)
     else if pos = 251 then Some (NULL_LENGTH, drop 1 packet)
     else if pos = 252 then do { v \<leftarrow> uint2korr (drop 1 packet); Some (ucast v, drop 3 packet) }
     else if pos = 253 then do { v \<leftarrow> uint3korr (drop 1 packet); Some (ucast v, drop 4 packet) }
     else do { v \<leftarrow> uint8korr (drop 1 packet); Some (v, drop 9 packet) } }"

definition net_store_length :: "u64 \<Rightarrow> byte list" where
  "net_store_length len =
     (if len < 251 then [ucast len]
      else if len < 65536 then 252 # int2store (ucast len)
      else if len < 16777216 then 253 # int3store len
      else 254 # int8store len)"

lemma length_net_store_length:
  "length (net_store_length len) =
     (if len < 251 then 1 else if len < 65536 then 3 else if len < 16777216 then 4 else 9)"
  by (simp add: net_store_length_def)

lemma ucast_small_id:
  fixes x :: "'a::len word"
  assumes "LENGTH('b::len) \<le> LENGTH('a)" "unat x < 2 ^ LENGTH('b)"
  shows "ucast (ucast x :: 'b word) = x"
  using assms
  by (simp add: word_unat_eq_iff unsigned_ucast_eq unsigned_take_bit_eq take_bit_nat_eq_self)

text \<open>The truncations of \<^const>\<open>net_store_length\<close> lose nothing in their ranges.\<close>

lemma net_length_ranges:
  fixes x :: u64
  shows "x < 251 \<Longrightarrow> ucast (ucast x :: byte) = x"
    and "x < 251 \<Longrightarrow> (ucast x :: byte) < 251"
    and "x < 65536 \<Longrightarrow> ucast (ucast (ucast x :: u32) :: u16) = x"
    and "x < 16777216 \<Longrightarrow> ucast (ucast (take_bit 24 x) :: u32) = x"
  by (simp_all add: trunc_simps)

lemma net_field_length_ll_store:
  "net_field_length_ll (net_store_length x @ rest) = Some (x, rest)"
  using net_length_ranges [of x]
  by (cases "x < 251") (simp_all add: net_store_length_def net_field_length_ll_def korr_store)

text \<open>
  \<^const>\<open>net_field_length\<close> reads only four of the eight bytes of the longest form: it agrees
  with the stored length up to 32 bits.
\<close>

lemma net_field_length_store:
  "net_field_length (net_store_length x @ rest) =
     Some (if x < 16777216 then x else ucast (ucast x :: u32), rest)"
  using net_length_ranges [of x]
  by (cases "x < 251"; cases "x < 65536")
    (simp_all add: net_store_length_def net_field_length_def korr_store order.strict_trans2
      [of x 251 16777216] order.strict_trans2 [of x 65536 16777216])

lemma net_field_length_store_u32:
  "unat x < 4294967296 \<Longrightarrow> net_field_length (net_store_length x @ rest) = Some (x, rest)"
  by (simp add: net_field_length_store trunc_simps)

interpretation field_ll: prefix_codec net_store_length net_field_length_ll "\<lambda>_. True"
  by unfold_locales (rule net_field_length_ll_store)

interpretation field: prefix_codec net_store_length net_field_length "\<lambda>x. unat x < 4294967296"
  by unfold_locales (rule net_field_length_store_u32)

text \<open>No length is ever encoded with the marker byte of SQL NULL.\<close>

lemma net_store_length_not_null: "hd (net_store_length x) \<noteq> 251"
  by (auto simp: net_store_length_def trunc_simps)

section \<open>Properties\<close>

text \<open>
  \<^verbatim>\<open>net_field_length\<close> returns a stored length truncated to 32 bits: of the eight bytes of the
  longest form it reads four, although it skips nine bytes.
\<close>
theorem net_field_length_truncates:
  "net_field_length (net_store_length x @ rest) = Some (ucast (ucast x :: u32), rest)"
proof -
  have "x < 16777216 \<Longrightarrow> ucast (ucast x :: u32) = x" by (simp add: trunc_simps)
  then show ?thesis by (cases "x < 16777216") (simp_all add: net_field_length_store)
qed

text \<open>
  A packet of length-coded integers can be read in one way only: different sequences of
  numbers give different bytes.
\<close>
theorem net_lengths_unambiguous:
  assumes "concat (map net_store_length xs) = concat (map net_store_length ys)"
  shows "xs = ys"
proof (rule field_ll.concat_enc_unique [OF _ _ _ assms])
  show "net_store_length x \<noteq> []" for x
    using length_net_store_length [of x] by (auto split: if_splits)
qed (simp_all add: list_all_iff)

theorem net_lengths_unambiguous_witness:
  "concat (map net_store_length [250, 251, 65536]) \<noteq> concat (map net_store_length [250, 65536, 251])"
  using net_lengths_unambiguous [of "[250, 251, 65536]" "[250, 65536, 251]"] by auto

end
