(* ===== verification/Queue.thy ===== *)
theory Queue
  imports Prelude "HOL-Library.Multiset"
begin

text \<open>
  The priority queue of \<^verbatim>\<open>MySQL/queues.c\<close>: a binary heap of pointers in the slots
  \<open>1, \<dots>, elements\<close> of \<open>root\<close>, slot \<open>0\<close> serving as sentinel.  The heap goes down by moving
  a hole to the bottom and then up again, which saves comparisons.  A result
  \<^const>\<open>None\<close> is an access outside \<open>root\<close> or a loop that does not end.
\<close>

section \<open>State\<close>

text \<open>A pointer into an element is the element with the offset of its key.\<close>

record ('a, 'c) QUEUE =
  root :: "'a list"
  first_cmp_arg :: 'c
  q_elements :: nat
  max_elements :: nat
  offset_to_key :: nat
  max_at_top :: int
  compare :: "'c \<Rightarrow> 'a \<times> nat \<Rightarrow> 'a \<times> nat \<Rightarrow> int"
  auto_extent :: nat

text \<open>
  The comparison of all operations, swapped by \<^const>\<open>max_at_top\<close>.  The code computes the product in an \<^verbatim>\<open>int\<close>:
  a call-back that returned \<^verbatim>\<open>INT_MIN\<close> would overflow when it is negated, so that the results of a call-back of this
  model stand for values above \<^verbatim>\<open>INT_MIN\<close>, as those of \<^verbatim>\<open>compare_ulong\<close> (which returns -1, 0 or 1) are.
\<close>

definition q_cmp :: "('a, 'c) QUEUE \<Rightarrow> 'a \<Rightarrow> 'a \<Rightarrow> int" where
  "q_cmp q a b =
     compare q (first_cmp_arg q) (a, offset_to_key q) (b, offset_to_key q) * max_at_top q"

section \<open>Creation and size\<close>

text \<open>
  \<open>mem n\<close> is the memory for \<open>n\<close> pointers that the allocator hands out, if it does; the
  Boolean result is true for the error return.
\<close>

type_synonym 'a mem = "nat \<Rightarrow> 'a list option"

definition set_max_at_top :: "bool \<Rightarrow> int" where
  "set_max_at_top arg = (if arg then -1 else 1)"

definition init_queue ::
  "'a mem \<Rightarrow> ('a, 'c) QUEUE \<Rightarrow> nat \<Rightarrow> nat \<Rightarrow> bool
     \<Rightarrow> ('c \<Rightarrow> 'a \<times> nat \<Rightarrow> 'a \<times> nat \<Rightarrow> int) \<Rightarrow> 'c \<Rightarrow> ('a, 'c) QUEUE \<times> bool" where
  "init_queue mem q max_els offset maxtop cmp arg =
     (case mem (wrap32 (max_els + 1)) of
        None \<Rightarrow> (q, True)
      | Some r \<Rightarrow>
          (q\<lparr>root := r, q_elements := 0, compare := cmp, first_cmp_arg := arg,
             max_elements := max_els, offset_to_key := offset,
             max_at_top := set_max_at_top maxtop\<rparr>, False))"

definition init_queue_ex ::
  "'a mem \<Rightarrow> ('a, 'c) QUEUE \<Rightarrow> nat \<Rightarrow> nat \<Rightarrow> bool
     \<Rightarrow> ('c \<Rightarrow> 'a \<times> nat \<Rightarrow> 'a \<times> nat \<Rightarrow> int) \<Rightarrow> 'c \<Rightarrow> nat \<Rightarrow> ('a, 'c) QUEUE \<times> bool" where
  "init_queue_ex mem q max_els offset maxtop cmp arg auto_ext =
     (let (q', ret) = init_queue mem q max_els offset maxtop cmp arg
      in if ret then (q', ret) else (q'\<lparr>auto_extent := auto_ext\<rparr>, False))"

definition resize_queue :: "'a mem \<Rightarrow> ('a, 'c) QUEUE \<Rightarrow> nat \<Rightarrow> ('a, 'c) QUEUE \<times> bool" where
  "resize_queue mem q max_els =
     (if max_elements q = max_els then (q, False)
      else case mem (wrap32 (max_els + 1)) of
          None \<Rightarrow> (q, True)
        | Some r \<Rightarrow>
            (q\<lparr>q_elements := min (q_elements q) max_els, max_elements := max_els,
               root := take (length r) (root q) @ drop (length (root q)) r\<rparr>, False))"

text \<open>The error of the inner \<^verbatim>\<open>resize_queue\<close> is ignored, as in the source.\<close>

definition reinit_queue ::
  "'a mem \<Rightarrow> ('a, 'c) QUEUE \<Rightarrow> nat \<Rightarrow> nat \<Rightarrow> bool
     \<Rightarrow> ('c \<Rightarrow> 'a \<times> nat \<Rightarrow> 'a \<times> nat \<Rightarrow> int) \<Rightarrow> 'c \<Rightarrow> ('a, 'c) QUEUE" where
  "reinit_queue mem q max_els offset maxtop cmp arg =
     fst (resize_queue mem
       (q\<lparr>q_elements := 0, compare := cmp, first_cmp_arg := arg, offset_to_key := offset,
          max_at_top := set_max_at_top maxtop\<rparr>) max_els)"

section \<open>Insertion\<close>

text \<open>The loop that moves the hole up to the place of \<open>element\<close>; slot 0 holds \<open>element\<close>.\<close>

function insert_loop :: "('a \<Rightarrow> 'a \<Rightarrow> int) \<Rightarrow> 'a list \<Rightarrow> 'a \<Rightarrow> nat \<Rightarrow> 'a list option" where
  "insert_loop cmp r element idx =
     (let nxt = idx div 2
      in if length r \<le> idx then None
         else if cmp element (r ! nxt) < 0 then
           (if idx = 0 then None else insert_loop cmp (r[idx := r ! nxt]) element nxt)
         else Some (r[idx := element]))"
  by pat_completeness auto
termination
  by (relation "measure (\<lambda>(cmp, r, element, idx). idx)") auto

declare insert_loop.simps [simp del]

definition queue_insert :: "('a, 'c) QUEUE \<Rightarrow> 'a \<Rightarrow> ('a, 'c) QUEUE option" where
  "queue_insert q element =
     (if root q = [] then None
      else let idx = wrap32 (q_elements q + 1) in do {
        r \<leftarrow> insert_loop (q_cmp q) ((root q)[0 := element]) element idx;
        Some (q\<lparr>root := r, q_elements := idx\<rparr>) })"

definition queue_insert_safe ::
  "'a mem \<Rightarrow> ('a, 'c) QUEUE \<Rightarrow> 'a \<Rightarrow> (('a, 'c) QUEUE \<times> nat) option" where
  "queue_insert_safe mem q element =
     (if q_elements q = max_elements q then
        if auto_extent q = 0 then Some (q, 2)
        else let (q', err) = resize_queue mem q (wrap32 (max_elements q + auto_extent q))
             in if err then Some (q', 1)
                else do { q'' \<leftarrow> queue_insert q' element; Some (q'', 0) }
      else do { q' \<leftarrow> queue_insert q element; Some (q', 0) })"

section \<open>Moving down\<close>

text \<open>
  The first loop of \<^verbatim>\<open>_downheap\<close>.  \<open>Inl r\<close>: the function returned early with \<open>element\<close> in
  place; \<open>Inr (r, idx)\<close>: the hole reached the bottom at \<open>idx\<close>.
\<close>

function down_loop ::
  "('a \<Rightarrow> 'a \<Rightarrow> int) \<Rightarrow> nat \<Rightarrow> 'a \<Rightarrow> 'a list \<Rightarrow> nat \<Rightarrow> bool \<Rightarrow> ('a list + 'a list \<times> nat) option" where
  "down_loop cmp els element r idx first =
     (if els div 2 < idx then Some (Inr (r, idx))
      else if idx = 0 \<or> length r \<le> els then None
      else
        (let n0 = idx + idx;
             nxt = (if n0 < els \<and> cmp (r ! n0) (r ! (n0 + 1)) > 0 then n0 + 1 else n0)
         in if first \<and> cmp (r ! nxt) element \<ge> 0 then Some (Inl (r[idx := element]))
            else down_loop cmp els element (r[idx := r ! nxt]) nxt False))"
  by pat_completeness auto
termination
  by (relation "measure (\<lambda>(cmp, els, element, r, idx, first). els + 1 - idx)")
    (auto simp: Let_def split: if_splits)

text \<open>The second loop: back up, but not to \<open>start_idx\<close>.\<close>

function up_loop :: "('a \<Rightarrow> 'a \<Rightarrow> int) \<Rightarrow> 'a \<Rightarrow> nat \<Rightarrow> 'a list \<Rightarrow> nat \<Rightarrow> 'a list option" where
  "up_loop cmp element start_idx r idx =
     (let nxt = idx div 2
      in if length r \<le> idx then None
         else if nxt > start_idx \<and> \<not> cmp (r ! nxt) element < 0
           then up_loop cmp element start_idx (r[idx := r ! nxt]) nxt
         else Some (r[idx := element]))"
  by pat_completeness auto
termination
  by (relation "measure (\<lambda>(cmp, element, start_idx, r, idx). idx)") auto

declare down_loop.simps [simp del] up_loop.simps [simp del]

definition downheap :: "('a, 'c) QUEUE \<Rightarrow> nat \<Rightarrow> ('a, 'c) QUEUE option" where
  "downheap q idx = do {
     element \<leftarrow> rd (root q) idx;
     res \<leftarrow> down_loop (q_cmp q) (q_elements q) element (root q) idx True;
     case res of
       Inl r \<Rightarrow> Some (q\<lparr>root := r\<rparr>)
     | Inr (r, i) \<Rightarrow> do { r' \<leftarrow> up_loop (q_cmp q) element idx r i; Some (q\<lparr>root := r'\<rparr>) } }"

text \<open>The variant kept under \<^verbatim>\<open>OLD_VERSION\<close>.\<close>

function old_down_loop :: "('a \<Rightarrow> 'a \<Rightarrow> int) \<Rightarrow> nat \<Rightarrow> 'a \<Rightarrow> 'a list \<Rightarrow> nat \<Rightarrow> 'a list option" where
  "old_down_loop cmp els element r idx =
     (if els div 2 < idx then Some (r[idx := element])
      else if idx = 0 \<or> length r \<le> els then None
      else
        (let n0 = idx + idx;
             nxt = (if n0 < els \<and> cmp (r ! n0) (r ! (n0 + 1)) > 0 then n0 + 1 else n0)
         in if cmp (r ! nxt) element \<ge> 0 then Some (r[idx := element])
            else old_down_loop cmp els element (r[idx := r ! nxt]) nxt))"
  by pat_completeness auto
termination
  by (relation "measure (\<lambda>(cmp, els, element, r, idx). els + 1 - idx)")
    (auto simp: Let_def split: if_splits)

declare old_down_loop.simps [simp del]

definition old_downheap :: "('a, 'c) QUEUE \<Rightarrow> nat \<Rightarrow> ('a, 'c) QUEUE option" where
  "old_downheap q idx = do {
     element \<leftarrow> rd (root q) idx;
     r \<leftarrow> old_down_loop (q_cmp q) (q_elements q) element (root q) idx;
     Some (q\<lparr>root := r\<rparr>) }"

section \<open>Removal, replacement, repair\<close>

text \<open>The external index counts from 0.\<close>

definition queue_remove :: "('a, 'c) QUEUE \<Rightarrow> nat \<Rightarrow> (('a, 'c) QUEUE \<times> 'a) option" where
  "queue_remove q idx = do {
     let i = wrap32 (idx + 1);
     element \<leftarrow> rd (root q) i;
     x \<leftarrow> rd (root q) (q_elements q);
     if q_elements q = 0 then None
     else do {
       q' \<leftarrow> downheap (q\<lparr>root := (root q)[i := x], q_elements := q_elements q - 1\<rparr>) i;
       Some (q', element) } }"

definition queue_replaced :: "('a, 'c) QUEUE \<Rightarrow> ('a, 'c) QUEUE option" where
  "queue_replaced q = downheap q 1"

primrec fix_loop :: "('a, 'c) QUEUE \<Rightarrow> nat \<Rightarrow> ('a, 'c) QUEUE option" where
  "fix_loop q 0 = Some q"
| "fix_loop q (Suc i) = do { q' \<leftarrow> downheap q (Suc i); fix_loop q' i }"

definition queue_fix :: "('a, 'c) QUEUE \<Rightarrow> ('a, 'c) QUEUE option" where
  "queue_fix q = fix_loop q (q_elements q div 2)"

definition queue_top :: "('a, 'c) QUEUE \<Rightarrow> 'a option" where
  "queue_top q = rd (root q) 1"

definition delete_queue :: "('a, 'c) QUEUE \<Rightarrow> ('a, 'c) QUEUE" where
  "delete_queue q = q\<lparr>root := []\<rparr>"

section \<open>The heap order\<close>

text \<open>
  What the queue needs of its comparison: its sign is antisymmetric and the order it
  describes is transitive.  \<open>leq\<close> is that order.
\<close>

definition leq :: "('a \<Rightarrow> 'a \<Rightarrow> int) \<Rightarrow> 'a \<Rightarrow> 'a \<Rightarrow> bool" where
  "leq cmp a b \<longleftrightarrow> cmp a b \<le> 0"

definition good_cmp :: "('a \<Rightarrow> 'a \<Rightarrow> int) \<Rightarrow> bool" where
  "good_cmp cmp \<longleftrightarrow> (\<forall>a b. sgn (cmp b a) = - sgn (cmp a b))
     \<and> (\<forall>a b c. cmp a b \<le> 0 \<longrightarrow> cmp b c \<le> 0 \<longrightarrow> cmp a c \<le> 0)"

lemma sgn_flip:
  fixes x y :: int
  assumes "sgn y = - sgn x"
  shows "x < 0 \<longleftrightarrow> 0 < y" "0 \<le> x \<longleftrightarrow> y \<le> 0"
proof -
  show a: "x < 0 \<longleftrightarrow> 0 < y"
    unfolding sgn_1_neg [symmetric] sgn_1_pos [symmetric] using assms by (intro iffI) linarith+
  show "0 \<le> x \<longleftrightarrow> y \<le> 0"
    unfolding not_less [symmetric] using a by blast
qed

lemma good_cmp_flip:
  assumes "good_cmp cmp"
  shows "cmp a b < 0 \<longleftrightarrow> \<not> leq cmp b a" "0 < cmp a b \<longleftrightarrow> \<not> leq cmp a b"
    "0 \<le> cmp a b \<longleftrightarrow> leq cmp b a"
proof -
  have s: "sgn (cmp b a) = - sgn (cmp a b)" using assms unfolding good_cmp_def by blast
  show "cmp a b < 0 \<longleftrightarrow> \<not> leq cmp b a"
    unfolding leq_def not_le by (rule sgn_flip(1) [OF s])
  show "0 < cmp a b \<longleftrightarrow> \<not> leq cmp a b" unfolding leq_def not_le by (rule refl)
  show "0 \<le> cmp a b \<longleftrightarrow> leq cmp b a" unfolding leq_def by (rule sgn_flip(2) [OF s])
qed

lemma leq_trans: "good_cmp cmp \<Longrightarrow> leq cmp a b \<Longrightarrow> leq cmp b c \<Longrightarrow> leq cmp a c"
  unfolding good_cmp_def leq_def by blast

lemma leq_total: "good_cmp cmp \<Longrightarrow> leq cmp a b \<or> leq cmp b a"
  using good_cmp_flip(1) [of cmp a b] by (auto simp: leq_def)

lemma leq_refl: "good_cmp cmp \<Longrightarrow> leq cmp a a"
  using leq_total [of cmp a a] by blast

text \<open>
  \<open>heap_from cmp r n k\<close>: every slot up to \<open>n\<close> whose parent is at least \<open>k\<close> is not before its
  parent.  \<open>holed\<close> is the same with the slot \<open>h\<close> left out of account, except that what is
  above the hole is in order with what is below it.
\<close>

definition heap_from :: "('a \<Rightarrow> 'a \<Rightarrow> int) \<Rightarrow> 'a list \<Rightarrow> nat \<Rightarrow> nat \<Rightarrow> bool" where
  "heap_from cmp r n k \<longleftrightarrow>
     (\<forall>i. 2 \<le> i \<and> i \<le> n \<and> k \<le> i div 2 \<longrightarrow> leq cmp (r ! (i div 2)) (r ! i))"

lemma heap_from_code [code]:
  "heap_from cmp r n k \<longleftrightarrow>
     list_all (\<lambda>i. k \<le> i div 2 \<longrightarrow> leq cmp (r ! (i div 2)) (r ! i)) [2..<Suc n]"
  by (auto simp: heap_from_def list_all_iff)

definition holed :: "('a \<Rightarrow> 'a \<Rightarrow> int) \<Rightarrow> 'a list \<Rightarrow> nat \<Rightarrow> nat \<Rightarrow> nat \<Rightarrow> bool" where
  "holed cmp r n k h \<longleftrightarrow>
     (\<forall>i. 2 \<le> i \<and> i \<le> n \<and> k \<le> i div 2 \<and> i \<noteq> h \<and> i div 2 \<noteq> h \<longrightarrow> leq cmp (r ! (i div 2)) (r ! i))
     \<and> (\<forall>i. i \<le> n \<and> i div 2 = h \<and> k \<le> h div 2 \<longrightarrow> leq cmp (r ! (h div 2)) (r ! i))"

definition above_children :: "('a \<Rightarrow> 'a \<Rightarrow> int) \<Rightarrow> 'a list \<Rightarrow> nat \<Rightarrow> 'a \<Rightarrow> nat \<Rightarrow> bool" where
  "above_children cmp r n x h \<longleftrightarrow> (\<forall>i. i \<le> n \<and> i div 2 = h \<longrightarrow> leq cmp x (r ! i))"

lemma holedD:
  "holed cmp r n k h \<Longrightarrow> 2 \<le> i \<Longrightarrow> i \<le> n \<Longrightarrow> k \<le> i div 2 \<Longrightarrow> i \<noteq> h \<Longrightarrow> i div 2 \<noteq> h \<Longrightarrow>
     leq cmp (r ! (i div 2)) (r ! i)"
  "holed cmp r n k h \<Longrightarrow> i \<le> n \<Longrightarrow> i div 2 = h \<Longrightarrow> k \<le> h div 2 \<Longrightarrow> leq cmp (r ! (h div 2)) (r ! i)"
  unfolding holed_def by blast+

lemma heap_from_holed: "0 < h \<Longrightarrow> heap_from cmp r n (Suc h) \<Longrightarrow> holed cmp r n h h"
  unfolding heap_from_def holed_def by fastforce

text \<open>The hole moves down to the smaller child.\<close>

lemma hole_down:
  assumes g: "good_cmp cmp" and h: "holed cmp r n k h" and n: "n < length r"
    and c: "c \<le> n" "c div 2 = h" "0 < h" "k \<le> h"
    and small: "\<And>i. i \<le> n \<Longrightarrow> i div 2 = h \<Longrightarrow> leq cmp (r ! c) (r ! i)"
  shows "holed cmp (r[h := r ! c]) n k c"
proof -
  have hc: "h < c" using c by presburger
  have len: "h < length r" using hc c n by simp
  show ?thesis
    unfolding holed_def
  proof (intro conjI allI impI; elim conjE)
    fix i
    assume i: "2 \<le> i" "i \<le> n" "k \<le> i div 2" "i \<noteq> c" "i div 2 \<noteq> c"
    consider "i = h" | "i div 2 = h" | "i \<noteq> h" "i div 2 \<noteq> h" by blast
    then show "leq cmp (r[h := r ! c] ! (i div 2)) (r[h := r ! c] ! i)"
    proof cases
      case 1
      moreover have "h div 2 < h" using c by simp
      ultimately show ?thesis
        using holedD(2) [OF h c(1,2)] i len by simp
    next
      case 2
      then show ?thesis
        using small [OF i(2)] i hc len by (auto simp: nth_list_update)
    next
      case 3
      then show ?thesis using holedD(1) [OF h i(1-3)] by simp
    qed
  next
    fix i
    assume i: "i \<le> n" "i div 2 = c" "k \<le> c div 2"
    then have "2 \<le> i" "i \<noteq> h" "c \<noteq> h" using hc by auto
    moreover have "k \<le> i div 2" using i hc c by simp
    ultimately show "leq cmp (r[h := r ! c] ! (c div 2)) (r[h := r ! c] ! i)"
      using holedD(1) [OF h _ i(1)] i c len by simp
  qed
qed

text \<open>The hole moves up, and the element to be placed stays before what is below.\<close>

lemma hole_up:
  assumes g: "good_cmp cmp" and h: "holed cmp r n k h" and n: "h \<le> n" "n < length r"
    and p: "k \<le> h div 2" "0 < k"
    and x: "leq cmp x (r ! (h div 2))"
  shows "holed cmp (r[h := r ! (h div 2)]) n k (h div 2)"
    and "above_children cmp (r[h := r ! (h div 2)]) n x (h div 2)"
proof -
  let ?p = "h div 2"
  let ?r = "r[h := r ! ?p]"
  have p0: "0 < ?p" using p by linarith
  then have ph: "?p < h" by simp
  have len: "h < length r" using n by simp
  have sib: "leq cmp (r ! ?p) (?r ! i)" if "i \<le> n" "i div 2 = ?p" for i
  proof (cases "i = h")
    case True
    then show ?thesis using len leq_refl [OF g] by simp
  next
    case False
    have "2 \<le> i" using that p0 by (cases i) auto
    then show ?thesis
      using holedD(1) [OF h _ that(1)] that False p ph by simp
  qed
  show "above_children cmp ?r n x ?p"
    unfolding above_children_def using sib leq_trans [OF g x] by blast
  show "holed cmp ?r n k ?p"
    unfolding holed_def
  proof (intro conjI allI impI; elim conjE)
    fix i
    assume i: "2 \<le> i" "i \<le> n" "k \<le> i div 2" "i \<noteq> ?p" "i div 2 \<noteq> ?p"
    then have "i \<noteq> h" by blast
    show "leq cmp (?r ! (i div 2)) (?r ! i)"
    proof (cases "i div 2 = h")
      case True
      then show ?thesis using holedD(2) [OF h i(2) True p(1)] \<open>i \<noteq> h\<close> len by simp
    next
      case False
      then show ?thesis using holedD(1) [OF h i(1-3)] \<open>i \<noteq> h\<close> by simp
    qed
  next
    fix i
    assume i: "i \<le> n" "i div 2 = ?p" "k \<le> ?p div 2"
    have "?p div 2 < ?p" "2 \<le> ?p" using p0 p i by auto
    then have "leq cmp (r ! (?p div 2)) (r ! ?p)"
      using holedD(1) [OF h, of ?p] p ph n i by simp
    then show "leq cmp (?r ! (?p div 2)) (?r ! i)"
      using leq_trans [OF g _ sib [OF i(1,2)]] \<open>?p div 2 < ?p\<close> ph by simp
  qed
qed

text \<open>Filling the hole.\<close>

lemma fill_hole:
  assumes h: "holed cmp r n k h" "h < length r" "above_children cmp r n x h"
    and p: "2 \<le> h \<Longrightarrow> k \<le> h div 2 \<Longrightarrow> leq cmp (r ! (h div 2)) x" and "0 < h"
  shows "heap_from cmp (r[h := x]) n k"
  unfolding heap_from_def
proof (intro allI impI; elim conjE)
  fix i
  assume i: "2 \<le> i" "i \<le> n" "k \<le> i div 2"
  have "i div 2 < i" using i by simp
  consider "i = h" | "i \<noteq> h" "i div 2 = h" | "i \<noteq> h" "i div 2 \<noteq> h" by blast
  then show "leq cmp (r[h := x] ! (i div 2)) (r[h := x] ! i)"
  proof cases
    case 1
    then show ?thesis using p i \<open>i div 2 < i\<close> h(2) by simp
  next
    case 2
    then show ?thesis using h i by (simp add: above_children_def)
  next
    case 3
    then show ?thesis using holedD(1) [OF h(1) i] by simp
  qed
qed

section \<open>\<^verbatim>\<open>_downheap\<close> restores the heap\<close>

definition rearranged :: "nat \<Rightarrow> nat \<Rightarrow> 'a list \<Rightarrow> 'a list \<Rightarrow> bool" where
  "rearranged k n r r' \<longleftrightarrow> length r' = length r \<and> mset r' = mset r
     \<and> (\<forall>i. i < k \<or> n < i \<longrightarrow> r' ! i = r ! i)"

lemma rearranged_refl: "rearranged k n r r"
  by (simp add: rearranged_def)

lemma rearranged_trans:
  "rearranged k n r r' \<Longrightarrow> rearranged k n r' r'' \<Longrightarrow> rearranged k n r r''"
  by (simp add: rearranged_def)

lemma rearranged_length: "rearranged k n r r' \<Longrightarrow> length r' = length r"
  by (simp add: rearranged_def)

lemma rearranged_weaken: "rearranged k n r r' \<Longrightarrow> k' \<le> k \<Longrightarrow> rearranged k' n r r'"
  by (simp add: rearranged_def)

text \<open>Moving the hole from \<open>h\<close> to \<open>c\<close> is a swap of the two slots once the hole is filled.\<close>

lemma rearranged_hole:
  assumes "h < length r" "c < length r" "k \<le> h" "k \<le> c" "h \<le> n" "c \<le> n" "h \<noteq> c"
  shows "rearranged k n (r[h := x]) ((r[h := r ! c])[c := x])"
proof -
  have "(r[h := r ! c])[c := x] = (r[h := x])[h := r[h := x] ! c, c := r[h := x] ! h]"
    using assms by simp

  then show ?thesis
    using assms mset_swap [of c "r[h := x]" h]
    by (simp add: rearranged_def list_update_swap [of c h])
qed

lemma smaller_child:
  assumes g: "good_cmp cmp" and i: "idx \<le> els div 2" "0 < idx"
    and c: "c = (if idx + idx < els \<and> cmp (r ! (idx + idx)) (r ! (idx + idx + 1)) > 0
       then idx + idx + 1 else idx + idx)"
  shows "c \<le> els" "c div 2 = idx" "idx < c"
    "\<And>i. i \<le> els \<Longrightarrow> i div 2 = idx \<Longrightarrow> leq cmp (r ! c) (r ! i)"
proof -
  show "c \<le> els" "c div 2 = idx" "idx < c" using c i by (auto split: if_splits)
  fix j
  assume j: "j \<le> els" "j div 2 = idx"
  then have "j = idx + idx \<or> j = idx + idx + 1" by linarith
  then show "leq cmp (r ! c) (r ! j)"
    using c j leq_refl [OF g] leq_total [OF g, of "r ! j" "r ! c"] good_cmp_flip(2) [OF g]
    by (auto split: if_splits)
qed

lemma down_loop_heap:
  "good_cmp cmp \<Longrightarrow> els < length r \<Longrightarrow> idx < length r \<Longrightarrow> 0 < k \<Longrightarrow> k \<le> idx \<Longrightarrow> holed cmp r els k idx
    \<Longrightarrow> (if first then idx = k else k < idx \<and> idx \<le> els \<and> leq cmp (r ! k) x)
    \<Longrightarrow> (\<exists>r'. down_loop cmp els x r idx first = Some (Inl r') \<and> heap_from cmp r' els k
           \<and> rearranged k els (r[idx := x]) r')
      \<or> (\<exists>r' i. down_loop cmp els x r idx first = Some (Inr (r', i)) \<and> i < length r'
           \<and> holed cmp r' els k i \<and> els div 2 < i
           \<and> (i = k \<or> k < i \<and> i \<le> els \<and> leq cmp (r' ! k) x)
           \<and> rearranged k els (r[idx := x]) (r'[i := x]))"
proof (induction cmp els x r idx first rule: down_loop.induct)
  case (1 cmp els x r idx first)
  show ?case
  proof (cases "els div 2 < idx")
    case True
    then show ?thesis
      using "1.prems" by (subst (1 2) down_loop.simps) (auto simp: rearranged_refl split: if_splits)
  next
    case False
    define c where "c = (if idx + idx < els \<and> cmp (r ! (idx + idx)) (r ! (idx + idx + 1)) > 0
       then idx + idx + 1 else idx + idx)"
    note cdef = c_def
    have i0: "0 < idx" using "1.prems" by simp
    have le: "idx \<le> els div 2" using False by simp
    note c = smaller_child [OF "1.prems"(1) le i0 cdef]
    have step: "down_loop cmp els x r idx first =
      (if first \<and> cmp (r ! c) x \<ge> 0 then Some (Inl (r[idx := x]))
       else down_loop cmp els x (r[idx := r ! c]) c False)"
    proof -
      have e: "\<not> (idx = 0 \<or> length r \<le> els)" using i0 "1.prems"(2) by simp
      show ?thesis
        by (subst down_loop.simps) (simp only: Let_def c_def [symmetric] False e if_False)
    qed
    have cl: "c < length r" using c(1) "1.prems" by simp
    show ?thesis
    proof (cases "first \<and> cmp (r ! c) x \<ge> 0")
      case True
      then have "leq cmp x (r ! c)" using good_cmp_flip(3) [OF "1.prems"(1)] by blast
      then have ab: "above_children cmp r els x idx"
        unfolding above_children_def using c(4) leq_trans [OF "1.prems"(1)] by blast
      have "heap_from cmp (r[idx := x]) els k"
        by (rule fill_hole [OF "1.prems"(6) "1.prems"(3) ab]) (use True "1.prems" in auto)
      then show ?thesis using step True by (simp add: rearranged_refl)
    next
      case again: False
      let ?r = "r[idx := r ! c]"
      have h: "holed cmp ?r els k c"
        by (rule hole_down [OF "1.prems"(1,6,2) c(1,2) i0 "1.prems"(5) c(4)])
      have kc: "k < c" using c(3) "1.prems" by simp
      have kx: "leq cmp (?r ! k) x"
      proof (cases first)
        case True
        then have "k = idx" "\<not> leq cmp x (r ! c)"
          using again "1.prems" good_cmp_flip(3) [OF "1.prems"(1)] by auto
        then show ?thesis using leq_total [OF "1.prems"(1)] "1.prems"(3) by auto
      qed (use "1.prems" in auto)
      have IH: "(\<exists>r'. down_loop cmp els x ?r c False = Some (Inl r') \<and> heap_from cmp r' els k
           \<and> rearranged k els (?r[c := x]) r')
        \<or> (\<exists>r' i. down_loop cmp els x ?r c False = Some (Inr (r', i)) \<and> i < length r'
           \<and> holed cmp r' els k i \<and> els div 2 < i
           \<and> (i = k \<or> k < i \<and> i \<le> els \<and> leq cmp (r' ! k) x)
           \<and> rearranged k els (?r[c := x]) (r'[i := x]))"
        using "1.IH" [OF False _ refl c_def] again h kc kx c(1) cl "1.prems" by simp
      have R: "rearranged k els (r[idx := x]) (?r[c := x])"
        by (rule rearranged_hole) (use c(1,3) cl "1.prems" in auto)
      have eq: "down_loop cmp els x r idx first = down_loop cmp els x ?r c False"
        unfolding step using again by (rule if_not_P)
      show ?thesis unfolding eq using IH rearranged_trans [OF R] by blast
    qed
  qed
qed

lemma up_loop_heap:
  "good_cmp cmp \<Longrightarrow> els < length r \<Longrightarrow> idx \<le> els \<Longrightarrow> 0 < k \<Longrightarrow> k < idx
    \<Longrightarrow> holed cmp r els k idx \<Longrightarrow> above_children cmp r els x idx \<Longrightarrow> leq cmp (r ! k) x
    \<Longrightarrow> \<exists>r'. up_loop cmp x k r idx = Some r' \<and> heap_from cmp r' els k
           \<and> rearranged k els (r[idx := x]) r'"
proof (induction cmp x k r idx rule: up_loop.induct)
  case (1 cmp x k r idx)
  let ?p = "idx div 2"
  have len: "\<not> length r \<le> idx" using "1.prems" by simp
  show ?case
  proof (cases "?p > k \<and> \<not> cmp (r ! ?p) x < 0")
    case True
    then have xp: "leq cmp x (r ! ?p)" using good_cmp_flip(3) [OF "1.prems"(1)] by (simp add: not_less)
    let ?r = "r[idx := r ! ?p]"
    have step: "up_loop cmp x k r idx = up_loop cmp x k ?r ?p"
      using True len by (subst up_loop.simps) (simp add: Let_def)
    have kp: "k \<le> ?p" using True by simp
    note h = hole_up [OF "1.prems"(1,6,3,2) kp "1.prems"(4) xp]
    have "rearranged k els (r[idx := x]) (?r[?p := x])"
      by (rule rearranged_hole) (use True "1.prems" in auto)
    moreover have "\<exists>r'. up_loop cmp x k ?r ?p = Some r' \<and> heap_from cmp r' els k
           \<and> rearranged k els (?r[?p := x]) r'"
      using "1.IH" [OF refl len True "1.prems"(1) _ _ "1.prems"(4) _ h] True "1.prems" by simp
    ultimately show ?thesis using step rearranged_trans by metis
  next
    case False
    then have step: "up_loop cmp x k r idx = Some (r[idx := x])"
      using len by (subst up_loop.simps) (simp only: Let_def if_False)
    have "leq cmp (r ! ?p) x" if "k \<le> ?p"
      using False that "1.prems" good_cmp_flip(1) [OF "1.prems"(1)] leq_total [OF "1.prems"(1)]
      by (cases "?p = k") auto
    then have "heap_from cmp (r[idx := x]) els k"
      using fill_hole [OF "1.prems"(6) _ "1.prems"(7)] "1.prems" by simp
    then show ?thesis using step rearranged_refl by blast
  qed
qed

lemma no_children: "els div 2 < i \<Longrightarrow> above_children cmp r els x i"
  unfolding above_children_def by (meson div_le_mono leD)

text \<open>
  \<^verbatim>\<open>_downheap (idx)\<close> makes a heap of the slots from \<open>idx\<close> on, when all below \<open>idx\<close> is one.
\<close>

lemma downheap_heap:
  assumes g: "good_cmp (q_cmp q)" and n: "q_elements q < length (root q)"
    and i: "0 < idx" "idx < length (root q)"
    and h: "heap_from (q_cmp q) (root q) (q_elements q) (Suc idx)"
  obtains r where "downheap q idx = Some (q\<lparr>root := r\<rparr>)"
    "heap_from (q_cmp q) r (q_elements q) idx"
    "rearranged idx (q_elements q) (root q) r"
proof -
  let ?x = "root q ! idx"
  have same: "(root q)[idx := ?x] = root q" by simp
  have x: "rd (root q) idx = Some ?x" using i by (simp add: rd_def)
  have "idx = idx" by simp
  note D = down_loop_heap [where first = True and x = ?x,
      OF g n i(2,1) order_refl heap_from_holed [OF i(1) h], simplified, unfolded same]
  show thesis
    using D
  proof (elim disjE exE conjE)
    fix r'
    assume "down_loop (q_cmp q) (q_elements q) ?x (root q) idx True = Some (Inl r')"
      "heap_from (q_cmp q) r' (q_elements q) idx" "rearranged idx (q_elements q) (root q) r'"
    then show thesis using that [of r'] x by (simp add: downheap_def)
  next
    fix r' j
    assume d: "down_loop (q_cmp q) (q_elements q) ?x (root q) idx True = Some (Inr (r', j))"
      and j: "j < length r'" "holed (q_cmp q) r' (q_elements q) idx j" "q_elements q div 2 < j"
      and eq: "j = idx" and R: "rearranged idx (q_elements q) (root q) (r'[j := ?x])"
    have "\<not> idx < idx div 2" by simp
    then have "up_loop (q_cmp q) ?x idx r' j = Some (r'[j := ?x])"
      using eq j i by (subst up_loop.simps) (simp add: Let_def)
    moreover have "heap_from (q_cmp q) (r'[j := ?x]) (q_elements q) idx"
      using fill_hole [OF j(2,1) no_children [OF j(3)]] eq i by simp
    ultimately show thesis using that R d x by (simp add: downheap_def)
  next
    fix r' j
    assume d: "down_loop (q_cmp q) (q_elements q) ?x (root q) idx True = Some (Inr (r', j))"
      and j: "j < length r'" "holed (q_cmp q) r' (q_elements q) idx j" "q_elements q div 2 < j"
      and k: "idx < j" "j \<le> q_elements q" "leq (q_cmp q) (r' ! idx) ?x"
      and R: "rearranged idx (q_elements q) (root q) (r'[j := ?x])"
    have "q_elements q < length r'" using rearranged_length [OF R] n by simp
    from up_loop_heap [OF g this k(2) i(1) k(1) j(2) no_children [OF j(3)] k(3)]
    obtain r where "up_loop (q_cmp q) ?x idx r' j = Some r"
      "heap_from (q_cmp q) r (q_elements q) idx" "rearranged idx (q_elements q) (r'[j := ?x]) r"
      by blast
    then show thesis using that rearranged_trans [OF R] d x by (simp add: downheap_def)
  qed
qed

section \<open>The contract of the queue\<close>

definition queue_heap :: "('a, 'c) QUEUE \<Rightarrow> bool" where
  "queue_heap q \<longleftrightarrow> heap_from (q_cmp q) (root q) (q_elements q) 1"

definition queue_ok :: "('a, 'c) QUEUE \<Rightarrow> bool" where
  "queue_ok q \<longleftrightarrow> good_cmp (q_cmp q) \<and> length (root q) = max_elements q + 1
     \<and> q_elements q \<le> max_elements q \<and> max_elements q + 1 < 2 ^ 32"

definition queue_wf :: "('a, 'c) QUEUE \<Rightarrow> bool" where
  "queue_wf q \<longleftrightarrow> queue_ok q \<and> queue_heap q"

definition items :: "('a, 'c) QUEUE \<Rightarrow> 'a multiset" where
  "items q = mset (take (q_elements q) (tl (root q)))"

lemma queue_okD:
  "queue_ok q \<Longrightarrow> good_cmp (q_cmp q)" "queue_ok q \<Longrightarrow> q_elements q < length (root q)"
  "queue_ok q \<Longrightarrow> root q \<noteq> []"
  by (auto simp: queue_ok_def)

lemma q_cmp_update [simp]:
  "q_cmp (q\<lparr>root := r\<rparr>) = q_cmp q" "q_cmp (q\<lparr>q_elements := n\<rparr>) = q_cmp q"
  "q_cmp (q\<lparr>max_elements := m\<rparr>) = q_cmp q" "q_cmp (q\<lparr>auto_extent := m\<rparr>) = q_cmp q"
  by (auto simp: q_cmp_def fun_eq_iff)

text \<open>A rearrangement of the slots from 1 on keeps the elements.\<close>

lemma rearranged_items:
  assumes r: "rearranged 1 n r r'" and n: "n < length r"
  shows "mset (take n (tl r')) = mset (take n (tl r))"
proof -
  have split: "mset xs = mset (take 1 xs) + mset (take n (tl xs)) + mset (drop (Suc n) xs)"
    for xs :: "'a list"
    by (cases xs) (simp_all add: mset_append [symmetric] del: mset_append)
  have "take 1 r' = take 1 r" "drop (Suc n) r' = drop (Suc n) r"
    using r n by (auto simp: rearranged_def intro!: nth_equalityI)
  then show ?thesis
    using r split [of r] split [of r'] by (simp add: rearranged_def)
qed

lemma heap_min:
  assumes g: "good_cmp cmp" and h: "heap_from cmp r n 1"
  shows "1 \<le> i \<Longrightarrow> i \<le> n \<Longrightarrow> leq cmp (r ! 1) (r ! i)"
proof (induction i rule: less_induct)
  case (less i)
  show ?case
  proof (cases "i = 1")
    case True
    then show ?thesis using leq_refl [OF g] by simp
  next
    case False
    then have "leq cmp (r ! 1) (r ! (i div 2))" "leq cmp (r ! (i div 2)) (r ! i)"
      using less h by (auto simp: heap_from_def)
    then show ?thesis using leq_trans [OF g] by blast
  qed
qed

lemma items_nth:
  "y \<in># items q \<longleftrightarrow> (\<exists>i. 1 \<le> i \<and> i \<le> q_elements q \<and> i < length (root q) \<and> y = root q ! i)"
  (is "_ = ?R")
proof
  assume "y \<in># items q"
  then obtain j where "j < length (take (q_elements q) (tl (root q)))"
    "y = take (q_elements q) (tl (root q)) ! j"
    unfolding items_def set_mset_mset by (auto simp: in_set_conv_nth)
  then show ?R by (intro exI [of _ "Suc j"]) (auto simp: nth_tl)
next
  assume ?R
  then obtain i where "1 \<le> i" "i \<le> q_elements q" "i < length (root q)" "y = root q ! i" by blast
  then show "y \<in># items q"
    unfolding items_def set_mset_mset in_set_conv_nth
    by (intro exI [of _ "i - 1"]) (auto simp: nth_tl)
qed

text \<open>The top is a least element.\<close>

lemma queue_top_least:
  assumes "queue_wf q" "y \<in># items q"
  shows "\<exists>t. queue_top q = Some t \<and> leq (q_cmp q) t y"
  using assms heap_min [of "q_cmp q" "root q" "q_elements q"]
  by (auto simp: queue_wf_def queue_ok_def queue_heap_def items_nth queue_top_def rd_def)

subsection \<open>Repair and replacement\<close>

lemma downheap_ok:
  assumes ok: "queue_ok q" and i: "0 < idx" "idx \<le> q_elements q"
    and h: "heap_from (q_cmp q) (root q) (q_elements q) (Suc idx)"
  shows "\<exists>q'. downheap q idx = Some q' \<and> queue_ok q'
    \<and> heap_from (q_cmp q') (root q') (q_elements q') idx \<and> items q' = items q
    \<and> q_cmp q' = q_cmp q \<and> q_elements q' = q_elements q \<and> max_elements q' = max_elements q"
proof -
  have "idx < length (root q)" using i ok by (simp add: queue_ok_def)
  from downheap_heap [OF queue_okD(1,2) [OF ok] i(1) this h]
  obtain r where r: "downheap q idx = Some (q\<lparr>root := r\<rparr>)"
    "heap_from (q_cmp q) r (q_elements q) idx" "rearranged idx (q_elements q) (root q) r" .
  have "rearranged 1 (q_elements q) (root q) r"
    by (rule rearranged_weaken [OF r(3)]) (use i in simp)
  from rearranged_items [OF this queue_okD(2) [OF ok]]
  show ?thesis
    using r(1,2) rearranged_length [OF r(3)] ok
    by (auto simp: queue_ok_def items_def)
qed

lemma fix_loop_ok:
  "queue_ok q \<Longrightarrow> k \<le> q_elements q \<Longrightarrow> heap_from (q_cmp q) (root q) (q_elements q) (Suc k)
    \<Longrightarrow> \<exists>q'. fix_loop q k = Some q' \<and> queue_wf q' \<and> items q' = items q \<and> q_cmp q' = q_cmp q"
proof (induction k arbitrary: q)
  case 0
  then show ?case by (simp add: queue_wf_def queue_heap_def)
next
  case (Suc k)
  obtain q' where q': "downheap q (Suc k) = Some q'" "queue_ok q'"
    "heap_from (q_cmp q') (root q') (q_elements q') (Suc k)" "items q' = items q"
    "q_cmp q' = q_cmp q" "q_elements q' = q_elements q" "max_elements q' = max_elements q"
    using downheap_ok [OF Suc.prems(1) zero_less_Suc Suc.prems(2,3)] by blast
  then show ?case using Suc.IH [of q'] Suc.prems(2) by simp
qed

lemma queue_fix_wf:
  assumes "queue_ok q"
  shows "\<exists>q'. queue_fix q = Some q' \<and> queue_wf q' \<and> items q' = items q \<and> q_cmp q' = q_cmp q"
  unfolding queue_fix_def
  by (rule fix_loop_ok [OF assms]) (auto simp: heap_from_def)

subsection \<open>Insertion\<close>

lemma insert_loop_heap:
  "good_cmp cmp \<Longrightarrow> n < length r \<Longrightarrow> 1 \<le> idx \<Longrightarrow> idx \<le> n \<Longrightarrow> r ! 0 = x
    \<Longrightarrow> holed cmp r n 1 idx \<Longrightarrow> above_children cmp r n x idx
    \<Longrightarrow> \<exists>r'. insert_loop cmp r x idx = Some r' \<and> heap_from cmp r' n 1
           \<and> rearranged 1 n (r[idx := x]) r'"
proof (induction cmp r x idx rule: insert_loop.induct)
  case (1 cmp r x idx)
  let ?p = "idx div 2"
  have len: "\<not> length r \<le> idx" "idx \<noteq> 0" using "1.prems" by simp_all
  show ?case
  proof (cases "cmp x (r ! ?p) < 0")
    case True
    then have xp: "leq cmp x (r ! ?p)" by (simp add: leq_def)
    have "\<not> cmp x x < 0"
      using good_cmp_flip(1) [OF "1.prems"(1)] leq_refl [OF "1.prems"(1)] by blast
    then have "?p \<noteq> 0" using True "1.prems"(5) by metis
    then have p: "1 \<le> ?p" by linarith
    let ?r = "r[idx := r ! ?p]"
    have step: "insert_loop cmp r x idx = insert_loop cmp ?r x ?p"
      using True len by (subst insert_loop.simps) (simp add: Let_def)
    note h = hole_up [OF "1.prems"(1,6,4,2) p _ xp, simplified]
    have R: "rearranged 1 n (r[idx := x]) (?r[?p := x])"
      by (rule rearranged_hole) (use p "1.prems" in auto)
    have "\<exists>r'. insert_loop cmp ?r x ?p = Some r' \<and> heap_from cmp r' n 1
           \<and> rearranged 1 n (?r[?p := x]) r'"
      using "1.IH" [OF refl len(1) True len(2) "1.prems"(1)] h p "1.prems" by simp
    then show ?thesis unfolding step using rearranged_trans [OF R] by blast
  next
    case False
    then have step: "insert_loop cmp r x idx = Some (r[idx := x])"
      using len by (subst insert_loop.simps) (simp add: Let_def)
    have "leq cmp (r ! ?p) x" using False good_cmp_flip(1) [OF "1.prems"(1)] by blast
    then have "heap_from cmp (r[idx := x]) n 1"
      using fill_hole [OF "1.prems"(6) _ "1.prems"(7)] "1.prems" by simp
    then show ?thesis using step rearranged_refl by blast
  qed
qed

lemma queue_insert_wf:
  assumes wf: "queue_wf q" and room: "q_elements q < max_elements q"
  shows "\<exists>q'. queue_insert q x = Some q' \<and> queue_wf q' \<and> items q' = add_mset x (items q)
    \<and> q_cmp q' = q_cmp q \<and> q_elements q' = q_elements q + 1 \<and> max_elements q' = max_elements q
    \<and> auto_extent q' = auto_extent q"
proof -
  let ?n = "q_elements q + 1"
  let ?r = "(root q)[0 := x]"
  have ok: "queue_ok q" and h: "heap_from (q_cmp q) (root q) (q_elements q) 1"
    using wf by (auto simp: queue_wf_def queue_heap_def)
  have len: "?n < length ?r" "wrap32 ?n = ?n" "0 < length (root q)"
    using ok room by (auto simp: queue_ok_def wrap32_def)
  have "holed (q_cmp q) ?r ?n 1 ?n"
    using h unfolding holed_def heap_from_def by (auto simp: nth_list_update)
  moreover have "above_children (q_cmp q) ?r ?n x ?n"
    unfolding above_children_def by auto
  ultimately obtain r where r: "insert_loop (q_cmp q) ?r x ?n = Some r"
    "heap_from (q_cmp q) r ?n 1" "rearranged 1 ?n (?r[?n := x]) r"
    using insert_loop_heap [OF queue_okD(1) [OF ok] len(1), of ?n x] len(3) by auto
  have "take ?n (tl (?r[?n := x])) = take (q_elements q) (tl (root q)) @ [x]"
    using len by (cases "root q") (auto simp: take_Suc_conv_app_nth)
  then have "mset (take ?n (tl r)) = add_mset x (items q)"
    using rearranged_items [OF r(3)] len by (simp add: items_def)
  then show ?thesis
    using r len rearranged_length [OF r(3)] room ok
    by (auto simp: queue_insert_def Let_def queue_wf_def queue_ok_def queue_heap_def items_def)
qed

subsection \<open>Removal\<close>

lemma items_split:
  "q_elements q < length (root q) \<Longrightarrow> 0 < q_elements q \<Longrightarrow>
     items q = add_mset (root q ! q_elements q) (mset (take (q_elements q - 1) (tl (root q))))"
  unfolding items_def
  by (cases "root q"; cases "q_elements q") (auto simp: take_Suc_conv_app_nth)

lemma mset_take_update:
  "k < n \<Longrightarrow> n \<le> length xs \<Longrightarrow>
     add_mset (xs ! k) (mset (take n (xs[k := y]))) = add_mset y (mset (take n xs))"
proof -
  assume k: "k < n" "n \<le> length xs"
  then have "xs ! k \<in> set (take n xs)" using nth_mem [of k "take n xs"] by simp
  then show ?thesis using k by (simp add: take_update_swap mset_update)
qed

lemma queue_remove_top:
  assumes wf: "queue_wf q" and n: "0 < q_elements q"
  shows "\<exists>q'. queue_remove q 0 = Some (q', root q ! 1) \<and> queue_wf q'
    \<and> items q = add_mset (root q ! 1) (items q') \<and> q_cmp q' = q_cmp q
    \<and> q_elements q' = q_elements q - 1 \<and> max_elements q' = max_elements q"
proof -
  let ?n = "q_elements q"
  let ?x = "root q ! ?n"
  let ?q = "q\<lparr>root := (root q)[1 := ?x], q_elements := ?n - 1\<rparr>"
  have ok: "queue_ok q" and h: "heap_from (q_cmp q) (root q) ?n 1"
    using wf by (auto simp: queue_wf_def queue_heap_def)
  have len: "?n < length (root q)" "1 < length (root q)" using ok n by (auto simp: queue_ok_def)
  have ok': "queue_ok ?q" using ok by (auto simp: queue_ok_def)
  have "heap_from (q_cmp ?q) (root ?q) (q_elements ?q) (Suc 1)"
    using h unfolding heap_from_def by auto
  from downheap_heap [OF queue_okD(1,2) [OF ok'] _ _ this]
  obtain r where r: "downheap ?q 1 = Some (?q\<lparr>root := r\<rparr>)"
    "heap_from (q_cmp ?q) r (?n - 1) 1" "rearranged 1 (?n - 1) (root ?q) r"
    using len by auto
  have e: "mset (take (?n - 1) (tl r)) = mset (take (?n - 1) (tl (root ?q)))"
    using rearranged_items [OF r(3)] len by simp
  have "add_mset (root q ! 1) (mset (take (?n - 1) (tl (root ?q)))) = items q"
  proof (cases "?n = 1")
    case True
    then show ?thesis using items_split [OF len(1) n] by simp
  next
    case False
    have "tl (root ?q) = (tl (root q))[0 := ?x]" by (cases "root q") auto
    moreover have "tl (root q) ! 0 = root q ! 1" using len by (simp add: nth_tl)
    ultimately show ?thesis
      using mset_take_update [of 0 "?n - 1" "tl (root q)" ?x] False n len items_split [OF len(1) n]
      by simp
  qed
  then show ?thesis
    using e r ok' rearranged_length [OF r(3)] len n
    by (auto simp: queue_remove_def wrap32_def rd_def Let_def queue_wf_def queue_heap_def items_def
        queue_ok_def)
qed

text \<open>After the top has been overwritten in place.\<close>

lemma queue_replaced_wf:
  assumes wf: "queue_wf q" and n: "0 < q_elements q"
  shows "\<exists>q'. queue_replaced (q\<lparr>root := (root q)[1 := x]\<rparr>) = Some q' \<and> queue_wf q'
    \<and> add_mset (root q ! 1) (items q') = add_mset x (items q)"
proof -
  let ?q = "q\<lparr>root := (root q)[1 := x]\<rparr>"
  have ok: "queue_ok q" and h: "heap_from (q_cmp q) (root q) (q_elements q) 1"
    using wf by (auto simp: queue_wf_def queue_heap_def)
  have len: "q_elements q < length (root q)" "1 < length (root q)" using ok n by (auto simp: queue_ok_def)
  have ok': "queue_ok ?q" using ok by (auto simp: queue_ok_def)
  have "heap_from (q_cmp ?q) (root ?q) (q_elements ?q) (Suc 1)"
    using h unfolding heap_from_def by auto
  moreover have "1 \<le> q_elements ?q" using n by simp
  ultimately
  obtain q' where q': "downheap ?q 1 = Some q'" "queue_ok q'"
    "heap_from (q_cmp q') (root q') (q_elements q') 1" "items q' = items ?q"
    using downheap_ok [OF ok' zero_less_one] by blast
  have "tl (root ?q) = (tl (root q))[0 := x]" by (cases "root q") auto
  moreover have "tl (root q) ! 0 = root q ! 1" using len by (simp add: nth_tl)
  ultimately have "add_mset (root q ! 1) (items ?q) = add_mset x (items q)"
    using mset_take_update [of 0 "q_elements q" "tl (root q)" x] n len by (simp add: items_def)
  then have "add_mset (root q ! 1) (items q') = add_mset x (items q)" unfolding q'(4) .
  moreover have "queue_wf q'" using q'(2,3) by (simp add: queue_wf_def queue_heap_def)
  ultimately show ?thesis using q'(1) unfolding queue_replaced_def by blast
qed

subsection \<open>Resizing\<close>

definition good_mem :: "'a mem \<Rightarrow> bool" where
  "good_mem mem \<longleftrightarrow> (\<forall>n r. mem n = Some r \<longrightarrow> length r = n)"

lemma resize_queue_wf:
  assumes wf: "queue_wf q" and m: "good_mem mem" and n: "n + 1 < 2 ^ 32"
    and r: "resize_queue mem q n = (q', err)"
  shows "queue_wf q'" "err \<Longrightarrow> q' = q" "\<not> err \<Longrightarrow> max_elements q' = n"
    "\<not> err \<Longrightarrow> q_elements q' = min (q_elements q) n" "q_cmp q' = q_cmp q"
    "q_elements q \<le> n \<Longrightarrow> items q' = items q" "auto_extent q' = auto_extent q"
proof -
  have ok: "queue_ok q" and h: "heap_from (q_cmp q) (root q) (q_elements q) 1"
    using wf by (auto simp: queue_wf_def queue_heap_def)
  have w: "wrap32 (n + 1) = n + 1" "wrap32 (Suc n) = Suc n" using n by (simp_all add: wrap32_def)
  have "queue_wf q' \<and> (err \<longrightarrow> q' = q) \<and> (\<not> err \<longrightarrow> max_elements q' = n \<and>
    q_elements q' = min (q_elements q) n) \<and> q_cmp q' = q_cmp q \<and>
    (q_elements q \<le> n \<longrightarrow> items q' = items q) \<and> auto_extent q' = auto_extent q"
  proof (cases "max_elements q = n \<or> mem (n + 1) = None")
    case True
    then show ?thesis using r wf ok
      by (auto simp: resize_queue_def w queue_ok_def split: if_splits)
  next
    case False
    then obtain s where s: "mem (n + 1) = Some s" and neq: "max_elements q \<noteq> n" by auto
    have ls: "length s = n + 1" using m s by (simp add: good_mem_def)
    let ?r = "take (length s) (root q) @ drop (length (root q)) s"
    have q': "q' = q\<lparr>q_elements := min (q_elements q) n, max_elements := n, root := ?r\<rparr>"
      and e: "\<not> err"
      using r s neq by (auto simp: resize_queue_def w)
    have lr: "length ?r = n + 1" using ls by auto
    have nth: "?r ! i = root q ! i" if "i \<le> min (q_elements q) n" for i
      using that ok ls by (auto simp: nth_append queue_ok_def)
    have c: "q_cmp q' = q_cmp q" by (simp add: q' q_cmp_def fun_eq_iff)
    have "heap_from (q_cmp q) ?r (min (q_elements q) n) 1"
      unfolding heap_from_def
    proof (intro allI impI, elim conjE)
      fix i
      assume i: "2 \<le> i" "i \<le> min (q_elements q) n" "1 \<le> i div 2"
      have "i div 2 \<le> min (q_elements q) n" using i by linarith
      then show "leq (q_cmp q) (?r ! (i div 2)) (?r ! i)"
        unfolding nth [OF i(2)] using nth [of "i div 2"] h i by (auto simp: heap_from_def)
    qed
    then have "queue_wf q'"
      using ok lr n c by (auto simp: queue_wf_def queue_ok_def queue_heap_def q')
    moreover have "items q' = items q" if "q_elements q \<le> n"
    proof -
      define R where "R = ?r"
      have R: "length R = n + 1" "\<And>i. i \<le> q_elements q \<Longrightarrow> R ! i = root q ! i"
        using lr nth that unfolding R_def min_absorb1 [OF that] by blast+
      have "take (q_elements q) (tl R) = take (q_elements q) (tl (root q))"
        by (rule nth_equalityI) (use that R ok in \<open>auto simp: nth_tl queue_ok_def\<close>)
      then show ?thesis using that by (simp add: items_def q' min_def R_def)
    qed
    ultimately show ?thesis using c e by (simp add: q')
  qed
  then show "queue_wf q'" "err \<Longrightarrow> q' = q" "\<not> err \<Longrightarrow> max_elements q' = n"
    "\<not> err \<Longrightarrow> q_elements q' = min (q_elements q) n" "q_cmp q' = q_cmp q"
    "q_elements q \<le> n \<Longrightarrow> items q' = items q" "auto_extent q' = auto_extent q"
    by blast+
qed

lemma queue_insert_safe_wf:
  assumes wf: "queue_wf q" and m: "good_mem mem"
    and n: "max_elements q + auto_extent q + 1 < 2 ^ 32"
  shows "\<exists>q' e. queue_insert_safe mem q x = Some (q', e) \<and> queue_wf q' \<and> q_cmp q' = q_cmp q
    \<and> items q' = (if e = 0 then add_mset x (items q) else items q)
    \<and> (e = 2 \<longleftrightarrow> q_elements q = max_elements q \<and> auto_extent q = 0) \<and> e \<le> 2"
proof (cases "q_elements q = max_elements q")
  case False
  then have "q_elements q < max_elements q" using wf by (auto simp: queue_wf_def queue_ok_def)
  from queue_insert_wf [OF wf this, of x] False show ?thesis
    by (auto simp: queue_insert_safe_def)
next
  case full: True
  show ?thesis
  proof (cases "auto_extent q = 0")
    case True
    then show ?thesis using wf full by (auto simp: queue_insert_safe_def)
  next
    case False
    obtain q1 err where r: "resize_queue mem q (max_elements q + auto_extent q) = (q1, err)"
      by (metis prod.exhaust)
    note R = resize_queue_wf [OF wf m n r]
    have w: "wrap32 (max_elements q + auto_extent q) = max_elements q + auto_extent q"
      using n by (simp add: wrap32_def)
    have le: "q_elements q \<le> max_elements q + auto_extent q" using full by simp
    show ?thesis
    proof (cases err)
      case True
      then show ?thesis using R full False r w wf by (auto simp: queue_insert_safe_def)
    next
      case noerr: False
      then have "q_elements q1 < max_elements q1" using R(3,4) False full by simp
      from queue_insert_wf [OF R(1) this, of x] show ?thesis
        using R(5) R(6) [OF le] full False r w noerr by (auto simp: queue_insert_safe_def)
    qed
  qed
qed

section \<open>Sorting with the queue\<close>

text \<open>
  What a client relies on.  \<open>room\<close> is the number of free places; \<open>before\<close> is the order in
  which the elements come out.
\<close>

locale prio_queue =
  fixes ins :: "'s \<Rightarrow> 'a \<Rightarrow> 's option"
    and rem :: "'s \<Rightarrow> ('s \<times> 'a) option"
    and contents :: "'s \<Rightarrow> 'a multiset"
    and valid :: "'s \<Rightarrow> bool"
    and room :: "'s \<Rightarrow> nat"
    and before :: "'a \<Rightarrow> 'a \<Rightarrow> bool"
  assumes ins_valid: "valid s \<Longrightarrow> 0 < room s \<Longrightarrow> \<exists>s'. ins s x = Some s' \<and> valid s'
      \<and> contents s' = add_mset x (contents s) \<and> room s' = room s - 1"
    and rem_valid: "valid s \<Longrightarrow> contents s \<noteq> {#} \<Longrightarrow> \<exists>s' x. rem s = Some (s', x) \<and> valid s'
      \<and> contents s = add_mset x (contents s') \<and> (\<forall>y \<in># contents s. before x y)"
begin

primrec ins_all :: "'s \<Rightarrow> 'a list \<Rightarrow> 's option" where
  "ins_all s [] = Some s"
| "ins_all s (x # xs) = do { s' \<leftarrow> ins s x; ins_all s' xs }"

primrec drain :: "nat \<Rightarrow> 's \<Rightarrow> 'a list option" where
  "drain 0 s = Some []"
| "drain (Suc n) s = do { (s', x) \<leftarrow> rem s; xs \<leftarrow> drain n s'; Some (x # xs) }"

lemma ins_all_contents:
  "valid s \<Longrightarrow> length xs \<le> room s \<Longrightarrow>
     \<exists>s'. ins_all s xs = Some s' \<and> valid s' \<and> contents s' = mset xs + contents s"
proof (induction xs arbitrary: s)
  case (Cons x xs)
  then obtain s' where "ins s x = Some s'" "valid s'" "contents s' = add_mset x (contents s)"
    "room s' = room s - 1"
    using ins_valid [of s x] by auto
  then show ?case using Cons.IH [of s'] Cons.prems by auto
qed simp

lemma drain_sorted:
  "valid s \<Longrightarrow> size (contents s) = n \<Longrightarrow>
     \<exists>xs. drain n s = Some xs \<and> mset xs = contents s \<and> sorted_wrt before xs"
proof (induction n arbitrary: s)
  case (Suc n)
  then have "contents s \<noteq> {#}" by auto
  from rem_valid [OF Suc.prems(1) this]
  obtain s' x where r: "rem s = Some (s', x)" "valid s'" "contents s = add_mset x (contents s')"
    "\<forall>y \<in># contents s. before x y"
    by blast
  obtain xs where "drain n s' = Some xs" "mset xs = contents s'" "sorted_wrt before xs"
    using Suc.IH [OF r(2)] r(3) Suc.prems by auto
  then show ?case using r by (auto simp flip: set_mset_mset)
qed simp

theorem sorts:
  assumes "valid s" "contents s = {#}" "length xs \<le> room s"
  shows "\<exists>s' ys. ins_all s xs = Some s' \<and> drain (length xs) s' = Some ys
    \<and> mset ys = mset xs \<and> sorted_wrt before ys"
proof -
  obtain s' where "ins_all s xs = Some s'" "valid s'" "contents s' = mset xs"
    using ins_all_contents [OF assms(1,3)] assms(2) by auto
  then show ?thesis using drain_sorted [of s' "length xs"] by auto
qed

end

text \<open>\<^verbatim>\<open>queues.c\<close> with a fixed comparison \<open>c\<close> provides it.\<close>

lemma queue_ins_law:
  "queue_wf q \<and> q_cmp q = c \<Longrightarrow> 0 < max_elements q - q_elements q \<Longrightarrow>
     \<exists>q'. queue_insert q x = Some q' \<and> (queue_wf q' \<and> q_cmp q' = c)
       \<and> items q' = add_mset x (items q)
       \<and> max_elements q' - q_elements q' = max_elements q - q_elements q - 1"
  using queue_insert_wf [of q x] by auto

lemma queue_rem_law:
  assumes q: "queue_wf q \<and> q_cmp q = c" and ne: "items q \<noteq> {#}"
  shows "\<exists>q' x. queue_remove q 0 = Some (q', x) \<and> (queue_wf q' \<and> q_cmp q' = c)
    \<and> items q = add_mset x (items q') \<and> (\<forall>y \<in># items q. leq c x y)"
proof -
  have "q_elements q \<noteq> 0" using ne by (auto simp: items_def)
  then have n: "0 < q_elements q" "1 < length (root q)"
    using q by (auto simp: queue_wf_def queue_ok_def)
  then have "queue_top q = Some (root q ! 1)" by (simp add: queue_top_def rd_def)
  then have "\<forall>y \<in># items q. leq c (root q ! 1) y" using queue_top_least q by fastforce
  then show ?thesis using queue_remove_top [OF _ n(1)] q by blast
qed

interpretation pq: prio_queue queue_insert "\<lambda>q. queue_remove q 0" items
  "\<lambda>q. queue_wf q \<and> q_cmp q = c" "\<lambda>q. max_elements q - q_elements q" "leq c"
  for c :: "'a \<Rightarrow> 'a \<Rightarrow> int"
  by unfold_locales (rule queue_ins_law queue_rem_law; assumption)+

lemma init_queue_wf:
  assumes "good_mem mem" "max_els + 1 < 2 ^ 32"
    and "good_cmp (\<lambda>a b. cmp arg (a, off) (b, off) * set_max_at_top maxtop)"
    and "init_queue mem q0 max_els off maxtop cmp arg = (q, False)"
  shows "queue_wf q" "items q = {#}" "max_elements q = max_els" "q_elements q = 0"
    "q_cmp q = (\<lambda>a b. cmp arg (a, off) (b, off) * set_max_at_top maxtop)"
  using assms
  by (auto simp: init_queue_def wrap32_def queue_wf_def queue_ok_def queue_heap_def heap_from_def
      items_def good_mem_def q_cmp_def [abs_def] fun_eq_iff split: option.splits)

section \<open>The comparison of \<^verbatim>\<open>thr_alarm.c\<close>\<close>

text \<open>\<open>load e off\<close> is the \<^verbatim>\<open>ulong\<close> at \<open>off\<close> in the element \<open>e\<close>.\<close>

definition compare_ulong :: "('a \<Rightarrow> nat \<Rightarrow> u64) \<Rightarrow> unit \<Rightarrow> 'a \<times> nat \<Rightarrow> 'a \<times> nat \<Rightarrow> int" where
  "compare_ulong load not_used a_ptr b_ptr =
     (let a = load (fst a_ptr) (snd a_ptr); b = load (fst b_ptr) (snd b_ptr)
      in if a < b then -1 else if a = b then 0 else 1)"

lemma compare_ulong_good:
  "good_cmp (\<lambda>a b. compare_ulong load () (a, off) (b, off) * set_max_at_top maxtop)"
  by (auto simp: good_cmp_def compare_ulong_def set_max_at_top_def Let_def)

section \<open>Properties\<close>

text \<open>
  C22: heapsort through the queue.  On a fresh queue of enough room, inserting all of \<open>xs\<close> and
  then removing the top as often succeeds and yields a permutation of \<open>xs\<close> in the order of the
  comparison (the opposite order if \<open>max_at_top\<close> is set).
\<close>

theorem queue_sorts:
  assumes "good_cmp (\<lambda>a b. cmp arg (a, off) (b, off) * set_max_at_top maxtop)"
    and "good_mem mem" and "max_els + 1 < 2 ^ 32"
    and "init_queue mem q0 max_els off maxtop cmp arg = (q, False)"
    and "length xs \<le> max_els"
  shows "\<exists>q' ys. pq.ins_all q xs = Some q' \<and> pq.drain (length xs) q' = Some ys \<and> mset ys = mset xs
    \<and> sorted_wrt (\<lambda>a b. cmp arg (a, off) (b, off) * set_max_at_top maxtop \<le> 0) ys"
  using pq.sorts [of q "q_cmp q" xs] init_queue_wf [OF assms(2,3,1,4)] assms(5)
  by (simp add: leq_def [abs_def])

definition alarm_mem :: "nat \<Rightarrow> u64 list option" where
  "alarm_mem n = Some (replicate n 0)"

definition alarm_queue :: "(u64, unit) QUEUE" where
  "alarm_queue = \<lparr>root = [0, 1, 10, 2, 11, 12, 3, 0, 0], first_cmp_arg = (), q_elements = 6,
     max_elements = 8, offset_to_key = 0, max_at_top = 1,
     compare = compare_ulong (\<lambda>e off. e), auto_extent = 0\<rparr>"

lemma alarm_mem_good: "good_mem alarm_mem"
  by (simp add: good_mem_def alarm_mem_def)

lemma alarm_init: "snd (init_queue alarm_mem q 8 0 False (compare_ulong (\<lambda>e off. e)) ()) = False"
  by (simp add: init_queue_def alarm_mem_def)

theorem queue_sorts_witness:
  "\<exists>q' ys. pq.ins_all (fst (init_queue alarm_mem alarm_queue 8 0 False
       (compare_ulong (\<lambda>e off. e)) ())) [5, 2, 9 :: u64] = Some q'
     \<and> pq.drain 3 q' = Some ys \<and> mset ys = {#2, 5, 9#}
     \<and> sorted_wrt (\<lambda>a b. compare_ulong (\<lambda>e off. e) () (a, 0) (b, 0) * set_max_at_top False \<le> 0) ys"
proof -
  let ?q = "fst (init_queue alarm_mem alarm_queue 8 0 False (compare_ulong (\<lambda>e off. e)) ())"
  have i: "init_queue alarm_mem alarm_queue 8 0 False (compare_ulong (\<lambda>e off. e)) () = (?q, False)"
    using alarm_init by (metis prod.collapse)
  show ?thesis
    using queue_sorts [of "compare_ulong (\<lambda>e off. e)" "()" 0 False alarm_mem 8 alarm_queue ?q
        "[5, 2, 9]", OF compare_ulong_good alarm_mem_good _ i]
    by (simp add: add_mset_commute numeral_3_eq_3 del: pq.ins_all.simps pq.drain.simps)
qed

text \<open>
  C23: \<^verbatim>\<open>queue_fix\<close> turns any filling of the slots into a heap with the same elements.
\<close>

theorem queue_fix_heap:
  assumes "queue_ok q"
  shows "\<exists>q'. queue_fix q = Some q' \<and> queue_heap q' \<and> items q' = items q"
  using queue_fix_wf [OF assms] by (auto simp: queue_wf_def)


lemma queue_remove_cmp: "queue_remove q i = Some (q', e) \<Longrightarrow> q_cmp q' = q_cmp q"
  unfolding queue_remove_def downheap_def Let_def
  by (auto split: if_splits) (rename_tac res, case_tac res; auto)

lemma alarm_queue_wf: "queue_wf alarm_queue"
proof -
  have c: "q_cmp alarm_queue = (\<lambda>a b. compare_ulong (\<lambda>e off. e) () (a, 0) (b, 0) * set_max_at_top False)"
    by (simp add: q_cmp_def [abs_def] alarm_queue_def set_max_at_top_def)
  have "queue_heap alarm_queue"
    unfolding queue_heap_def heap_from_code c
    by (simp add: alarm_queue_def leq_def compare_ulong_def set_max_at_top_def upt_conv_Cons)
  then show ?thesis
    using compare_ulong_good [of "\<lambda>e off. e" 0 False]
    unfolding queue_wf_def queue_ok_def c [symmetric] by (simp add: alarm_queue_def)
qed

theorem queue_fix_heap_witness:
  "\<exists>q'. queue_fix (alarm_queue\<lparr>root := [0, 7, 6, 5, 4, 3, 2, 0, 0]\<rparr>) = Some q' \<and> queue_heap q'
     \<and> items q' = {#2, 3, 4, 5, 6, 7#}"
proof -
  let ?q = "alarm_queue\<lparr>root := [0, 7, 6, 5, 4, 3, 2, 0, 0]\<rparr>"
  have "queue_ok ?q"
    using alarm_queue_wf unfolding queue_wf_def queue_ok_def q_cmp_update by (simp add: alarm_queue_def)
  moreover have "items ?q = {#2, 3, 4, 5, 6, 7#}"
    by (simp add: items_def alarm_queue_def add_mset_commute)
  ultimately show ?thesis using queue_fix_heap [of ?q] by simp
qed

text \<open>
  \<^verbatim>\<open>queue_insert_safe\<close> never fails silently: it keeps the heap, adds the element exactly
  when it returns 0, and returns 2 exactly when the queue is full and may not grow.
\<close>

theorem queue_insert_safe_spec:
  assumes "queue_wf q" and "good_mem mem" and "max_elements q + auto_extent q + 1 < 2 ^ 32"
  shows "\<exists>q' e. queue_insert_safe mem q x = Some (q', e) \<and> queue_wf q'
    \<and> items q' = (if e = 0 then add_mset x (items q) else items q)
    \<and> (e = 2 \<longleftrightarrow> q_elements q = max_elements q \<and> auto_extent q = 0) \<and> e \<le> 2"
  using queue_insert_safe_wf [OF assms] by blast

theorem queue_insert_safe_witness:
  "\<exists>q' e. queue_insert_safe alarm_mem alarm_queue 4 = Some (q', e) \<and> queue_wf q'
    \<and> items q' = {#1, 2, 3, 4, 10, 11, 12#}"
proof -
  have "queue_insert_safe alarm_mem alarm_queue 4 = Some (q', e) \<Longrightarrow> e = 0" for q' e
    by (auto simp: queue_insert_safe_def alarm_queue_def)
  moreover have "items alarm_queue = {#1, 2, 3, 10, 11, 12#}"
    by (simp add: items_def alarm_queue_def add_mset_commute)
  ultimately show ?thesis
    using queue_insert_safe_spec [OF alarm_queue_wf alarm_mem_good, of 4]
    by (fastforce simp: alarm_queue_def add_mset_commute)
qed

text \<open>
  Removing an element that is not the top can break the heap: the element of the last slot
  takes its place and only moves down.  In a heap of six alarms the removal of the one at
  external index 3 (as \<^verbatim>\<open>thr_end_alarm\<close> does) leaves 3 below 10.
\<close>

theorem queue_remove_breaks_heap:
  "queue_wf alarm_queue \<and> (\<exists>q'. queue_remove alarm_queue 3 = Some (q', 11) \<and> \<not> queue_heap q'
     \<and> root q' ! 4 = 3 \<and> root q' ! 2 = 10)"
proof -
  have "map_option (\<lambda>(q, e). (root q, q_elements q, e)) (queue_remove alarm_queue 3)
    = Some ([0, 1, 10, 2, 3, 12, 3, 0, 0], 5, 11)"
    by (simp add: queue_remove_def downheap_def alarm_queue_def rd_def wrap32_def
        down_loop.simps up_loop.simps)
  then obtain q' where q': "queue_remove alarm_queue 3 = Some (q', 11)"
    "root q' = [0, 1, 10, 2, 3, 12, 3, 0, 0]" "q_elements q' = 5"
    by auto
  have c: "q_cmp q' = q_cmp alarm_queue"
    using queue_remove_cmp [OF q'(1)] .
  have nl: "\<not> leq (q_cmp q') (root q' ! 2) (root q' ! 4)"
    unfolding c q'(2) by (simp add: leq_def q_cmp_def alarm_queue_def compare_ulong_def)
  have "\<not> queue_heap q'"
  proof
    assume "queue_heap q'"
    then have "leq (q_cmp q') (root q' ! (4 div 2)) (root q' ! 4)"
      unfolding queue_heap_def heap_from_def q'(3) by (elim allE [of _ 4]) simp
    then show False using nl by simp
  qed
  then show ?thesis using alarm_queue_wf q' by auto
qed

end
