(* ===== verification/Utf8.thy ===== *)
theory Utf8
  imports Wire
begin

text \<open>
  The UTF-8 character set handler of \<^verbatim>\<open>MySQL/ctype-utf8.c\<close> (compiled without
  \<^verbatim>\<open>UNICODE_32BIT\<close>: at most three bytes per character).  A string is the list of bytes
  between its two pointers; a conversion returns the C result (the number of bytes, or a
  code \<open>\<le> 0\<close>) together with the value written through the output pointer, if any.
\<close>

section \<open>Decoding and encoding one character\<close>

type_synonym my_wc_t = u64

definition MY_CS_ILSEQ :: int where "MY_CS_ILSEQ = 0"
definition MY_CS_ILUNI :: int where "MY_CS_ILUNI = 0"
definition MY_CS_TOOSMALL :: int where "MY_CS_TOOSMALL = -101"
definition MY_CS_TOOSMALLN :: "nat \<Rightarrow> int" where "MY_CS_TOOSMALLN n = -100 - int n"

lemmas my_cs_defs = MY_CS_ILSEQ_def MY_CS_ILUNI_def MY_CS_TOOSMALL_def MY_CS_TOOSMALLN_def

definition is_cont :: "byte \<Rightarrow> bool" where
  "is_cont b \<longleftrightarrow> b XOR 0x80 < 0x40"

text \<open>
  The bytes are read where the code reads them: a read beyond the end of the string makes the result
  \<^const>\<open>None\<close>.
\<close>

definition my_utf8_uni :: "byte list \<Rightarrow> (int \<times> my_wc_t option) option" where
  "my_utf8_uni s =
     (if s = [] then Some (MY_CS_TOOSMALL, None)
      else do {
        c \<leftarrow> rd s 0;
        if c < 0x80 then Some (1, Some (ucast c))
        else if c < 0xc2 then Some (MY_CS_ILSEQ, None)
        else if c < 0xe0 then
          (if length s < 2 then Some (MY_CS_TOOSMALLN 2, None)
           else do {
             s1 \<leftarrow> rd s 1;
             if \<not> is_cont s1 then Some (MY_CS_ILSEQ, None)
             else Some (2, Some (push_bit 6 (ucast (c AND 0x1f)) OR ucast (s1 XOR 0x80))) })
        else if c < 0xf0 then
          (if length s < 3 then Some (MY_CS_TOOSMALLN 3, None)
           else do {
             s1 \<leftarrow> rd s 1;
             if \<not> is_cont s1 then Some (MY_CS_ILSEQ, None)
             else do {
               s2 \<leftarrow> rd s 2;
               if \<not> (is_cont s2 \<and> (0xe1 \<le> c \<or> 0xa0 \<le> s1)) then Some (MY_CS_ILSEQ, None)
               else Some (3, Some (push_bit 12 (ucast (c AND 0x0f)) OR push_bit 6 (ucast (s1 XOR 0x80))
                               OR ucast (s2 XOR 0x80))) } })
        else Some (MY_CS_ILSEQ, None) })"

text \<open>
  \<^verbatim>\<open>my_utf8_uni_no_range\<close> reads a NUL-terminated string without an end pointer; the
  terminating NUL is never a continuation byte, so it is never passed.
\<close>

definition my_utf8_uni_no_range :: "byte list \<Rightarrow> (int \<times> my_wc_t option) option" where
  "my_utf8_uni_no_range s = do {
     c \<leftarrow> cstr_rd s 0;
     if c < 0x80 then Some (1, Some (ucast c))
     else if c < 0xc2 then Some (MY_CS_ILSEQ, None)
     else if c < 0xe0 then do {
       s1 \<leftarrow> cstr_rd s 1;
       if \<not> is_cont s1 then Some (MY_CS_ILSEQ, None)
       else Some (2, Some (push_bit 6 (ucast (c AND 0x1f)) OR ucast (s1 XOR 0x80))) }
     else if c < 0xf0 then do {
       s1 \<leftarrow> cstr_rd s 1;
       if \<not> is_cont s1 then Some (MY_CS_ILSEQ, None)
       else do {
         s2 \<leftarrow> cstr_rd s 2;
         if \<not> (is_cont s2 \<and> (0xe1 \<le> c \<or> 0xa0 \<le> s1)) then Some (MY_CS_ILSEQ, None)
         else Some (3, Some (push_bit 12 (ucast (c AND 0x0f)) OR push_bit 6 (ucast (s1 XOR 0x80))
                         OR ucast (s2 XOR 0x80))) } }
     else Some (MY_CS_ILSEQ, None) }"

text \<open>
  Both always return (\<open>my_utf8_uni_returns\<close>, \<open>my_utf8_uni_no_range_returns\<close>); their callers take
  the value.
\<close>

definition utf8_uni :: "byte list \<Rightarrow> int \<times> my_wc_t option" where
  "utf8_uni s = the (my_utf8_uni s)"

definition utf8_uni_no_range :: "byte list \<Rightarrow> int \<times> my_wc_t option" where
  "utf8_uni_no_range s = the (my_utf8_uni_no_range s)"

text \<open>The cases of the fall-through \<^verbatim>\<open>switch\<close>: each writes its byte and falls into the next.\<close>

definition utf8_case1 :: "my_wc_t \<Rightarrow> byte list" where
  "utf8_case1 wc = [ucast wc]"

definition utf8_case2 :: "my_wc_t \<Rightarrow> byte list" where
  "utf8_case2 wc = utf8_case1 (drop_bit 6 wc OR 0xc0) @ [ucast (0x80 OR (wc AND 0x3f))]"

definition utf8_case3 :: "my_wc_t \<Rightarrow> byte list" where
  "utf8_case3 wc = utf8_case2 (drop_bit 6 wc OR 0x800) @ [ucast (0x80 OR (wc AND 0x3f))]"

definition utf8_switch :: "nat \<Rightarrow> my_wc_t \<Rightarrow> byte list" where
  "utf8_switch count wc =
     (if count = 3 then utf8_case3 wc else if count = 2 then utf8_case2 wc else utf8_case1 wc)"

text \<open>\<open>room\<close> is the space between the output pointer and the end of the buffer.\<close>

definition my_uni_utf8 :: "my_wc_t \<Rightarrow> nat \<Rightarrow> int \<times> byte list" where
  "my_uni_utf8 wc room =
     (if room = 0 then (MY_CS_TOOSMALL, [])
      else if 0x10000 \<le> wc then (MY_CS_ILUNI, [])
      else let count = (if wc < 0x80 then 1 else if wc < 0x800 then 2 else 3) in
        if room < count then (MY_CS_TOOSMALLN count, [])
        else (int count, utf8_switch count wc))"

definition my_uni_utf8_no_range :: "my_wc_t \<Rightarrow> int \<times> byte list" where
  "my_uni_utf8_no_range wc =
     (if 0x10000 \<le> wc then (MY_CS_ILUNI, [])
      else let count = (if wc < 0x80 then 1 else if wc < 0x800 then 2 else 3) in
        (int count, utf8_switch count wc))"

definition my_ismbchar_utf8 :: "byte list \<Rightarrow> nat option" where
  "my_ismbchar_utf8 b = do { (res, wc) \<leftarrow> my_utf8_uni b; Some (if res > 1 then nat res else 0) }"

definition my_mbcharlen_utf8 :: "u32 \<Rightarrow> nat" where
  "my_mbcharlen_utf8 c =
     (if c < 0x80 then 1 else if c < 0xc2 then 0 else if c < 0xe0 then 2
      else if c < 0xf0 then 3 else 0)"

section \<open>The codec laws\<close>

text \<open>No read is beyond the end.\<close>

lemma my_utf8_uni_returns:
  "my_utf8_uni s = Some
     (if s = [] then (MY_CS_TOOSMALL, None)
      else let c = s ! 0 in
        if c < 0x80 then (1, Some (ucast c))
        else if c < 0xc2 then (MY_CS_ILSEQ, None)
        else if c < 0xe0 then
          (if length s < 2 then (MY_CS_TOOSMALLN 2, None)
           else if \<not> is_cont (s ! 1) then (MY_CS_ILSEQ, None)
           else (2, Some (push_bit 6 (ucast (c AND 0x1f)) OR ucast (s ! 1 XOR 0x80))))
        else if c < 0xf0 then
          (if length s < 3 then (MY_CS_TOOSMALLN 3, None)
           else if \<not> (is_cont (s ! 1) \<and> is_cont (s ! 2) \<and> (0xe1 \<le> c \<or> 0xa0 \<le> s ! 1))
             then (MY_CS_ILSEQ, None)
           else (3, Some (push_bit 12 (ucast (c AND 0x0f)) OR push_bit 6 (ucast (s ! 1 XOR 0x80))
                            OR ucast (s ! 2 XOR 0x80))))
        else (MY_CS_ILSEQ, None))"
  by (simp add: my_utf8_uni_def Let_def)

lemmas utf8_uni_eq = my_utf8_uni_returns [THEN arg_cong [of _ _ the], folded utf8_uni_def, unfolded option.sel]

lemma my_utf8_uni_eq: "my_utf8_uni s = Some (utf8_uni s)"
  by (simp add: utf8_uni_def my_utf8_uni_returns del: my_utf8_uni_def)

lemma my_utf8_uni_no_range_returns:
  "my_utf8_uni_no_range s = Some
     (let c = cstr_at s 0; s1 = cstr_at s 1; s2 = cstr_at s 2 in
        if c < 0x80 then (1, Some (ucast c))
        else if c < 0xc2 then (MY_CS_ILSEQ, None)
        else if c < 0xe0 then
          (if \<not> is_cont s1 then (MY_CS_ILSEQ, None)
           else (2, Some (push_bit 6 (ucast (c AND 0x1f)) OR ucast (s1 XOR 0x80))))
        else if c < 0xf0 then
          (if \<not> (is_cont s1 \<and> is_cont s2 \<and> (0xe1 \<le> c \<or> 0xa0 \<le> s1)) then (MY_CS_ILSEQ, None)
           else (3, Some (push_bit 12 (ucast (c AND 0x0f)) OR push_bit 6 (ucast (s1 XOR 0x80))
                            OR ucast (s2 XOR 0x80))))
        else (MY_CS_ILSEQ, None))"
proof -
  have 0: "cstr_rd s 0 = Some (cstr_at s 0)" by (simp add: cstr_rd_def)
  show ?thesis
  proof (cases "cstr_at s 0 < 0x80")
    case True
    then show ?thesis by (simp add: my_utf8_uni_no_range_def 0)
  next
    case False
    then have "s \<noteq> []" by auto
    then have 1: "cstr_rd s 1 = Some (cstr_at s 1)" by (cases s) (simp_all add: cstr_rd_def)
    have "\<not> is_cont 0" by (simp add: is_cont_def)
    then have 2: "cstr_rd s 2 = Some (cstr_at s 2)" if "is_cont (cstr_at s 1)"
      using that by (cases "1 < length s") (simp_all add: cstr_rd_def)
    show ?thesis
      using False by (cases "is_cont (cstr_at s 1)") (simp_all add: my_utf8_uni_no_range_def 0 1 2 Let_def del: One_nat_def)
  qed
qed

lemmas utf8_uni_no_range_eq =
  my_utf8_uni_no_range_returns [THEN arg_cong [of _ _ the], folded utf8_uni_no_range_def, unfolded option.sel]

lemma my_utf8_uni_no_range_eq: "my_utf8_uni_no_range s = Some (utf8_uni_no_range s)"
  by (simp add: utf8_uni_no_range_def my_utf8_uni_no_range_returns)

lemma is_cont_range: "is_cont b \<longleftrightarrow> 0x80 \<le> unat b \<and> unat b < 0xc0"
proof -
  have "\<forall>n \<in> set [0..<256]. is_cont (word_of_nat n) \<longleftrightarrow> 0x80 \<le> n \<and> n < 0xc0"
    unfolding is_cont_def by code_simp
  then have "is_cont (word_of_nat (unat b)) \<longleftrightarrow> 0x80 \<le> unat b \<and> unat b < 0xc0"
    using unat_byte_less [of b] by (metis atLeastLessThan_iff set_upt zero_le)
  then show ?thesis
    by simp
qed

lemma unat_xor_80: "is_cont b \<Longrightarrow> unat (b XOR 0x80) = unat b - 0x80"
proof -
  assume "is_cont b"
  have "\<forall>n \<in> set [0x80..<0xc0]. unat ((word_of_nat n :: byte) XOR 0x80) = n - 0x80"
    by code_simp
  then have "unat ((word_of_nat (unat b) :: byte) XOR 0x80) = unat b - 0x80"
    using \<open>is_cont b\<close> unfolding is_cont_range by (metis atLeastLessThan_iff set_upt)
  then show ?thesis
    by simp
qed

lemma and_3f: "wc AND 0x3f = take_bit 6 (wc :: u64)"
  by (simp add: take_bit_eq_mask mask_eq_exp_minus_1)
lemma and_1f: "c AND 0x1f = take_bit 5 (c :: byte)"
  by (simp add: take_bit_eq_mask mask_eq_exp_minus_1)
lemma and_0f: "c AND 0x0f = take_bit 4 (c :: byte)"
  by (simp add: take_bit_eq_mask mask_eq_exp_minus_1)

lemma tail_byte: "unat (ucast (0x80 OR (wc AND 0x3f) :: u64) :: byte) = 0x80 + unat wc mod 64"
proof -
  have m: "unat (take_bit 6 wc) = unat wc mod 64"
    by (simp add: unat_take_bit)
  have "0x80 OR (wc AND 0x3f) = push_bit 7 1 + take_bit 6 wc"
    using push_or [of "take_bit 6 wc" 7 1] m by (simp add: and_3f)
  moreover have "unat (push_bit 7 1 + take_bit 6 wc) = 0x80 + unat wc mod 64"
    using m by (simp add: unat_word_ariths)
  ultimately show ?thesis
    by (simp add: trunc_simps)
qed

lemma case1: "unat wc < 0x80 \<Longrightarrow> map unat (utf8_case1 wc) = [unat wc]"
  by (simp add: utf8_case1_def trunc_simps)

lemma case2:
  assumes "unat wc < 0x1000"
  shows "map unat (utf8_case2 wc) = [0xc0 + unat wc div 64, 0x80 + unat wc mod 64]"
proof -
  have d: "unat (drop_bit 6 wc) = unat wc div 64"
    by (simp add: unat_drop_bit)
  have "drop_bit 6 wc OR 0xc0 = push_bit 6 3 + drop_bit 6 wc"
    using push_or [of "drop_bit 6 wc" 6 3] d assms by (simp add: or.commute div_less_iff_less_mult)
  then have "unat (drop_bit 6 wc OR 0xc0) = 0xc0 + unat wc div 64"
    using d assms by (simp add: unat_word_ariths)
  then have "unat (ucast (drop_bit 6 wc OR 0xc0) :: byte) = 0xc0 + unat wc div 64"
    using assms by (simp add: trunc_simps)
  then show ?thesis
    by (simp add: utf8_case2_def utf8_case1_def tail_byte)
qed

lemma case3:
  assumes "unat wc < 0x10000"
  shows "map unat (utf8_case3 wc) =
    [0xe0 + unat wc div 4096, 0x80 + unat wc div 64 mod 64, 0x80 + unat wc mod 64]"
proof -
  have d: "unat (drop_bit 6 wc) = unat wc div 64"
    by (simp add: unat_drop_bit)
  let ?w = "drop_bit 6 wc OR 0x800 :: u64"
  have "?w = 0x800 + drop_bit 6 wc"
    using push_or [of "drop_bit 6 wc" 11 1] d assms by (simp add: or.commute)
  then have uw: "unat ?w = 0x800 + unat wc div 64"
    using d assms by (simp add: unat_word_ariths)
  then have "unat ?w < 0x1000"
    using assms by (simp add: div_less_iff_less_mult)
  moreover have "(0x800 + n) div 64 = 32 + n div 64" "(0x800 + n) mod 64 = n mod 64" for n :: nat
    using div_mult_self3 [of 64 32 n] mod_mult_self3 [of 32 64 n] by simp_all
  ultimately show ?thesis
    using case2 [of ?w] uw
    by (simp add: utf8_case3_def tail_byte flip: div_mult2_eq)
qed

lemma unat_xor_less: "is_cont b \<Longrightarrow> unat (b XOR 0x80) < 64"
  using unat_xor_80 [of b] by (auto simp: is_cont_range)

lemma unat_lead:
  fixes c :: byte
  shows "unat (ucast (c AND 0x1f) :: u64) = unat c mod 32"
    and "unat (ucast (c AND 0x0f) :: u64) = unat c mod 16"
  by (simp_all add: unat_ucast_up and_1f and_0f unat_take_bit)

lemma unat_trail: "is_cont b \<Longrightarrow> unat (ucast (b XOR 0x80) :: u64) = unat b - 0x80"
  by (simp add: unat_ucast_up unat_xor_80)

lemma trail_less: "is_cont b \<Longrightarrow> unat b - 0x80 < 64"
  by (auto simp: is_cont_range)

lemma dec2_val:
  fixes c b1 :: byte
  assumes "is_cont b1"
  shows "unat (push_bit 6 (ucast (c AND 0x1f)) OR ucast (b1 XOR 0x80) :: u64) =
    unat c mod 32 * 64 + (unat b1 - 0x80)"
proof -
  have "unat c mod 32 < 32" by simp
  then show ?thesis
    using unat_push_or [of "ucast (b1 XOR 0x80) :: u64" 6 "ucast (c AND 0x1f)"] trail_less [OF assms]
    by (simp only: unat_trail [OF assms] unat_lead) simp
qed

lemma dec3_val:
  fixes c b1 b2 :: byte
  assumes "is_cont b1" "is_cont b2"
  shows "unat (push_bit 12 (ucast (c AND 0x0f)) OR push_bit 6 (ucast (b1 XOR 0x80))
      OR ucast (b2 XOR 0x80) :: u64) =
    unat c mod 16 * 4096 + (unat b1 - 0x80) * 64 + (unat b2 - 0x80)"
proof -
  let ?r = "push_bit 6 (ucast (b1 XOR 0x80)) OR ucast (b2 XOR 0x80) :: u64"
  have r: "unat ?r = (unat b1 - 0x80) * 64 + (unat b2 - 0x80)"
    using unat_push_or [of "ucast (b2 XOR 0x80) :: u64" 6 "ucast (b1 XOR 0x80)"]
      trail_less [OF assms(1)] trail_less [OF assms(2)]
    by (simp only: unat_trail [OF assms(1)] unat_trail [OF assms(2)]) simp
  have "unat c mod 16 < 16" by simp
  then have "unat (push_bit 12 (ucast (c AND 0x0f)) OR ?r) = unat c mod 16 * 4096 + unat ?r"
    using unat_push_or [of ?r 12 "ucast (c AND 0x0f)"] r
      trail_less [OF assms(1)] trail_less [OF assms(2)]
    by (simp only: unat_lead) simp
  with r show ?thesis
    by (simp only: or.assoc add.assoc)
qed

lemma split64: "w = u * 64 + m \<Longrightarrow> m < 64 \<Longrightarrow> w div 64 = u \<and> w mod 64 = (m :: nat)"
  by simp

lemma bounds3:
  "y < 64 \<Longrightarrow> z < 64 \<Longrightarrow> x < 16 \<Longrightarrow> 1 \<le> x \<or> 0x20 \<le> y \<Longrightarrow>
     0x800 \<le> (x * 64 + y) * 64 + z \<and> (x * 64 + y) * 64 + z < (0x10000 :: nat)"
  by auto

lemma recompose: "w = u * 64 + m \<Longrightarrow> u = t * 64 + e \<Longrightarrow> t * 4096 + e * 64 + m = (w :: nat)"
  by simp

lemma length_case [simp]: "length (utf8_case1 wc) = 1" "length (utf8_case2 wc) = 2" "length (utf8_case3 wc) = 3"
  by (simp_all add: utf8_case1_def utf8_case2_def utf8_case3_def)

lemma utf8_uni_switch:
  assumes "unat wc < 0x10000"
  defines "n \<equiv> (if wc < 0x80 then 1 else if wc < 0x800 then 2 else 3)"
  shows "utf8_uni (utf8_switch n wc @ rest) = (int n, Some wc)"
proof -
  consider (1) "unat wc < 0x80" | (2) "0x80 \<le> unat wc" "unat wc < 0x800" | (3) "0x800 \<le> unat wc"
    by linarith
  then show ?thesis
  proof cases
    case 1
    then show ?thesis
      by (simp add: n_def utf8_switch_def utf8_case1_def utf8_uni_eq trunc_simps Let_def)
  next
    case 2
    then have "map unat (utf8_case2 wc) = [0xc0 + unat wc div 64, 0x80 + unat wc mod 64]"
      by (intro case2) simp
    then obtain c b where cb: "utf8_case2 wc = [c, b]" "unat c = 0xc0 + unat wc div 64"
        "unat b = 0x80 + unat wc mod 64"
      by (auto simp: map_eq_Cons_conv)
    have b: "is_cont b" using cb by (simp add: is_cont_range)
    have r: "2 \<le> unat wc div 64" "unat wc div 64 < 32" using 2 by auto
    then have "unat c mod 32 * 64 + (unat b - 0x80) = unat wc"
      using cb mod_mult_self3 [of 6 32 "unat wc div 64"] by simp
    then have "push_bit 6 (ucast (c AND 0x1f)) OR ucast (b XOR 0x80) = wc"
      by (simp add: word_unat_eq_iff dec2_val [OF b])
    with 2 cb b r show ?thesis
      by (simp add: n_def utf8_switch_def utf8_uni_eq word_less_nat_alt word_le_nat_alt)
  next
    case 3
    then have "map unat (utf8_case3 wc) = [0xe0 + unat wc div 4096, 0x80 + unat wc div 64 mod 64,
       0x80 + unat wc mod 64]"
      using assms(1) by (intro case3) simp
    then obtain c b d where cb: "utf8_case3 wc = [c, b, d]" "unat c = 0xe0 + unat wc div 4096"
        "unat b = 0x80 + unat wc div 64 mod 64" "unat d = 0x80 + unat wc mod 64"
      by (auto simp: map_eq_Cons_conv)
    have b: "is_cont b" "is_cont d" using cb by (simp_all add: is_cont_range)
    have r: "unat wc div 4096 < 16" using assms(1) by auto
    have d: "unat wc div 4096 = unat wc div 64 div 64"
      by (simp flip: div_mult2_eq)
    have "unat c mod 16 = unat wc div 4096"
      using r cb mod_mult_self3 [of 14 16 "unat wc div 4096"] by simp
    moreover have "unat wc div 64 div 64 * 4096 + unat wc div 64 mod 64 * 64 + unat wc mod 64 = unat wc"
      by (rule recompose; rule div_mult_mod_eq [symmetric])
    ultimately have "unat c mod 16 * 4096 + (unat b - 0x80) * 64 + (unat d - 0x80) = unat wc"
      by (simp add: cb(3,4) d)
    then have v: "push_bit 12 (ucast (c AND 0x0f)) OR push_bit 6 (ucast (b XOR 0x80))
        OR ucast (d XOR 0x80) = wc"
      by (simp add: word_unat_eq_iff dec3_val [OF b])
    have "0xe1 \<le> unat c \<or> 0xa0 \<le> unat b"
    proof (cases "unat wc < 4096")
      case True
      then have "unat wc div 64 < 64" "32 \<le> unat wc div 64" using 3 by auto
      then show ?thesis using cb by simp
    next
      case False
      then have "1 \<le> unat wc div 4096" by simp
      then show ?thesis using cb by simp
    qed
    with 3 cb b r v show ?thesis
      by (simp add: n_def utf8_switch_def utf8_uni_eq word_less_nat_alt word_le_nat_alt)
  qed
qed

lemma utf8_uni_Some:
  assumes "utf8_uni s = (n, Some wc)"
  shows "0 < n \<and> nat n \<le> length s \<and> unat wc < 0x10000
    \<and> my_uni_utf8_no_range wc = (n, take (nat n) s)"
proof -
  define c where "c = s ! 0"
  have ne: "s \<noteq> []" using assms by (auto simp: utf8_uni_eq)
  consider (1) "c < 0x80" "n = 1" "wc = ucast c"
    | (2) "0xc2 \<le> c" "c < 0xe0" "n = 2" "2 \<le> length s" "is_cont (s ! 1)"
        "wc = push_bit 6 (ucast (c AND 0x1f)) OR ucast (s ! 1 XOR 0x80)"
    | (3) "0xe0 \<le> c" "c < 0xf0" "n = 3" "3 \<le> length s" "is_cont (s ! 1)" "is_cont (s ! 2)"
        "0xe1 \<le> c \<or> 0xa0 \<le> s ! 1"
        "wc = push_bit 12 (ucast (c AND 0x0f)) OR push_bit 6 (ucast (s ! 1 XOR 0x80))
           OR ucast (s ! 2 XOR 0x80)"
    using assms ne unfolding utf8_uni_eq c_def Let_def
    by (auto split: if_splits simp: not_less)
  then show ?thesis
  proof cases
    case 1
    then have "unat wc = unat c" by (simp add: unat_ucast_up)
    then have "map unat (utf8_case1 wc) = map unat (take 1 s)"
      using 1 ne case1 [of wc] by (cases s) (simp_all add: c_def word_less_nat_alt)
    then have "utf8_case1 wc = take 1 s" by (rule map_unat_inj)
    with 1 ne \<open>unat wc = unat c\<close> show ?thesis
      by (cases s) (simp_all add: my_uni_utf8_no_range_def utf8_switch_def word_less_nat_alt
          word_le_nat_alt)
  next
    case 2
    let ?b = "s ! 1"
    have v: "unat wc = (unat c - 0xc0) * 64 + (unat ?b - 0x80)"
      using dec2_val [OF 2(5), of c] 2 mod_mult_self3 [of 6 32 "unat c - 0xc0"]
      by (simp add: word_less_nat_alt word_le_nat_alt)
    have r: "unat ?b - 0x80 < 64" "0x80 \<le> unat ?b" "0xc2 \<le> unat c" "unat c < 0xe0"
      using 2 by (auto simp: is_cont_range word_less_nat_alt word_le_nat_alt)
    have "unat wc div 64 = unat c - 0xc0" "unat wc mod 64 = unat ?b - 0x80"
      using r(1) unfolding v by simp_all
    moreover have w: "0x80 \<le> unat wc" "unat wc < 0x800"
      using r unfolding v by linarith+
    ultimately have "map unat (utf8_case2 wc) = [unat c, unat ?b]"
      using case2 [of wc] r by simp
    then have "utf8_case2 wc = [c, ?b]"
      by (intro map_unat_inj) simp
    moreover have "take 2 s = [c, ?b]"
      using 2(4) by (auto simp: c_def numeral_2_eq_2 Suc_le_length_iff)
    ultimately show ?thesis
      using 2 w by (simp add: my_uni_utf8_no_range_def utf8_switch_def word_less_nat_alt word_le_nat_alt)
  next
    case 3
    let ?b = "s ! 1" and ?d = "s ! 2"
    have r: "unat ?b - 0x80 < 64" "0x80 \<le> unat ?b" "unat ?d - 0x80 < 64" "0x80 \<le> unat ?d"
        "0xe0 \<le> unat c" "unat c < 0xf0" "0xe1 \<le> unat c \<or> 0xa0 \<le> unat ?b"
      using 3 by (auto simp: is_cont_range word_less_nat_alt word_le_nat_alt)
    have v: "unat wc = ((unat c - 0xe0) * 64 + (unat ?b - 0x80)) * 64 + (unat ?d - 0x80)"
    proof -
      have m: "unat c mod 16 = unat c - 0xe0"
        using mod_mult_self3 [of 14 16 "unat c - 0xe0"] r by simp
      show ?thesis
        unfolding 3(8) dec3_val [OF 3(5,6)] m by (simp only: add_mult_distrib mult.assoc)
    qed
    have "unat wc div 64 = (unat c - 0xe0) * 64 + (unat ?b - 0x80)" "unat wc mod 64 = unat ?d - 0x80"
      using split64 [OF v r(3)] by simp_all
    moreover from split64 [OF this(1) r(1)]
    have "unat wc div 64 div 64 = unat c - 0xe0" "unat wc div 64 mod 64 = unat ?b - 0x80"
      by simp_all
    moreover have w: "0x800 \<le> unat wc" "unat wc < 0x10000"
      using bounds3 [of "unat ?b - 0x80" "unat ?d - 0x80" "unat c - 0xe0"] r unfolding v by auto
    ultimately have "map unat (utf8_case3 wc) = [unat c, unat ?b, unat ?d]"
      using case3 [of wc] r by (simp flip: div_mult2_eq)
    then have "utf8_case3 wc = [c, ?b, ?d]"
      by (intro map_unat_inj) simp
    moreover have "take 3 s = [c, ?b, ?d]"
      using 3(4) by (auto simp: c_def numeral_3_eq_3 Suc_le_length_iff)
    ultimately show ?thesis
      using 3 w by (simp add: my_uni_utf8_no_range_def utf8_switch_def word_less_nat_alt word_le_nat_alt)
  qed
qed


lemma utf8_switch_eq: "my_uni_utf8_no_range wc = (n, out) \<Longrightarrow> 0 < n \<Longrightarrow> utf8_uni (out @ rest) = (n, Some wc)"
  using utf8_uni_switch [of wc rest]
  by (auto simp: my_uni_utf8_no_range_def Let_def my_cs_defs word_less_nat_alt word_le_nat_alt
      split: if_splits)

lemma my_uni_utf8_room:
  "unat wc < 0x10000 \<Longrightarrow> length (snd (my_uni_utf8_no_range wc)) \<le> room \<Longrightarrow>
     my_uni_utf8 wc room = my_uni_utf8_no_range wc"
  by (auto simp: my_uni_utf8_def my_uni_utf8_no_range_def utf8_switch_def word_le_nat_alt Let_def
      split: if_splits)

lemma my_uni_utf8_fits: "my_uni_utf8 wc room = (n, out) \<Longrightarrow> length out \<le> room"
  by (auto simp: my_uni_utf8_def utf8_switch_def Let_def split: if_splits)

lemma my_uni_utf8_length: "my_uni_utf8 wc room = (n, out) \<Longrightarrow> 0 < n \<Longrightarrow> length out = nat n"
  by (auto simp: my_uni_utf8_def utf8_switch_def Let_def my_cs_defs split: if_splits)

text \<open>A character as bytes, and the decoder as a reader of a byte stream.\<close>

definition utf8_char :: "my_wc_t \<Rightarrow> byte list" where
  "utf8_char wc = snd (my_uni_utf8_no_range wc)"

definition utf8_read :: "byte list \<Rightarrow> (my_wc_t \<times> byte list) option" where
  "utf8_read s = (case utf8_uni s of (n, Some wc) \<Rightarrow> Some (wc, drop (nat n) s) | _ \<Rightarrow> None)"

definition bmp :: "my_wc_t \<Rightarrow> bool" where
  "bmp wc \<longleftrightarrow> unat wc < 0x10000"

lemma length_utf8_char:
  "bmp wc \<Longrightarrow> length (utf8_char wc) = (if wc < 0x80 then 1 else if wc < 0x800 then 2 else 3)"
  by (simp add: bmp_def utf8_char_def my_uni_utf8_no_range_def utf8_switch_def word_le_nat_alt
      Let_def)

lemma utf8_uni_char:
  "bmp wc \<Longrightarrow> utf8_uni (utf8_char wc @ rest) = (int (length (utf8_char wc)), Some wc)"
  using utf8_uni_switch [of wc rest]
  by (simp add: bmp_def utf8_char_def my_uni_utf8_no_range_def word_le_nat_alt Let_def
      utf8_switch_def)

lemma utf8_read_char: "bmp wc \<Longrightarrow> utf8_read (utf8_char wc @ rest) = Some (wc, rest)"
  by (simp add: utf8_read_def utf8_uni_char)

interpretation utf8: prefix_codec utf8_char utf8_read bmp
  by unfold_locales (rule utf8_read_char)

lemma utf8_uni_decode:
  "utf8_uni s = (n, Some wc) \<Longrightarrow> bmp wc \<and> n = int (length (utf8_char wc)) \<and> s = utf8_char wc @ drop (nat n) s"
proof -
  assume a: "utf8_uni s = (n, Some wc)"
  note d = utf8_uni_Some [OF a]
  then have "utf8_char wc = take (nat n) s" by (simp add: utf8_char_def)
  with d show ?thesis by (simp add: bmp_def)
qed

lemma utf8_uni_None: "utf8_uni s = (n, None) \<Longrightarrow> n \<le> 0"
  by (auto simp: utf8_uni_eq my_cs_defs Let_def split: if_splits)

section \<open>Case conversion and collation\<close>

record MY_UNICASE_INFO =
  toupper :: u16
  tolower :: u16
  sort_weight :: u16

text \<open>\<^verbatim>\<open>cs->caseinfo\<close>: 256 planes, each absent or a table of 256 entries.\<close>

type_synonym uni_plane = "nat \<Rightarrow> (nat \<Rightarrow> MY_UNICASE_INFO) option"

definition plane_map :: "(MY_UNICASE_INFO \<Rightarrow> u16) \<Rightarrow> uni_plane \<Rightarrow> my_wc_t \<Rightarrow> my_wc_t" where
  "plane_map fld uni_plane wc =
     (case uni_plane (unat (drop_bit 8 wc AND 0xFF)) of
        Some tab \<Rightarrow> ucast (fld (tab (unat (wc AND 0xFF))))
      | None \<Rightarrow> wc)"

lemma utf8_uni_shorter:
  "(n, Some wc) = utf8_uni s \<Longrightarrow> length s - nat n < length s"
  using utf8_uni_Some [of s n wc] by auto

text \<open>The loop shared by the two length-bounded conversions; \<open>room\<close> is \<^verbatim>\<open>dstend - dst\<close>.\<close>

function case_loop_utf8 :: "(my_wc_t \<Rightarrow> my_wc_t) \<Rightarrow> byte list \<Rightarrow> nat \<Rightarrow> byte list" where
  "case_loop_utf8 f src room =
     (case utf8_uni src of
        (srcres, Some wc) \<Rightarrow>
          (case my_uni_utf8 (f wc) room of (dstres, out) \<Rightarrow>
             if dstres \<le> 0 then []
             else out @ case_loop_utf8 f (drop (nat srcres) src) (room - length out))
      | (srcres, None) \<Rightarrow> [])"
  by pat_completeness auto
termination
  by (relation "measure (\<lambda>(f, src, room). length src)") (auto dest: utf8_uni_shorter)

declare case_loop_utf8.simps [simp del]

definition my_caseup_utf8 :: "uni_plane \<Rightarrow> byte list \<Rightarrow> nat \<Rightarrow> byte list" where
  "my_caseup_utf8 uni_plane src dstlen = case_loop_utf8 (plane_map toupper uni_plane) src dstlen"

definition my_casedn_utf8 :: "uni_plane \<Rightarrow> byte list \<Rightarrow> nat \<Rightarrow> byte list" where
  "my_casedn_utf8 uni_plane src dstlen = case_loop_utf8 (plane_map tolower uni_plane) src dstlen"

lemma case_loop_utf8_fits: "length (case_loop_utf8 f src room) \<le> room"
proof (induction f src room rule: case_loop_utf8.induct)
  case (1 f src room)
  show ?case
    using "1.IH" my_uni_utf8_fits
    by (subst case_loop_utf8.simps) (fastforce split: prod.split option.split)
qed

lemma case_loop_utf8_chars:
  assumes "list_all bmp wcs" "list_all bmp (map f wcs)"
    and "length (concat (map utf8_char (map f wcs))) \<le> room"
  shows "case_loop_utf8 f (concat (map utf8_char wcs)) room = concat (map utf8_char (map f wcs))"
  using assms
proof (induction wcs arbitrary: room)
  case Nil
  then show ?case by (subst case_loop_utf8.simps) (simp add: utf8_uni_eq)
next
  case (Cons wc wcs)
  let ?out = "utf8_char (f wc)"
  have "bmp (f wc)" "length ?out \<le> room" using Cons.prems by auto
  then have "my_uni_utf8 (f wc) room = my_uni_utf8_no_range (f wc)"
    using my_uni_utf8_room [of "f wc" room] by (simp add: bmp_def utf8_char_def)
  then have "my_uni_utf8 (f wc) room = (int (length ?out), ?out)" "0 < length ?out"
    using \<open>bmp (f wc)\<close> utf8_uni_char [of "f wc" "[]"] length_utf8_char [of "f wc"]
    by (auto simp: bmp_def utf8_char_def my_uni_utf8_no_range_def word_le_nat_alt Let_def)
  then show ?case
    using Cons by (subst case_loop_utf8.simps) (simp add: utf8_uni_char)
qed

section \<open>Properties\<close>

text \<open>C26: the decoder inverts the encoder, whatever bytes follow the character.\<close>
theorem utf8_roundtrip:
  assumes "my_uni_utf8 wc room = (n, out)" "0 < n"
  shows "my_utf8_uni (out @ rest) = Some (n, Some wc) \<and> int (length out) = n \<and> length out \<le> room"
proof -
  have "unat wc < 0x10000"
    using assms by (auto simp: my_uni_utf8_def my_cs_defs word_le_nat_alt split: if_splits)
  moreover from this have "my_uni_utf8_no_range wc = (n, out)"
    using assms my_uni_utf8_room [of wc room] my_uni_utf8_fits [OF assms(1)]
    by (auto simp: my_uni_utf8_def my_uni_utf8_no_range_def word_le_nat_alt Let_def my_cs_defs split: if_splits)
  ultimately show ?thesis
    using utf8_switch_eq [of wc n out rest] assms my_uni_utf8_length [OF assms] my_uni_utf8_fits [OF assms(1)]
    by (simp add: my_utf8_uni_eq)
qed

theorem utf8_roundtrip_witness:
  "my_utf8_uni ([0xe2, 0x82, 0xac] @ [0x41]) = Some (3, Some 0x20ac)"
proof -
  have "my_uni_utf8 0x20ac 4 = (3, [0xe2, 0x82, 0xac])"
    by (simp add: my_uni_utf8_def utf8_switch_def utf8_case3_def utf8_case2_def utf8_case1_def)
  from utf8_roundtrip [OF this, of "[0x41]"] show ?thesis by simp
qed

text \<open>
  C27: the decoder returns for any bytes, without a read beyond the end of the string, and accepts
  canonical encodings only: a character it returns is below 10000 (hex), and the bytes it read are
  the ones the encoder writes, so no overlong form is accepted; a result without a character is not
  positive.
\<close>
theorem utf8_decode_canonical:
  "\<exists>n c. my_utf8_uni s = Some (n, c) \<and>
     (case c of
        None \<Rightarrow> n \<le> 0
      | Some wc \<Rightarrow> my_uni_utf8_no_range wc = (n, take (nat n) s) \<and> 0 < n \<and> n \<le> 3
          \<and> nat n \<le> length s \<and> unat wc < 0x10000)"
proof -
  obtain n c where u: "utf8_uni s = (n, c)" by fastforce
  then have "n \<le> 3" by (auto simp: utf8_uni_eq Let_def my_cs_defs split: if_splits)
  then have "case c of None \<Rightarrow> n \<le> 0
      | Some wc \<Rightarrow> my_uni_utf8_no_range wc = (n, take (nat n) s) \<and> 0 < n \<and> n \<le> 3
          \<and> nat n \<le> length s \<and> unat wc < 0x10000"
    using utf8_uni_Some [of s n] utf8_uni_None [of s n] u by (cases c) auto
  then show ?thesis using u by (auto simp: my_utf8_uni_eq)
qed

text \<open>The case conversions never write beyond the destination buffer.\<close>
theorem utf8_case_fits:
  "length (my_caseup_utf8 uni_plane src dstlen) \<le> dstlen \<and> length (my_casedn_utf8 uni_plane src dstlen) \<le> dstlen"
  unfolding my_caseup_utf8_def my_casedn_utf8_def by (intro conjI case_loop_utf8_fits)

end
