(* ===== verification/Collation.thy ===== *)
theory Collation
  imports Utf8
begin

text \<open>
  String comparison and hashing of the character sets: the binary handlers of
  \<^verbatim>\<open>MySQL/ctype-bin.c\<close>, the 8-bit table handlers of \<^verbatim>\<open>MySQL/ctype-simple.c\<close> and the UTF-8
  handlers of \<^verbatim>\<open>MySQL/ctype-utf8.c\<close>.  The contract that the hash table relies on (strings
  that compare equal hash alike) is the locale \<open>hash_collation\<close>, and each handler
  interprets it.
\<close>

section \<open>The contract of a collation\<close>

text \<open>
  Several handlers convert the lengths of the strings, or their difference, to \<^verbatim>\<open>int\<close>: the contract is that
  for strings below 2 GB.
\<close>

definition int_length :: "byte list \<Rightarrow> bool" where
  "int_length s \<longleftrightarrow> length s < 2147483648"

lemma int_length_append: "int_length (s @ t) \<Longrightarrow> int_length s \<and> int_length t"
  by (simp add: int_length_def)

lemma to_int_length [simp]: "int_length s \<Longrightarrow> to_int (int (length s)) = int (length s)"
  by (simp add: int_length_def)

lemma to_int_diff [simp]:
  "int_length s \<Longrightarrow> int_length t \<Longrightarrow> to_int (int (length s) - int (length t)) = int (length s) - int (length t)"
  by (simp add: int_length_def)

lemma to_int_minus [simp]: "int_length t \<Longrightarrow> to_int (- int (length t)) = - int (length t)"
  by (simp add: int_length_def)

locale hash_collation =
  fixes coll :: "byte list \<Rightarrow> byte list \<Rightarrow> int"
    and hash_sort :: "byte list \<Rightarrow> u64 \<times> u64 \<Rightarrow> u64 \<times> u64"
  assumes coll_refl: "int_length s \<Longrightarrow> coll s s = 0"
    and coll_sym: "int_length s \<Longrightarrow> int_length t \<Longrightarrow> coll t s = - coll s t"
    and coll_trans: "int_length s \<Longrightarrow> int_length t \<Longrightarrow> int_length u \<Longrightarrow>
      coll s t = 0 \<Longrightarrow> coll t u = 0 \<Longrightarrow> coll s u = 0"
    and coll_hash: "int_length s \<Longrightarrow> int_length t \<Longrightarrow> coll s t = 0 \<Longrightarrow> hash_sort s n = hash_sort t n"
begin

lemma coll_eq_sym: "int_length s \<Longrightarrow> int_length t \<Longrightarrow> coll s t = 0 \<longleftrightarrow> coll t s = 0"
  using coll_sym [of s t] by auto

lemma coll_eq_class:
  "int_length s \<Longrightarrow> int_length t \<Longrightarrow> int_length u \<Longrightarrow> coll s t = 0 \<Longrightarrow> coll s u = 0 \<longleftrightarrow> coll t u = 0"
  using coll_trans coll_eq_sym by blast

end

section \<open>Library comparison of bytes\<close>

text \<open>
  \<^verbatim>\<open>memcmp\<close> of the C library on two blocks of the same length: only the sign of a non-zero
  result is documented, and it is written here as \<open>-1\<close> or \<open>1\<close>.
\<close>

fun memcmp :: "byte list \<Rightarrow> byte list \<Rightarrow> int" where
  "memcmp (a # s) (b # t) = (if a = b then memcmp s t else if a < b then -1 else 1)"
| "memcmp _ _ = 0"

lemma memcmp_refl [simp]: "memcmp s s = 0"
  by (induction s) auto

lemma memcmp_sym: "memcmp t s = - memcmp s t"
  by (induction s t rule: memcmp.induct) auto

lemma memcmp_0: "memcmp s t = 0 \<Longrightarrow> take (min (length s) (length t)) s = take (min (length s) (length t)) t"
  by (induction s t rule: memcmp.induct) (auto split: if_splits)

lemma memcmp_0_eq: "length s = length t \<Longrightarrow> memcmp s t = 0 \<longleftrightarrow> s = t"
  using memcmp_0 [of s t] by auto

lemma memcmp_take:
  "memcmp (take (min (length s) (length t)) s) (take (min (length s) (length t)) t) = memcmp s t"
  by (induction s t rule: memcmp.induct) auto

section \<open>Hash accumulators\<close>

text \<open>One round of the hash: the pair is \<open>(nr1, nr2)\<close>, the argument the weight.\<close>

definition hash_round :: "u64 \<Rightarrow> u64 \<times> u64 \<Rightarrow> u64 \<times> u64" where
  "hash_round w = (\<lambda>(nr1, nr2).
     (nr1 XOR (((nr1 AND 63) + nr2) * w + push_bit 8 nr1), nr2 + 3))"

definition hash_rounds :: "(byte \<Rightarrow> u64) \<Rightarrow> byte list \<Rightarrow> u64 \<times> u64 \<Rightarrow> u64 \<times> u64" where
  "hash_rounds w s n = fold (\<lambda>b. hash_round (w b)) s n"

text \<open>Removal of the trailing spaces by moving the end pointer back.\<close>

definition strip_spaces :: "byte list \<Rightarrow> byte list" where
  "strip_spaces s = rev (dropWhile (\<lambda>b. b = 0x20) (rev s))"

lemma strip_spaces_append:
  "strip_spaces (s @ t) = (if strip_spaces t = [] then strip_spaces s else s @ strip_spaces t)"
  by (auto simp: strip_spaces_def dropWhile_append)

lemma strip_spaces_Nil [simp]: "strip_spaces [] = []"
  by (simp add: strip_spaces_def)

lemma strip_spaces_eq_Nil: "strip_spaces s = [] \<longleftrightarrow> (\<forall>b \<in> set s. b = 0x20)"
  by (auto simp: strip_spaces_def dropWhile_eq_Nil_conv)

lemma strip_spaces_snoc: "last s \<noteq> 0x20 \<Longrightarrow> strip_spaces s = s"
  by (cases s rule: rev_cases) (auto simp: strip_spaces_def)

lemma strip_spaces_Cons:
  "strip_spaces (b # s) = (if strip_spaces s = [] then (if b = 0x20 then [] else [b]) else b # strip_spaces s)"
  using strip_spaces_append [of "[b]" s] by (simp add: strip_spaces_def)

section \<open>Binary handlers (ctype-bin.c)\<close>

definition my_strnncoll_binary :: "byte list \<Rightarrow> byte list \<Rightarrow> bool \<Rightarrow> int" where
  "my_strnncoll_binary s t t_is_prefix =
     (let slen = length s; tlen = length t; len = min slen tlen;
          cmp = memcmp (take len s) (take len t)
      in if cmp \<noteq> 0 then cmp else to_int (int (if t_is_prefix then len else slen) - int tlen))"

definition my_strnncollsp_binary :: "byte list \<Rightarrow> byte list \<Rightarrow> int" where
  "my_strnncollsp_binary s t = my_strnncoll_binary s t False"

definition my_strnncoll_8bit_bin :: "byte list \<Rightarrow> byte list \<Rightarrow> bool \<Rightarrow> int" where
  "my_strnncoll_8bit_bin s t t_is_prefix =
     (let slen = length s; tlen = length t; len = min slen tlen;
          cmp = memcmp (take len s) (take len t)
      in if cmp \<noteq> 0 then cmp else to_int (int (if t_is_prefix then len else slen) - int tlen))"

text \<open>The final loop over the longer string's tail, shared by the space-padding comparisons.\<close>

fun tail_vs_space :: "('w::linorder) \<Rightarrow> (byte \<Rightarrow> 'w) \<Rightarrow> byte list \<Rightarrow> int \<Rightarrow> int" where
  "tail_vs_space sp w [] swap = 0"
| "tail_vs_space sp w (b # s) swap =
     (if w b \<noteq> sp then (if w b < sp then - swap else swap) else tail_vs_space sp w s swap)"

fun strnncollsp_bytes :: "(byte \<Rightarrow> byte) \<Rightarrow> byte list \<Rightarrow> byte list \<Rightarrow> int" where
  "strnncollsp_bytes tab (a # s) (b # t) =
     (if tab a \<noteq> tab b then int (unat (tab a)) - int (unat (tab b)) else strnncollsp_bytes tab s t)"
| "strnncollsp_bytes tab [] t = tail_vs_space (tab 0x20) tab t (-1)"
| "strnncollsp_bytes tab s [] = tail_vs_space (tab 0x20) tab s 1"

definition my_strnncollsp_8bit_bin :: "byte list \<Rightarrow> byte list \<Rightarrow> int" where
  "my_strnncollsp_8bit_bin a b = strnncollsp_bytes (\<lambda>x. x) a b"

definition my_hash_sort_8bit_bin :: "byte list \<Rightarrow> u64 \<times> u64 \<Rightarrow> u64 \<times> u64" where
  "my_hash_sort_8bit_bin key n = hash_rounds ucast (strip_spaces key) n"

definition my_hash_sort_bin :: "byte list \<Rightarrow> u64 \<times> u64 \<Rightarrow> u64 \<times> u64" where
  "my_hash_sort_bin key n = hash_rounds ucast key n"

section \<open>Table-driven 8-bit handlers (ctype-simple.c)\<close>

fun strnncoll_loop :: "(byte \<Rightarrow> byte) \<Rightarrow> byte list \<Rightarrow> byte list \<Rightarrow> int" where
  "strnncoll_loop tab (a # s) (b # t) =
     (if tab a \<noteq> tab b then int (unat (tab a)) - int (unat (tab b)) else strnncoll_loop tab s t)"
| "strnncoll_loop tab _ _ = 0"

definition my_strnncoll_simple :: "(byte \<Rightarrow> byte) \<Rightarrow> byte list \<Rightarrow> byte list \<Rightarrow> bool \<Rightarrow> int" where
  "my_strnncoll_simple tab s t t_is_prefix =
     (let slen = (if t_is_prefix \<and> length t < length s then length t else length s);
          tlen = length t;
          res = strnncoll_loop tab s t
      in if res \<noteq> 0 then res else if tlen < slen then 1 else if slen < tlen then -1 else 0)"

definition my_strnncollsp_simple :: "(byte \<Rightarrow> byte) \<Rightarrow> byte list \<Rightarrow> byte list \<Rightarrow> int" where
  "my_strnncollsp_simple tab a b = strnncollsp_bytes tab a b"

definition my_hash_sort_simple :: "(byte \<Rightarrow> byte) \<Rightarrow> byte list \<Rightarrow> u64 \<times> u64 \<Rightarrow> u64 \<times> u64" where
  "my_hash_sort_simple sort_order key n = hash_rounds (\<lambda>b. ucast (sort_order b)) (strip_spaces key) n"

section \<open>The 8-bit handlers keep the contract\<close>

lemma strnncollsp_binary_0:
  "int_length s \<Longrightarrow> int_length t \<Longrightarrow> my_strnncollsp_binary s t = 0 \<longleftrightarrow> s = t"
  by (auto simp: my_strnncollsp_binary_def my_strnncoll_binary_def Let_def memcmp_0_eq split: if_splits)

interpretation coll_bin: hash_collation my_strnncollsp_binary my_hash_sort_bin
proof
  show "my_strnncollsp_binary t s = - my_strnncollsp_binary s t" if "int_length s" "int_length t" for s t
    using memcmp_take [of s t] memcmp_take [of t s] memcmp_sym [of t s] that
    by (simp add: my_strnncollsp_binary_def my_strnncoll_binary_def Let_def min.commute)
qed (simp_all add: strnncollsp_binary_0)

text \<open>The conversion to \<^verbatim>\<open>int\<close> loses a difference of 4 GB: a string equals its prefix.\<close>

lemma strnncoll_binary_wraps: "length u = 4294967296 \<Longrightarrow> my_strnncoll_binary s (s @ u) False = 0"
  by (simp add: my_strnncoll_binary_def Let_def to_int_def)

text \<open>
  A weight table suits space padding when only the space has the weight of the space; then
  stripping trailing spaces and comparing with padding agree.
\<close>

definition space_unique :: "(byte \<Rightarrow> byte) \<Rightarrow> bool" where
  "space_unique tab \<longleftrightarrow> (\<forall>b. tab b = tab 0x20 \<longrightarrow> b = 0x20)"

lemma tail_vs_space_0:
  "swap \<noteq> 0 \<Longrightarrow> tail_vs_space sp w s swap = 0 \<longleftrightarrow> (\<forall>b \<in> set s. w b = sp)"
  by (induction s) auto

lemma tail_vs_space_neg: "tail_vs_space sp w s (- swap) = - tail_vs_space sp w s swap"
  by (induction s) auto

lemma strnncollsp_bytes_refl: "strnncollsp_bytes tab s s = 0"
  by (induction s) auto

lemma strnncollsp_bytes_sym: "strnncollsp_bytes tab t s = - strnncollsp_bytes tab s t"
proof (induction tab s t rule: strnncollsp_bytes.induct)
  case (2 tab t)
  then show ?case by (cases t) (auto simp: tail_vs_space_neg [of _ _ _ 1])
qed (auto simp: tail_vs_space_neg [of _ _ _ 1])

lemma tail_strip:
  "space_unique tab \<Longrightarrow> (\<forall>b \<in> set s. tab b = tab 0x20) \<longleftrightarrow> strip_spaces s = []"
  by (auto simp: strip_spaces_eq_Nil space_unique_def)

lemma uint_eq_iff_eq: "uint x = uint y \<longleftrightarrow> x = y"
  by (simp add: word_uint_eq_iff)

lemma strnncollsp_bytes_strip:
  "space_unique tab \<Longrightarrow>
     strnncollsp_bytes tab s t = 0 \<longleftrightarrow> map tab (strip_spaces s) = map tab (strip_spaces t)"
proof (induction tab s t rule: strnncollsp_bytes.induct)
  case (1 tab a s b t)
  then have ab: "tab a = tab b \<Longrightarrow> (a = 0x20) = (b = 0x20)"
    by (auto simp: space_unique_def)
  have "tab a = tab b \<Longrightarrow> strnncollsp_bytes tab s t = 0 \<longleftrightarrow>
      map tab (strip_spaces s) = map tab (strip_spaces t)"
    using 1 by blast
  then show ?case
    using ab by (auto simp: strip_spaces_Cons uint_eq_iff_eq)
qed (auto simp: tail_vs_space_0 tail_strip strip_spaces_Cons space_unique_def)

lemma hash_rounds_comp: "hash_rounds (\<lambda>b. w (tab b)) s n = hash_rounds w (map tab s) n"
  by (simp add: hash_rounds_def fold_map comp_def)

lemma hash_sort_simple_cong:
  assumes "map tab (strip_spaces s) = map tab (strip_spaces t)"
  shows "my_hash_sort_simple tab s n = my_hash_sort_simple tab t n"
proof -
  have "my_hash_sort_simple tab s n = hash_rounds ucast (map tab (strip_spaces s)) n" for s
    unfolding my_hash_sort_simple_def by (rule hash_rounds_comp)
  then show ?thesis
    by (simp only: assms)
qed

lemma collsp_simple_contract:
  assumes "space_unique tab"
  shows "hash_collation (my_strnncollsp_simple tab) (my_hash_sort_simple tab)"
proof
  note strip = strnncollsp_bytes_strip [OF assms, folded my_strnncollsp_simple_def]
  show "my_strnncollsp_simple tab t s = - my_strnncollsp_simple tab s t" for s t
    unfolding my_strnncollsp_simple_def by (rule strnncollsp_bytes_sym)
  show "my_strnncollsp_simple tab s s = 0" for s
    by (simp add: strip)
  show "my_strnncollsp_simple tab s t = 0 \<Longrightarrow> my_strnncollsp_simple tab t u = 0 \<Longrightarrow>
      my_strnncollsp_simple tab s u = 0" for s t u
    by (simp add: strip)
  show "my_strnncollsp_simple tab s t = 0 \<Longrightarrow>
      my_hash_sort_simple tab s n = my_hash_sort_simple tab t n" for s t n
    by (rule hash_sort_simple_cong) (simp add: strip)
qed

interpretation coll_8bit: hash_collation my_strnncollsp_8bit_bin my_hash_sort_8bit_bin
proof -
  have "my_strnncollsp_8bit_bin = my_strnncollsp_simple (\<lambda>x. x)"
    "my_hash_sort_8bit_bin = my_hash_sort_simple (\<lambda>x. x)"
    by (simp_all add: fun_eq_iff my_strnncollsp_8bit_bin_def my_strnncollsp_simple_def
        my_hash_sort_8bit_bin_def my_hash_sort_simple_def)
  then show "hash_collation my_strnncollsp_8bit_bin my_hash_sort_8bit_bin"
    using collsp_simple_contract [of "\<lambda>x. x"] by (simp add: space_unique_def)
qed

section \<open>UTF-8 handlers (ctype-utf8.c)\<close>

text \<open>
  \<open>bincmp\<close> keeps the lengths in \<^verbatim>\<open>int\<close>, and \<^verbatim>\<open>memcmp\<close> takes their minimum as a \<^verbatim>\<open>size_t\<close>.  For a string of 2 GB
  or more that may be a huge number, and \<^verbatim>\<open>memcmp\<close> reads beyond the strings; the value here is then that of the
  bytes they have, and nothing is shown of it.
\<close>

definition mem_size :: "int \<Rightarrow> nat" where
  "mem_size n = nat (n mod 18446744073709551616)"

definition bincmp :: "byte list \<Rightarrow> byte list \<Rightarrow> int" where
  "bincmp s t =
     (let slen = to_int (int (length s)); tlen = to_int (int (length t)); len = min slen tlen;
          cmp = memcmp (take (mem_size len) s) (take (mem_size len) t)
      in if cmp \<noteq> 0 then cmp else to_int (slen - tlen))"

text \<open>
  The loop of \<^verbatim>\<open>my_hash_sort_utf8\<close>, on the string whose trailing spaces are removed: the two
  bytes of the weight are hashed one after the other.
\<close>

function hash_loop_utf8 :: "uni_plane \<Rightarrow> byte list \<Rightarrow> u64 \<times> u64 \<Rightarrow> u64 \<times> u64" where
  "hash_loop_utf8 uni_plane s n =
     (case utf8_uni s of
        (res, Some wc0) \<Rightarrow>
          let wc = plane_map sort_weight uni_plane wc0;
              n1 = hash_round (wc AND 0xFF) n;
              n2 = hash_round (drop_bit 8 wc) n1
          in hash_loop_utf8 uni_plane (drop (nat res) s) n2
      | (res, None) \<Rightarrow> n)"
  by pat_completeness auto
termination
  by (relation "measure (\<lambda>(p, s, n). length s)") (auto dest: utf8_uni_shorter)

declare hash_loop_utf8.simps [simp del]

definition my_hash_sort_utf8 :: "uni_plane \<Rightarrow> byte list \<Rightarrow> u64 \<times> u64 \<Rightarrow> u64 \<times> u64" where
  "my_hash_sort_utf8 uni_plane s n = hash_loop_utf8 uni_plane (strip_spaces s) n"

function my_strnncoll_utf8 :: "uni_plane \<Rightarrow> byte list \<Rightarrow> byte list \<Rightarrow> bool \<Rightarrow> int" where
  "my_strnncoll_utf8 uni_plane s t t_is_prefix =
     (if s \<noteq> [] \<and> t \<noteq> [] then
        (case (utf8_uni s, utf8_uni t) of
           ((s_res, Some s_wc0), (t_res, Some t_wc0)) \<Rightarrow>
             let s_wc = plane_map sort_weight uni_plane s_wc0;
                 t_wc = plane_map sort_weight uni_plane t_wc0
             in if s_wc \<noteq> t_wc then (if t_wc < s_wc then 1 else -1)
                else my_strnncoll_utf8 uni_plane (drop (nat s_res) s) (drop (nat t_res) t) t_is_prefix
         | _ \<Rightarrow> bincmp s t)
      else to_int (if t_is_prefix then - int (length t) else int (length s) - int (length t)))"
  by pat_completeness auto
termination
  by (relation "measure (\<lambda>(p, s, t, x). length s)") (auto dest: utf8_uni_shorter)

function my_strnncollsp_utf8 :: "uni_plane \<Rightarrow> byte list \<Rightarrow> byte list \<Rightarrow> int" where
  "my_strnncollsp_utf8 uni_plane s t =
     (if s \<noteq> [] \<and> t \<noteq> [] then
        (case (utf8_uni s, utf8_uni t) of
           ((s_res, Some s_wc0), (t_res, Some t_wc0)) \<Rightarrow>
             let s_wc = plane_map sort_weight uni_plane s_wc0;
                 t_wc = plane_map sort_weight uni_plane t_wc0
             in if s_wc \<noteq> t_wc then (if t_wc < s_wc then 1 else -1)
                else my_strnncollsp_utf8 uni_plane (drop (nat s_res) s) (drop (nat t_res) t)
         | _ \<Rightarrow> bincmp s t)
      else if length s < length t then tail_vs_space 0x20 (\<lambda>b. b) t (-1)
      else if length t < length s then tail_vs_space 0x20 (\<lambda>b. b) s 1
      else 0)"
  by pat_completeness auto
termination
  by (relation "measure (\<lambda>(p, s, t). length s)") (auto dest: utf8_uni_shorter)

declare my_strnncoll_utf8.simps [simp del] my_strnncollsp_utf8.simps [simp del]


text \<open>
  The canonical form that two strings share exactly when they compare equal: the weights
  of the decoded characters without trailing spaces, and the undecodable rest.
\<close>

function utf8_canon :: "uni_plane \<Rightarrow> byte list \<Rightarrow> u64 list \<times> byte list" where
  "utf8_canon up s =
     (case utf8_uni s of
        (n, Some wc) \<Rightarrow>
          (let (ws, r) = utf8_canon up (drop (nat n) s)
           in if ws = [] \<and> r = [] \<and> wc = 0x20 then ([], []) else (plane_map sort_weight up wc # ws, r))
      | (n, None) \<Rightarrow> ([], s))"
  by pat_completeness auto
termination
  by (relation "measure (\<lambda>(p, s). length s)") (auto dest: utf8_uni_shorter)

declare utf8_canon.simps [simp del]

definition space_unique_wc :: "uni_plane \<Rightarrow> bool" where
  "space_unique_wc up \<longleftrightarrow>
     (\<forall>wc. bmp wc \<longrightarrow> plane_map sort_weight up wc = plane_map sort_weight up 0x20 \<longrightarrow> wc = 0x20)"

lemma utf8_canon_char:
  "bmp wc \<Longrightarrow> utf8_canon up (utf8_char wc @ s) =
     (if utf8_canon up s = ([], []) \<and> wc = 0x20 then ([], [])
      else (plane_map sort_weight up wc # fst (utf8_canon up s), snd (utf8_canon up s)))"
  by (subst utf8_canon.simps) (auto simp: utf8_uni_char split_beta prod_eq_iff)

lemma utf8_canon_bad: "utf8_uni s = (n, None) \<Longrightarrow> utf8_canon up s = ([], s)"
  by (subst utf8_canon.simps) simp

lemma utf8_canon_Nil [simp]: "utf8_canon up [] = ([], [])"
  by (rule utf8_canon_bad) (simp add: utf8_uni_eq)

lemma utf8_char_space: "utf8_char 0x20 = [0x20]"
  by (simp add: utf8_char_def my_uni_utf8_no_range_def utf8_switch_def utf8_case1_def Let_def)

lemma bmp_space [simp]: "bmp 0x20"
  by (simp add: bmp_def)

lemma utf8_char_ne [simp]: "bmp wc \<Longrightarrow> utf8_char wc \<noteq> []"
  using length_utf8_char [of wc] by (auto split: if_splits)

lemma last_utf8_char: "bmp wc \<Longrightarrow> wc \<noteq> 0x20 \<Longrightarrow> last (utf8_char wc) \<noteq> 0x20"
proof -
  assume wc: "bmp wc" "wc \<noteq> 0x20"
  have tail: "ucast (0x80 OR (wc AND 0x3f)) \<noteq> (0x20 :: byte)"
    using tail_byte [of wc] by (simp add: word_unat_eq_iff)
  have "wc < 0x80 \<Longrightarrow> ucast wc \<noteq> (0x20 :: byte)"
    using wc(2) by (simp add: trunc_simps)
  with tail wc show ?thesis
    by (simp add: bmp_def utf8_char_def my_uni_utf8_no_range_def utf8_switch_def word_le_nat_alt
        Let_def utf8_case1_def utf8_case2_def utf8_case3_def)
qed

lemma strip_utf8_char:
  "bmp wc \<Longrightarrow> strip_spaces (utf8_char wc @ s) =
     (if strip_spaces s = [] then (if wc = 0x20 then [] else utf8_char wc)
      else utf8_char wc @ strip_spaces s)"
  by (auto simp: strip_spaces_append utf8_char_space strip_spaces_snoc last_utf8_char)
    (simp add: strip_spaces_def)

text \<open>Every string is a readable character followed by a string, or unreadable.\<close>

lemma utf8_cases [case_names char bad]:
  obtains wc r where "bmp wc" "s = utf8_char wc @ r" | n where "utf8_uni s = (n, None)"
proof (cases "utf8_uni s")
  case (Pair n w)
  then show ?thesis
    using that utf8_uni_decode by (cases w) blast+
qed

lemma utf8_canon_spaces: "utf8_canon up s = ([], []) \<longleftrightarrow> (\<forall>b \<in> set s. b = 0x20)"
proof (induction s rule: length_induct)
  case (1 s)
  show ?case
  proof (cases s rule: utf8_cases)
    case (char wc r)
    then have IH: "utf8_canon up r = ([], []) \<longleftrightarrow> (\<forall>b \<in> set r. b = 0x20)"
      using 1 by (simp add: length_greater_0_conv)
    have "wc \<noteq> 0x20 \<Longrightarrow> \<exists>b \<in> set (utf8_char wc). b \<noteq> 0x20"
      using char last_utf8_char last_in_set utf8_char_ne by metis
    with char IH show ?thesis
      by (auto simp: utf8_canon_char utf8_char_space)
  next
    case (bad n)
    have "s = 0x20 # r \<Longrightarrow> utf8_uni s = (1, Some 0x20)" for r
      by (simp add: utf8_uni_eq)
    with bad have "s = [] \<or> hd s \<noteq> 0x20"
      by (cases s) auto
    with bad show ?thesis
      by (cases s) (auto simp: utf8_canon_bad)
  qed
qed


lemma collsp_utf8_char:
  "bmp wc \<Longrightarrow> bmp vc \<Longrightarrow>
     my_strnncollsp_utf8 up (utf8_char wc @ s) (utf8_char vc @ t) =
       (let a = plane_map sort_weight up wc; b = plane_map sort_weight up vc
        in if a \<noteq> b then (if b < a then 1 else -1) else my_strnncollsp_utf8 up s t)"
  by (subst my_strnncollsp_utf8.simps) (simp add: utf8_uni_char Let_def)

lemma collsp_utf8_bad:
  "s \<noteq> [] \<Longrightarrow> t \<noteq> [] \<Longrightarrow> utf8_uni s = (n, None) \<or> utf8_uni t = (m, None) \<Longrightarrow>
     my_strnncollsp_utf8 up s t = bincmp s t"
  by (subst my_strnncollsp_utf8.simps) (auto split: option.splits prod.splits)

lemma collsp_utf8_Nil:
  "my_strnncollsp_utf8 up [] t = tail_vs_space 0x20 (\<lambda>b. b) t (-1)"
  "my_strnncollsp_utf8 up s [] = tail_vs_space 0x20 (\<lambda>b. b) s 1"
  by (subst my_strnncollsp_utf8.simps, simp)+

lemma bincmp_short:
  assumes "int_length s" "int_length t"
  shows "bincmp s t = (if memcmp s t \<noteq> 0 then memcmp s t else int (length s) - int (length t))"
proof -
  have "mem_size (min (int (length s)) (int (length t))) = min (length s) (length t)"
    using assms by (simp add: mem_size_def int_length_def min_def)
  then show ?thesis using memcmp_take [of s t] assms by (simp add: bincmp_def Let_def)
qed

lemma bincmp_0: "int_length s \<Longrightarrow> int_length t \<Longrightarrow> bincmp s t = 0 \<longleftrightarrow> s = t"
  using memcmp_0_eq [of s t] by (auto simp: bincmp_short)

lemma bincmp_refl: "bincmp s s = 0"
  by (simp add: bincmp_def Let_def)

lemma bincmp_sym: "int_length s \<Longrightarrow> int_length t \<Longrightarrow> bincmp t s = - bincmp s t"
  using memcmp_sym [of t s] by (simp add: bincmp_short)

lemma utf8_canon_bad_char:
  "utf8_uni s = (n, None) \<Longrightarrow> s \<noteq> [] \<Longrightarrow> bmp wc \<Longrightarrow> utf8_canon up s \<noteq> utf8_canon up (utf8_char wc @ r)"
  using utf8_canon_bad [of s n up] utf8_canon_char [of wc up r] by (auto split: if_splits)

lemma collsp_utf8_canon:
  assumes "space_unique_wc up"
  shows "int_length s \<Longrightarrow> int_length t \<Longrightarrow>
    my_strnncollsp_utf8 up s t = 0 \<longleftrightarrow> utf8_canon up s = utf8_canon up t"
proof (induction s arbitrary: t rule: length_induct)
  case (1 s)
  show ?case
  proof (cases "s = [] \<or> t = []")
    case True
    have sp: "tail_vs_space 0x20 (\<lambda>b. b) u swap = 0 \<longleftrightarrow> utf8_canon up u = ([], [])" if "swap \<noteq> 0" for u swap
      using that by (simp add: tail_vs_space_0 utf8_canon_spaces)
    from True show ?thesis
      by (auto simp: collsp_utf8_Nil sp)
  next
    case False
    show ?thesis
    proof (cases s rule: utf8_cases)
      case s: (char wc r)
      show ?thesis
      proof (cases t rule: utf8_cases)
        case t: (char vc q)
        have "int_length r" "int_length q"
          using 1(2,3) s t int_length_append by blast+
        then have IH: "my_strnncollsp_utf8 up r q = 0 \<longleftrightarrow> utf8_canon up r = utf8_canon up q"
          using 1(1) s by simp
        have "plane_map sort_weight up wc = plane_map sort_weight up vc \<Longrightarrow> wc = 0x20 \<longleftrightarrow> vc = 0x20"
          using assms s t by (auto simp: space_unique_wc_def)
        with IH s t show ?thesis
          by (auto simp: collsp_utf8_char utf8_canon_char Let_def prod_eq_iff split: if_splits)
      next
        case t: (bad n)
        then have "my_strnncollsp_utf8 up s t = bincmp s t"
          using False by (intro collsp_utf8_bad) auto
        moreover have "s \<noteq> t"
          using s t by (auto simp: utf8_uni_char)
        ultimately show ?thesis
          using s t False utf8_canon_bad_char [of t n wc up r] 1(2,3) by (auto simp: bincmp_0)
      qed
    next
      case s: (bad n)
      then have e: "my_strnncollsp_utf8 up s t = bincmp s t"
        using False by (intro collsp_utf8_bad) auto
      show ?thesis
      proof (cases t rule: utf8_cases)
        case t: (char vc q)
        then show ?thesis
          using e s False utf8_canon_bad_char [of s n vc up q] 1(2,3) by (auto simp: bincmp_0 utf8_uni_char)
      next
        case t: (bad m)
        then show ?thesis
          using e s 1(2,3) by (simp add: bincmp_0 utf8_canon_bad)
      qed
    qed
  qed
qed

lemma collsp_utf8_sym:
  "int_length s \<Longrightarrow> int_length t \<Longrightarrow> my_strnncollsp_utf8 up t s = - my_strnncollsp_utf8 up s t"
proof (induction s arbitrary: t rule: length_induct)
  case (1 s)
  show ?case
  proof (cases "s = [] \<or> t = []")
    case True
    then show ?thesis
      by (auto simp: collsp_utf8_Nil tail_vs_space_neg [of _ _ _ 1])
  next
    case False
    show ?thesis
    proof (cases s rule: utf8_cases)
      case s: (char wc r)
      show ?thesis
      proof (cases t rule: utf8_cases)
        case t: (char vc q)
        have "int_length r" "int_length q"
          using 1(2,3) s t int_length_append by blast+
        then have "my_strnncollsp_utf8 up q r = - my_strnncollsp_utf8 up r q"
          using 1(1) s by simp
        with s t show ?thesis
          by (auto simp: collsp_utf8_char Let_def)
      next
        case t: (bad n)
        then show ?thesis
          using False collsp_utf8_bad [of s t _ n] collsp_utf8_bad [of t s n] bincmp_sym [OF 1(2,3)] by metis
      qed
    next
      case s: (bad n)
      then show ?thesis
        using False collsp_utf8_bad [of s t n] collsp_utf8_bad [of t s _ n] bincmp_sym [OF 1(2,3)] by metis
    qed
  qed
qed

lemma hash_loop_utf8_char:
  "bmp wc \<Longrightarrow> hash_loop_utf8 up (utf8_char wc @ s) n =
     hash_loop_utf8 up s (hash_round (drop_bit 8 (plane_map sort_weight up wc))
        (hash_round (plane_map sort_weight up wc AND 0xFF) n))"
  by (subst hash_loop_utf8.simps) (simp add: utf8_uni_char Let_def)

lemma hash_loop_utf8_bad: "utf8_uni s = (m, None) \<Longrightarrow> hash_loop_utf8 up s n = n"
  by (subst hash_loop_utf8.simps) simp

lemma utf8_uni_take_bad:
  "utf8_uni (s @ q) = (n, None) \<Longrightarrow> \<exists>m. utf8_uni s = (m, None)"
proof (cases s rule: utf8_cases)
  case (char wc r)
  then show "utf8_uni (s @ q) = (n, None) \<Longrightarrow> ?thesis"
    by (simp add: utf8_uni_char)
qed blast

lemma strip_spaces_prefix: "\<exists>q. s = strip_spaces s @ q"
  unfolding strip_spaces_def by (metis rev_append rev_rev_ident takeWhile_dropWhile_id)

text \<open>The hash of a string is a function of its canonical form.\<close>

lemma hash_sort_utf8_canon:
  "my_hash_sort_utf8 up s n =
     fold (\<lambda>w n. hash_round (drop_bit 8 w) (hash_round (w AND 0xFF) n)) (fst (utf8_canon up s)) n"
  unfolding my_hash_sort_utf8_def
proof (induction s arbitrary: n rule: length_induct)
  case (1 s)
  show ?case
  proof (cases s rule: utf8_cases)
    case s: (char wc r)
    have IH: "hash_loop_utf8 up (strip_spaces r) m =
        fold (\<lambda>w n. hash_round (drop_bit 8 w) (hash_round (w AND 0xFF) n)) (fst (utf8_canon up r)) m" for m
      using 1 s by (cases m) simp
    have c: "utf8_canon up r = ([], []) \<longleftrightarrow> strip_spaces r = []"
      by (simp add: utf8_canon_spaces strip_spaces_eq_Nil)
    have z: "hash_loop_utf8 up [] m = m" for m
      by (rule hash_loop_utf8_bad) (simp add: utf8_uni_eq)
    show ?thesis
    proof (cases "strip_spaces r = []")
      case True
      then have "utf8_canon up r = ([], [])" by (simp add: c)
      then show ?thesis
        using s True hash_loop_utf8_char [of wc up "[]"] by (simp add: strip_utf8_char utf8_canon_char z)
    next
      case False
      then show ?thesis
        using s c by (simp add: strip_utf8_char utf8_canon_char hash_loop_utf8_char IH)
    qed
  next
    case (bad m)
    then obtain k where "utf8_uni (strip_spaces s) = (k, None)"
      using strip_spaces_prefix utf8_uni_take_bad by metis
    with bad show ?thesis
      by (simp add: hash_loop_utf8_bad utf8_canon_bad)
  qed
qed

lemma collsp_utf8_contract:
  assumes "space_unique_wc up"
  shows "hash_collation (my_strnncollsp_utf8 up) (my_hash_sort_utf8 up)"
proof
  show "my_strnncollsp_utf8 up t s = - my_strnncollsp_utf8 up s t" if "int_length s" "int_length t" for s t
    using that by (rule collsp_utf8_sym)
qed (simp_all add: collsp_utf8_canon [OF assms] hash_sort_utf8_canon)

end
