(* ===== verification/DynArray.thy ===== *)
theory DynArray
  imports Prelude
begin

text \<open>
  The growable array of \<^verbatim>\<open>MySQL/array.c\<close>.  The buffer is a list of element slots, so a
  \<^verbatim>\<open>memcpy\<close> of \<^verbatim>\<open>size_of_element\<close> bytes is the assignment of a slot; sizes in bytes are
  computed with the wrap-around of \<^verbatim>\<open>uint\<close>.  The memory allocator is an argument: it maps a
  size in bytes to a fresh block of slots, or to \<^const>\<open>None\<close> when memory is short.  An
  operation that writes or reads outside its buffer has the result \<^const>\<open>None\<close>.
\<close>

section \<open>State\<close>

record 'a DYNAMIC_ARRAY =
  buffer :: "'a list option"
  is_static :: bool
  elements :: nat
  max_element :: nat
  alloc_increment :: nat
  size_of_element :: nat

text \<open>\<^const>\<open>is_static\<close> is the test \<^verbatim>\<open>array->buffer == (uchar *)(array + 1)\<close>.\<close>

type_synonym 'a alloc = "nat \<Rightarrow> 'a list option"

definition alloc_ok :: "nat \<Rightarrow> 'a alloc \<Rightarrow> bool" where
  "alloc_ok sz alloc \<longleftrightarrow> (\<forall>n blk. alloc n = Some blk \<longrightarrow> length blk = n div sz)"

text \<open>\<^verbatim>\<open>realloc\<close>: the contents are kept up to the smaller of the two sizes.\<close>

definition my_realloc :: "'a alloc \<Rightarrow> 'a list option \<Rightarrow> nat \<Rightarrow> 'a list option" where
  "my_realloc alloc old n =
     (case alloc n of None \<Rightarrow> None
      | Some blk \<Rightarrow> (case old of None \<Rightarrow> Some blk
                     | Some b \<Rightarrow> Some (take (length blk) b @ drop (length b) blk)))"

text \<open>\<^verbatim>\<open>memcpy(new_ptr, buffer, n * size)\<close> of the first \<open>n\<close> slots into a block.\<close>

definition copy_slots :: "'a list \<Rightarrow> 'a list \<Rightarrow> nat \<Rightarrow> 'a list option" where
  "copy_slots blk b n =
     (if n \<le> length blk \<and> n \<le> length b then Some (take n b @ drop n blk) else None)"

definition put_slot :: "'a list option \<Rightarrow> nat \<Rightarrow> 'a \<Rightarrow> 'a list option" where
  "put_slot buf i x =
     (case buf of None \<Rightarrow> None | Some b \<Rightarrow> if i < length b then Some (b[i := x]) else None)"

section \<open>Operations\<close>

definition MALLOC_OVERHEAD :: nat where "MALLOC_OVERHEAD = 8"

definition init_dynamic_array2 ::
  "'a alloc \<Rightarrow> nat \<Rightarrow> 'a list option \<Rightarrow> nat \<Rightarrow> nat \<Rightarrow> 'a DYNAMIC_ARRAY" where
  "init_dynamic_array2 alloc element_size init_buffer init_alloc0 alloc_increment0 =
     (let alloc_inc =
            (if alloc_increment0 = 0 then
               let inc = max ((8192 - MALLOC_OVERHEAD) div element_size) 16
               in if 8 < init_alloc0 \<and> wrap32 (init_alloc0 * 2) < inc then wrap32 (init_alloc0 * 2)
                  else inc
             else alloc_increment0);
          init_alloc = (if init_alloc0 = 0 then alloc_inc else init_alloc0);
          init_buf = (if init_alloc0 = 0 then None else init_buffer);
          arr = \<lparr>buffer = init_buf, is_static = (init_buf \<noteq> None), elements = 0,
                 max_element = init_alloc, alloc_increment = alloc_inc,
                 size_of_element = element_size\<rparr>
      in if init_buf \<noteq> None then arr
         else case alloc (wrap32 (element_size * init_alloc)) of
                Some b \<Rightarrow> arr\<lparr>buffer := Some b\<rparr>
              | None \<Rightarrow> arr\<lparr>max_element := 0\<rparr>)"

text \<open>
  \<open>Some (arr, Some i)\<close>: slot \<open>i\<close> is the space for the new element; \<open>Some (arr, None)\<close>: the
  C function returns the null pointer.
\<close>

definition alloc_dynamic ::
  "'a alloc \<Rightarrow> 'a DYNAMIC_ARRAY \<Rightarrow> ('a DYNAMIC_ARRAY \<times> nat option) option" where
  "alloc_dynamic alloc arr =
     (if elements arr = max_element arr then
        let new_max = wrap32 (max_element arr + alloc_increment arr);
            bytes = wrap32 (new_max * size_of_element arr)
        in if is_static arr then
             (case alloc bytes of
                None \<Rightarrow> Some (arr, None)
              | Some blk \<Rightarrow> do {
                  b \<leftarrow> buffer arr;
                  new_ptr \<leftarrow> copy_slots blk b (elements arr);
                  Some (arr\<lparr>buffer := Some new_ptr, is_static := False, max_element := new_max,
                            elements := wrap32 (elements arr + 1)\<rparr>, Some (elements arr)) })
           else
             (case my_realloc alloc (buffer arr) bytes of
                None \<Rightarrow> Some (arr, None)
              | Some new_ptr \<Rightarrow>
                  Some (arr\<lparr>buffer := Some new_ptr, max_element := new_max,
                            elements := wrap32 (elements arr + 1)\<rparr>, Some (elements arr)))
      else Some (arr\<lparr>elements := wrap32 (elements arr + 1)\<rparr>, Some (elements arr)))"

text \<open>The Boolean result is the C result: true when the insertion failed.\<close>

definition insert_dynamic ::
  "'a alloc \<Rightarrow> 'a DYNAMIC_ARRAY \<Rightarrow> 'a \<Rightarrow> ('a DYNAMIC_ARRAY \<times> bool) option" where
  "insert_dynamic alloc arr element =
     (if elements arr = max_element arr then do {
        (arr', slot) \<leftarrow> alloc_dynamic alloc arr;
        case slot of
          None \<Rightarrow> Some (arr', True)
        | Some i \<Rightarrow> do { b \<leftarrow> put_slot (buffer arr') i element; Some (arr'\<lparr>buffer := Some b\<rparr>, False) } }
      else do {
        b \<leftarrow> put_slot (buffer arr) (elements arr) element;
        Some (arr\<lparr>elements := wrap32 (elements arr + 1), buffer := Some b\<rparr>, False) })"

definition pop_dynamic :: "'a DYNAMIC_ARRAY \<Rightarrow> 'a DYNAMIC_ARRAY \<times> nat option" where
  "pop_dynamic arr =
     (if elements arr \<noteq> 0 then (arr\<lparr>elements := elements arr - 1\<rparr>, Some (elements arr - 1))
      else (arr, None))"

text \<open>
  \<^verbatim>\<open>allocate_dynamic\<close>: the result is true when the allocation failed, except that a static
  buffer whose replacement cannot be allocated is reported as success (\<^verbatim>\<open>return 0\<close>).
\<close>

definition allocate_dynamic ::
  "'a alloc \<Rightarrow> 'a DYNAMIC_ARRAY \<Rightarrow> nat \<Rightarrow> ('a DYNAMIC_ARRAY \<times> bool) option" where
  "allocate_dynamic alloc arr max_elements =
     (if max_element arr \<le> max_elements then
        let sz = wrap32 (wrap32 (max_elements + alloc_increment arr) div alloc_increment arr
                           * alloc_increment arr);
            bytes = wrap32 (sz * size_of_element arr)
        in if is_static arr then
             (case alloc bytes of
                None \<Rightarrow> Some (arr, False)
              | Some blk \<Rightarrow> do {
                  b \<leftarrow> buffer arr;
                  new_ptr \<leftarrow> copy_slots blk b (elements arr);
                  Some (arr\<lparr>buffer := Some new_ptr, is_static := False, max_element := sz\<rparr>, False) })
           else
             (case my_realloc alloc (buffer arr) bytes of
                None \<Rightarrow> Some (arr, True)
              | Some new_ptr \<Rightarrow> Some (arr\<lparr>buffer := Some new_ptr, max_element := sz\<rparr>, False))
      else Some (arr, False))"

text \<open>\<^verbatim>\<open>bzero\<close> of the slots \<open>from, \<dots>, upto - 1\<close>; \<open>zero\<close> is the element whose bytes are 0.\<close>

definition zero_slots :: "'a \<Rightarrow> 'a list option \<Rightarrow> nat \<Rightarrow> nat \<Rightarrow> 'a list option" where
  "zero_slots zero buf from till =
     (case buf of None \<Rightarrow> None
      | Some b \<Rightarrow> if till \<le> length b
                  then Some (take from b @ replicate (till - from) zero @ drop till b) else None)"

definition set_dynamic ::
  "'a \<Rightarrow> 'a alloc \<Rightarrow> 'a DYNAMIC_ARRAY \<Rightarrow> 'a \<Rightarrow> nat \<Rightarrow> ('a DYNAMIC_ARRAY \<times> bool) option" where
  "set_dynamic zero alloc arr element idx = do {
     (arr1, failed) \<leftarrow>
       (if elements arr \<le> idx \<and> max_element arr \<le> idx then allocate_dynamic alloc arr idx
        else Some (arr, False));
     if failed then Some (arr1, True)
     else do {
       arr2 \<leftarrow>
         (if elements arr1 \<le> idx then do {
            b \<leftarrow> zero_slots zero (buffer arr1) (elements arr1) idx;
            Some (arr1\<lparr>buffer := Some b, elements := wrap32 (idx + 1)\<rparr>) }
          else Some arr1);
       b \<leftarrow> put_slot (buffer arr2) idx element;
       Some (arr2\<lparr>buffer := Some b\<rparr>, False) } }"

definition get_dynamic :: "'a \<Rightarrow> 'a DYNAMIC_ARRAY \<Rightarrow> nat \<Rightarrow> 'a option" where
  "get_dynamic zero arr idx =
     (if elements arr \<le> idx then Some zero
      else do { b \<leftarrow> buffer arr; rd b idx })"

definition delete_dynamic :: "'a DYNAMIC_ARRAY \<Rightarrow> 'a DYNAMIC_ARRAY" where
  "delete_dynamic arr =
     (if is_static arr then arr\<lparr>elements := 0\<rparr>
      else if buffer arr \<noteq> None then arr\<lparr>buffer := None, elements := 0, max_element := 0\<rparr>
      else arr)"

text \<open>
  \<^verbatim>\<open>memmove\<close> of the slots behind \<open>idx\<close>; an index beyond the last element makes the number
  of bytes wrap around.
\<close>

definition delete_dynamic_element :: "'a DYNAMIC_ARRAY \<Rightarrow> nat \<Rightarrow> 'a DYNAMIC_ARRAY option" where
  "delete_dynamic_element arr idx =
     (case buffer arr of None \<Rightarrow> None
      | Some b \<Rightarrow>
          if idx < elements arr \<and> elements arr \<le> length b then
            Some (arr\<lparr>elements := elements arr - 1,
                      buffer := Some (take idx b @ take (elements arr - 1 - idx) (drop (idx + 1) b)
                                        @ drop (elements arr - 1) b)\<rparr>)
          else None)"

text \<open>A failing \<^verbatim>\<open>my_realloc\<close> leaves the null pointer in the array.\<close>

definition freeze_size :: "'a alloc \<Rightarrow> 'a DYNAMIC_ARRAY \<Rightarrow> 'a DYNAMIC_ARRAY" where
  "freeze_size alloc arr =
     (let els = max (elements arr) 1
      in if is_static arr then arr
         else if buffer arr \<noteq> None \<and> max_element arr \<noteq> els then
           arr\<lparr>buffer := my_realloc alloc (buffer arr) (wrap32 (els * size_of_element arr)),
               max_element := els\<rparr>
         else arr)"

text \<open>
  \<open>off\<close> is the distance in bytes of the element pointer from the buffer.  The index, a \<^verbatim>\<open>size_t\<close>, is converted to
  \<^verbatim>\<open>int\<close>.
\<close>

definition get_index_dynamic :: "'a DYNAMIC_ARRAY \<Rightarrow> int \<Rightarrow> int" where
  "get_index_dynamic arr off =
     (if off < 0 then -1
      else let ret = nat off div size_of_element arr
           in if elements arr < ret then -1 else to_int (int ret))"


section \<open>The array as a list\<close>

definition contents :: "'a DYNAMIC_ARRAY \<Rightarrow> 'a list" where
  "contents arr = (case buffer arr of None \<Rightarrow> [] | Some b \<Rightarrow> take (elements arr) b)"

definition da_wf :: "'a DYNAMIC_ARRAY \<Rightarrow> bool" where
  "da_wf arr \<longleftrightarrow> elements arr \<le> max_element arr \<and> 0 < alloc_increment arr \<and> 0 < size_of_element arr
     \<and> (case buffer arr of None \<Rightarrow> max_element arr = 0 \<and> \<not> is_static arr
         | Some b \<Rightarrow> length b = max_element arr)"

text \<open>The byte count of an array grown to hold index \<open>n\<close> does not wrap around.\<close>

definition room_for :: "'a DYNAMIC_ARRAY \<Rightarrow> nat \<Rightarrow> bool" where
  "room_for arr n \<longleftrightarrow> (n + alloc_increment arr) * size_of_element arr < 4294967296"

lemma room_forD:
  assumes "room_for arr n" "0 < size_of_element arr"
  shows "n + alloc_increment arr < 4294967296" "n < 4294967296"
proof -
  have "n + alloc_increment arr \<le> (n + alloc_increment arr) * size_of_element arr"
    using assms(2) by simp
  then show "n + alloc_increment arr < 4294967296"
    using assms(1) unfolding room_for_def by linarith
  then show "n < 4294967296" by linarith
qed

lemma contents_length: "da_wf arr \<Longrightarrow> length (contents arr) = elements arr"
  by (auto simp: da_wf_def contents_def split: option.splits)

lemma da_wf_buffer:
  "da_wf arr \<Longrightarrow> 0 < max_element arr \<Longrightarrow> \<exists>b. buffer arr = Some b \<and> length b = max_element arr"
  by (auto simp: da_wf_def split: option.splits)

text \<open>The block handed out by either way of growing keeps the elements.\<close>

lemma my_realloc_Some:
  assumes "alloc_ok sz alloc" "my_realloc alloc old (n * sz) = Some new" "0 < sz"
  shows "length new = n" and "old = Some b \<Longrightarrow> k \<le> length b \<Longrightarrow> k \<le> n \<Longrightarrow> take k new = take k b"
  using assms by (auto simp: my_realloc_def alloc_ok_def min_def split: option.splits)

lemma copy_slots_Some:
  "copy_slots blk b n = Some new \<Longrightarrow> length new = length blk \<and> take n new = take n b"
  by (auto simp: copy_slots_def split: if_splits)

lemma alloc_dynamic_refines:
  assumes wf: "da_wf arr" and al: "alloc_ok (size_of_element arr) alloc"
    and room: "room_for arr (max_element arr)"
  shows "\<exists>arr' slot. alloc_dynamic alloc arr = Some (arr', slot) \<and>
     (case slot of
        None \<Rightarrow> arr' = arr \<and> elements arr = max_element arr
      | Some i \<Rightarrow> i = elements arr \<and> elements arr' = Suc i \<and> da_wf arr'
          \<and> take i (contents arr') = contents arr
          \<and> alloc_increment arr' = alloc_increment arr
          \<and> size_of_element arr' = size_of_element arr
          \<and> max_element arr' = (if elements arr = max_element arr
                                then max_element arr + alloc_increment arr else max_element arr))"
proof (cases "elements arr = max_element arr")
  case False
  moreover have "elements arr < max_element arr" using wf False by (simp add: da_wf_def)
  ultimately show ?thesis
    using wf room_forD(2) [OF room]
    by (auto simp: alloc_dynamic_def da_wf_def contents_def split: option.splits)
next
  case True
  let ?n = "max_element arr + alloc_increment arr"
  have pos: "0 < size_of_element arr" "0 < alloc_increment arr" using wf by (auto simp: da_wf_def)
  note small = room_forD [OF room pos(1)]
  have w: "wrap32 ?n = ?n" "wrap32 (?n * size_of_element arr) = ?n * size_of_element arr"
    using small room by (simp_all add: room_for_def)
  have s: "wrap32 (Suc (max_element arr)) = Suc (max_element arr)"
    using small pos by simp
  show ?thesis
  proof (cases "is_static arr")
    case st: True
    then obtain b where b: "buffer arr = Some b" "length b = max_element arr"
      using wf by (auto simp: da_wf_def split: option.splits)
    show ?thesis
    proof (cases "alloc (?n * size_of_element arr)")
      case None
      then show ?thesis using True st w by (simp add: alloc_dynamic_def Let_def)
    next
      case (Some blk)
      then have "length blk = ?n" using al pos by (simp add: alloc_ok_def)
      then show ?thesis
        using True st w Some b s pos wf
        by (auto simp: alloc_dynamic_def Let_def copy_slots_def da_wf_def contents_def)
    qed
  next
    case st: False
    show ?thesis
    proof (cases "my_realloc alloc (buffer arr) (?n * size_of_element arr)")
      case None
      then show ?thesis using True st w by (simp add: alloc_dynamic_def Let_def)
    next
      case (Some new)
      note new = my_realloc_Some [OF al Some pos(1)]
      have "take (max_element arr) new = contents arr"
        using new(2) [of _ "max_element arr"] wf True
        by (cases "buffer arr") (auto simp: contents_def da_wf_def)
      then show ?thesis
        using True st w Some new(1) s pos wf
        by (auto simp: alloc_dynamic_def Let_def da_wf_def contents_def [of "arr\<lparr>buffer := _, max_element := _, elements := _\<rparr>"] min_def)
    qed
  qed
qed


text \<open>Insertion appends, or reports failure and leaves the array as it was.\<close>

lemma put_slot_contents:
  assumes "da_wf arr" "elements arr = Suc i"
  shows "\<exists>b. put_slot (buffer arr) i x = Some b \<and> da_wf (arr\<lparr>buffer := Some b\<rparr>)
     \<and> contents (arr\<lparr>buffer := Some b\<rparr>) = take i (contents arr) @ [x]"
proof -
  have "0 < max_element arr" using assms by (simp add: da_wf_def)
  then obtain b where b: "buffer arr = Some b" "length b = max_element arr"
    using da_wf_buffer assms(1) by blast
  moreover have "i < length b" using assms b by (simp add: da_wf_def)
  ultimately show ?thesis
    using assms by (simp add: put_slot_def da_wf_def contents_def take_Suc_conv_app_nth min_def)
qed

lemma insert_dynamic_refines:
  assumes wf: "da_wf arr" and al: "alloc_ok (size_of_element arr) alloc"
    and room: "room_for arr (max_element arr)"
  shows "\<exists>arr' failed. insert_dynamic alloc arr x = Some (arr', failed) \<and> da_wf arr' \<and>
     contents arr' = (if failed then contents arr else contents arr @ [x]) \<and>
     (failed \<longrightarrow> arr' = arr \<and> elements arr = max_element arr) \<and>
     alloc_increment arr' = alloc_increment arr \<and> size_of_element arr' = size_of_element arr \<and>
     max_element arr' \<le> max_element arr + alloc_increment arr"
proof -
  obtain arr' slot where a: "alloc_dynamic alloc arr = Some (arr', slot)"
    and r: "case slot of
        None \<Rightarrow> arr' = arr \<and> elements arr = max_element arr
      | Some i \<Rightarrow> i = elements arr \<and> elements arr' = Suc i \<and> da_wf arr'
          \<and> take i (contents arr') = contents arr
          \<and> alloc_increment arr' = alloc_increment arr
          \<and> size_of_element arr' = size_of_element arr
          \<and> max_element arr' = (if elements arr = max_element arr
                                then max_element arr + alloc_increment arr else max_element arr)"
    using alloc_dynamic_refines [OF assms] by blast
  have full: "insert_dynamic alloc arr x =
      (case slot of None \<Rightarrow> Some (arr', True)
       | Some i \<Rightarrow> do { b \<leftarrow> put_slot (buffer arr') i x; Some (arr'\<lparr>buffer := Some b\<rparr>, False) })"
  proof (cases "elements arr = max_element arr")
    case True
    then show ?thesis using a by (simp add: insert_dynamic_def)
  next
    case False
    then have "arr' = arr\<lparr>elements := wrap32 (elements arr + 1)\<rparr>" "slot = Some (elements arr)"
      using a by (auto simp: alloc_dynamic_def)
    then show ?thesis using False by (simp add: insert_dynamic_def)
  qed
  show ?thesis
  proof (cases slot)
    case None
    then show ?thesis using full r wf by auto
  next
    case (Some i)
    then have ri: "elements arr' = Suc i" "da_wf arr'" "take i (contents arr') = contents arr"
      and rest: "alloc_increment arr' = alloc_increment arr" "size_of_element arr' = size_of_element arr"
        "max_element arr' \<le> max_element arr + alloc_increment arr"
      using r by auto
    obtain b where b: "put_slot (buffer arr') i x = Some b" "da_wf (arr'\<lparr>buffer := Some b\<rparr>)"
        "contents (arr'\<lparr>buffer := Some b\<rparr>) = take i (contents arr') @ [x]"
      using put_slot_contents [OF ri(2,1)] by blast
    then have "insert_dynamic alloc arr x = Some (arr'\<lparr>buffer := Some b\<rparr>, False)"
      using full Some by simp
    with b(2,3) ri(3) rest show ?thesis by simp
  qed
qed

lemma pop_dynamic_refines:
  assumes "da_wf arr"
  shows "da_wf (fst (pop_dynamic arr)) \<and> contents (fst (pop_dynamic arr)) = butlast (contents arr)
     \<and> snd (pop_dynamic arr) = (if contents arr = [] then None else Some (length (contents arr) - 1))"
proof -
  have "length (contents arr) = elements arr" using assms by (rule contents_length)
  moreover have "contents (arr\<lparr>elements := elements arr - 1\<rparr>) = butlast (contents arr)"
    using assms by (auto simp: contents_def da_wf_def butlast_take split: option.splits)
  moreover have "contents arr = [] \<longleftrightarrow> elements arr = 0"
    using calculation(1) by auto
  ultimately show ?thesis
    using assms by (simp add: pop_dynamic_def) (auto simp: da_wf_def split: option.splits)
qed

lemma get_dynamic_refines:
  assumes "da_wf arr"
  shows "get_dynamic zero arr i = Some (if i < length (contents arr) then contents arr ! i else zero)"
proof (cases "i < elements arr")
  case True
  then have "0 < max_element arr" using assms by (simp add: da_wf_def)
  then obtain b where "buffer arr = Some b" "length b = max_element arr"
    using da_wf_buffer assms by blast
  with True assms show ?thesis
    by (simp add: get_dynamic_def contents_length) (simp add: contents_def da_wf_def)
qed (use assms in \<open>simp add: get_dynamic_def contents_length\<close>)

lemma delete_dynamic_element_refines:
  assumes "da_wf arr" "i < length (contents arr)"
  shows "\<exists>arr'. delete_dynamic_element arr i = Some arr' \<and> da_wf arr'
     \<and> contents arr' = take i (contents arr) @ drop (Suc i) (contents arr)"
proof -
  have i: "i < elements arr" using assms contents_length by metis
  then have "0 < max_element arr" using assms by (simp add: da_wf_def)
  then obtain b where b: "buffer arr = Some b" "length b = max_element arr"
    using da_wf_buffer assms(1) by blast
  then have "elements arr \<le> length b" using assms(1) by (simp add: da_wf_def)
  have "take (elements arr - 1) (take i b @ take (elements arr - 1 - i) (drop (i + 1) b)
      @ drop (elements arr - 1) b) = take i (take (elements arr) b) @ drop (Suc i) (take (elements arr) b)"
  proof -
    obtain e where e: "elements arr = Suc e" "i \<le> e" "e < length b"
      using i \<open>elements arr \<le> length b\<close> by (cases "elements arr") auto
    then have "length (take i b @ take (e - i) (drop (i + 1) b)) = e"
      by simp
    then have "take e ((take i b @ take (e - i) (drop (i + 1) b)) @ drop e b)
        = take i b @ take (e - i) (drop (i + 1) b)"
      by (metis append_eq_conv_conj)
    then show ?thesis using e by (simp add: drop_take)
  qed
  then show ?thesis
    using i b assms(1) \<open>elements arr \<le> length b\<close>
    by (simp add: delete_dynamic_element_def da_wf_def contents_def)
qed

text \<open>
  Setting an element past the end fills the gap with zeroed elements.  The case excluded by
  the hypothesis is a static buffer whose replacement cannot be allocated.
\<close>

definition list_set :: "'a \<Rightarrow> 'a list \<Rightarrow> nat \<Rightarrow> 'a \<Rightarrow> 'a list" where
  "list_set zero xs i x =
     (if i < length xs then xs[i := x] else xs @ replicate (i - length xs) zero @ [x])"

lemma set_in_range:
  assumes "da_wf arr" "i < max_element arr" "max_element arr < 4294967296"
  shows "\<exists>arr'. set_dynamic zero alloc arr x i = Some (arr', False) \<and> da_wf arr'
     \<and> contents arr' = list_set zero (contents arr) i x"
proof -
  have "0 < max_element arr" using assms by linarith
  then obtain b where b: "buffer arr = Some b" "length b = max_element arr"
    using da_wf_buffer assms(1) by blast
  have el: "elements arr \<le> length b" using assms b by (simp add: da_wf_def)
  show ?thesis
  proof (cases "i < elements arr")
    case True
    with b el assms show ?thesis
      by (simp add: set_dynamic_def put_slot_def da_wf_def contents_def list_set_def
          take_update_swap)
  next
    case False
    with b el assms show ?thesis
      by (simp add: set_dynamic_def put_slot_def zero_slots_def da_wf_def contents_def list_set_def
          list_update_append nth_append take_Suc_conv_app_nth list_update_beyond)
  qed
qed


text \<open>Rounding the requested size up to a multiple of the increment gives room for the index.\<close>

lemma round_up:
  assumes "0 < (inc :: nat)"
  shows "i < (i + inc) div inc * inc" "(i + inc) div inc * inc \<le> i + inc"
proof -
  have "(i + inc) div inc * inc + (i + inc) mod inc = i + inc"
    by (rule div_mult_mod_eq)
  moreover have "(i + inc) mod inc < inc" using assms by simp
  ultimately show "i < (i + inc) div inc * inc" "(i + inc) div inc * inc \<le> i + inc"
    by linarith+
qed

lemma allocate_dynamic_refines:
  assumes wf: "da_wf arr" and al: "alloc_ok (size_of_element arr) alloc"
    and room: "room_for arr i" and dyn: "\<not> is_static arr" and big: "max_element arr \<le> i"
  shows "\<exists>arr' failed. allocate_dynamic alloc arr i = Some (arr', failed) \<and>
     (if failed then arr' = arr
      else da_wf arr' \<and> contents arr' = contents arr \<and> i < max_element arr'
        \<and> max_element arr' < 4294967296)"
proof -
  let ?inc = "alloc_increment arr"
  let ?n = "(i + ?inc) div ?inc * ?inc"
  have pos: "0 < size_of_element arr" "0 < ?inc" using wf by (auto simp: da_wf_def)
  note n = round_up [OF pos(2), of i]
  have "?n * size_of_element arr \<le> (i + ?inc) * size_of_element arr"
    using n(2) by (rule mult_le_mono1)
  then have bytes: "?n * size_of_element arr < 4294967296"
    using room unfolding room_for_def by linarith
  have small: "i + ?inc < 4294967296" by (rule room_forD(1) [OF room pos(1)])
  then have small_n: "?n < 4294967296" using n(2) by linarith
  have eq: "allocate_dynamic alloc arr i =
      (case my_realloc alloc (buffer arr) (?n * size_of_element arr) of
         None \<Rightarrow> Some (arr, True)
       | Some new_ptr \<Rightarrow> Some (arr\<lparr>buffer := Some new_ptr, max_element := ?n\<rparr>, False))"
    using big dyn by (simp only: allocate_dynamic_def Let_def wrap32_small [OF small]
        wrap32_small [OF small_n] wrap32_small [OF bytes] if_True if_False)
  show ?thesis
  proof (cases "my_realloc alloc (buffer arr) (?n * size_of_element arr)")
    case None
    then show ?thesis using eq by auto
  next
    case (Some new)
    note new = my_realloc_Some [OF al Some pos(1)]
    have el: "elements arr \<le> ?n"
      using wf big n(1) unfolding da_wf_def by linarith
    then have "contents (arr\<lparr>buffer := Some new, max_element := ?n\<rparr>) = contents arr"
      using new(2) [of _ "elements arr"] wf
      by (cases "buffer arr") (auto simp: contents_def da_wf_def)
    moreover have "da_wf (arr\<lparr>buffer := Some new, max_element := ?n\<rparr>)"
      using wf new(1) dyn el by (simp add: da_wf_def)
    ultimately show ?thesis
      using eq Some small_n n(1) by auto
  qed
qed

lemma set_dynamic_refines:
  assumes wf: "da_wf arr" and al: "alloc_ok (size_of_element arr) alloc"
    and room: "room_for arr (max i (max_element arr))" and dyn: "\<not> is_static arr"
  shows "\<exists>arr' failed. set_dynamic zero alloc arr x i = Some (arr', failed) \<and> da_wf arr'
     \<and> contents arr' = (if failed then contents arr else list_set zero (contents arr) i x)"
proof (cases "i < max_element arr")
  case True
  then have "max_element arr < 4294967296"
    using room_forD(2) [OF room] wf by (simp add: da_wf_def)
  then show ?thesis
    using set_in_range [OF wf True, of zero alloc x] by auto
next
  case False
  then have big: "elements arr \<le> i" "max_element arr \<le> i" using wf by (auto simp: da_wf_def)
  have "room_for arr i" using room False by (simp add: max_def)
  then obtain arr1 failed where a: "allocate_dynamic alloc arr i = Some (arr1, failed)"
    and r: "if failed then arr1 = arr
      else da_wf arr1 \<and> contents arr1 = contents arr \<and> i < max_element arr1
        \<and> max_element arr1 < 4294967296"
    using allocate_dynamic_refines [OF wf al _ dyn big(2)] by blast
  show ?thesis
  proof (cases failed)
    case True
    then show ?thesis using a r big wf by (auto simp: set_dynamic_def)
  next
    case ok: False
    then have r1: "da_wf arr1" "contents arr1 = contents arr" "i < max_element arr1"
        "max_element arr1 < 4294967296" using r by auto
    have "set_dynamic zero alloc arr x i = set_dynamic zero alloc arr1 x i"
      using a ok big r1 by (simp add: set_dynamic_def)
    then show ?thesis
      using set_in_range [OF r1(1,3,4), of zero alloc x] r1(2) by auto
  qed
qed

section \<open>The interface of a growable sequence\<close>

text \<open>
  What the hash table and the string library use the array for: a sequence to whose end an
  element is added, or not when memory is short, and from whose end one is removed.
\<close>

locale growable =
  fixes items :: "'v \<Rightarrow> 'a list"
    and ok :: "nat \<Rightarrow> 'v \<Rightarrow> bool"  \<comment> \<open>well formed, with room for that many further elements\<close>
    and push :: "'v \<Rightarrow> 'a \<Rightarrow> 'v \<times> bool"
    and pop :: "'v \<Rightarrow> 'v"
  assumes push_items: "ok (Suc n) v \<Longrightarrow> items (fst (push v x)) = (if snd (push v x) then items v else items v @ [x])"
    and push_ok: "ok (Suc n) v \<Longrightarrow> ok n (fst (push v x))"
    and pop_items: "ok n v \<Longrightarrow> items (pop v) = butlast (items v)"
begin

fun push_all :: "'v \<Rightarrow> 'a list \<Rightarrow> 'v \<times> bool" where
  "push_all v [] = (v, False)"
| "push_all v (x # xs) = (let (v', failed) = push v x in if failed then (v', True) else push_all v' xs)"

lemma push_all_items:
  "ok (length xs) v \<Longrightarrow> \<exists>ys zs. xs = ys @ zs \<and> items (fst (push_all v xs)) = items v @ ys
     \<and> (\<not> snd (push_all v xs) \<longrightarrow> zs = [])"
proof (induction xs arbitrary: v)
  case (Cons x xs)
  obtain v' failed where p: "push v x = (v', failed)" by (cases "push v x")
  have v': "items v' = (if failed then items v else items v @ [x])" "ok (length xs) v'"
    using push_items [of "length xs" v x] push_ok [of "length xs" v x] Cons.prems p by auto
  show ?case
  proof (cases failed)
    case True
    then show ?thesis using p v' by auto
  next
    case False
    then obtain ys zs where "xs = ys @ zs" "items (fst (push_all v' xs)) = items v' @ ys"
        "\<not> snd (push_all v' xs) \<longrightarrow> zs = []"
      using Cons.IH [OF v'(2)] by blast
    then show ?thesis
      using p v'(1) False by (intro exI [of _ "x # ys"] exI [of _ zs]) simp
  qed
qed simp

lemma pop_push: "ok (Suc n) v \<Longrightarrow> \<not> snd (push v x) \<Longrightarrow> items (pop (fst (push v x))) = items v"
  using push_items [of n v x] push_ok [of n v x] pop_items by simp

end

text \<open>The array with its allocator; a result \<^const>\<open>None\<close> never occurs on well-formed arrays.\<close>

definition da_push :: "'a alloc \<times> 'a DYNAMIC_ARRAY \<Rightarrow> 'a \<Rightarrow> ('a alloc \<times> 'a DYNAMIC_ARRAY) \<times> bool" where
  "da_push v x =
     (case insert_dynamic (fst v) (snd v) x of
        Some (arr', failed) \<Rightarrow> ((fst v, arr'), failed)
      | None \<Rightarrow> (v, True))"

definition da_ok :: "nat \<Rightarrow> 'a alloc \<times> 'a DYNAMIC_ARRAY \<Rightarrow> bool" where
  "da_ok n v \<longleftrightarrow> da_wf (snd v) \<and> alloc_ok (size_of_element (snd v)) (fst v)
     \<and> (max_element (snd v) + n * alloc_increment (snd v)) * size_of_element (snd v) < 4294967296"

lemma da_push_refines:
  assumes "da_ok (Suc n) v"
  shows "contents (snd (fst (da_push v x))) =
      (if snd (da_push v x) then contents (snd v) else contents (snd v) @ [x])
    \<and> da_ok n (fst (da_push v x))"
proof -
  obtain alloc arr where v: "v = (alloc, arr)" by (cases v)
  have a: "da_wf arr" "alloc_ok (size_of_element arr) alloc"
    "(max_element arr + Suc n * alloc_increment arr) * size_of_element arr < 4294967296"
    using assms by (simp_all add: da_ok_def v)
  have "(max_element arr + alloc_increment arr) * size_of_element arr
      \<le> (max_element arr + Suc n * alloc_increment arr) * size_of_element arr"
    by (intro mult_le_mono1) simp
  then have "room_for arr (max_element arr)"
    using a(3) unfolding room_for_def by linarith
  then obtain arr' failed where i: "insert_dynamic alloc arr x = Some (arr', failed)" "da_wf arr'"
      "contents arr' = (if failed then contents arr else contents arr @ [x])"
      "alloc_increment arr' = alloc_increment arr" "size_of_element arr' = size_of_element arr"
      "max_element arr' \<le> max_element arr + alloc_increment arr"
    using insert_dynamic_refines [OF a(1,2)] by blast
  have "(max_element arr' + n * alloc_increment arr) * size_of_element arr
      \<le> (max_element arr + Suc n * alloc_increment arr) * size_of_element arr"
    using i(6) by (intro mult_le_mono1) simp
  then have "(max_element arr' + n * alloc_increment arr) * size_of_element arr < 4294967296"
    using a(3) by linarith
  with i a(2) show ?thesis
    by (simp add: da_push_def da_ok_def v)
qed

interpretation da: growable "\<lambda>v. contents (snd v)" da_ok da_push
  "\<lambda>v. (fst v, fst (pop_dynamic (snd v)))"
proof
  show "da_ok n v \<Longrightarrow> contents (snd (fst v, fst (pop_dynamic (snd v)))) = butlast (contents (snd v))"
    for n and v :: "'a alloc \<times> 'a DYNAMIC_ARRAY"
    using pop_dynamic_refines [of "snd v"] by (simp add: da_ok_def)
qed (rule conjunct1 [OF da_push_refines] conjunct2 [OF da_push_refines], assumption)+

section \<open>Properties\<close>

text \<open>
  C28: on a well-formed array whose growth does not wrap around, \<^verbatim>\<open>insert_dynamic\<close> appends the
  element or, when memory is short and the array full, fails and changes nothing;
  \<^verbatim>\<open>pop_dynamic\<close> removes the last element.  No access leaves the buffer.
\<close>
theorem dynamic_array_stack:
  assumes "da_wf arr" "alloc_ok (size_of_element arr) alloc" "room_for arr (max_element arr)"
  shows "\<exists>arr' failed. insert_dynamic alloc arr x = Some (arr', failed) \<and> da_wf arr'
    \<and> contents arr' = (if failed then contents arr else contents arr @ [x])
    \<and> (failed \<longrightarrow> arr' = arr \<and> elements arr = max_element arr)
    \<and> contents (fst (pop_dynamic arr')) = butlast (contents arr')"
  using insert_dynamic_refines [OF assms, of x] pop_dynamic_refines by blast

definition demo_alloc_byte :: "nat alloc" where
  "demo_alloc_byte n = (if n \<le> 16 then Some (replicate (n div 4) 0) else None)"

definition demo_array :: "nat list \<Rightarrow> nat DYNAMIC_ARRAY" where
  "demo_array xs = \<lparr>buffer = Some xs, is_static = False, elements = length xs, max_element = length xs,
     alloc_increment = 2, size_of_element = 4\<rparr>"

theorem dynamic_array_stack_witness:
  "(\<exists>arr'. insert_dynamic demo_alloc_byte (demo_array [5, 6]) 7 = Some (arr', False)
       \<and> contents arr' = [5, 6, 7])
   \<and> insert_dynamic demo_alloc_byte (demo_array [5, 6, 7]) 8 = Some (demo_array [5, 6, 7], True)"
proof -
  have al: "alloc_ok 4 demo_alloc_byte" by (simp add: alloc_ok_def demo_alloc_byte_def)
  have e: "alloc_dynamic demo_alloc_byte (demo_array [5, 6, 7]) = Some (demo_array [5, 6, 7], None)"
    "\<exists>a i. alloc_dynamic demo_alloc_byte (demo_array [5, 6]) = Some (a, Some i)"
    by (simp_all add: alloc_dynamic_def demo_array_def demo_alloc_byte_def my_realloc_def)
  show ?thesis
    using dynamic_array_stack [of "demo_array [5, 6]" demo_alloc_byte 7]
      dynamic_array_stack [of "demo_array [5, 6, 7]" demo_alloc_byte 8] al e
    by (auto simp: demo_array_def da_wf_def room_for_def contents_def insert_dynamic_def)
qed

text \<open>
  \<^verbatim>\<open>set_dynamic\<close> stores the element at any index, filling the gap with zero elements, and
  \<^verbatim>\<open>delete_dynamic_element\<close> removes an element and closes the gap.
\<close>
theorem dynamic_array_index:
  assumes "da_wf arr" "alloc_ok (size_of_element arr) alloc"
    and "room_for arr (max i (max_element arr))" "\<not> is_static arr"
  shows "\<exists>arr' failed. set_dynamic zero alloc arr x i = Some (arr', failed) \<and> da_wf arr'
     \<and> contents arr' = (if failed then contents arr else list_set zero (contents arr) i x)
     \<and> (\<forall>j < length (contents arr'). \<exists>arr''. delete_dynamic_element arr' j = Some arr'' \<and> da_wf arr''
          \<and> contents arr'' = take j (contents arr') @ drop (Suc j) (contents arr'))"
  using set_dynamic_refines [OF assms, of zero x] delete_dynamic_element_refines by blast

theorem dynamic_array_index_witness:
  "\<exists>arr' arr''. set_dynamic 0 demo_alloc_byte (demo_array [5]) 7 3 = Some (arr', False)
     \<and> contents arr' = [5, 0, 0, 7]
     \<and> delete_dynamic_element arr' 1 = Some arr'' \<and> contents arr'' = [5, 0, 7]"
proof -
  have al: "alloc_ok 4 demo_alloc_byte" by (simp add: alloc_ok_def demo_alloc_byte_def)
  have w: "da_wf (demo_array [5])" "room_for (demo_array [5]) (max 3 (max_element (demo_array [5])))"
    "\<not> is_static (demo_array [5])" "size_of_element (demo_array [5]) = 4"
    by (simp_all add: demo_array_def da_wf_def room_for_def)
  have c: "list_set 0 (contents (demo_array [5])) 3 7 = [5, 0, 0, 7]"
    by (simp add: list_set_def contents_def demo_array_def numeral_eq_Suc)
  have ok: "\<exists>a. set_dynamic 0 demo_alloc_byte (demo_array [5]) 7 3 = Some (a, False)"
    by (simp add: set_dynamic_def allocate_dynamic_def demo_array_def demo_alloc_byte_def
        my_realloc_def zero_slots_def put_slot_def)
  obtain a where a: "set_dynamic 0 demo_alloc_byte (demo_array [5]) 7 3 = Some (a, False)"
    "contents a = [5, 0, 0, 7]"
    "\<forall>j < length (contents a). \<exists>b. delete_dynamic_element a j = Some b \<and> da_wf b
       \<and> contents b = take j (contents a) @ drop (Suc j) (contents a)"
    using dynamic_array_index [OF w(1) _ w(2,3), of demo_alloc_byte 0 7] al w(4) c ok by auto
  then show ?thesis by (auto simp: dest: spec [of _ 1])
qed

text \<open>
  When the replacement of a static buffer cannot be allocated, \<^verbatim>\<open>allocate_dynamic\<close> reports
  success without making room, and \<^verbatim>\<open>set_dynamic\<close> then writes outside the buffer.
\<close>
theorem allocate_dynamic_static_failure:
  "allocate_dynamic (\<lambda>_. None) ((demo_array [5, 6])\<lparr>is_static := True\<rparr>) 3
     = Some ((demo_array [5, 6])\<lparr>is_static := True\<rparr>, False)
   \<and> set_dynamic 0 (\<lambda>_. None) ((demo_array [5, 6])\<lparr>is_static := True\<rparr>) 7 3 = None"
  by (simp add: allocate_dynamic_def set_dynamic_def demo_array_def zero_slots_def)

text \<open>
  \<^verbatim>\<open>get_index_dynamic\<close> accepts the address one past the last element: of an array with \<open>n\<close>
  elements it returns the index \<open>n\<close>, which names no element.
\<close>
theorem get_index_dynamic_end:
  "length xs < 2147483648 \<Longrightarrow> get_index_dynamic (demo_array xs) (int (4 * length xs)) = int (length xs)"
  by (simp add: get_index_dynamic_def demo_array_def nat_mult_distrib)

end
