(* ===== verification/Hash.thy ===== *)
theory Hash
  imports Collation DynArray
begin

text \<open>
  The hash table of \<^verbatim>\<open>MySQL/hash.c\<close>: linear hashing in a \<^verbatim>\<open>DYNAMIC_ARRAY\<close> of links.  The record
  with index \<open>i\<close> is in slot \<open>i\<close>; the records that hash to the same slot form a chain that starts
  in that slot.  An insertion splits one chain, a deletion merges two.  A result \<^const>\<open>None\<close> is an
  access outside the array, the use of an uninitialised variable, or a loop that does not end.
\<close>

section \<open>State\<close>

text \<open>\<^const>\<open>None\<close> as a link is \<^verbatim>\<open>NO_RECORD\<close>.  Records are pointers, of any type.\<close>

record 'r HASH_LINK =
  link_next :: "nat option"
  link_data :: 'r

text \<open>The two operations of \<^verbatim>\<open>CHARSET_INFO\<close> that the hash table calls.\<close>

record CHARSET_INFO =
  cs_strnncoll :: "byte list \<Rightarrow> byte list \<Rightarrow> int"
  cs_hash_sort :: "byte list \<Rightarrow> u64 \<times> u64 \<Rightarrow> u64 \<times> u64"

text \<open>
  \<open>rec_bytes\<close> is the memory behind a record pointer, \<open>get_key\<close> the key with its length that the
  call-back extracts; \<open>has_free\<close> tells whether there is a \<^verbatim>\<open>free\<close> call-back.
\<close>

record 'r HASH =
  key_offset :: nat
  key_length :: nat
  blength :: nat
  records :: nat
  flags :: nat
  harray :: "'r HASH_LINK DYNAMIC_ARRAY"
  get_key :: "('r \<Rightarrow> bool \<Rightarrow> byte list) option"
  has_free :: bool
  charset :: CHARSET_INFO
  rec_bytes :: "'r \<Rightarrow> byte list"

definition HASH_UNIQUE :: nat where "HASH_UNIQUE = 1"

definition LOWFIND :: nat where "LOWFIND = 1"
definition LOWUSED :: nat where "LOWUSED = 2"
definition HIGHFIND :: nat where "HIGHFIND = 4"
definition HIGHUSED :: nat where "HIGHUSED = 8"

lemmas flag_defs = LOWFIND_def LOWUSED_def HIGHFIND_def HIGHUSED_def

section \<open>Keys and positions\<close>

definition my_hash_key :: "'r HASH \<Rightarrow> 'r \<Rightarrow> bool \<Rightarrow> byte list" where
  "my_hash_key hash record first =
     (case get_key hash of
        Some f \<Rightarrow> f record first
      | None \<Rightarrow> take (key_length hash) (drop (key_offset hash) (rec_bytes hash record)))"

text \<open>The accumulator is a \<^verbatim>\<open>ulong\<close>, the result a \<^verbatim>\<open>uint\<close>.\<close>

definition calc_hash :: "'r HASH \<Rightarrow> byte list \<Rightarrow> nat" where
  "calc_hash hash key = unat (ucast (fst (cs_hash_sort (charset hash) key (1, 4))) :: u32)"

text \<open>\<^verbatim>\<open>n - 1\<close> for a \<^verbatim>\<open>size_t\<close>.\<close>

definition size_dec :: "nat \<Rightarrow> nat" where
  "size_dec n = (if n = 0 then 2 ^ 64 - 1 else n - 1)"

definition my_hash_mask :: "nat \<Rightarrow> nat \<Rightarrow> nat \<Rightarrow> nat" where
  "my_hash_mask hashnr buffmax maxlength =
     (if hashnr AND size_dec buffmax < maxlength then hashnr AND size_dec buffmax
      else hashnr AND size_dec (drop_bit 1 buffmax))"

definition rec_hashnr :: "'r HASH \<Rightarrow> 'r \<Rightarrow> nat" where
  "rec_hashnr hash record = calc_hash hash (my_hash_key hash record False)"

definition my_hash_rec_mask :: "'r HASH \<Rightarrow> 'r HASH_LINK \<Rightarrow> nat \<Rightarrow> nat \<Rightarrow> nat" where
  "my_hash_rec_mask hash pos buffmax maxlength =
     my_hash_mask (calc_hash hash (my_hash_key hash (link_data pos) False)) buffmax maxlength"

text \<open>
  \<open>key\<close> is the memory from the key pointer on; the comparison reads as many bytes of it as the
  key of the record has.  True: the keys differ.
\<close>

definition hashcmp :: "'r HASH \<Rightarrow> 'r HASH_LINK \<Rightarrow> byte list \<Rightarrow> nat \<Rightarrow> bool" where
  "hashcmp hash pos key len =
     (let rec_key = my_hash_key hash (link_data pos) True
      in len \<noteq> 0 \<and> len \<noteq> length rec_key
         \<or> cs_strnncoll (charset hash) rec_key (take (length rec_key) key) \<noteq> 0)"

definition data_of :: "'r HASH \<Rightarrow> 'r HASH_LINK list" where
  "data_of hash = (case buffer (harray hash) of None \<Rightarrow> [] | Some b \<Rightarrow> b)"

definition with_data :: "'r HASH \<Rightarrow> 'r HASH_LINK list \<Rightarrow> 'r HASH" where
  "with_data hash d = hash\<lparr>harray := (harray hash)\<lparr>buffer := Some d\<rparr>\<rparr>"

section \<open>Creation and destruction\<close>

definition my_hash_init ::
  "'r HASH_LINK alloc \<Rightarrow> nat \<Rightarrow> 'r HASH \<Rightarrow> nat \<Rightarrow> CHARSET_INFO \<Rightarrow> nat \<Rightarrow> nat \<Rightarrow> nat
     \<Rightarrow> ('r \<Rightarrow> bool \<Rightarrow> byte list) option \<Rightarrow> bool \<Rightarrow> nat \<Rightarrow> 'r HASH" where
  "my_hash_init alloc link_size hash growth_size cs sz offset len gk fr flgs =
     hash\<lparr>records := 0, key_offset := offset, key_length := len, blength := 1, get_key := gk,
          has_free := fr, flags := flgs, charset := cs,
          harray := init_dynamic_array2 alloc link_size None sz growth_size\<rparr>"

text \<open>The records handed to the \<^verbatim>\<open>free\<close> call-back, in order.\<close>

definition my_hash_free_elements :: "'r HASH \<Rightarrow> 'r HASH \<times> 'r list" where
  "my_hash_free_elements hash =
     (hash\<lparr>records := 0\<rparr>,
      if has_free hash then map link_data (take (records hash) (data_of hash)) else [])"

definition my_hash_free :: "'r HASH \<Rightarrow> 'r HASH \<times> 'r list" where
  "my_hash_free hash =
     (let (h, freed) = my_hash_free_elements hash
      in (h\<lparr>has_free := False, harray := delete_dynamic (harray h), blength := 0\<rparr>, freed))"

definition my_hash_reset :: "'r HASH \<Rightarrow> 'r HASH \<times> 'r list" where
  "my_hash_reset hash =
     (let (h, freed) = my_hash_free_elements hash
      in (h\<lparr>harray := (harray h)\<lparr>elements := 0\<rparr>, blength := 1\<rparr>, freed))"

section \<open>Search\<close>

text \<open>\<open>Some (record, idx)\<close>: the record found and the new search state.\<close>

partial_function (option) first_loop ::
  "'r HASH \<Rightarrow> byte list \<Rightarrow> nat \<Rightarrow> bool \<Rightarrow> nat \<Rightarrow> ('r \<times> nat) option option" where
  "first_loop hash key len flag idx = do {
     pos \<leftarrow> rd (data_of hash) idx;
     if \<not> hashcmp hash pos key len then Some (Some (link_data pos, idx))
     else if flag \<and> my_hash_rec_mask hash pos (blength hash) (records hash) \<noteq> idx then Some None
     else case link_next pos of None \<Rightarrow> Some None | Some i \<Rightarrow> first_loop hash key len False i }"

definition my_hash_first :: "'r HASH \<Rightarrow> byte list \<Rightarrow> nat \<Rightarrow> ('r \<times> nat) option option" where
  "my_hash_first hash key len =
     (if records hash \<noteq> 0 then
        first_loop hash key len True
          (my_hash_mask (calc_hash hash (take (if len \<noteq> 0 then len else key_length hash) key))
             (blength hash) (records hash))
      else Some None)"

definition my_hash_search :: "'r HASH \<Rightarrow> byte list \<Rightarrow> nat \<Rightarrow> 'r option option" where
  "my_hash_search hash key len = map_option (map_option fst) (my_hash_first hash key len)"

partial_function (option) next_loop ::
  "'r HASH \<Rightarrow> byte list \<Rightarrow> nat \<Rightarrow> nat option \<Rightarrow> ('r \<times> nat) option option" where
  "next_loop hash key len idx =
     (case idx of None \<Rightarrow> Some None
      | Some i \<Rightarrow> do {
          pos \<leftarrow> rd (data_of hash) i;
          if \<not> hashcmp hash pos key len then Some (Some (link_data pos, i))
          else next_loop hash key len (link_next pos) })"

definition my_hash_next ::
  "'r HASH \<Rightarrow> byte list \<Rightarrow> nat \<Rightarrow> nat option \<Rightarrow> ('r \<times> nat) option option" where
  "my_hash_next hash key len current_record =
     (case current_record of None \<Rightarrow> Some None
      | Some cur \<Rightarrow> do {
          l \<leftarrow> rd (data_of hash) cur;
          next_loop hash key len (link_next l) })"

section \<open>Insertion\<close>

partial_function (option) movelink ::
  "'r HASH_LINK list \<Rightarrow> nat option \<Rightarrow> nat \<Rightarrow> nat option \<Rightarrow> 'r HASH_LINK list option" where
  "movelink array fnd next_link newlink = do {
     old_link \<leftarrow> rd array next_link;
     if link_next old_link = fnd then Some (array[next_link := old_link\<lparr>link_next := newlink\<rparr>])
     else case link_next old_link of
         None \<Rightarrow> None
       | Some k \<Rightarrow> movelink array fnd k newlink }"

text \<open>
  The state of the split: the flags, the array, the free slot \<^verbatim>\<open>empty\<close>, and the pairs
  \<^verbatim>\<open>gpos, ptr_to_rec\<close> and \<^verbatim>\<open>gpos2, ptr_to_rec2\<close>, \<^const>\<open>None\<close> while uninitialised.
\<close>

record 'r split =
  sp_flag :: nat
  sp_data :: "'r HASH_LINK list"
  sp_hole :: nat
  sp_low :: "(nat \<times> 'r) option"
  sp_high :: "(nat \<times> 'r) option"

definition set_link ::
  "'r HASH_LINK list \<Rightarrow> (nat \<times> 'r) option \<Rightarrow> nat option \<Rightarrow> 'r HASH_LINK list option" where
  "set_link d g nxt = do {
     (slot, r) \<leftarrow> g;
     if slot < length d then Some (d[slot := \<lparr>link_next = nxt, link_data = r\<rparr>]) else None }"

definition split_low :: "nat \<Rightarrow> 'r \<Rightarrow> 'r split \<Rightarrow> 'r split option" where
  "split_low pos r s =
     (if sp_flag s AND LOWFIND = 0 then
        if sp_flag s AND HIGHFIND \<noteq> 0 then
          Some (s\<lparr>sp_flag := LOWFIND OR HIGHFIND, sp_low := Some (sp_hole s, r), sp_hole := pos\<rparr>)
        else Some (s\<lparr>sp_flag := LOWFIND OR LOWUSED, sp_low := Some (pos, r)\<rparr>)
      else if sp_flag s AND LOWUSED = 0 then do {
        d \<leftarrow> set_link (sp_data s) (sp_low s) (Some pos);
        Some (s\<lparr>sp_data := d, sp_flag := (sp_flag s AND HIGHFIND) OR (LOWFIND OR LOWUSED),
                sp_low := Some (pos, r)\<rparr>) }
      else Some (s\<lparr>sp_low := Some (pos, r)\<rparr>))"

definition split_high :: "nat \<Rightarrow> 'r \<Rightarrow> 'r split \<Rightarrow> 'r split option" where
  "split_high pos r s =
     (if sp_flag s AND HIGHFIND = 0 then
        Some (s\<lparr>sp_flag := (sp_flag s AND LOWFIND) OR HIGHFIND, sp_high := Some (sp_hole s, r),
                sp_hole := pos\<rparr>)
      else if sp_flag s AND HIGHUSED = 0 then do {
        d \<leftarrow> set_link (sp_data s) (sp_high s) (Some pos);
        Some (s\<lparr>sp_data := d, sp_flag := (sp_flag s AND LOWFIND) OR (HIGHFIND OR HIGHUSED),
                sp_high := Some (pos, r)\<rparr>) }
      else Some (s\<lparr>sp_high := Some (pos, r)\<rparr>))"

partial_function (option) split_loop ::
  "'r HASH \<Rightarrow> nat \<Rightarrow> nat \<Rightarrow> 'r split \<Rightarrow> nat \<Rightarrow> 'r split option" where
  "split_loop info halfbuff first_index s idx = do {
     pos \<leftarrow> rd (sp_data s) idx;
     let hash_nr = rec_hashnr info (link_data pos);
     if sp_flag s = 0 \<and> my_hash_mask hash_nr (blength info) (records info) \<noteq> first_index then Some s
     else do {
       s' \<leftarrow> (if hash_nr AND halfbuff = 0 then split_low idx (link_data pos) s
              else split_high idx (link_data pos) s);
       pos' \<leftarrow> rd (sp_data s') idx;
       case link_next pos' of
         None \<Rightarrow> Some s'
       | Some i \<Rightarrow> split_loop info halfbuff first_index s' i } }"

text \<open>The last keys of the two chains are written after the loop.\<close>

definition split_finish :: "'r split \<Rightarrow> ('r HASH_LINK list \<times> nat) option" where
  "split_finish s = do {
     d1 \<leftarrow> (if sp_flag s AND (LOWFIND OR LOWUSED) = LOWFIND
            then set_link (sp_data s) (sp_low s) None else Some (sp_data s));
     d2 \<leftarrow> (if sp_flag s AND (HIGHFIND OR HIGHUSED) = HIGHFIND
            then set_link d1 (sp_high s) None else Some d1);
     Some (d2, sp_hole s) }"

definition split_chain ::
  "'r HASH \<Rightarrow> 'r HASH_LINK list \<Rightarrow> nat \<Rightarrow> ('r HASH_LINK list \<times> nat) option" where
  "split_chain info d hole =
     (let halfbuff = drop_bit 1 (blength info); idx = records info - halfbuff
      in if idx \<noteq> records info then do {
           s \<leftarrow> split_loop info halfbuff idx
                 \<lparr>sp_flag = 0, sp_data = d, sp_hole = hole, sp_low = None, sp_high = None\<rparr> idx;
           split_finish s }
         else Some (d, hole))"

text \<open>The new record goes to its slot; what is there moves to the free slot.\<close>

definition place_record ::
  "'r HASH \<Rightarrow> 'r HASH_LINK list \<Rightarrow> nat \<Rightarrow> 'r \<Rightarrow> 'r HASH_LINK list option" where
  "place_record info d hole record =
     (let idx = my_hash_mask (rec_hashnr info record) (blength info) (records info + 1)
      in do {
        pos \<leftarrow> rd d idx;
        if idx = hole then Some (d[idx := \<lparr>link_next = None, link_data = record\<rparr>])
        else if length d \<le> hole then None
        else
          let d1 = d[hole := pos];
              gpos = my_hash_rec_mask info pos (blength info) (records info + 1)
          in if idx = gpos then Some (d1[idx := \<lparr>link_next = Some hole, link_data = record\<rparr>])
             else movelink (d1[idx := \<lparr>link_next = None, link_data = record\<rparr>])
                    (Some idx) gpos (Some hole) })"

text \<open>The Boolean result is true when the insertion failed.\<close>

definition my_hash_insert ::
  "'r HASH_LINK alloc \<Rightarrow> 'r HASH \<Rightarrow> 'r \<Rightarrow> ('r HASH \<times> bool) option" where
  "my_hash_insert alloc info record = do {
     dup \<leftarrow> (if HASH_UNIQUE AND flags info \<noteq> 0 then
               let key = my_hash_key info record True in my_hash_search info key (length key)
             else Some None);
     if dup \<noteq> None then Some (info, True)
     else do {
       (arr, slot) \<leftarrow> alloc_dynamic alloc (harray info);
       case slot of
         None \<Rightarrow> Some (info\<lparr>harray := arr\<rparr>, True)
       | Some hole \<Rightarrow> do {
           let info1 = info\<lparr>harray := arr\<rparr>;
           (d, hole') \<leftarrow> split_chain info1 (data_of info1) hole;
           d' \<leftarrow> place_record info1 d hole' record;
           let n = records info + 1;
           Some ((with_data info1 d')\<lparr>records := n,
                   blength := (if n = blength info then blength info + blength info
                               else blength info)\<rparr>, False) } } }"

section \<open>Deletion\<close>

text \<open>The search for the record by its address: the slot and the slot before it.\<close>

partial_function (option) find_record ::
  "'r HASH_LINK list \<Rightarrow> 'r \<Rightarrow> nat \<Rightarrow> nat option \<Rightarrow> (nat \<times> nat option) option option" where
  "find_record d record pos gpos = do {
     l \<leftarrow> rd d pos;
     if link_data l = record then Some (Some (pos, gpos))
     else case link_next l of
         None \<Rightarrow> Some None
       | Some i \<Rightarrow> find_record d record i (Some pos) }"

text \<open>Unlink the slot \<open>pos\<close>; the result names the slot that is free afterwards.\<close>

definition unlink_record ::
  "'r HASH_LINK list \<Rightarrow> nat \<Rightarrow> nat option \<Rightarrow> ('r HASH_LINK list \<times> nat) option" where
  "unlink_record d pos gpos = do {
     l \<leftarrow> rd d pos;
     case gpos of
       Some g \<Rightarrow> do { lg \<leftarrow> rd d g; Some (d[g := lg\<lparr>link_next := link_next l\<rparr>], pos) }
     | None \<Rightarrow>
         (case link_next l of
            None \<Rightarrow> Some (d, pos)
          | Some e \<Rightarrow> do { le \<leftarrow> rd d e; Some (d[pos := le], e) }) }"

text \<open>
  Move the last record into the free slot.  \<open>hash\<close> has the reduced \<^const>\<open>records\<close> and
  \<^const>\<open>blength\<close>; \<open>blen\<close> is the old one.
\<close>

definition fill_hole ::
  "'r HASH \<Rightarrow> nat \<Rightarrow> 'r HASH_LINK list \<Rightarrow> nat \<Rightarrow> 'r HASH_LINK list option" where
  "fill_hole hash blen d hole =
     (let lastpos = records hash
      in if hole = lastpos then Some d
         else do {
           lastl \<leftarrow> rd d lastpos;
           let lastpos_hashnr = rec_hashnr hash (link_data lastl);
           let pos = my_hash_mask lastpos_hashnr (blength hash) (records hash);
           if pos = hole then Some (d[hole := lastl])
           else do {
             l \<leftarrow> rd d pos;
             let pos_hashnr = rec_hashnr hash (link_data l);
             let pos3 = my_hash_mask pos_hashnr (blength hash) (records hash);
             if pos \<noteq> pos3 then movelink (d[hole := l, pos := lastl]) (Some pos) pos3 (Some hole)
             else
               let pos2 = my_hash_mask lastpos_hashnr blen (records hash + 1);
                   same = (pos2 = my_hash_mask pos_hashnr blen (records hash + 1))
               in if same \<and> pos2 \<noteq> records hash then
                    movelink (d[hole := lastl]) (Some lastpos) pos (Some hole)
                  else do {
                    d' \<leftarrow> movelink (d[hole := lastl]) (if same then Some pos else None) hole
                           (link_next l);
                    l' \<leftarrow> rd d' pos;
                    Some (d'[pos := l'\<lparr>link_next := Some hole\<rparr>]) } } })"

text \<open>The third component is the record handed to the \<^verbatim>\<open>free\<close> call-back.\<close>

definition my_hash_delete :: "'r HASH \<Rightarrow> 'r \<Rightarrow> ('r HASH \<times> bool \<times> 'r list) option" where
  "my_hash_delete hash record =
     (if records hash = 0 then Some (hash, True, [])
      else do {
        found \<leftarrow> find_record (data_of hash) record
                  (my_hash_mask (rec_hashnr hash record) (blength hash) (records hash)) None;
        case found of
          None \<Rightarrow> Some (hash, True, [])
        | Some (pos, gpos) \<Rightarrow> do {
            let n = records hash - 1;
            let b = (if n < drop_bit 1 (blength hash) then drop_bit 1 (blength hash)
                     else blength hash);
            (d, hole) \<leftarrow> unlink_record (data_of hash) pos gpos;
            let h1 = hash\<lparr>records := n, blength := b\<rparr>;
            d' \<leftarrow> fill_hole h1 (blength hash) d hole;
            let h2 = with_data h1 d';
            Some (h2\<lparr>harray := fst (pop_dynamic (harray h2))\<rparr>, False,
                  if has_free hash then [record] else []) } })"

section \<open>Update, access by index, replacement\<close>

text \<open>The inner loop of the uniqueness check: is a different record found under the new key?\<close>

partial_function (option) other_record ::
  "'r HASH \<Rightarrow> 'r \<Rightarrow> byte list \<Rightarrow> ('r \<times> nat) option \<Rightarrow> bool option" where
  "other_record hash record key found =
     (case found of None \<Rightarrow> Some False
      | Some (r, state) \<Rightarrow>
          if r \<noteq> record then Some True
          else do {
            found' \<leftarrow> my_hash_next hash key (length key) (Some state);
            other_record hash record key found' })"

definition relink_record ::
  "'r HASH \<Rightarrow> 'r HASH_LINK list \<Rightarrow> nat \<Rightarrow> nat option \<Rightarrow> nat \<Rightarrow> 'r HASH_LINK list option" where
  "relink_record hash d idx previous new_index = do {
     org_link \<leftarrow> rd d idx;
     (d1, hole) \<leftarrow> unlink_record d idx previous;
     if new_index = hole then do {
       let d2 = (if hole \<noteq> idx then d1[hole := org_link] else d1);
       l \<leftarrow> rd d2 hole;
       Some (d2[hole := l\<lparr>link_next := None\<rparr>]) }
     else do {
       pos \<leftarrow> rd d1 new_index;
       let new_pos_index = my_hash_rec_mask hash pos (blength hash) (records hash);
       if new_index \<noteq> new_pos_index then do {
         d2 \<leftarrow> movelink (d1[hole := pos]) (Some new_index) new_pos_index (Some hole);
         Some (d2[new_index := org_link\<lparr>link_next := None\<rparr>]) }
       else
         Some (d1[hole := org_link\<lparr>link_next := link_next pos\<rparr>,
                  new_index := pos\<lparr>link_next := Some hole\<rparr>]) } }"

definition my_hash_update ::
  "'r HASH \<Rightarrow> 'r \<Rightarrow> byte list \<Rightarrow> nat \<Rightarrow> ('r HASH \<times> bool) option" where
  "my_hash_update hash record old_key old_key_length = do {
     dup \<leftarrow> (if HASH_UNIQUE AND flags hash \<noteq> 0 then do {
               let new_key = my_hash_key hash record True;
               found \<leftarrow> my_hash_first hash new_key (length new_key);
               other_record hash record new_key found }
             else Some False);
     if dup then Some (hash, True)
     else do {
       let idx = my_hash_mask
             (calc_hash hash (take (if old_key_length \<noteq> 0 then old_key_length else key_length hash) old_key))
             (blength hash) (records hash);
       let new_index = my_hash_mask (rec_hashnr hash record) (blength hash) (records hash);
       if idx = new_index then Some (hash, False)
       else do {
         found \<leftarrow> find_record (data_of hash) record idx None;
         case found of
           None \<Rightarrow> Some (hash, True)
         | Some (pos, previous) \<Rightarrow> do {
             d \<leftarrow> relink_record hash (data_of hash) pos previous new_index;
             Some (with_data hash d, False) } } } }"

definition my_hash_element :: "'r HASH \<Rightarrow> nat \<Rightarrow> 'r option option" where
  "my_hash_element hash idx =
     (if idx < records hash then map_option (\<lambda>l. Some (link_data l)) (rd (data_of hash) idx)
      else Some None)"

definition my_hash_replace :: "'r HASH \<Rightarrow> nat option \<Rightarrow> 'r \<Rightarrow> 'r HASH option" where
  "my_hash_replace hash current_record new_row =
     (case current_record of None \<Rightarrow> Some hash
      | Some cur \<Rightarrow> do {
          l \<leftarrow> rd (data_of hash) cur;
          Some (with_data hash ((data_of hash)[cur := l\<lparr>link_data := new_row\<rparr>])) })"

declare first_loop.simps [code] next_loop.simps [code] movelink.simps [code]
  split_loop.simps [code] find_record.simps [code] other_record.simps [code]

end
