(* ===== verification/HashChain.thy ===== *)
theory HashChain
  imports Hash "HOL-Library.Multiset"
begin

text \<open>
  The invariant of the hash table of \<open>Hash\<close>, its arithmetic and its chains: \<open>linked\<close> says that
  the records of every home slot form a chain that starts in that slot.
\<close>

section \<open>Positions\<close>

lemma and_mask_mod: "h AND (2 ^ k - 1) = h mod 2 ^ k" for h :: nat
  by (simp only: take_bit_eq_mod [symmetric] take_bit_eq_mask mask_eq_exp_minus_1)

lemma mask_mod:
  "my_hash_mask h (2 * 2 ^ m) n = (if h mod (2 * 2 ^ m) < n then h mod (2 * 2 ^ m) else h mod 2 ^ m)"
proof -
  have "h AND (2 * 2 ^ m - 1) = h mod (2 * 2 ^ m)" using and_mask_mod [of h "Suc m"] by simp
  then show ?thesis using and_mask_mod [of h m] by (simp add: my_hash_mask_def size_dec_def drop_bit_eq_div)
qed

lemma mask_one: "0 < n \<Longrightarrow> my_hash_mask h 1 n = 0"
  by (simp add: my_hash_mask_def size_dec_def)

lemma half_bit: "h AND 2 ^ m = 0 \<longleftrightarrow> h mod (2 * 2 ^ m) < 2 ^ m" for h :: nat
proof -
  have e: "h mod (2 * 2 ^ m) = 2 ^ m * (h div 2 ^ m mod 2) + h mod 2 ^ m"
    using mod_mult2_eq [of h "2 ^ m" 2] by (simp only: mult.commute [of "2 ^ m" 2])
  have l: "h mod 2 ^ m < 2 ^ m" by simp
  have "h AND 2 ^ m = 0 \<longleftrightarrow> even (h div 2 ^ m)"
    by (simp add: and_exp_eq_0_iff_not_bit bit_iff_odd)
  also have "\<dots> \<longleftrightarrow> h mod (2 * 2 ^ m) < 2 ^ m"
    unfolding e using l by (cases "even (h div 2 ^ m)") (auto simp: odd_iff_mod_2_eq_one)
  finally show ?thesis .
qed

text \<open>\<open>blength\<close> is the power of two above \<open>records\<close>.\<close>

definition blen_ok :: "nat \<Rightarrow> nat \<Rightarrow> bool" where
  "blen_ok b n \<longleftrightarrow> b = 1 \<and> n = 0 \<or> (\<exists>m. b = 2 * 2 ^ m \<and> 2 ^ m \<le> n \<and> n < b)"

lemma mask_less: "blen_ok b n \<Longrightarrow> 0 < n \<Longrightarrow> my_hash_mask h b n < n"
proof -
  assume "blen_ok b n" "0 < n"
  then obtain m where m: "b = 2 * 2 ^ m" "2 ^ m \<le> n" by (auto simp: blen_ok_def)
  have "h mod 2 ^ m < 2 ^ m" by simp
  then have "h mod 2 ^ m < n" using m(2) by (rule less_le_trans)
  then show ?thesis by (simp add: mask_mod m(1))
qed

lemma mod_half: "\<not> h mod (2 * 2 ^ m) < 2 ^ m \<Longrightarrow> h mod (2 * 2 ^ m) = 2 ^ m + h mod 2 ^ m"
  for h :: nat
proof -
  assume a: "\<not> h mod (2 * 2 ^ m) < 2 ^ m"
  have "h mod (2 * 2 ^ m) mod 2 ^ m = h mod 2 ^ m" by (simp add: mod_mod_cancel)
  moreover have "h mod (2 * 2 ^ m) < 2 * 2 ^ m" by simp
  ultimately show ?thesis using a by (metis add_diff_inverse_nat le_mod_geq less_diff_conv2
        mod_less mult_2 not_less)
qed

lemma split_mask:
  assumes m: "2 ^ m \<le> n" "n < 2 * 2 ^ m"
  shows "my_hash_mask h (2 * 2 ^ m) (n + 1) =
      (if h mod (2 * 2 ^ m) = n then n else my_hash_mask h (2 * 2 ^ m) n)"
    and "h mod (2 * 2 ^ m) = n \<Longrightarrow> my_hash_mask h (2 * 2 ^ m) n = n - 2 ^ m"
    and "my_hash_mask h (2 * 2 ^ m) n = n - 2 ^ m \<Longrightarrow> h AND 2 ^ m = 0 \<longleftrightarrow> h mod (2 * 2 ^ m) \<noteq> n"
proof -
  show "my_hash_mask h (2 * 2 ^ m) (n + 1) =
      (if h mod (2 * 2 ^ m) = n then n else my_hash_mask h (2 * 2 ^ m) n)"
    by (auto simp: mask_mod)
  show "my_hash_mask h (2 * 2 ^ m) n = n - 2 ^ m" if "h mod (2 * 2 ^ m) = n"
    using that m mod_half [of h m] by (simp add: mask_mod)
  show "h AND 2 ^ m = 0 \<longleftrightarrow> h mod (2 * 2 ^ m) \<noteq> n" if "my_hash_mask h (2 * 2 ^ m) n = n - 2 ^ m"
    using that m mod_half [of h m] mod_less_divisor [of "2 ^ m" h]
    by (auto simp: mask_mod half_bit split: if_splits)
qed

lemma double_mask: "my_hash_mask h (2 * (2 * 2 ^ m)) (2 * 2 ^ m) = my_hash_mask h (2 * 2 ^ m) (2 * 2 ^ m)"
proof -
  have "h mod (2 * 2 ^ Suc m) < 2 ^ Suc m \<Longrightarrow> h mod (2 * 2 ^ Suc m) = h mod 2 ^ Suc m"
    by (metis mod_less mod_mod_cancel dvd_triv_right)
  then show ?thesis using mask_mod [of h "Suc m" "2 * 2 ^ m"] mask_mod [of h m "2 * 2 ^ m"] by simp
qed

section \<open>Chains\<close>

abbreviation nx :: "'r HASH_LINK list \<Rightarrow> nat \<Rightarrow> nat option" where "nx d i \<equiv> link_next (d ! i)"
abbreviation dt :: "'r HASH_LINK list \<Rightarrow> nat \<Rightarrow> 'r" where "dt d i \<equiv> link_data (d ! i)"

text \<open>The slots \<open>xs\<close> are linked from \<open>s\<close> on, and the last link is \<open>e\<close>.\<close>

fun lseg :: "'r HASH_LINK list \<Rightarrow> nat option \<Rightarrow> nat list \<Rightarrow> nat option \<Rightarrow> bool" where
  "lseg d s [] e \<longleftrightarrow> s = e"
| "lseg d s (x # xs) e \<longleftrightarrow> s = Some x \<and> x < length d \<and> lseg d (nx d x) xs e"

lemma lseg_append: "lseg d s (xs @ ys) e \<longleftrightarrow> (\<exists>m. lseg d s xs m \<and> lseg d m ys e)"
  by (induction xs arbitrary: s) auto

lemma lseg_frame:
  "lseg d s xs e \<Longrightarrow> (\<And>x. x \<in> set xs \<Longrightarrow> d' ! x = d ! x) \<Longrightarrow> length d' = length d \<Longrightarrow> lseg d' s xs e"
  by (induction xs arbitrary: s) auto

lemma lseg_bound: "lseg d s xs e \<Longrightarrow> x \<in> set xs \<Longrightarrow> x < length d"
  by (induction xs arbitrary: s) auto

definition cls :: "('r \<Rightarrow> nat) \<Rightarrow> 'r HASH_LINK list \<Rightarrow> nat set \<Rightarrow> nat \<Rightarrow> nat set" where
  "cls hm d used h = {j \<in> used. hm (dt d j) = h}"

definition chain_of ::
  "('r \<Rightarrow> nat) \<Rightarrow> 'r HASH_LINK list \<Rightarrow> nat set \<Rightarrow> nat \<Rightarrow> nat list \<Rightarrow> bool" where
  "chain_of hm d used h xs \<longleftrightarrow> lseg d (Some h) xs None \<and> distinct xs \<and> set xs = cls hm d used h"

definition linked :: "('r \<Rightarrow> nat) \<Rightarrow> 'r HASH_LINK list \<Rightarrow> nat set \<Rightarrow> bool" where
  "linked hm d used \<longleftrightarrow> (\<forall>j \<in> used. \<exists>xs. chain_of hm d used (hm (dt d j)) xs)"

lemma linkedD: "linked hm d used \<Longrightarrow> j \<in> used \<Longrightarrow> \<exists>xs. chain_of hm d used (hm (dt d j)) xs"
  by (simp add: linked_def)

lemma chain_of_head:
  assumes "chain_of hm d used h xs"
  obtains ys where "xs = h # ys" "h \<in> used" "hm (dt d h) = h" "h < length d"
proof (cases xs)
  case (Cons x ys)
  then have "x = h" "h < length d" using assms by (auto simp: chain_of_def)
  moreover have "h \<in> cls hm d used h"
    using assms Cons \<open>x = h\<close> by (auto simp: chain_of_def)
  ultimately show ?thesis using that Cons by (auto simp: cls_def)
qed (use assms in \<open>simp add: chain_of_def\<close>)

text \<open>A chain exists exactly for the slots whose record is at home.\<close>

lemma linked_home:
  assumes "linked hm d used" "j \<in> used"
  shows "hm (dt d j) \<in> used" "hm (dt d (hm (dt d j))) = hm (dt d j)"
  using linkedD [OF assms] chain_of_head by metis+

text \<open>
  Change of the array, the used slots and the homes: the classes of all heads outside \<open>T\<close> are
  as before, and for the heads in \<open>T\<close> there are chains.
\<close>

lemma linked_change:
  assumes l: "linked hm d used" and len: "length d' = length d"
    and same: "\<And>j. j \<in> used' \<Longrightarrow> hm' (dt d' j) \<notin> T \<Longrightarrow>
      j \<in> used \<and> d' ! j = d ! j \<and> hm (dt d j) = hm' (dt d j)"
    and conv: "\<And>j. j \<in> used \<Longrightarrow> hm (dt d j) \<notin> T \<Longrightarrow>
      j \<in> used' \<and> d' ! j = d ! j \<and> hm (dt d j) = hm' (dt d j)"
    and new: "\<And>h. h \<in> T \<Longrightarrow> cls hm' d' used' h \<noteq> {} \<Longrightarrow> \<exists>xs. chain_of hm' d' used' h xs"
  shows "linked hm' d' used'"
  unfolding linked_def
proof
  fix j
  assume j: "j \<in> used'"
  let ?h = "hm' (dt d' j)"
  show "\<exists>xs. chain_of hm' d' used' ?h xs"
  proof (cases "?h \<in> T")
    case True
    then show ?thesis using new [OF True] j by (auto simp: cls_def)
  next
    case False
    note s = same [OF j False]
    then obtain xs where xs: "chain_of hm d used ?h xs" using linkedD [OF l, of j] by auto
    have "cls hm' d' used' ?h = cls hm d used ?h"
      unfolding cls_def using same conv False by (metis (mono_tags, lifting))
    moreover have "d' ! x = d ! x" if "x \<in> set xs" for x
      using that xs conv False by (auto simp: chain_of_def cls_def)
    ultimately have "chain_of hm' d' used' ?h xs"
      using xs lseg_frame [of d _ xs _ d'] len by (auto simp: chain_of_def)
    then show ?thesis ..
  qed
qed

lemma linked_mono_hm: "linked hm d used \<Longrightarrow> (\<And>r. hm' r = hm r) \<Longrightarrow> linked hm' d used"
  by (metis ext)

section \<open>The invariant of the table\<close>

definition home :: "'r HASH \<Rightarrow> 'r \<Rightarrow> nat" where
  "home hash r = my_hash_mask (rec_hashnr hash r) (blength hash) (records hash)"

definition hash_wf :: "'r HASH \<Rightarrow> bool" where
  "hash_wf hash \<longleftrightarrow> da_wf (harray hash) \<and> elements (harray hash) = records hash
     \<and> blen_ok (blength hash) (records hash)
     \<and> linked (home hash) (data_of hash) {..<records hash}"

text \<open>The records in the table.\<close>

definition hash_records :: "'r HASH \<Rightarrow> 'r list" where
  "hash_records hash = map link_data (take (records hash) (data_of hash))"

lemma data_of_length: "da_wf (harray hash) \<Longrightarrow> length (data_of hash) = max_element (harray hash)"
  by (auto simp: da_wf_def data_of_def split: option.splits)

lemma hash_wf_length: "hash_wf hash \<Longrightarrow> records hash \<le> length (data_of hash)"
  by (simp add: hash_wf_def data_of_length) (simp add: da_wf_def)

lemma rec_mask_home:
  "my_hash_rec_mask hash (data_of hash ! i) (blength hash) (records hash) = home hash (dt (data_of hash) i)"
  by (simp add: my_hash_rec_mask_def home_def rec_hashnr_def)

section \<open>Search\<close>

definition key_match :: "'r HASH \<Rightarrow> byte list \<Rightarrow> nat \<Rightarrow> 'r \<Rightarrow> bool" where
  "key_match hash key len r \<longleftrightarrow>
     (let rk = my_hash_key hash r True
      in (len = 0 \<or> len = length rk) \<and> cs_strnncoll (charset hash) rk (take (length rk) key) = 0)"

lemma hashcmp_match: "hashcmp hash l key len \<longleftrightarrow> \<not> key_match hash key len (link_data l)"
  by (auto simp: hashcmp_def key_match_def Let_def)

text \<open>
  What the table needs of its parameters: the key of a record does not depend on the purpose it
  is asked for, and the keys of records that compare equal with the given key hash as it does; a search
  without a length needs keys of the fixed length.
\<close>

definition key_stable :: "'r HASH \<Rightarrow> bool" where
  "key_stable hash \<longleftrightarrow> (\<forall>r. my_hash_key hash r True = my_hash_key hash r False)"

definition good_key :: "'r HASH \<Rightarrow> byte list \<Rightarrow> bool" where
  "good_key hash key \<longleftrightarrow>
     (\<forall>r. let rk = my_hash_key hash r True; k = take (length rk) key
      in cs_strnncoll (charset hash) rk k = 0 \<longrightarrow>
           cs_hash_sort (charset hash) rk (1, 4) = cs_hash_sort (charset hash) k (1, 4))"

definition len_ok :: "'r HASH \<Rightarrow> nat \<Rightarrow> bool" where
  "len_ok hash len \<longleftrightarrow> len \<noteq> 0 \<or> (\<forall>r. length (my_hash_key hash r True) = key_length hash)"

definition key_home :: "'r HASH \<Rightarrow> byte list \<Rightarrow> nat \<Rightarrow> nat" where
  "key_home hash key len =
     my_hash_mask (calc_hash hash (take (if len \<noteq> 0 then len else key_length hash) key))
       (blength hash) (records hash)"

lemma match_home:
  assumes "key_stable hash" "good_key hash key" "len_ok hash len" "key_match hash key len r"
  shows "home hash r = key_home hash key len"
proof -
  let ?k = "my_hash_key hash r True"
  have m: "len = 0 \<or> len = length ?k" "cs_strnncoll (charset hash) ?k (take (length ?k) key) = 0"
    using assms(4) by (auto simp: key_match_def Let_def)
  have "(if len \<noteq> 0 then len else key_length hash) = length ?k"
    using m(1) assms(3) unfolding len_ok_def by metis
  moreover have "calc_hash hash ?k = calc_hash hash (take (length ?k) key)"
    using m(2) assms(2) by (simp add: calc_hash_def good_key_def Let_def)
  ultimately show ?thesis
    using assms(1) by (simp add: home_def key_home_def rec_hashnr_def key_stable_def)
qed

lemma next_loop_chain:
  "lseg (data_of hash) s xs None \<Longrightarrow>
     next_loop hash key len s =
       Some (map_option (\<lambda>x. (dt (data_of hash) x, x))
         (List.find (\<lambda>x. key_match hash key len (dt (data_of hash) x)) xs))"
proof (induction xs arbitrary: s)
  case Nil
  then show ?case by (subst next_loop.simps) simp
next
  case (Cons x xs)
  then show ?case by (subst next_loop.simps) (auto simp: hashcmp_match)
qed

lemma first_loop_chain:
  "lseg (data_of hash) (Some x) (x # xs) None \<Longrightarrow> flag \<longrightarrow> home hash (dt (data_of hash) x) = x \<Longrightarrow>
     first_loop hash key len flag x =
       Some (map_option (\<lambda>x. (dt (data_of hash) x, x))
         (List.find (\<lambda>x. key_match hash key len (dt (data_of hash) x)) (x # xs)))"
proof (induction xs arbitrary: x flag)
  case Nil
  then show ?case by (subst first_loop.simps) (auto simp: hashcmp_match rec_mask_home)
next
  case (Cons y ys)
  then show ?case
    using Cons.IH [of y False] by (subst first_loop.simps) (auto simp: hashcmp_match rec_mask_home)
qed

text \<open>The results of \<^verbatim>\<open>my_hash_first\<close> and the following \<^verbatim>\<open>my_hash_next\<close> are the slots \<open>xs\<close>.\<close>

primrec visits :: "'r HASH \<Rightarrow> byte list \<Rightarrow> nat \<Rightarrow> ('r \<times> nat) option option \<Rightarrow> nat list \<Rightarrow> bool" where
  "visits hash key len res [] \<longleftrightarrow> res = Some None"
| "visits hash key len res (x # xs) \<longleftrightarrow> res = Some (Some (dt (data_of hash) x, x))
     \<and> visits hash key len (my_hash_next hash key len (Some x)) xs"

lemma visits_chain:
  "lseg (data_of hash) s xs None \<Longrightarrow>
     visits hash key len (next_loop hash key len s)
       (filter (\<lambda>x. key_match hash key len (dt (data_of hash) x)) xs)"
proof (induction xs arbitrary: s)
  case Nil
  then show ?case by (subst next_loop.simps) simp
next
  case (Cons x xs)
  show ?case
  proof (cases "key_match hash key len (dt (data_of hash) x)")
    case True
    then have "next_loop hash key len s = Some (Some (dt (data_of hash) x, x))"
      using Cons.prems by (subst next_loop.simps) (auto simp: hashcmp_match)
    moreover have "my_hash_next hash key len (Some x) = next_loop hash key len (nx (data_of hash) x)"
      using Cons.prems by (simp add: my_hash_next_def)
    ultimately show ?thesis using Cons True by simp
  next
    case False
    then have "next_loop hash key len s = next_loop hash key len (nx (data_of hash) x)"
      using Cons.prems by (subst next_loop.simps) (auto simp: hashcmp_match)
    then show ?thesis using Cons False by simp
  qed
qed

theorem first_next_visits:
  assumes wf: "hash_wf hash" and key: "key_stable hash" "good_key hash key" "len_ok hash len"
  shows "\<exists>xs. visits hash key len (my_hash_first hash key len) xs \<and> distinct xs
    \<and> set xs = {i. i < records hash \<and> key_match hash key len (dt (data_of hash) i)}"
proof (cases "records hash = 0")
  case True
  then show ?thesis by (intro exI [of _ "[]"]) (simp add: my_hash_first_def)
next
  case False
  let ?d = "data_of hash" and ?h = "key_home hash key len" and ?m = "key_match hash key len"
  have h: "?h < records hash"
    using mask_less [of "blength hash" "records hash"] wf False by (simp add: hash_wf_def key_home_def)
  have first: "my_hash_first hash key len = first_loop hash key len True ?h"
    using False by (simp add: my_hash_first_def key_home_def)
  have l: "linked (home hash) ?d {..<records hash}" using wf by (simp add: hash_wf_def)
  have hd: "rd ?d ?h = Some (?d ! ?h)" using h hash_wf_length [OF wf] by simp
  have only: "home hash (dt ?d i) = ?h" if "?m (dt ?d i)" for i
    using match_home [OF key that] .
  show ?thesis
  proof (cases "home hash (dt ?d ?h) = ?h")
    case True
    then obtain xs where xs: "chain_of (home hash) ?d {..<records hash} ?h xs"
      using linkedD [OF l, of ?h] h by auto
    then obtain ys where ys: "xs = ?h # ys" by (rule chain_of_head)
    have "first_loop hash key len True ?h = next_loop hash key len (Some ?h)"
      using first_loop_chain [of hash ?h ys True key len] next_loop_chain [of hash "Some ?h" xs key len]
        xs True unfolding ys chain_of_def by simp
    then have "visits hash key len (my_hash_first hash key len) (filter (\<lambda>x. ?m (dt ?d x)) xs)"
      using visits_chain [of hash "Some ?h" xs key len] xs by (simp add: first chain_of_def)
    moreover have "set (filter (\<lambda>x. ?m (dt ?d x)) xs) = {i. i < records hash \<and> ?m (dt ?d i)}"
      using xs only by (auto simp: chain_of_def cls_def)
    ultimately show ?thesis using xs by (auto simp: chain_of_def)
  next
    case False
    then have nm: "\<not> ?m (dt ?d ?h)" using only by blast
    have "first_loop hash key len True ?h = Some None"
      using False nm by (subst first_loop.simps) (simp add: hd hashcmp_match rec_mask_home)
    moreover have "\<not> ?m (dt ?d i)" if "i < records hash" for i
      using linked_home [OF l, of i] only [of i] that False by auto
    ultimately show ?thesis by (intro exI [of _ "[]"]) (auto simp: first)
  qed
qed

lemma set_take_nth: "n \<le> length xs \<Longrightarrow> set (take n xs) = (\<lambda>i. xs ! i) ` {..<n}"
  by (simp add: nth_image [symmetric] atLeast0LessThan)

lemma mem_hash_records:
  "records hash \<le> length (data_of hash) \<Longrightarrow>
     r \<in> set (hash_records hash) \<longleftrightarrow> (\<exists>j \<in> {..<records hash}. dt (data_of hash) j = r)"
  by (simp add: hash_records_def set_take_nth image_image) blast

corollary search_correct:
  assumes "hash_wf hash" "key_stable hash" "good_key hash key" "len_ok hash len"
  shows "\<exists>res. my_hash_search hash key len = Some res
    \<and> (case res of None \<Rightarrow> \<forall>r \<in> set (hash_records hash). \<not> key_match hash key len r
       | Some r \<Rightarrow> r \<in> set (hash_records hash) \<and> key_match hash key len r)"
proof -
  obtain xs where v: "visits hash key len (my_hash_first hash key len) xs"
    and s: "set xs = {i. i < records hash \<and> key_match hash key len (dt (data_of hash) i)}"
    using first_next_visits [OF assms] by blast
  have rs: "set (hash_records hash) = dt (data_of hash) ` {..<records hash}"
    using mem_hash_records [OF hash_wf_length [OF assms(1)]] by (auto simp: image_iff)
  show ?thesis
  proof (cases xs)
    case Nil
    then show ?thesis using v s by (auto simp: my_hash_search_def rs)
  next
    case (Cons x ys)
    then have "x \<in> set xs" by simp
    then show ?thesis using v Cons s by (auto simp: my_hash_search_def rs)
  qed
qed

end
