(* ===== verification/HashSplit.thy ===== *)
theory HashSplit
  imports HashChain
begin

text \<open>
  The loop of \<^verbatim>\<open>my_hash_insert\<close> that splits one chain in two: the invariant of its flags and of
  the two chains under construction.
\<close>

section \<open>Splitting a chain\<close>

text \<open>
  One of the two chains under construction: the slots \<open>L\<close> with the records \<open>K\<close>, linked up to the
  last slot, which \<^verbatim>\<open>gpos, ptr_to_rec\<close> name; when the flag \<open>isused\<close> is set the last slot holds its
  record and its link is \<open>nxt\<close>.
\<close>

definition side ::
  "bool \<Rightarrow> bool \<Rightarrow> 'r HASH_LINK list \<Rightarrow> nat \<Rightarrow> nat list \<Rightarrow> 'r list \<Rightarrow> (nat \<times> 'r) option \<Rightarrow> nat option \<Rightarrow> bool"
  where
  "side isfound isused D start L K ptr nxt \<longleftrightarrow>
     (isfound \<longleftrightarrow> L \<noteq> []) \<and> length K = length L
     \<and> (L \<noteq> [] \<longrightarrow> hd L = start \<and> ptr = Some (last L, last K)
          \<and> lseg D (Some start) (butlast L) (Some (last L)) \<and> last L < length D
          \<and> map (dt D) (butlast L) = butlast K
          \<and> (isused \<longrightarrow> D ! last L = \<lparr>link_next = nxt, link_data = last K\<rparr>))"

lemma side_frame:
  assumes "side f u D start L K ptr nxt" "\<And>x. x \<in> set L \<Longrightarrow> D' ! x = D ! x" "length D' = length D"
  shows "side f u D' start L K ptr nxt"
proof -
  have "\<And>x. x \<in> set (butlast L) \<Longrightarrow> D' ! x = D ! x" using assms(2) by (blast dest: in_set_butlastD)
  then show ?thesis
    using assms lseg_frame [of D "Some start" "butlast L" _ D'] unfolding side_def
    by (auto cong: map_cong)
qed

lemma side_weaken:
  "side f u D start L K ptr nxt \<Longrightarrow> (u' \<Longrightarrow> u \<and> (L = [] \<or> nxt' = nxt)) \<Longrightarrow> side f u' D start L K ptr nxt'"
  unfolding side_def by blast

text \<open>The next record joins the chain.\<close>

lemma side_first:
  "start < length D \<Longrightarrow> (u \<Longrightarrow> D ! start = \<lparr>link_next = nxt, link_data = r\<rparr>) \<Longrightarrow>
     side True u D start [start] [r] (Some (start, r)) nxt"
  by (auto simp: side_def)

lemma side_snoc:
  assumes s: "side True u D start L K ptr (Some pos)" and d: "distinct (L @ [pos])"
    and p: "pos < length D" "D ! pos = \<lparr>link_next = nxt, link_data = r\<rparr>"
    and D': "D' = (if u then D else D[last L := \<lparr>link_next = Some pos, link_data = last K\<rparr>])"
  shows "side True u' D' start (L @ [pos]) (K @ [r]) (Some (pos, r)) nxt"
    and "\<not> u \<Longrightarrow> set_link D ptr (Some pos) = Some D'"
proof -
  have L: "L \<noteq> []" "K \<noteq> []" and sd: "length K = length L" "hd L = start" "ptr = Some (last L, last K)"
    "lseg D (Some start) (butlast L) (Some (last L))" "last L < length D"
    "map (dt D) (butlast L) = butlast K"
    "u \<Longrightarrow> D ! last L = \<lparr>link_next = Some pos, link_data = last K\<rparr>"
    using s by (auto simp: side_def)
  have nb: "last L \<notin> set (butlast L)"
    using d L(1) by (metis append_butlast_last_id distinct_append distinct.simps(2) disjoint_iff
        list.set_intros(1))
  have pl: "pos \<noteq> last L" using d L(1) by auto
  have frame: "D' ! x = D ! x" if "x \<in> set (butlast L)" for x
  proof -
    have "last L \<noteq> x" using that nb by blast
    then show ?thesis by (simp add: D')
  qed
  have last: "D' ! last L = \<lparr>link_next = Some pos, link_data = last K\<rparr>"
    using sd by (auto simp: D')
  have "lseg D' (Some start) (butlast L) (Some (last L))"
    using lseg_frame [OF sd(4), of D'] frame by (auto simp: D')
  then have "lseg D' (Some start) (butlast L @ [last L]) (Some pos)"
    using last sd(5) by (auto simp: lseg_append D')
  moreover have "map (dt D') (butlast L @ [last L]) = butlast K @ [last K]"
    using sd(6) frame last by (simp cong: map_cong)
  ultimately have "lseg D' (Some start) L (Some pos)" "map (dt D') L = K"
    using L by simp_all
  moreover have "D' ! pos = D ! pos" "length D' = length D" using pl by (auto simp: D')
  ultimately show "side True u' D' start (L @ [pos]) (K @ [r]) (Some (pos, r)) nxt"
    using sd p L by (simp add: side_def)
  show "\<not> u \<Longrightarrow> set_link D ptr (Some pos) = Some D'"
    using sd by (simp add: set_link_def D')
qed

lemma side_finish:
  assumes s: "side f u D start L K ptr None" and d: "distinct L"
    and D': "D' = (if f \<and> \<not> u then D[last L := \<lparr>link_next = None, link_data = last K\<rparr>] else D)"
  shows "L \<noteq> [] \<longrightarrow> lseg D' (Some start) L None" "map (dt D') L = K"
    "f \<and> \<not> u \<longrightarrow> set_link D ptr None = Some D'" "\<And>x. x \<notin> set L \<Longrightarrow> D' ! x = D ! x"
    "length D' = length D"
proof -
  show len: "length D' = length D" by (simp add: D')
  show "D' ! x = D ! x" if "x \<notin> set L" for x
    using that s by (auto simp: D' side_def nth_list_update)
  show "f \<and> \<not> u \<longrightarrow> set_link D ptr None = Some D'"
    using s by (auto simp: side_def set_link_def D')
  have "L \<noteq> [] \<Longrightarrow> lseg D' (Some start) L None \<and> map (dt D') L = K"
  proof -
    assume L: "L \<noteq> []"
    then have sd: "length K = length L" "lseg D (Some start) (butlast L) (Some (last L))"
      "last L < length D" "map (dt D) (butlast L) = butlast K" "f"
      "u \<Longrightarrow> D ! last L = \<lparr>link_next = None, link_data = last K\<rparr>"
      using s by (auto simp: side_def)
    have K: "K \<noteq> []" using sd(1) L by auto
    have nb: "last L \<notin> set (butlast L)"
      using d L by (metis append_butlast_last_id distinct_append distinct.simps(2) disjoint_iff
          list.set_intros(1))
    have frame: "D' ! x = D ! x" if "x \<in> set (butlast L)" for x
    proof -
    have "last L \<noteq> x" using that nb by blast
    then show ?thesis by (simp add: D')
  qed
    have last: "D' ! last L = \<lparr>link_next = None, link_data = last K\<rparr>"
      using sd by (auto simp: D')
    have "lseg D' (Some start) (butlast L) (Some (last L))"
      using lseg_frame [OF sd(2), of D'] frame len by auto
    then have "lseg D' (Some start) (butlast L @ [last L]) None"
      using last sd(3) len by (auto simp: lseg_append)
    moreover have "map (dt D') (butlast L @ [last L]) = butlast K @ [last K]"
      using sd(4) frame last by (simp cong: map_cong)
    ultimately show ?thesis using L K by simp
  qed
  then show "L \<noteq> [] \<longrightarrow> lseg D' (Some start) L None" "map (dt D') L = K"
    using s by (auto simp: side_def)
qed

definition low_rec :: "'r HASH \<Rightarrow> 'r \<Rightarrow> bool" where
  "low_rec info r \<longleftrightarrow> rec_hashnr info r AND drop_bit 1 (blength info) = 0"

text \<open>
  The invariant of the loop: \<open>P\<close> are the slots passed, \<open>nxt\<close> is the link of the last of them, \<open>n\<close>
  is the slot that was free at the start.
\<close>

definition split_inv ::
  "'r HASH \<Rightarrow> 'r HASH_LINK list \<Rightarrow> nat \<Rightarrow> nat \<Rightarrow> nat list \<Rightarrow> nat option \<Rightarrow> 'r split
     \<Rightarrow> nat list \<Rightarrow> nat list \<Rightarrow> bool" where
  "split_inv info d n start P nxt s L H \<longleftrightarrow>
     length (sp_data s) = length d
     \<and> (\<forall>x. x \<notin> insert n (set P) \<longrightarrow> sp_data s ! x = d ! x)
     \<and> distinct (L @ H @ [sp_hole s]) \<and> set (L @ H @ [sp_hole s]) = insert n (set P)
     \<and> side (sp_flag s AND LOWFIND \<noteq> 0) (sp_flag s AND LOWUSED \<noteq> 0) (sp_data s) start L
          (filter (low_rec info) (map (dt d) P)) (sp_low s) nxt
     \<and> side (sp_flag s AND HIGHFIND \<noteq> 0) (sp_flag s AND HIGHUSED \<noteq> 0) (sp_data s) n H
          (filter (\<lambda>r. \<not> low_rec info r) (map (dt d) P)) (sp_high s) nxt
     \<and> (H = [] \<longrightarrow> sp_hole s = n) \<and> (L = [] \<and> H \<noteq> [] \<longrightarrow> sp_hole s = start)
     \<and> sp_flag s \<in> {0, 3, 4, 5, 7, 12, 13}"

lemma split_invD:
  assumes "split_inv info d n start P nxt s L H"
  shows "length (sp_data s) = length d" "\<And>x. x \<notin> insert n (set P) \<Longrightarrow> sp_data s ! x = d ! x"
    "distinct (L @ H @ [sp_hole s])" "set (L @ H @ [sp_hole s]) = insert n (set P)"
    "side (sp_flag s AND LOWFIND \<noteq> 0) (sp_flag s AND LOWUSED \<noteq> 0) (sp_data s) start L
      (filter (low_rec info) (map (dt d) P)) (sp_low s) nxt"
    "side (sp_flag s AND HIGHFIND \<noteq> 0) (sp_flag s AND HIGHUSED \<noteq> 0) (sp_data s) n H
      (filter (\<lambda>r. \<not> low_rec info r) (map (dt d) P)) (sp_high s) nxt"
    "H = [] \<longrightarrow> sp_hole s = n" "L = [] \<and> H \<noteq> [] \<longrightarrow> sp_hole s = start"
    "sp_flag s \<in> {0, 3, 4, 5, 7, 12, 13}"
  using assms unfolding split_inv_def by blast+

lemma link_eta: "(l :: 'r HASH_LINK) = \<lparr>link_next = link_next l, link_data = link_data l\<rparr>"
  by simp

lemma split_low_inv:
  assumes inv: "split_inv info d n start P (Some pos) s L H"
    and pos: "pos \<notin> insert n (set P)" "pos < length d" "start < length d" "P = [] \<Longrightarrow> pos = start" "n \<notin> set P"
    and low: "low_rec info (dt d pos)"
  shows "\<exists>s' L'. split_low pos (dt d pos) s = Some s' \<and> sp_data s' ! pos = d ! pos
    \<and> split_inv info d n start (P @ [pos]) (nx d pos) s' L' H \<and> sp_flag s' \<noteq> 0"
proof -
  note I = split_invD [OF inv]
  let ?D = "sp_data s" and ?r = "dt d pos" and ?K = "filter (low_rec info) (map (dt d) P)"
  let ?F = "sp_flag s"
  have Dp: "?D ! pos = \<lparr>link_next = nx d pos, link_data = ?r\<rparr>" using I(2) [OF pos(1)] by simp
  have pn: "pos \<noteq> n" "pos \<notin> set L" "pos \<notin> set H" "pos \<noteq> sp_hole s"
    using pos(1) I(4) by auto
  have high: "side (F' AND HIGHFIND \<noteq> 0) False D' n H (filter (\<lambda>r. \<not> low_rec info r) (map (dt d) P))
      (sp_high s) nxt'"
    if "F' AND HIGHFIND = ?F AND HIGHFIND" "\<And>x. x \<in> set H \<Longrightarrow> D' ! x = ?D ! x" "length D' = length ?D"
    for F' :: nat and D' nxt'
    using side_weaken [OF side_frame [OF I(6) that(2,3)], of False nxt'] that(1) by simp
  show ?thesis
  proof (cases "L = []")
    case True
    then have f: "?F AND LOWFIND = 0" and k: "?K = []"
      using I(5) unfolding side_def by (blast, metis length_0_conv)
    show ?thesis
    proof (cases "H = []")
      case H: True
      then have F: "?F = 0" using I(6,9) f by (auto simp: side_def flag_defs)
      have "sp_hole s = n" using H I(7) by simp
      then have "P = []" using True H I(4) pos(5) by (cases P) auto
      then have "pos = start" by (rule pos(4))
      let ?s = "s\<lparr>sp_flag := LOWFIND OR LOWUSED, sp_low := Some (pos, ?r)\<rparr>"
      have "split_inv info d n start (P @ [pos]) (nx d pos) ?s [pos] H"
        unfolding split_inv_def
        using I(1,2,4) pn high [of 3 ?D] F H \<open>P = []\<close> \<open>pos = start\<close> low k \<open>sp_hole s = n\<close> Dp pos(2)
          side_first [of pos ?D True "nx d pos" ?r]
        by (auto simp: flag_defs)
      then show ?thesis using F Dp by (intro exI [of _ ?s] exI [of _ "[pos]"])
        (auto simp: split_low_def flag_defs)
    next
      case H: False
      then have F: "?F = 4 \<or> ?F = 12" using I(6,9) f by (auto simp: side_def flag_defs)
      have hole: "sp_hole s = start" using H True I(8) by simp
      let ?s = "s\<lparr>sp_flag := LOWFIND OR HIGHFIND, sp_low := Some (sp_hole s, ?r), sp_hole := pos\<rparr>"
      have st: "side True False ?D start [start] [?r] (Some (start, ?r)) (nx d pos)"
        by (rule side_first) (use I(1) pos(3) in auto)
      have hi: "side True False ?D n H (filter (\<lambda>r. \<not> low_rec info r) (map (dt d) P)) (sp_high s) (nx d pos)"
        using high [of ?F ?D] F by (auto simp: flag_defs)
      have "split_inv info d n start (P @ [pos]) (nx d pos) ?s [start] H"
        unfolding split_inv_def
        using I(1,2,3,4) pn H low k st hi hole True by (auto simp: flag_defs)
      then show ?thesis using F Dp I(2) pos(1) hole by (intro exI [of _ ?s] exI [of _ "[start]"])
        (auto simp: split_low_def flag_defs)
    qed
  next
    case L: False
    then have f: "?F AND LOWFIND \<noteq> 0" using I(5) by (auto simp: side_def)
    let ?u = "?F AND LOWUSED \<noteq> 0"
    define D' where "D' = (if ?u then ?D else ?D[last L := \<lparr>link_next = Some pos, link_data = last ?K\<rparr>])"
    have s1: "side True ?u ?D start L ?K (sp_low s) (Some pos)" using I(5) f by simp
    have d: "distinct (L @ [pos])" using I(3) pn by simp
    have pl: "pos < length ?D" using I(1) pos(2) by simp
    have sn: "side True True D' start (L @ [pos]) (?K @ [?r]) (Some (pos, ?r)) (nx d pos)"
      by (rule side_snoc(1) [OF s1 d pl Dp D'_def])
    have sl: "\<not> ?u \<Longrightarrow> set_link ?D (sp_low s) (Some pos) = Some D'"
      by (rule side_snoc(2) [OF s1 d pl Dp D'_def])
    have fr: "D' ! x = ?D ! x" if "x \<notin> set L" for x
    proof -
      have "last L \<noteq> x" using that L by auto
      then show ?thesis by (simp add: D'_def)
    qed
    have len: "length D' = length ?D" by (simp add: D'_def)
    let ?F' = "if ?u then ?F else (?F AND HIGHFIND) OR (LOWFIND OR LOWUSED)"
    have F': "?F' \<in> {3, 7}" "?F' AND LOWFIND \<noteq> 0" "?F' AND LOWUSED \<noteq> 0" "?F' AND HIGHUSED = 0"
      "?F' AND HIGHFIND = ?F AND HIGHFIND"
      using I(9) f by (auto simp: flag_defs)
    let ?s = "s\<lparr>sp_data := D', sp_flag := ?F', sp_low := Some (pos, ?r)\<rparr>"
    have step: "split_low pos ?r s = Some ?s"
      using f sl by (auto simp: split_low_def D'_def)
    have frH: "D' ! x = ?D ! x" if "x \<in> set H" for x
      using fr that I(3) by auto
    have "split_inv info d n start (P @ [pos]) (nx d pos) ?s (L @ [pos]) H"
      unfolding split_inv_def
    proof (intro conjI)
      show "side (sp_flag ?s AND LOWFIND \<noteq> 0) (sp_flag ?s AND LOWUSED \<noteq> 0) (sp_data ?s) start (L @ [pos])
          (filter (low_rec info) (map (dt d) (P @ [pos]))) (sp_low ?s) (nx d pos)"
        using sn F' low by simp
      show "side (sp_flag ?s AND HIGHFIND \<noteq> 0) (sp_flag ?s AND HIGHUSED \<noteq> 0) (sp_data ?s) n H
          (filter (\<lambda>r. \<not> low_rec info r) (map (dt d) (P @ [pos]))) (sp_high ?s) (nx d pos)"
        using high [OF F'(5) frH len] F'(4) low by simp
      show "\<forall>x. x \<notin> insert n (set (P @ [pos])) \<longrightarrow> sp_data ?s ! x = d ! x"
      proof (intro allI impI)
        fix x
        assume "x \<notin> insert n (set (P @ [pos]))"
        then have x: "x \<notin> insert n (set P)" by simp
        then have "x \<notin> set (L @ H @ [sp_hole s])" unfolding I(4) .
        then show "sp_data ?s ! x = d ! x" using fr I(2) [OF x] by simp
      qed
      show "sp_flag ?s \<in> {0, 3, 4, 5, 7, 12, 13}" using F'(1) by auto
    qed (use I len pn L in auto)
    moreover have "sp_data ?s ! pos = d ! pos" using fr pn(2) Dp by simp
    moreover have "sp_flag ?s \<noteq> 0" using F'(1) by auto
    ultimately show ?thesis using step by blast
  qed
qed

lemma split_high_inv:
  assumes inv: "split_inv info d n start P (Some pos) s L H"
    and pos: "pos \<notin> insert n (set P)" "pos < length d" "n < length d" "P = [] \<Longrightarrow> pos = start" "n \<notin> set P"
    and high: "\<not> low_rec info (dt d pos)"
  shows "\<exists>s' H'. split_high pos (dt d pos) s = Some s' \<and> sp_data s' ! pos = d ! pos
    \<and> split_inv info d n start (P @ [pos]) (nx d pos) s' L H' \<and> sp_flag s' \<noteq> 0"
proof -
  note I = split_invD [OF inv]
  let ?D = "sp_data s" and ?r = "dt d pos" and ?K = "filter (\<lambda>r. \<not> low_rec info r) (map (dt d) P)"
  let ?F = "sp_flag s"
  have Dp: "?D ! pos = \<lparr>link_next = nx d pos, link_data = ?r\<rparr>" using I(2) [OF pos(1)] by simp
  have pn: "pos \<noteq> n" "pos \<notin> set L" "pos \<notin> set H" "pos \<noteq> sp_hole s"
    using pos(1) I(4) by auto
  have lo: "side (F' AND LOWFIND \<noteq> 0) False D' start L (filter (low_rec info) (map (dt d) P))
      (sp_low s) nxt'"
    if "F' AND LOWFIND = ?F AND LOWFIND" "\<And>x. x \<in> set L \<Longrightarrow> D' ! x = ?D ! x" "length D' = length ?D"
    for F' :: nat and D' nxt'
    using side_weaken [OF side_frame [OF I(5) that(2,3)], of False nxt'] that(1) by simp
  show ?thesis
  proof (cases "H = []")
    case True
    then have f: "?F AND HIGHFIND = 0" and k: "?K = []"
      using I(6) unfolding side_def by (blast, metis length_0_conv)
    have F: "?F = 0 \<and> L = [] \<or> ?F = 3 \<and> L \<noteq> []" using f I(5,9) by (auto simp: side_def flag_defs)
    have hole: "sp_hole s = n" using True I(7) by simp
    have L0: "L = [] \<Longrightarrow> pos = start"
      using True I(4) pos(4,5) hole by (cases P) auto
    let ?s = "s\<lparr>sp_flag := (?F AND LOWFIND) OR HIGHFIND, sp_high := Some (sp_hole s, ?r), sp_hole := pos\<rparr>"
    have st: "side True False ?D n [n] [?r] (Some (n, ?r)) (nx d pos)"
      by (rule side_first) (use I(1) pos(3) in auto)
    have F': "((?F AND LOWFIND) OR HIGHFIND) AND LOWFIND = ?F AND LOWFIND"
      "((?F AND LOWFIND) OR HIGHFIND) AND LOWUSED = 0" "((?F AND LOWFIND) OR HIGHFIND) AND HIGHFIND \<noteq> 0"
      "((?F AND LOWFIND) OR HIGHFIND) AND HIGHUSED = 0" "((?F AND LOWFIND) OR HIGHFIND) \<in> {4, 5}"
      using F by (auto simp: flag_defs)
    have "split_inv info d n start (P @ [pos]) (nx d pos) ?s L [n]"
      unfolding split_inv_def
    proof (intro conjI)
      show "side (sp_flag ?s AND HIGHFIND \<noteq> 0) (sp_flag ?s AND HIGHUSED \<noteq> 0) (sp_data ?s) n [n]
          (filter (\<lambda>r. \<not> low_rec info r) (map (dt d) (P @ [pos]))) (sp_high ?s) (nx d pos)"
        using st F' high k hole by simp
      show "side (sp_flag ?s AND LOWFIND \<noteq> 0) (sp_flag ?s AND LOWUSED \<noteq> 0) (sp_data ?s) start L
          (filter (low_rec info) (map (dt d) (P @ [pos]))) (sp_low ?s) (nx d pos)"
        using lo [OF F'(1)] F'(2) high by simp
      show "sp_flag ?s \<in> {0, 3, 4, 5, 7, 12, 13}" using F'(5) by auto
    qed (use I pn hole True L0 in auto)
    moreover have "sp_flag ?s \<noteq> 0" using F'(5) by auto
    ultimately show ?thesis using f Dp
      by (intro exI [of _ ?s] exI [of _ "[n]"]) (auto simp: split_high_def)
  next
    case H: False
    then have f: "?F AND HIGHFIND \<noteq> 0" using I(6) by (auto simp: side_def)
    let ?u = "?F AND HIGHUSED \<noteq> 0"
    define D' where "D' = (if ?u then ?D else ?D[last H := \<lparr>link_next = Some pos, link_data = last ?K\<rparr>])"
    have s1: "side True ?u ?D n H ?K (sp_high s) (Some pos)" using I(6) f by simp
    have d: "distinct (H @ [pos])" using I(3) pn by simp
    have pl: "pos < length ?D" using I(1) pos(2) by simp
    have sn: "side True True D' n (H @ [pos]) (?K @ [?r]) (Some (pos, ?r)) (nx d pos)"
      by (rule side_snoc(1) [OF s1 d pl Dp D'_def])
    have sl: "\<not> ?u \<Longrightarrow> set_link ?D (sp_high s) (Some pos) = Some D'"
      by (rule side_snoc(2) [OF s1 d pl Dp D'_def])
    have fr: "D' ! x = ?D ! x" if "x \<notin> set H" for x
    proof -
      have "last H \<noteq> x" using that H by auto
      then show ?thesis by (simp add: D'_def)
    qed
    have len: "length D' = length ?D" by (simp add: D'_def)
    let ?F' = "if ?u then ?F else (?F AND LOWFIND) OR (HIGHFIND OR HIGHUSED)"
    have F': "?F' \<in> {12, 13}" "?F' AND HIGHFIND \<noteq> 0" "?F' AND HIGHUSED \<noteq> 0" "?F' AND LOWUSED = 0"
      "?F' AND LOWFIND = ?F AND LOWFIND"
      using I(9) f by (auto simp: flag_defs)
    let ?s = "s\<lparr>sp_data := D', sp_flag := ?F', sp_high := Some (pos, ?r)\<rparr>"
    have step: "split_high pos ?r s = Some ?s"
      using f sl by (auto simp: split_high_def D'_def)
    have frL: "D' ! x = ?D ! x" if "x \<in> set L" for x
      using fr that I(3) by auto
    have "split_inv info d n start (P @ [pos]) (nx d pos) ?s L (H @ [pos])"
      unfolding split_inv_def
    proof (intro conjI)
      show "side (sp_flag ?s AND HIGHFIND \<noteq> 0) (sp_flag ?s AND HIGHUSED \<noteq> 0) (sp_data ?s) n (H @ [pos])
          (filter (\<lambda>r. \<not> low_rec info r) (map (dt d) (P @ [pos]))) (sp_high ?s) (nx d pos)"
        using sn F' high by simp
      show "side (sp_flag ?s AND LOWFIND \<noteq> 0) (sp_flag ?s AND LOWUSED \<noteq> 0) (sp_data ?s) start L
          (filter (low_rec info) (map (dt d) (P @ [pos]))) (sp_low ?s) (nx d pos)"
        using lo [OF F'(5) frL len] F'(4) high by simp
      show "\<forall>x. x \<notin> insert n (set (P @ [pos])) \<longrightarrow> sp_data ?s ! x = d ! x"
      proof (intro allI impI)
        fix x
        assume "x \<notin> insert n (set (P @ [pos]))"
        then have x: "x \<notin> insert n (set P)" by simp
        then have "x \<notin> set (L @ H @ [sp_hole s])" unfolding I(4) .
        then show "sp_data ?s ! x = d ! x" using fr I(2) [OF x] by simp
      qed
      show "sp_flag ?s \<in> {0, 3, 4, 5, 7, 12, 13}" using F'(1) by auto
    qed (use I len pn H in auto)
    moreover have "sp_data ?s ! pos = d ! pos" using fr pn(3) Dp by simp
    moreover have "sp_flag ?s \<noteq> 0" using F'(1) by auto
    ultimately show ?thesis using step by blast
  qed
qed

lemma split_loop_inv:
  assumes nl: "n < length d" "start < length d"
    and home: "\<And>x. x \<in> set (P @ pos # S) \<Longrightarrow> home info (dt d x) = start"
  shows "split_inv info d n start P (Some pos) s L H \<Longrightarrow> lseg d (Some pos) (pos # S) None \<Longrightarrow>
    distinct (n # P @ pos # S) \<Longrightarrow> (P = [] \<Longrightarrow> pos = start) \<Longrightarrow>
    \<exists>s' L' H'. split_loop info (drop_bit 1 (blength info)) start s pos = Some s'
      \<and> split_inv info d n start (P @ pos # S) None s' L' H'"
  using home
proof (induction S arbitrary: P pos s L H)
  case Nil
  note I = split_invD [OF Nil.prems(1)]
  have p: "pos \<notin> insert n (set P)" "pos < length d" "n \<notin> set P" "nx d pos = None"
    using Nil.prems(2,3) by auto
  have "sp_data s ! pos = d ! pos" "pos < length (sp_data s)" using I(1,2) p by auto
  then have rdp: "rd (sp_data s) pos = Some (d ! pos)" by simp
  have hm: "my_hash_mask (rec_hashnr info (dt d pos)) (blength info) (records info) = start"
    using Nil.prems(5) by (simp add: home_def)
  obtain s' L' H' where st: "(if low_rec info (dt d pos) then split_low pos (dt d pos) s
      else split_high pos (dt d pos) s) = Some s'" "sp_data s' ! pos = d ! pos"
    "split_inv info d n start (P @ [pos]) None s' L' H'"
    using split_low_inv [OF Nil.prems(1) p(1,2) nl(2) Nil.prems(4) p(3)]
      split_high_inv [OF Nil.prems(1) p(1,2) nl(1) Nil.prems(4) p(3)] p(4)
    by (cases "low_rec info (dt d pos)") force+
  have "rd (sp_data s') pos = Some (d ! pos)"
    using st(2) split_invD(1) [OF st(3)] p(2) by simp
  then have "split_loop info (drop_bit 1 (blength info)) start s pos = Some s'"
    using st(1) p(4) by (subst split_loop.simps) (simp add: rdp hm Let_def low_rec_def)
  then show ?case using st(3) by auto
next
  case (Cons y S)
  note I = split_invD [OF Cons.prems(1)]
  have p: "pos \<notin> insert n (set P)" "pos < length d" "n \<notin> set P" "nx d pos = Some y"
    using Cons.prems(2,3) by auto
  have "sp_data s ! pos = d ! pos" "pos < length (sp_data s)" using I(1,2) p by auto
  then have rdp: "rd (sp_data s) pos = Some (d ! pos)" by simp
  have hm: "my_hash_mask (rec_hashnr info (dt d pos)) (blength info) (records info) = start"
    using Cons.prems(5) by (simp add: home_def)
  obtain s' L' H' where st: "(if low_rec info (dt d pos) then split_low pos (dt d pos) s
      else split_high pos (dt d pos) s) = Some s'" "sp_data s' ! pos = d ! pos"
    "split_inv info d n start (P @ [pos]) (Some y) s' L' H'"
    using split_low_inv [OF Cons.prems(1) p(1,2) nl(2) Cons.prems(4) p(3)]
      split_high_inv [OF Cons.prems(1) p(1,2) nl(1) Cons.prems(4) p(3)] p(4)
    by (cases "low_rec info (dt d pos)") force+
  have "rd (sp_data s') pos = Some (d ! pos)"
    using st(2) split_invD(1) [OF st(3)] p(2) by simp
  then have "split_loop info (drop_bit 1 (blength info)) start s pos =
      split_loop info (drop_bit 1 (blength info)) start s' y"
    using st(1) p(4) by (subst split_loop.simps) (simp add: rdp hm Let_def low_rec_def)
  moreover have "\<exists>s'' L'' H''. split_loop info (drop_bit 1 (blength info)) start s' y = Some s''
      \<and> split_inv info d n start ((P @ [pos]) @ y # S) None s'' L'' H''"
    using Cons.prems by (intro Cons.IH [OF st(3)]) auto
  ultimately show ?case by simp
qed

end
