(* ===== verification/HashLink.thy ===== *)
theory HashLink
  imports HashSplit
begin

text \<open>
  The result of the split, and the ways a record enters or changes its slot: \<open>relocate\<close> for
  \<^verbatim>\<open>movelink\<close>, \<open>linked_alone\<close> and \<open>linked_front\<close> for a new record.
\<close>

section \<open>Records as a multiset\<close>

definition recs :: "'r HASH_LINK list \<Rightarrow> nat set \<Rightarrow> 'r multiset" where
  "recs d S = image_mset (dt d) (mset_set S)"

lemma recs_set: "distinct xs \<Longrightarrow> recs d (set xs) = mset (map (dt d) xs)"
  by (simp add: recs_def mset_set_set)

lemma recs_Un: "finite A \<Longrightarrow> finite B \<Longrightarrow> A \<inter> B = {} \<Longrightarrow> recs d (A \<union> B) = recs d A + recs d B"
  by (simp add: recs_def mset_set_Union)

lemma recs_insert: "finite A \<Longrightarrow> x \<notin> A \<Longrightarrow> recs d (insert x A) = add_mset (dt d x) (recs d A)"
  by (simp add: recs_def)

lemma recs_cong: "(\<And>x. x \<in> S \<Longrightarrow> dt d' x = dt d x) \<Longrightarrow> recs d' S = recs d S"
  unfolding recs_def by (cases "finite S") (auto intro!: image_mset_cong)

lemma hash_records_recs:
  assumes "records hash \<le> length (data_of hash)"
  shows "mset (hash_records hash) = recs (data_of hash) {..<records hash}"
proof -
  have "hash_records hash = map (dt (data_of hash)) [0..<records hash]"
    using assms by (intro nth_equalityI) (auto simp: hash_records_def)
  then show ?thesis
    using recs_set [of "[0..<records hash]" "data_of hash"] by (simp add: atLeast0LessThan)
qed

lemma linked_cong:
  assumes "linked hm d used" "\<And>x. x \<in> used \<Longrightarrow> d' ! x = d ! x \<and> hm' (dt d x) = hm (dt d x)"
    "length d' = length d"
  shows "linked hm' d' used"
  by (rule linked_change [where T = "{}", OF assms(1,3)]) (use assms(2) in auto)

text \<open>The home slots after the insertion.\<close>

definition home1 :: "'r HASH \<Rightarrow> 'r \<Rightarrow> nat" where
  "home1 info r = my_hash_mask (rec_hashnr info r) (blength info) (records info + 1)"

lemma home1_home:
  assumes B: "blength info = 2 * 2 ^ m" "2 ^ m \<le> records info" "records info < 2 * 2 ^ m"
  shows "home1 info r = records info \<or> home1 info r = home info r"
    and "home1 info r = records info \<Longrightarrow> home info r = records info - 2 ^ m"
    and "home info r = records info - 2 ^ m \<Longrightarrow> low_rec info r \<longleftrightarrow> home1 info r \<noteq> records info"
    and "home info r < records info"
proof -
  note s = split_mask [OF B(2,3), of "rec_hashnr info r"]
  show "home1 info r = records info \<or> home1 info r = home info r"
    unfolding home1_def home_def B(1) s(1) by simp
  have lt: "home info r < records info"
    using mask_less [of "blength info" "records info"] B unfolding home_def blen_ok_def
    by (metis less_le_trans zero_less_numeral zero_less_power)
  then show "home info r < records info" .
  show "home1 info r = records info \<Longrightarrow> home info r = records info - 2 ^ m"
    using s(1,2) lt unfolding home1_def home_def B(1) by (metis less_irrefl)
  have "drop_bit 1 (blength info) = 2 ^ m" by (simp add: B(1) drop_bit_eq_div)
  then show "home info r = records info - 2 ^ m \<Longrightarrow> low_rec info r \<longleftrightarrow> home1 info r \<noteq> records info"
    using s(1,3) lt unfolding home1_def home_def B(1) low_rec_def by (metis less_irrefl)
qed

lemma split_finish_spec:
  assumes inv: "split_inv info d n start P None s L H" and nP: "n \<notin> set P"
  shows "\<exists>d2. split_finish s = Some (d2, sp_hole s) \<and> length d2 = length d
    \<and> (L \<noteq> [] \<longrightarrow> hd L = start \<and> lseg d2 (Some start) L None) \<and> (H \<noteq> [] \<longrightarrow> hd H = n \<and> lseg d2 (Some n) H None)
    \<and> map (dt d2) L = filter (low_rec info) (map (dt d) P)
    \<and> map (dt d2) H = filter (\<lambda>r. \<not> low_rec info r) (map (dt d) P)
    \<and> (\<forall>x. x \<notin> insert n (set P) \<longrightarrow> d2 ! x = d ! x)"
proof -
  note I = split_invD [OF inv]
  let ?F = "sp_flag s" and ?D = "sp_data s"
  let ?KL = "filter (low_rec info) (map (dt d) P)" and ?KH = "filter (\<lambda>r. \<not> low_rec info r) (map (dt d) P)"
  let ?fl = "?F AND LOWFIND \<noteq> 0" and ?ul = "?F AND LOWUSED \<noteq> 0"
  let ?fh = "?F AND HIGHFIND \<noteq> 0" and ?uh = "?F AND HIGHUSED \<noteq> 0"
  have fl: "?F AND (LOWFIND OR LOWUSED) = LOWFIND \<longleftrightarrow> ?fl \<and> \<not> ?ul"
    and fh: "?F AND (HIGHFIND OR HIGHUSED) = HIGHFIND \<longleftrightarrow> ?fh \<and> \<not> ?uh"
    using I(9) by (auto simp: flag_defs)
  have dL: "distinct L" and dH: "distinct H" and dis: "set L \<inter> set H = {}" using I(3) by auto
  define d1 where "d1 = (if ?fl \<and> \<not> ?ul then ?D[last L := \<lparr>link_next = None, link_data = last ?KL\<rparr>] else ?D)"
  note l = side_finish [OF I(5) dL d1_def]
  have h0: "side ?fh ?uh d1 n H ?KH (sp_high s) None"
    by (rule side_frame [OF I(6)]) (use l(4,5) dis in auto)
  define d2 where "d2 = (if ?fh \<and> \<not> ?uh then d1[last H := \<lparr>link_next = None, link_data = last ?KH\<rparr>] else d1)"
  note h = side_finish [OF h0 dH d2_def]
  have same: "d2 ! x = d1 ! x" if "x \<in> set L" for x using h(4) that dis by blast
  have "split_finish s = Some (d2, sp_hole s)"
    unfolding split_finish_def fl fh using l(3) h(3) by (auto simp: d1_def d2_def)
  moreover have "L \<noteq> [] \<longrightarrow> lseg d2 (Some start) L None"
    using l(1) lseg_frame [of d1 _ L None d2] same h(5) by blast
  moreover have "map (dt d2) L = ?KL"
    using l(2) same by (metis (mono_tags, lifting) map_cong)
  moreover have "d2 ! x = d ! x" if x: "x \<notin> insert n (set P)" for x
  proof -
    have "x \<notin> set (L @ H @ [sp_hole s])" using x unfolding I(4) .
    then show ?thesis using h(4) l(4) I(2) [OF x] by simp
  qed
  moreover have "L \<noteq> [] \<longrightarrow> hd L = start" "H \<noteq> [] \<longrightarrow> hd H = n"
    using I(5,6) by (auto simp: side_def)
  ultimately show ?thesis using h(1,2,5) l(5) I(1) by auto
qed

lemma split_chain_spec:
  assumes b: "blen_ok (blength info) (records info)" and len: "records info < length d"
    and lk: "linked (home info) d {..<records info}"
  shows "\<exists>d' e. split_chain info d (records info) = Some (d', e) \<and> e \<le> records info \<and> length d' = length d
    \<and> linked (home1 info) d' ({..records info} - {e})
    \<and> recs d' ({..records info} - {e}) = recs d {..<records info}"
proof -
  let ?n = "records info"
  have nn: "{..?n} - {?n} = {..<?n}" by auto
  consider "blength info = 1" "?n = 0" | m where "blength info = 2 * 2 ^ m" "2 ^ m \<le> ?n" "?n < 2 * 2 ^ m"
    using b by (auto simp: blen_ok_def)
  then show ?thesis
  proof cases
    case 1
    then have "split_chain info d ?n = Some (d, ?n)" by (simp add: split_chain_def)
    then show ?thesis using 1 by (auto simp: linked_def nn)
  next
    case (2 m)
    note hm = home1_home [OF 2]
    let ?st = "?n - 2 ^ m"
    have half: "drop_bit 1 (blength info) = 2 ^ m" by (simp add: 2(1) drop_bit_eq_div)
    have p: "(0::nat) < 2 ^ m" by simp
    have st: "?st < ?n" using 2(2) p by linarith
    let ?s = "\<lparr>sp_flag = 0, sp_data = d, sp_hole = ?n, sp_low = None, sp_high = None\<rparr>"
    have sc: "split_chain info d ?n = do {
        s \<leftarrow> split_loop info (drop_bit 1 (blength info)) ?st ?s ?st; split_finish s }"
      using st by (simp add: split_chain_def Let_def half half [unfolded One_nat_def])
    show ?thesis
    proof (cases "home info (dt d ?st) = ?st")
      case False
      then have "split_loop info (drop_bit 1 (blength info)) ?st ?s ?st = Some ?s"
        using st len by (subst split_loop.simps) (simp add: Let_def home_def)
      then have "split_chain info d ?n = Some (d, ?n)"
        by (simp add: sc split_finish_def flag_defs)
      moreover have "home1 info (dt d x) = home info (dt d x)" if "x \<in> {..<?n}" for x
        using hm(1,2) linked_home(2) [OF lk that] False by metis
      then have "linked (home1 info) d ({..?n} - {?n})"
        unfolding nn by (intro linked_cong [OF lk]) auto
      ultimately show ?thesis by (auto simp: nn)
    next
      case True
      then obtain xs where xs: "chain_of (home info) d {..<?n} ?st xs"
        using linkedD [OF lk, of ?st] st by auto
      then obtain ys where ys: "xs = ?st # ys" by (rule chain_of_head)
      have cls: "set xs = cls (home info) d {..<?n} ?st" and dx: "distinct xs" and sg: "lseg d (Some ?st) xs None"
        using xs by (auto simp: chain_of_def)
      have nx: "?n \<notin> set xs" unfolding cls by (simp add: cls_def)
      have i0: "split_inv info d ?n ?st [] (Some ?st) ?s [] []"
        by (simp add: split_inv_def side_def)
      obtain s' L H where s': "split_loop info (drop_bit 1 (blength info)) ?st ?s ?st = Some s'"
        "split_inv info d ?n ?st xs None s' L H"
        using split_loop_inv [where P = "[]" and pos = ?st and S = ys, OF len _ _ i0] sg dx nx cls st len
        unfolding ys by (auto simp: cls_def)
      obtain d2 where d2: "split_finish s' = Some (d2, sp_hole s')" "length d2 = length d"
        "L \<noteq> [] \<longrightarrow> hd L = ?st \<and> lseg d2 (Some ?st) L None" "H \<noteq> [] \<longrightarrow> hd H = ?n \<and> lseg d2 (Some ?n) H None"
        "map (dt d2) L = filter (low_rec info) (map (dt d) xs)"
        "map (dt d2) H = filter (\<lambda>r. \<not> low_rec info r) (map (dt d) xs)"
        "\<forall>x. x \<notin> insert ?n (set xs) \<longrightarrow> d2 ! x = d ! x"
        using split_finish_spec [OF s'(2) nx] by blast
      let ?e = "sp_hole s'" and ?U = "{..?n} - {sp_hole s'}"
      note I = split_invD [OF s'(2)]
      have dist: "distinct L" "distinct H" "set L \<inter> set H = {}" "?e \<notin> set L" "?e \<notin> set H" using I(3) by auto
      have sets: "insert ?e (set L \<union> set H) = insert ?n (set xs)" using I(4) by auto
      have sub: "set xs \<subseteq> {..<?n}" unfolding cls by (auto simp: cls_def)
      have "?e \<in> insert ?n (set xs)" using sets by blast
      then have e: "?e \<le> ?n" using sub by auto
      have inL: "home1 info (dt d2 j) = ?st" if "j \<in> set L" for j
      proof -
        have "dt d2 j \<in> set (map (dt d2) L)" using that by simp
        then obtain i where i: "i \<in> set xs" "dt d2 j = dt d i" "low_rec info (dt d i)" unfolding d2(5) by auto
        then have "home info (dt d i) = ?st" unfolding cls by (simp add: cls_def)
        then show ?thesis using hm(1,3) i by metis
      qed
      have inH: "home1 info (dt d2 j) = ?n" if "j \<in> set H" for j
      proof -
        have "dt d2 j \<in> set (map (dt d2) H)" using that by simp
        then obtain i where i: "i \<in> set xs" "dt d2 j = dt d i" "\<not> low_rec info (dt d i)" unfolding d2(6) by auto
        then have "home info (dt d i) = ?st" unfolding cls by (simp add: cls_def)
        then show ?thesis using hm(1,3) i by metis
      qed
      have other: "j < ?n \<and> j \<notin> set xs \<and> d2 ! j = d ! j \<and> home info (dt d j) \<noteq> ?st
          \<and> home1 info (dt d j) = home info (dt d j)" if "j \<in> ?U" "j \<notin> set L" "j \<notin> set H" for j
      proof -
        have "j \<notin> insert ?n (set xs)" using that sets by blast
        then have j: "j < ?n" "j \<notin> set xs" "d2 ! j = d ! j" using that d2(7) by auto
        then have "home info (dt d j) \<noteq> ?st" unfolding cls by (simp add: cls_def)
        then show ?thesis using j hm(1,2) by metis
      qed
      have "linked (home1 info) d2 ?U"
      proof (rule linked_change [OF lk d2(2), where T = "{?st, ?n}"])
        fix j
        assume j: "j \<in> ?U" "home1 info (dt d2 j) \<notin> {?st, ?n}"
        then have "j \<notin> set L" "j \<notin> set H" using inL inH by auto
        from other [OF j(1) this] show "j \<in> {..<?n} \<and> d2 ! j = d ! j \<and> home info (dt d j) = home1 info (dt d j)"
          by auto
      next
        fix j
        assume j: "j \<in> {..<?n}" "home info (dt d j) \<notin> {?st, ?n}"
        then have "j \<notin> set xs" unfolding cls by (simp add: cls_def)
        then have jx: "j \<notin> insert ?n (set xs)" using j(1) by simp
        then have "j \<noteq> ?e" "d2 ! j = d ! j" using sets d2(7) by auto
        moreover have "home1 info (dt d j) = home info (dt d j)" using hm(1,2) j(2) by blast
        ultimately show "j \<in> ?U \<and> d2 ! j = d ! j \<and> home info (dt d j) = home1 info (dt d j)"
          using j(1) by auto
      next
        fix h
        assume h: "h \<in> {?st, ?n}" "cls (home1 info) d2 ?U h \<noteq> {}"
        have "set L \<union> set H \<subseteq> insert ?n (set xs)" using sets by blast
        also have "\<dots> \<subseteq> {..?n}" using sub by auto
        finally have LU: "set L \<subseteq> ?U" "set H \<subseteq> ?U" using dist(4,5) by auto
        have cL: "cls (home1 info) d2 ?U ?st = set L"
          unfolding cls_def using inL inH other LU st by fastforce
        have cH: "cls (home1 info) d2 ?U ?n = set H"
        proof -
          have "home1 info (dt d2 j) \<noteq> ?n" if "j \<in> ?U" "j \<notin> set L" "j \<notin> set H" for j
            using other [OF that] hm(4) by (metis less_irrefl)
          moreover have "home1 info (dt d2 j) \<noteq> ?n" if "j \<in> set L" for j using inL that st by simp
          ultimately show ?thesis unfolding cls_def using inH LU by blast
        qed
        show "\<exists>xs. chain_of (home1 info) d2 ?U h xs"
          using h cL cH d2(3,4) dist(1,2) unfolding chain_of_def by auto
      qed
      moreover have "recs d2 ?U = recs d {..<?n}"
      proof -
        let ?R = "{..<?n} - set xs"
        have "?e \<in> insert ?n (set xs)" using sets by blast
        then have eR: "?e \<notin> ?R" by auto
        have U: "?U = (set L \<union> set H) \<union> ?R"
        proof -
          have "{..?n} = insert ?n (set xs) \<union> ?R" using sub by auto
          also have "\<dots> = insert ?e (set L \<union> set H) \<union> ?R" unfolding sets ..
          finally show ?thesis using dist(4,5) eR by auto
        qed
        have "set L \<union> set H \<subseteq> insert ?n (set xs)" using sets by blast
        then have "(set L \<union> set H) \<inter> ?R = {}" by auto
        then have "recs d2 ?U = recs d2 (set L) + recs d2 (set H) + recs d2 ?R"
          unfolding U using dist(3) by (simp add: recs_Un)
        also have "recs d2 ?R = recs d ?R" by (rule recs_cong) (use d2(7) in auto)
        also have "recs d2 (set L) + recs d2 (set H) = recs d (set xs)"
          unfolding recs_set [OF dist(1)] recs_set [OF dist(2)] d2(5,6) recs_set [OF dx]
          by (simp only: mset_filter) (rule multiset_partition [symmetric])
        also have "recs d (set xs) + recs d ?R = recs d {..<?n}"
          using recs_Un [of "set xs" ?R d] sub by (simp add: Un_absorb1)
        finally show ?thesis .
      qed
      ultimately show ?thesis using s'(1) d2(1,2) e by (auto simp: sc)
    qed
  qed
qed

section \<open>Relinking\<close>

lemma movelink_seg:
  "lseg d (Some g) (zs @ [q]) fnd \<Longrightarrow> (\<And>x. x \<in> set (tl (zs @ [q])) \<Longrightarrow> fnd \<noteq> Some x) \<Longrightarrow>
     movelink d fnd g new = Some (d[q := (d ! q)\<lparr>link_next := new\<rparr>])"
proof (induction zs arbitrary: g)
  case Nil
  then show ?case by (subst movelink.simps) auto
next
  case (Cons z zs)
  then obtain y where y: "nx d z = Some y" "y \<in> set (zs @ [q])" "g = z" "z < length d"
    by (cases zs) auto
  have "lseg d (Some y) (zs @ [q]) fnd" using Cons.prems(1) y(1) by simp
  moreover have "\<And>x. x \<in> set (tl (zs @ [q])) \<Longrightarrow> fnd \<noteq> Some x"
    using Cons.prems(2) by (metis append_Cons list.sel(3) list.set_sel(2) append_is_Nil_conv not_Cons_self2)
  ultimately have "movelink d fnd y new = Some (d[q := (d ! q)\<lparr>link_next := new\<rparr>])"
    by (rule Cons.IH)
  moreover have "fnd \<noteq> Some y" using Cons.prems(2) y(2) by simp
  ultimately show ?case using y by (subst movelink.simps) auto
qed

lemma set_tl: "x \<in> set (tl ys) \<Longrightarrow> x \<in> set ys"
  by (cases ys) auto

text \<open>A slot \<open>p\<close> that is not the start of its chain, with the slot before it.\<close>

lemma chain_pred:
  assumes c: "chain_of hm d used h xs" and p: "p \<in> set xs" "p \<noteq> h"
  obtains zs q ws where "xs = zs @ q # p # ws" "lseg d (Some h) (zs @ [q]) (Some p)"
    "lseg d (nx d p) ws None" "p \<notin> set (zs @ [q])" "p \<notin> set ws" "q \<notin> set zs" "q \<notin> set ws" "p < length d"
    "q < length d" "nx d q = Some p"
proof -
  obtain us ws where u: "xs = us @ p # ws" using p(1) by (meson split_list)
  have "us \<noteq> []" using c p(2) u by (auto simp: chain_of_def)
  then obtain zs q where "us = zs @ [q]" by (metis rev_exhaust)
  then show ?thesis using that [of zs q ws] u c by (auto simp: chain_of_def lseg_append)
qed

text \<open>
  The record of the slot \<open>p\<close>, not at home, has been copied to the free slot \<open>e\<close>: \<^verbatim>\<open>movelink\<close>
  finishes the move.
\<close>

lemma relocate:
  assumes lk: "linked hm d used" and p: "p \<in> used" "hm (dt d p) \<noteq> p"
    and e: "e \<notin> used" "e < length d"
    and d1: "length d1 = length d" "d1 ! e = d ! p" "\<And>x. x \<in> used \<Longrightarrow> x \<noteq> p \<Longrightarrow> d1 ! x = d ! x"
  shows "\<exists>d2. movelink d1 (Some p) (hm (dt d p)) (Some e) = Some d2 \<and> length d2 = length d
    \<and> linked hm d2 (insert e (used - {p})) \<and> (\<forall>x. dt d2 x = dt d1 x) \<and> d2 ! p = d1 ! p
    \<and> (\<forall>x. hm (dt d x) \<noteq> hm (dt d p) \<longrightarrow> d2 ! x = d1 ! x)"
proof -
  let ?h = "hm (dt d p)" and ?U = "insert e (used - {p})"
  obtain xs where c: "chain_of hm d used ?h xs" using linkedD [OF lk p(1)] by blast
  have cl: "set xs = cls hm d used ?h" "distinct xs" using c by (auto simp: chain_of_def)
  have px: "p \<in> set xs" unfolding cl using p(1) by (simp add: cls_def)
  have xu: "x \<in> used" if "x \<in> set xs" for x using that unfolding cl by (simp add: cls_def)
  obtain zs q ws where s: "xs = zs @ q # p # ws" "lseg d (Some ?h) (zs @ [q]) (Some p)"
    "lseg d (nx d p) ws None" "p \<notin> set (zs @ [q])" "p \<notin> set ws" "q \<notin> set zs" "q \<notin> set ws"
    "p < length d" "q < length d" "nx d q = Some p"
    using chain_pred [OF c px] p(2) by metis
  have q: "q \<in> used" "q \<noteq> p" "q \<noteq> e" using xu [of q] s(1,4) e(1) by auto
  have zx: "x \<in> used \<and> x \<noteq> p \<and> x \<noteq> e" if "x \<in> set (zs @ [q])" for x
    using xu [of x] that s(1,4) e(1) by auto
  have "lseg d1 (Some ?h) (zs @ [q]) (Some p)"
    using lseg_frame [OF s(2), of d1] d1(1,3) zx by blast
  then have mv: "movelink d1 (Some p) ?h (Some e) = Some (d1[q := (d1 ! q)\<lparr>link_next := Some e\<rparr>])"
    by (rule movelink_seg) (use s(4) set_tl in fastforce)
  define d2 where "d2 = d1[q := (d1 ! q)\<lparr>link_next := Some e\<rparr>]"
  have len: "length d2 = length d" by (simp add: d2_def d1(1))
  have data: "dt d2 x = dt d1 x" for x 
    by (cases "x = q") (use s(9) d1(1) in \<open>simp_all add: d2_def\<close>)
  have frame: "d2 ! x = d ! x" if "x \<in> used" "x \<noteq> p" "x \<noteq> q" for x
    using that d1(3) by (simp add: d2_def)
  have d2e: "d2 ! e = d ! p" using q(3) d1(2) by (simp add: d2_def)
  have d2q: "nx d2 q = Some e" using s(9) d1(1) by (simp add: d2_def)
  have hq: "dt d2 q = dt d q" using data d1(3) [OF q(1,2)] by simp
  have de: "dt d2 e = dt d p" using d2e by simp
  have dtu: "dt d2 x = dt d x" if "x \<in> used" "x \<noteq> p" for x
    using frame [OF that] hq by (cases "x = q") auto
  have "linked hm d2 ?U"
  proof (rule linked_change [OF lk len, where T = "{?h}"])
    fix j
    assume j: "j \<in> ?U" "hm (dt d2 j) \<notin> {?h}"
    then have "j \<noteq> e" using de by auto
    then have ju: "j \<in> used" "j \<noteq> p" using j by auto
    have "j \<noteq> q" using j(2) hq xu [of q] cl(1) s(1) by (auto simp: cls_def)
    then show "j \<in> used \<and> d2 ! j = d ! j \<and> hm (dt d j) = hm (dt d j)" using frame ju by simp
  next
    fix j
    assume j: "j \<in> used" "hm (dt d j) \<notin> {?h}"
    then have "j \<noteq> p" by auto
    moreover have "q \<in> cls hm d used ?h" using cl(1) s(1) by (metis in_set_conv_decomp)
    then have "j \<noteq> q" using j(2) by (auto simp: cls_def)
    ultimately show "j \<in> ?U \<and> d2 ! j = d ! j \<and> hm (dt d j) = hm (dt d j)" using frame j by simp
  next
    fix h
    assume "h \<in> {?h}"
    then have h: "h = ?h" by simp
    let ?xs = "zs @ q # e # ws"
    have ef: "e \<notin> set xs" using xu e(1) by blast
    have "x \<in> used \<and> x \<noteq> p \<and> x \<noteq> q" if "x \<in> set zs \<or> x \<in> set ws" for x
      using that xu [of x] s(1,4,5,6,7) by auto
    then have fr: "d2 ! x = d ! x" if "x \<in> set zs \<or> x \<in> set ws" for x using that frame by blast
    obtain m where m: "lseg d (Some ?h) zs m" "m = Some q" using s(2) by (auto simp: lseg_append)
    have "lseg d2 (Some ?h) zs (Some q)" using lseg_frame [OF m(1), of d2] fr len m(2) by blast
    moreover have "lseg d2 (nx d p) ws None" using lseg_frame [OF s(3), of d2] fr len by blast
    ultimately have "lseg d2 (Some ?h) ?xs None"
      using d2q d2e s(9) e(2) len by (auto simp: lseg_append)
    moreover have "distinct ?xs" using cl(2) ef unfolding s(1) by auto
    moreover have "set ?xs = cls hm d2 ?U ?h"
    proof -
      have "set ?xs = insert e (set xs - {p})" using cl(2) unfolding s(1) by auto
      also have "\<dots> = cls hm d2 ?U ?h"
        unfolding cl(1) cls_def using dtu de e(1) by auto
      finally show ?thesis .
    qed
    ultimately show "\<exists>xs. chain_of hm d2 ?U h xs" unfolding h chain_of_def by blast
  qed
  moreover have "d2 ! p = d1 ! p" using q(2) by (simp add: d2_def)
  moreover have "d2 ! x = d1 ! x" if "hm (dt d x) \<noteq> ?h" for x
  proof -
    have "q \<in> cls hm d used ?h" using cl(1) s(1) by (metis in_set_conv_decomp)
    then have "x \<noteq> q" using that by (auto simp: cls_def)
    then show ?thesis by (simp add: d2_def)
  qed
  ultimately show ?thesis using mv len data by (auto simp: d2_def)
qed

text \<open>A record alone in its home slot.\<close>

lemma linked_alone:
  assumes lk: "linked hm d used" and p: "p \<notin> used" "p < length d"
    and d': "d' = d[p := \<lparr>link_next = None, link_data = r\<rparr>]" "hm r = p"
  shows "linked hm d' (insert p used)"
proof (rule linked_change [OF lk, where T = "{p}"])
  have no: "hm (dt d j) \<noteq> p" if "j \<in> used" for j
    using linked_home(1) [OF lk that] p(1) by metis
  have fr: "d' ! j = d ! j" if "j \<noteq> p" for j using that by (simp add: d')
  have at: "d' ! p = \<lparr>link_next = None, link_data = r\<rparr>" using p(2) by (simp add: d')
  show "length d' = length d" by (simp add: d')
  show "j \<in> used \<and> d' ! j = d ! j \<and> hm (dt d j) = hm (dt d j)"
    if "j \<in> insert p used" "hm (dt d' j) \<notin> {p}" for j
    using that at fr d'(2) by (cases "j = p") auto
  show "j \<in> insert p used \<and> d' ! j = d ! j \<and> hm (dt d j) = hm (dt d j)"
    if "j \<in> used" "hm (dt d j) \<notin> {p}" for j
    using that fr p(1) by (cases "j = p") auto
  show "\<exists>xs. chain_of hm d' (insert p used) h xs" if "h \<in> {p}" for h
  proof -
    have "hm (dt d' j) \<noteq> p" if "j \<in> used" for j using no fr p(1) that by metis
    then have "cls hm d' (insert p used) p = {p}" using at d'(2) by (auto simp: cls_def)
    then show ?thesis using that at p(2) unfolding chain_of_def
      by (intro exI [of _ "[p]"]) (auto simp: d')
  qed
qed

text \<open>A record in front of the chain of its home slot; the record of that slot moves to \<open>e\<close>.\<close>

lemma linked_front:
  assumes lk: "linked hm d used" and p: "p \<in> used" "hm (dt d p) = p" "hm r = p"
    and e: "e \<notin> used" "e < length d"
    and d': "d' = d[e := d ! p, p := \<lparr>link_next = Some e, link_data = r\<rparr>]"
  shows "linked hm d' (insert e used)"
proof -
  obtain xs where c: "chain_of hm d used p xs" using linkedD [OF lk p(1)] p(2) by auto
  then obtain ys where ys: "xs = p # ys" "p < length d" by (rule chain_of_head)
  have cl: "set xs = cls hm d used p" "distinct xs" "lseg d (Some p) xs None" using c by (auto simp: chain_of_def)
  have xu: "x \<in> used" if "x \<in> set xs" for x using that unfolding cl by (simp add: cls_def)
  have ep: "e \<noteq> p" using e(1) p(1) by blast
  have at: "d' ! p = \<lparr>link_next = Some e, link_data = r\<rparr>" "d' ! e = d ! p"
    using ep e(2) ys(2) by (auto simp: d')
  have fr: "d' ! j = d ! j" if "j \<noteq> e" "j \<noteq> p" for j using that by (simp add: d')
  have dtu: "hm (dt d' j) = hm (dt d j)" if "j \<in> used" for j
  proof -
    have "j \<noteq> e" using that e(1) by blast
    then show ?thesis using fr [of j] at p by (cases "j = p") auto
  qed
  have len: "length d' = length d" by (simp add: d')
  show ?thesis
  proof (rule linked_change [OF lk len, where T = "{p}"])
    show "j \<in> used \<and> d' ! j = d ! j \<and> hm (dt d j) = hm (dt d j)"
      if "j \<in> insert e used" "hm (dt d' j) \<notin> {p}" for j
    proof -
      have "j \<noteq> p" using that at p(3) by auto
      moreover have "j \<noteq> e" using that at p(2) by auto
      ultimately show ?thesis using that fr by auto
    qed
    show "j \<in> insert e used \<and> d' ! j = d ! j \<and> hm (dt d j) = hm (dt d j)"
      if "j \<in> used" "hm (dt d j) \<notin> {p}" for j
    proof -
      have "j \<noteq> p" using that p(2) by auto
      moreover have "j \<noteq> e" using that e(1) by auto
      ultimately show ?thesis using that fr by auto
    qed
    show "\<exists>xs. chain_of hm d' (insert e used) h xs" if "h \<in> {p}" for h
    proof -
      have ey: "e \<notin> set ys" "p \<notin> set ys" using xu e(1) cl(2) ys(1) by auto
      have sg: "lseg d (nx d p) ys None" using cl(3) unfolding ys(1) by simp
      have "d' ! x = d ! x" if "x \<in> set ys" for x
        by (rule fr) (use ey that in blast)+
      from lseg_frame [OF sg this len] have "lseg d' (nx d p) ys None" by blast
      then have "lseg d' (Some p) (p # e # ys) None"
        using at e(2) ys(2) len by simp
      moreover have "set (p # e # ys) = cls hm d' (insert e used) p"
      proof -
        have he: "hm (dt d' e) = p" using at(2) p(2) by simp
        have "set (p # e # ys) = insert e (set xs)" unfolding ys(1) by auto
        also have "\<dots> = cls hm d' (insert e used) p"
          unfolding cl(1) cls_def by (auto simp: dtu he)
        finally show ?thesis .
      qed
      moreover have "distinct (p # e # ys)" using ey ep cl(2) ys(1) by auto
      ultimately show ?thesis using that unfolding chain_of_def by blast
    qed
  qed
qed

end
