(* ===== verification/HashInsert.thy ===== *)
theory HashInsert
  imports HashLink
begin

text \<open>The insertion keeps the invariant of the table and adds exactly the new record.\<close>

section \<open>Insertion\<close>

lemma lseg_grow:
  "lseg d s xs e \<Longrightarrow> (\<And>x. x \<in> set xs \<Longrightarrow> d' ! x = d ! x) \<Longrightarrow> length d \<le> length d' \<Longrightarrow> lseg d' s xs e"
  by (induction xs arbitrary: s) auto

lemma linked_grow:
  assumes lk: "linked hm d used" and same: "\<And>x. x \<in> used \<Longrightarrow> d' ! x = d ! x" and len: "length d \<le> length d'"
  shows "linked hm d' used"
  unfolding linked_def
proof
  fix j
  assume j: "j \<in> used"
  then obtain xs where xs: "chain_of hm d used (hm (dt d j)) xs" using linkedD [OF lk] by blast
  have "cls hm d' used h = cls hm d used h" for h using same by (auto simp: cls_def)
  moreover have "d' ! x = d ! x" if "x \<in> set xs" for x
    using xs that same by (auto simp: chain_of_def cls_def)
  ultimately have "chain_of hm d' used (hm (dt d j)) xs"
    using xs lseg_grow [of d _ xs _ d'] len by (auto simp: chain_of_def)
  then show "\<exists>xs. chain_of hm d' used (hm (dt d' j)) xs" using same [OF j] by auto
qed

lemma recs_move:
  assumes U: "finite U" "i \<in> U" "e \<notin> U" and d': "dt d' e = dt d i" "dt d' i = r"
    "\<And>x. x \<in> U \<Longrightarrow> x \<noteq> i \<Longrightarrow> dt d' x = dt d x"
  shows "recs d' (insert e U) = add_mset r (recs d U)"
proof -
  let ?R = "U - {i}"
  have "recs d' ?R = recs d ?R" by (rule recs_cong) (use d'(3) in auto)
  moreover have "recs d' (insert e (insert i ?R)) = add_mset (dt d' e) (add_mset (dt d' i) (recs d' ?R))"
    using U by (subst recs_insert; (subst recs_insert)?) auto
  moreover have "recs d (insert i ?R) = add_mset (dt d i) (recs d ?R)"
    using U by (subst recs_insert) auto
  moreover have "insert i ?R = U" using U by auto
  ultimately show ?thesis using d' by simp
qed

lemma home1_le:
  assumes "blen_ok (blength info) (records info)"
  shows "home1 info r \<le> records info"
  using assms unfolding blen_ok_def
proof (elim disjE exE conjE)
  assume "blength info = 1" "records info = 0"
  then show ?thesis by (simp add: home1_def mask_one [unfolded One_nat_def])
next
  fix m
  assume "blength info = 2 * 2 ^ m" "2 ^ m \<le> records info" "records info < blength info"
  then show ?thesis using home1_home(1,4) [of info m r] by force
qed

lemma place_record_spec:
  assumes b: "blen_ok (blength info) (records info)" and len: "records info < length d"
    and e: "e \<le> records info" and lk: "linked (home1 info) d ({..records info} - {e})"
  shows "\<exists>d'. place_record info d e r = Some d' \<and> length d' = length d
    \<and> linked (home1 info) d' {..records info}
    \<and> recs d' {..records info} = add_mset r (recs d ({..records info} - {e}))"
proof -
  let ?n = "records info" and ?U = "{..records info} - {e}"
  define i where "i = home1 info r"
  have i: "i \<le> ?n" unfolding i_def by (rule home1_le [OF b])
  have U: "insert e ?U = {..?n}" "finite ?U" "e \<notin> ?U" using e by auto
  have le: "e < length d" "i < length d" using e i len by auto
  have pr: "place_record info d e r = (let pos = d ! i in
      if i = e then Some (d[i := \<lparr>link_next = None, link_data = r\<rparr>])
      else let d1 = d[e := pos]; gpos = home1 info (link_data pos)
        in if i = gpos then Some (d1[i := \<lparr>link_next = Some e, link_data = r\<rparr>])
           else movelink (d1[i := \<lparr>link_next = None, link_data = r\<rparr>]) (Some i) gpos (Some e))"
    using le by (simp add: place_record_def i_def home1_def my_hash_rec_mask_def rec_hashnr_def Let_def)
  show ?thesis
  proof (cases "i = e")
    case True
    let ?d = "d[e := \<lparr>link_next = None, link_data = r\<rparr>]"
    have "linked (home1 info) ?d (insert e ?U)"
      by (rule linked_alone [OF lk]) (use le True i_def in auto)
    moreover have "recs ?d (insert e ?U) = add_mset r (recs d ?U)"
    proof -
      have "recs ?d ?U = recs d ?U" by (rule recs_cong) auto
      then show ?thesis using recs_insert [OF U(2,3), of ?d] le by simp
    qed
    ultimately show ?thesis using True unfolding U(1) by (simp add: pr)
  next
    case ie: False
    then have iU: "i \<in> ?U" using i by auto
    show ?thesis
    proof (cases "home1 info (dt d i) = i")
      case True
      let ?d = "d[e := d ! i, i := \<lparr>link_next = Some e, link_data = r\<rparr>]"
      have "linked (home1 info) ?d (insert e ?U)"
        by (rule linked_front [OF lk iU True i_def [symmetric] U(3) le(1) refl])
      moreover have "recs ?d (insert e ?U) = add_mset r (recs d ?U)"
        by (rule recs_move [OF U(2) iU U(3)]) (use ie le in auto)
      ultimately show ?thesis using ie True unfolding U(1) by (simp add: pr Let_def)
    next
      case False
      let ?d1 = "d[e := d ! i, i := \<lparr>link_next = None, link_data = r\<rparr>]"
      have "\<exists>d2. movelink ?d1 (Some i) (home1 info (dt d i)) (Some e) = Some d2 \<and> length d2 = length d
        \<and> linked (home1 info) d2 (insert e (?U - {i})) \<and> (\<forall>x. dt d2 x = dt ?d1 x) \<and> d2 ! i = ?d1 ! i
        \<and> (\<forall>x. home1 info (dt d x) \<noteq> home1 info (dt d i) \<longrightarrow> d2 ! x = ?d1 ! x)"
        by (rule relocate [OF lk iU False U(3) le(1)]) (use ie le in auto)
      then obtain d2 where d2: "movelink ?d1 (Some i) (home1 info (dt d i)) (Some e) = Some d2"
        "length d2 = length d" "linked (home1 info) d2 (insert e (?U - {i}))"
        "\<forall>x. dt d2 x = dt ?d1 x" "d2 ! i = ?d1 ! i"
        by blast
      have at: "d2 = d2[i := \<lparr>link_next = None, link_data = r\<rparr>]"
        using d2(5) le by (metis length_list_update list_update_id nth_list_update_eq)
      have "linked (home1 info) d2 (insert i (insert e (?U - {i})))"
        by (rule linked_alone [OF d2(3) _ _ at i_def [symmetric]]) (use ie le d2(2) in auto)
      moreover have "insert i (insert e (?U - {i})) = insert e ?U" using iU by auto
      moreover have "recs d2 (insert e ?U) = add_mset r (recs d ?U)"
        by (rule recs_move [OF U(2) iU U(3)]) (use ie le d2(4) in auto)
      ultimately show ?thesis using ie False d2(1,2) unfolding U(1) by (simp add: pr Let_def)
    qed
  qed
qed

text \<open>The table after an insertion: one record more, and \<^const>\<open>blength\<close> doubled when full.\<close>

lemma blen_grow: "blen_ok b n \<Longrightarrow> blen_ok (if n + 1 = b then b + b else b) (n + 1)"
proof -
  assume "blen_ok b n"
  then consider "b = 1" "n = 0" | m where "b = 2 * 2 ^ m" "2 ^ m \<le> n" "n < b" by (auto simp: blen_ok_def)
  then show ?thesis
  proof cases
    case 1
    then show ?thesis by (auto simp: blen_ok_def intro: exI [of _ 0])
  next
    case (2 m)
    then show ?thesis unfolding blen_ok_def by (auto intro: exI [of _ "Suc m"] exI [of _ m])
  qed
qed

lemma home1_grow:
  assumes "blen_ok (blength info) (records info)"
  shows "my_hash_mask h (if records info + 1 = blength info then blength info + blength info
      else blength info) (records info + 1) = my_hash_mask h (blength info) (records info + 1)"
  using assms unfolding blen_ok_def
proof (elim disjE exE conjE)
  assume "blength info = 1" "records info = 0"
  moreover have "my_hash_mask h 2 1 = 0" using mask_mod [of h 0 1] by simp
  ultimately show ?thesis by (simp add: mask_one [unfolded One_nat_def] numeral_2_eq_2 [symmetric])
next
  fix m
  assume m: "blength info = 2 * 2 ^ m"
  show ?thesis
  proof (cases "records info + 1 = blength info")
    case True
    then show ?thesis using double_mask [of h m] m by simp
  qed simp
qed

definition grown :: "'r HASH \<Rightarrow> 'r HASH_LINK list \<Rightarrow> 'r HASH" where
  "grown info d = (with_data info d)\<lparr>records := records info + 1,
     blength := (if records info + 1 = blength info then blength info + blength info else blength info)\<rparr>"

lemma keys_cong:
  "get_key h' = get_key h \<Longrightarrow> key_length h' = key_length h \<Longrightarrow> key_offset h' = key_offset h \<Longrightarrow>
   rec_bytes h' = rec_bytes h \<Longrightarrow> charset h' = charset h \<Longrightarrow>
     my_hash_key h' = my_hash_key h \<and> rec_hashnr h' = rec_hashnr h \<and> calc_hash h' = calc_hash h"
  by (simp add: my_hash_key_def [abs_def] rec_hashnr_def [abs_def] calc_hash_def [abs_def] cong: option.case_cong)

lemma insert_core:
  assumes arr: "da_wf (harray info)" "elements (harray info) = records info + 1"
    and b: "blen_ok (blength info) (records info)"
    and lk: "linked (home info) (data_of info) {..<records info}"
  shows "\<exists>d e d'. split_chain info (data_of info) (records info) = Some (d, e)
    \<and> place_record info d e r = Some d' \<and> hash_wf (grown info d')
    \<and> mset (hash_records (grown info d')) = add_mset r (recs (data_of info) {..<records info})"
proof -
  let ?n = "records info"
  have len: "?n < length (data_of info)"
    using arr by (simp add: data_of_length) (simp add: da_wf_def)
  obtain d e where s: "split_chain info (data_of info) ?n = Some (d, e)" "e \<le> ?n"
    "length d = length (data_of info)" "linked (home1 info) d ({..?n} - {e})"
    "recs d ({..?n} - {e}) = recs (data_of info) {..<?n}"
    using split_chain_spec [OF b len lk] by blast
  obtain d' where p: "place_record info d e r = Some d'" "length d' = length d"
    "linked (home1 info) d' {..?n}" "recs d' {..?n} = add_mset r (recs d ({..?n} - {e}))"
    using place_record_spec [OF b _ s(2,4), of r] len s(3) by auto
  let ?g = "grown info d'"
  have dg: "data_of ?g = d'" "records ?g = ?n + 1" by (simp_all add: grown_def with_data_def data_of_def)
  have hg: "home ?g = home1 info"
    using keys_cong [of ?g info] home1_grow [OF b]
    by (simp add: grown_def with_data_def home_def [abs_def] home1_def fun_eq_iff)
  have "buffer (harray info) \<noteq> None"
    using arr by (auto simp: da_wf_def split: option.splits)
  then have wg: "da_wf (harray ?g)" "elements (harray ?g) = ?n + 1"
    using arr s(3) p(2) unfolding grown_def with_data_def da_wf_def data_of_def
    by (auto split: option.splits)
  have at: "{..<?n + 1} = {..?n}" by auto
  have "hash_wf ?g"
    unfolding hash_wf_def dg hg using wg blen_grow [OF b] p(3) at
    by (simp add: grown_def with_data_def)
  moreover have "mset (hash_records ?g) = add_mset r (recs (data_of info) {..<?n})"
    using hash_records_recs [OF hash_wf_length [OF \<open>hash_wf ?g\<close>]] p(4) s(5)
    unfolding dg at by simp
  ultimately show ?thesis using s(1) p(1) by blast
qed

text \<open>The whole insertion.\<close>

definition dup_key :: "'r HASH \<Rightarrow> 'r \<Rightarrow> bool" where
  "dup_key info r \<longleftrightarrow> HASH_UNIQUE AND flags info \<noteq> 0 \<and>
     (\<exists>q \<in> set (hash_records info).
        key_match info (my_hash_key info r True) (length (my_hash_key info r True)) q)"

theorem my_hash_insert_correct:
  assumes wf: "hash_wf info" and al: "alloc_ok (size_of_element (harray info)) alloc"
    and room: "room_for (harray info) (max_element (harray info))"
    and key: "key_stable info" "good_key info (my_hash_key info r True)"
      "HASH_UNIQUE AND flags info = 0 \<or> len_ok info (length (my_hash_key info r True))"
  shows "\<exists>info' failed. my_hash_insert alloc info r = Some (info', failed) \<and> hash_wf info'
    \<and> mset (hash_records info') =
        (if failed then mset (hash_records info) else add_mset r (mset (hash_records info)))
    \<and> (failed \<longleftrightarrow> dup_key info r
          \<or> (\<exists>arr. alloc_dynamic alloc (harray info) = Some (arr, None)))"
proof -
  let ?k = "my_hash_key info r True"
  define dup where "dup = (if HASH_UNIQUE AND flags info \<noteq> 0 then my_hash_search info ?k (length ?k) else Some None)"
  have d: "\<exists>res. dup = Some res \<and> (res \<noteq> None \<longleftrightarrow> dup_key info r)"
  proof (cases "HASH_UNIQUE AND flags info = 0")
    case True
    then show ?thesis by (simp add: dup_def dup_key_def)
  next
    case False
    then have "len_ok info (length ?k)" using key(3) by simp
    then obtain res where "my_hash_search info ?k (length ?k) = Some res"
      "case res of None \<Rightarrow> \<forall>q \<in> set (hash_records info). \<not> key_match info ?k (length ?k) q
         | Some q \<Rightarrow> q \<in> set (hash_records info) \<and> key_match info ?k (length ?k) q"
      using search_correct [OF wf key(1,2)] by blast
    then show ?thesis using False by (auto simp: dup_def dup_key_def split: option.splits)
  qed
  have g: "grown (info\<lparr>harray := arr\<rparr>) d' = (with_data (info\<lparr>harray := arr\<rparr>) d')\<lparr>records := records info + 1,
      blength := (if records info + 1 = blength info then blength info + blength info else blength info)\<rparr>"
    for arr d' by (simp add: grown_def)
  have ins: "my_hash_insert alloc info r = do {
      dup \<leftarrow> dup;
      if dup \<noteq> None then Some (info, True)
      else do {
        (arr, slot) \<leftarrow> alloc_dynamic alloc (harray info);
        case slot of
          None \<Rightarrow> Some (info\<lparr>harray := arr\<rparr>, True)
        | Some hole \<Rightarrow> do {
            let info1 = info\<lparr>harray := arr\<rparr>;
            (d, hole') \<leftarrow> split_chain info1 (data_of info1) hole;
            d' \<leftarrow> place_record info1 d hole' r;
            Some (grown info1 d', False) } } }"
    unfolding my_hash_insert_def dup_def Let_def g by (rule refl)
  have wfa: "da_wf (harray info)" "elements (harray info) = records info"
    "blen_ok (blength info) (records info)" "linked (home info) (data_of info) {..<records info}"
    using wf by (auto simp: hash_wf_def)
  obtain arr slot where a: "alloc_dynamic alloc (harray info) = Some (arr, slot)"
    and a2: "case slot of None \<Rightarrow> arr = harray info \<and> elements (harray info) = max_element (harray info)
      | Some i \<Rightarrow> i = elements (harray info) \<and> elements arr = Suc i \<and> da_wf arr
          \<and> take i (contents arr) = contents (harray info)
          \<and> alloc_increment arr = alloc_increment (harray info)
          \<and> size_of_element arr = size_of_element (harray info)
          \<and> max_element arr = (if elements (harray info) = max_element (harray info)
               then max_element (harray info) + alloc_increment (harray info) else max_element (harray info))"
    using alloc_dynamic_refines [OF wfa(1) al room] by blast
  show ?thesis
  proof (cases "dup_key info r")
    case True
    then show ?thesis using d wf unfolding ins by auto
  next
    case nodup: False
    then have dn: "dup = Some None" using d by auto
    show ?thesis
    proof (cases slot)
      case None
      then have "info\<lparr>harray := arr\<rparr> = info" using a2 by simp
      then show ?thesis using dn a None wf unfolding ins by auto
    next
      case (Some i)
      let ?i1 = "info\<lparr>harray := arr\<rparr>"
      have a3: "take i (contents arr) = contents (harray info)" using a2 unfolding Some option.case by blast
      have i: "i = records info" using a2 Some wfa(2) by simp
      have ar: "da_wf arr" "elements arr = records info + 1" using a2 Some i by auto
      have da: "data_of info ! x = data_of ?i1 ! x" if "x < records info" for x
      proof -
        have c: "contents arr ! x = contents (harray info) ! x"
        proof -
          have "take i (contents arr) ! x = contents arr ! x" using that i by simp
          then show ?thesis unfolding a3 by simp
        qed
        have "contents arr ! x = data_of ?i1 ! x" using that ar
          by (auto simp: contents_def data_of_def da_wf_def split: option.splits)
        moreover have "contents (harray info) ! x = data_of info ! x" using that wfa(1,2)
          by (auto simp: contents_def data_of_def da_wf_def split: option.splits)
        ultimately show ?thesis using c by simp
      qed
      have hm: "home ?i1 = home info"
        using keys_cong [of ?i1 info] by (simp add: home_def [abs_def])
      have "length (data_of info) \<le> length (data_of ?i1)"
        using data_of_length [OF wfa(1)] data_of_length [of ?i1] a2 Some by (auto split: if_splits)
      then have lk: "linked (home ?i1) (data_of ?i1) {..<records ?i1}"
        unfolding hm using linked_grow [OF wfa(4), of "data_of ?i1"] da by simp
      have harr: "harray ?i1 = arr" "records ?i1 = records info" "blength ?i1 = blength info" by simp_all
      obtain d e d' where D: "split_chain ?i1 (data_of ?i1) (records ?i1) = Some (d, e)"
          "place_record ?i1 d e r = Some d'" "hash_wf (grown ?i1 d')"
          "mset (hash_records (grown ?i1 d')) = add_mset r (recs (data_of ?i1) {..<records ?i1})"
        using insert_core [of ?i1 r, OF _ _ _ lk] ar wfa(3) unfolding harr by blast
      have "recs (data_of ?i1) {..<records info} = mset (hash_records info)"
        unfolding hash_records_recs [OF hash_wf_length [OF wf]]
        by (rule recs_cong) (use da in simp)
      then have m: "mset (hash_records (grown ?i1 d')) = add_mset r (mset (hash_records info))"
        using D(4) by simp
      have sp: "split_chain ?i1 (data_of ?i1) i = Some (d, e)" using D(1) i by simp
      have "my_hash_insert alloc info r = Some (grown ?i1 d', False)"
        unfolding ins dn a Some using D(2) by (simp add: sp)
      then show ?thesis using D(3) m nodup a Some by simp
    qed
  qed
qed

end
