(* ===== verification/HashFind.thy ===== *)
theory HashFind
  imports HashInsert
begin

text \<open>
  The first half of a deletion and of an update: the search for the record along its chain and
  its removal from the chain.
\<close>

section \<open>Finding and unlinking the record\<close>

lemma upd_outside: "x \<in> S \<Longrightarrow> p \<notin> S \<Longrightarrow> d[p := v] ! x = d ! x"
  by (cases "x = p") auto

text \<open>The walk along a chain finds the first slot with the record and the slot before it.\<close>

lemma find_record_seg:
  "lseg d (Some j) (j # xs) None \<Longrightarrow>
     (\<exists>zs p ws. j # xs = zs @ p # ws \<and> dt d p = r
        \<and> find_record d r j g = Some (Some (p, if zs = [] then g else Some (last zs))))
     \<or> (\<forall>x \<in> set (j # xs). dt d x \<noteq> r) \<and> find_record d r j g = Some None"
proof (induction xs arbitrary: j g)
  case Nil
  then show ?case
    by (cases "dt d j = r")
      (subst find_record.simps, rule disjI1, rule exI [of _ "[]"], simp,
       subst find_record.simps, simp)
next
  case (Cons y ys)
  then have n: "nx d j = Some y" "j < length d" "lseg d (Some y) (y # ys) None" by auto
  show ?case
  proof (cases "dt d j = r")
    case True
    then have "find_record d r j g = Some (Some (j, g))"
      using n by (subst find_record.simps) simp
    then show ?thesis using True by (intro disjI1 exI [of _ "[]"]) auto
  next
    case False
    then have f: "find_record d r j g = find_record d r y (Some j)"
      using n by (subst find_record.simps) simp
    from Cons.IH [OF n(3), of "Some j"] show ?thesis
    proof (elim disjE exE conjE)
      fix zs p ws
      assume z: "y # ys = zs @ p # ws" "dt d p = r"
        "find_record d r y (Some j) = Some (Some (p, if zs = [] then Some j else Some (last zs)))"
      then have "j # y # ys = (j # zs) @ p # ws"
        "find_record d r j g = Some (Some (p, if j # zs = [] then g else Some (last (j # zs))))"
        unfolding f by auto
      then show ?thesis using z(2) by blast
    qed (use False f in auto)
  qed
qed

text \<open>From any used slot on there is a linked list of used slots.\<close>

lemma linked_from:
  assumes "linked hm d used" "j \<in> used"
  shows "\<exists>xs. lseg d (Some j) (j # xs) None \<and> set xs \<subseteq> used"
proof -
  obtain xs where c: "chain_of hm d used (hm (dt d j)) xs" using linkedD [OF assms] by blast
  then have s: "set xs = cls hm d used (hm (dt d j))" by (simp add: chain_of_def)
  then have "j \<in> set xs" using assms(2) by (simp add: cls_def)
  then obtain us ws where u: "xs = us @ j # ws" by (meson split_list)
  have "lseg d (Some j) (j # ws) None" using c u by (auto simp: chain_of_def lseg_append)
  moreover have "set ws \<subseteq> used" using s u by (auto simp: cls_def)
  ultimately show ?thesis by blast
qed

text \<open>A record leaves its chain: with a slot before it, or from the front.\<close>

lemma unlink_inner:
  assumes lk: "linked hm d used" and c: "chain_of hm d used h (zs @ q # p # ws)"
  shows "\<exists>d'. unlink_record d p (Some q) = Some (d', p) \<and> length d' = length d
    \<and> linked hm d' (used - {p}) \<and> (\<forall>x. dt d' x = dt d x)"
proof -
  let ?xs = "zs @ q # p # ws" and ?d = "d[q := (d ! q)\<lparr>link_next := nx d p\<rparr>]"
  have s: "lseg d (Some h) ?xs None" "distinct ?xs" "set ?xs = cls hm d used h"
    using c by (auto simp: chain_of_def)
  have lt: "q < length d" "p < length d" using lseg_bound [OF s(1)] by auto
  have u: "unlink_record d p (Some q) = Some (?d, p)" using lt by (simp add: unlink_record_def)
  have dt: "dt ?d x = dt d x" for x by (cases "x = q") (use lt in simp_all)
  have fr: "?d ! x = d ! x" if "x \<noteq> q" for x using that by simp
  have qh: "hm (dt d q) = h" "hm (dt d p) = h" using s(3) by (auto simp: cls_def)
  have "linked hm ?d (used - {p})"
  proof (rule linked_change [OF lk, where T = "{h}"])
    show "j \<in> used \<and> ?d ! j = d ! j \<and> hm (dt d j) = hm (dt d j)"
      if "j \<in> used - {p}" "hm (dt ?d j) \<notin> {h}" for j
    proof -
      have "j \<noteq> q" using that qh dt by auto
      then show ?thesis using that by simp
    qed
    show "j \<in> used - {p} \<and> ?d ! j = d ! j \<and> hm (dt d j) = hm (dt d j)"
      if "j \<in> used" "hm (dt d j) \<notin> {h}" for j
    proof -
      have "j \<noteq> q" "j \<noteq> p" using that qh by auto
      then show ?thesis using that by simp
    qed
    show "\<exists>xs. chain_of hm ?d (used - {p}) k xs" if "k \<in> {h}" for k
    proof -
      obtain m where m: "lseg d (Some h) zs m" "m = Some q" "lseg d (nx d p) ws None"
        using s(1) by (auto simp: lseg_append)
      have "q \<notin> set zs \<union> set ws" using s(2) by auto
      then have fz: "?d ! x = d ! x" if "x \<in> set zs \<or> x \<in> set ws" for x
        using upd_outside [of x "set zs \<union> set ws" q d] that by simp
      have "lseg ?d (Some h) zs (Some q)" using lseg_frame [OF m(1), of ?d] fz m(2) by simp
      moreover have "lseg ?d (nx d p) ws None" using lseg_frame [OF m(3), of ?d] fz by simp
      ultimately have "lseg ?d (Some h) (zs @ q # ws) None" using lt by (auto simp: lseg_append)
      moreover have "set (zs @ q # ws) = set ?xs - {p}" using s(2) by auto
      then have "set (zs @ q # ws) = cls hm ?d (used - {p}) h"
        unfolding s(3) by (auto simp: cls_def dt)
      moreover have "distinct (zs @ q # ws)" using s(2) by simp
      ultimately show ?thesis using that unfolding chain_of_def by blast
    qed
  qed simp
  then show ?thesis using u dt by (intro exI [of _ ?d]) simp
qed

lemma unlink_front:
  assumes lk: "linked hm d used" and c: "chain_of hm d used p (p # ws)" and fin: "finite used"
  shows "\<exists>d' e. unlink_record d p None = Some (d', e) \<and> length d' = length d \<and> e \<in> used
    \<and> linked hm d' (used - {e}) \<and> recs d used = add_mset (dt d p) (recs d' (used - {e}))"
proof (cases ws)
  case Nil
  have s: "lseg d (Some p) [p] None" "{p} = cls hm d used p"
    using c unfolding Nil chain_of_def by auto
  have pu: "p \<in> used" using s(2) by (auto simp: cls_def)
  have no: "hm (dt d j) \<noteq> p" if "j \<in> used" "j \<noteq> p" for j
    using that s(2) by (auto simp: cls_def)
  have ph: "hm (dt d p) = p" using s(2) by (auto simp: cls_def)
  have "linked hm d (used - {p})"
  proof (rule linked_change [OF lk, where T = "{p}"])
    show "\<exists>xs. chain_of hm d (used - {p}) h xs" if "h \<in> {p}" "cls hm d (used - {p}) h \<noteq> {}" for h
      using that no by (auto simp: cls_def)
  qed (use ph in auto)
  moreover have "recs d used = add_mset (dt d p) (recs d (used - {p}))"
    using recs_insert [of "used - {p}" p d] fin pu by (simp add: insert_absorb)
  ultimately show ?thesis using s(1) pu by (simp add: unlink_record_def)
next
  case (Cons e as)
  let ?d = "d[p := d ! e]"
  have s: "lseg d (Some p) (p # e # as) None" "distinct (p # e # as)" "set (p # e # as) = cls hm d used p"
    using c unfolding Cons chain_of_def by auto
  have lt: "p < length d" "e < length d" using lseg_bound [OF s(1)] by auto
  have pu: "p \<in> used" "e \<in> used" "hm (dt d p) = p" "hm (dt d e) = p" using s(3) by (auto simp: cls_def)
  have pe: "p \<noteq> e" using s(2) by auto
  have u: "unlink_record d p None = Some (?d, e)" using s(1) lt by (simp add: unlink_record_def)
  have fr: "?d ! x = d ! x" if "x \<noteq> p" for x using that by simp
  have "linked hm ?d (used - {e})"
  proof (rule linked_change [OF lk, where T = "{p}"])
    show "j \<in> used \<and> ?d ! j = d ! j \<and> hm (dt d j) = hm (dt d j)"
      if "j \<in> used - {e}" "hm (dt ?d j) \<notin> {p}" for j
    proof -
      have "j \<noteq> p" using that pu(4) lt by auto
      then show ?thesis using that by auto
    qed
    show "j \<in> used - {e} \<and> ?d ! j = d ! j \<and> hm (dt d j) = hm (dt d j)"
      if "j \<in> used" "hm (dt d j) \<notin> {p}" for j
    proof -
      have "j \<noteq> p" "j \<noteq> e" using that pu by auto
      then show ?thesis using that by simp
    qed
    show "\<exists>xs. chain_of hm ?d (used - {e}) k xs" if "k \<in> {p}" for k
    proof -
      have sg: "lseg d (nx d e) as None" using s(1) by simp
      have "lseg ?d (nx d e) as None" using lseg_frame [OF sg, of ?d] upd_outside [of _ "set as" p d] s(2) by simp
      then have "lseg ?d (Some p) (p # as) None" using lt by simp
      moreover have "set (p # as) = cls hm ?d (used - {e}) p"
      proof -
        have "set (p # as) = set (p # e # as) - {e}" using s(2) by auto
        also have "\<dots> = cls hm ?d (used - {e}) p"
          unfolding s(3) using pu lt by (auto simp: cls_def nth_list_update)
        finally show ?thesis .
      qed
      moreover have "distinct (p # as)" using s(2) by simp
      ultimately show ?thesis using that unfolding chain_of_def by blast
    qed
  qed simp
  moreover have "recs d used = add_mset (dt d p) (recs ?d (used - {e}))"
  proof -
    let ?R = "used - {p, e}"
    have "used = insert p (insert e ?R)" "used - {e} = insert p ?R" using pu pe by auto
    moreover have "recs ?d ?R = recs d ?R" by (rule recs_cong) auto
    moreover have "recs d (insert p (insert e ?R)) = add_mset (dt d p) (add_mset (dt d e) (recs d ?R))"
      using fin pe by (simp add: recs_insert)
    moreover have "recs ?d (insert p ?R) = add_mset (dt d e) (recs ?d ?R)"
      using fin lt by (simp add: recs_insert)
    ultimately show ?thesis by simp
  qed
  ultimately show ?thesis using u pu(2) by auto
qed

text \<open>Both together, from the slot where the code starts.\<close>

lemma find_unlink:
  assumes lk: "linked hm d used" and fin: "finite used" and h: "h \<in> used"
    and hr: "\<And>j. j \<in> used \<Longrightarrow> dt d j = r \<Longrightarrow> hm r = h"
  shows "if \<exists>j \<in> used. dt d j = r
    then \<exists>p g d' e. find_record d r h None = Some (Some (p, g)) \<and> p \<in> used \<and> dt d p = r
      \<and> unlink_record d p g = Some (d', e) \<and> length d' = length d \<and> e \<in> used
      \<and> (e = p \<or> g = None) \<and> linked hm d' (used - {e}) \<and> recs d used = add_mset r (recs d' (used - {e}))
    else find_record d r h None = Some None"
proof (cases "\<exists>j \<in> used. dt d j = r")
  case False
  obtain xs where xs: "lseg d (Some h) (h # xs) None" "set xs \<subseteq> used"
    using linked_from [OF lk h] by blast
  then have "find_record d r h None = Some None"
    using find_record_seg [OF xs(1), of r None] False h by (metis in_set_conv_decomp set_ConsD subsetD)
  then show ?thesis using False by simp
next
  case True
  then obtain j where j: "j \<in> used" "dt d j = r" by blast
  then obtain xs where c: "chain_of hm d used h xs" using linkedD [OF lk j(1)] hr by auto
  then obtain ys where ys: "xs = h # ys" by (rule chain_of_head)
  have s: "lseg d (Some h) (h # ys) None" "set xs = cls hm d used h" using c ys by (auto simp: chain_of_def)
  have "j \<in> set (h # ys)" using s(2) j hr ys by (auto simp: cls_def)
  then obtain zs p ws where z: "xs = zs @ p # ws" "dt d p = r"
    "find_record d r h None = Some (Some (p, if zs = [] then None else Some (last zs)))"
    using find_record_seg [OF s(1), of r None] j(2) ys by metis
  have pu: "p \<in> used" using s(2) z(1) by (auto simp: cls_def)
  show ?thesis
  proof (cases zs rule: rev_cases)
    case Nil
    then have "p = h" using z(1) ys by simp
    then have "chain_of hm d used p (p # ws)" using c z(1) Nil by simp
    from unlink_front [OF lk this fin] show ?thesis using True z Nil pu by auto
  next
    case (snoc us q)
    then have c': "chain_of hm d used h (us @ q # p # ws)" using c z(1) by simp
    obtain d' where d': "unlink_record d p (Some q) = Some (d', p)" "length d' = length d"
      "linked hm d' (used - {p})" "\<forall>x. dt d' x = dt d x"
      using unlink_inner [OF lk c'] by blast
    have "recs d used = add_mset r (recs d' (used - {p}))"
    proof -
      have "recs d' (used - {p}) = recs d (used - {p})" by (rule recs_cong) (use d'(4) in simp)
      then show ?thesis using recs_insert [of "used - {p}" p d] fin pu z(2) by (simp add: insert_absorb)
    qed
    then show ?thesis using True z snoc pu d' by auto
  qed
qed

end
