(* ===== verification/HashDelete.thy ===== *)
theory HashDelete
  imports HashFind
begin

text \<open>
  The deletion: after the record has left its chain, the last record moves into the free slot,
  which undoes one split.
\<close>

section \<open>The move of the last record\<close>

text \<open>
  The homes \<open>hm1\<close> among \<open>n + 1\<close> slots and \<open>hm\<close> among \<open>n\<close>: they differ for the records of the slot \<open>n\<close>
  only, which go to \<open>st\<close>.
\<close>

definition unsplit :: "('r \<Rightarrow> nat) \<Rightarrow> ('r \<Rightarrow> nat) \<Rightarrow> nat \<Rightarrow> nat \<Rightarrow> bool" where
  "unsplit hm1 hm n st \<longleftrightarrow>
     (\<forall>r. (hm1 r = n \<or> hm1 r = hm r) \<and> (hm1 r = n \<longrightarrow> hm r = st) \<and> hm r < n)"

lemma unsplitD:
  assumes "unsplit hm1 hm n st"
  shows "hm1 r = n \<or> hm1 r = hm r" "hm1 r = n \<Longrightarrow> hm r = st" "hm r < n" "hm1 r \<noteq> n \<Longrightarrow> hm r = hm1 r"
  using assms unfolding unsplit_def by metis+

lemma unsplit_same: "unsplit hm1 hm n st \<Longrightarrow> hm r \<noteq> st \<Longrightarrow> hm1 r = hm r"
  unfolding unsplit_def by metis

text \<open>No record is left in the slot \<open>n\<close>: nothing changes.\<close>

lemma unsplit_none:
  assumes u: "unsplit hm1 hm n st" and lk: "linked hm1 d {..<n}"
  shows "linked hm d {..<n}"
proof (rule linked_cong [OF lk])
  fix x
  assume x: "x \<in> {..<n}"
  have "hm1 (dt d x) \<noteq> n" using linked_home(1) [OF lk x] by auto
  then show "d ! x = d ! x \<and> hm (dt d x) = hm1 (dt d x)" using unsplitD(4) [OF u] by simp
qed simp

text \<open>The record of the slot \<open>n\<close> goes to its new home, which is free.\<close>

lemma unsplit_move:
  assumes u: "unsplit hm1 hm n st" and lk: "linked hm1 d ({..n} - {e})"
    and e: "e < n" "n < length d" "hm (dt d n) = e" and d': "d' = d[e := d ! n]"
  shows "linked hm d' {..<n}"
proof -
  let ?U = "{..n} - {e}"
  have nU: "n \<in> ?U" using e by simp
  have no: "hm1 (dt d j) \<noteq> e" if "j \<in> ?U" for j using linked_home(1) [OF lk that] by auto
  have hn: "hm1 (dt d n) = n" using no [OF nU] e(3) unsplitD(1) [OF u, of "dt d n"] by simp
  then have st: "st = e" using unsplitD(2) [OF u] e(3) by blast
  have fr: "d' ! x = d ! x" if "x \<noteq> e" for x using that by (simp add: d')
  have at: "d' ! e = d ! n" using e by (simp add: d')
  obtain xs where c: "chain_of hm1 d ?U n xs" using linkedD [OF lk nU] hn by auto
  then obtain ys where ys: "xs = n # ys" by (rule chain_of_head)
  have s: "lseg d (Some n) (n # ys) None" "distinct (n # ys)" "set (n # ys) = cls hm1 d ?U n"
    using c unfolding ys chain_of_def by auto
  have ey: "e \<notin> set ys" "set ys \<subseteq> {..<n}"
  proof -
    have "set (n # ys) \<subseteq> ?U" unfolding s(3) by (auto simp: cls_def)
    then show "e \<notin> set ys" "set ys \<subseteq> {..<n}" using s(2) by (auto simp: le_eq_less_or_eq)
  qed
  show ?thesis
  proof (rule linked_change [OF lk, where T = "{e, n}"])
    show "length d' = length d" by (simp add: d')
    show "j \<in> ?U \<and> d' ! j = d ! j \<and> hm1 (dt d j) = hm (dt d j)"
      if "j \<in> {..<n}" "hm (dt d' j) \<notin> {e, n}" for j
    proof -
      have "j \<noteq> e" using that at e(3) by auto
      moreover from this have "hm (dt d j) \<noteq> st" using that fr [of j] st by simp
      ultimately show ?thesis using that fr [of j] unsplit_same [OF u] by simp
    qed
    show "j \<in> {..<n} \<and> d' ! j = d ! j \<and> hm1 (dt d j) = hm (dt d j)"
      if "j \<in> ?U" "hm1 (dt d j) \<notin> {e, n}" for j
    proof -
      have "j \<noteq> n" using that hn by auto
      moreover have "hm (dt d j) = hm1 (dt d j)" using unsplitD(4) [OF u] that by simp
      ultimately show ?thesis using that fr [of j] by auto
    qed
    show "\<exists>xs. chain_of hm d' {..<n} h xs" if h: "h \<in> {e, n}" "cls hm d' {..<n} h \<noteq> {}" for h
    proof -
      have "cls hm d' {..<n} n = {}" using unsplitD(3) [OF u] by (force simp: cls_def)
      then have he: "h = e" using h by auto
      have sg: "lseg d (nx d n) ys None" using s(1) by simp
      have "lseg d' (nx d n) ys None"
        using lseg_frame [OF sg, of d'] upd_outside [of _ "set ys" e d] ey(1) by (simp add: d')
      then have "lseg d' (Some e) (e # ys) None" using at e by (simp add: d')
      moreover have "set (e # ys) = cls hm d' {..<n} e"
      proof -
        have y: "j \<in> set ys \<longleftrightarrow> hm (dt d' j) = e" if "j < n" "j \<noteq> e" for j
        proof -
          have "j \<in> set ys \<longleftrightarrow> j \<in> set (n # ys)" using that by auto
          also have "\<dots> \<longleftrightarrow> hm1 (dt d j) = n" unfolding s(3) using that by (simp add: cls_def)
          also have "\<dots> \<longleftrightarrow> hm (dt d j) = e"
            using unsplitD(2,4) [OF u, of "dt d j"] st no [of j] that by fastforce
          finally show ?thesis using fr that by simp
        qed
        show ?thesis using y ey e at unfolding cls_def by auto
      qed
      moreover have "distinct (e # ys)" using ey(1) s(2) by simp
      ultimately show ?thesis unfolding he chain_of_def by blast
    qed
  qed
qed

text \<open>
  The chain of the slot \<open>n\<close> is linked in behind the head \<open>p\<close> of the chain it joins.  Its slots, with
  \<open>e\<close> for \<open>n\<close>, are \<open>e # ys\<close> up to the link \<open>fnd\<close>; the slots \<open>ws\<close> follow \<open>p\<close>.
\<close>

lemma unsplit_merge:
  assumes u: "unsplit hm1 hm n st" and lk: "linked hm1 d ({..n} - {e})"
    and e: "e < n" "n < length d" and p: "p = st" "p < n" "p \<noteq> e" "hm1 (dt d n) = n"
    and seg: "lseg d (nx d n) ys fnd" "lseg d (nx d p) ws None" "fnd = None \<or> fnd = Some p"
    and dist: "distinct (p # n # ys @ ws)" "set (p # n # ys @ ws) = cls hm d ({..n} - {e}) p"
  shows "\<exists>d1 d2. movelink (d[e := d ! n]) fnd e (nx d p) = Some d1 \<and> length d1 = length d
    \<and> d2 = d1[p := (d1 ! p)\<lparr>link_next := Some e\<rparr>] \<and> linked hm d2 {..<n}
    \<and> (\<forall>x. dt d2 x = dt (d[e := d ! n]) x)"
proof -
  let ?U = "{..n} - {e}" and ?d0 = "d[e := d ! n]"
  define zs q where "zs = butlast (e # ys)" and "q = last (e # ys)"
  have zq: "e # ys = zs @ [q]" by (simp add: zs_def q_def)
  have sub: "set (p # n # ys @ ws) \<subseteq> ?U" unfolding dist(2) by (auto simp: cls_def)
  then have ey: "e \<notin> set ys" "e \<notin> set ws" and lt: "set ys \<subseteq> {..<n}" "set ws \<subseteq> {..<n}"
    using dist(1) by (auto simp: le_eq_less_or_eq)
  have at0: "?d0 ! e = d ! n" using e by simp
  have fr0: "?d0 ! x = d ! x" if "x \<noteq> e" for x using that by simp
  have "lseg ?d0 (nx d n) ys fnd"
    using lseg_frame [OF seg(1), of ?d0] upd_outside [of _ "set ys" e d] ey(1) by simp
  then have s0: "lseg ?d0 (Some e) (zs @ [q]) fnd" unfolding zq [symmetric] using at0 e by simp
  define d1 where "d1 = ?d0[q := (?d0 ! q)\<lparr>link_next := nx d p\<rparr>]"
  define d2 where "d2 = d1[p := (d1 ! p)\<lparr>link_next := Some e\<rparr>]"
  have pq: "p \<notin> set (e # ys)" using dist(1) p(3) by auto
  then have "p \<notin> set (zs @ [q])" unfolding zq .
  then have mv: "movelink ?d0 fnd e (nx d p) = Some d1"
    unfolding d1_def by (intro movelink_seg [OF s0]) (use seg(3) set_tl in fastforce)
  have ql: "q < length d" "q \<in> set (e # ys)" using lt e unfolding zq by (auto simp: q_def)
     (metis e(1,2) insertE last_in_set lessThan_iff less_trans list.set(2) list.simps(3) lt(1) subsetD zq)
  have pn: "p \<noteq> q" using pq ql by blast
  have dt1: "dt d2 x = dt ?d0 x" for x
    by (cases "x = q"; cases "x = p") (use ql(1) p(2) e pn in \<open>simp_all add: d2_def d1_def\<close>)
  have q2: "nx d2 q = nx d p" using ql(1) pn by (simp add: d2_def d1_def)
  have p2: "nx d2 p = Some e" using p(2) e by (simp add: d2_def d1_def)
  have fr2: "d2 ! x = ?d0 ! x" if "x \<noteq> q" "x \<noteq> p" for x using that by (simp add: d2_def d1_def)
  have len: "length d2 = length d" by (simp add: d2_def d1_def)
  have dzq: "distinct (zs @ [q])" unfolding zq [symmetric] using dist(1) ey by simp
  have chain: "lseg d2 (Some p) (p # e # ys @ ws) None"
  proof -
    obtain m where m: "lseg ?d0 (Some e) zs m" "m = Some q" using s0 by (auto simp: lseg_append)
    have "q \<notin> set zs" "p \<notin> set zs" using dzq pq unfolding zq by auto
    then have "lseg d2 (Some e) zs (Some q)"
      using lseg_frame [OF m(1), of d2] fr2 len m(2) by (metis length_list_update)
    then have a: "lseg d2 (Some e) (zs @ [q]) (nx d p)" using q2 ql(1) len by (auto simp: lseg_append)
    have "q \<notin> set ws" "p \<notin> set ws" using ql(2) ey dist(1) by auto
    then have "lseg d2 (nx d p) ws None"
      using lseg_frame [OF seg(2), of d2] fr2 fr0 len ey(2) by metis
    then have "lseg d2 (Some e) ((e # ys) @ ws) None" using a unfolding zq by (auto simp: lseg_append)
    then show ?thesis using p2 p(2) e len by simp
  qed
  have st: "hm (dt d p) = p" "hm (dt d n) = p" using dist(2) by (auto simp: cls_def)
  have hm2: "hm (dt d2 x) = hm (dt d x)" if "x \<noteq> e" for x using dt1 that by simp
  have he: "hm (dt d2 e) = p" using dt1 at0 st by simp
  have cl: "set (p # e # ys @ ws) = cls hm d2 {..<n} p"
  proof -
    have "set (p # e # ys @ ws) = insert e (set (p # n # ys @ ws) - {n})" using dist(1) e by auto
    also have "\<dots> = cls hm d2 {..<n} p"
      unfolding dist(2) using e he hm2 by (auto simp: cls_def le_eq_less_or_eq)
    finally show ?thesis .
  qed
  have inU: "j \<in> set (p # n # ys @ ws)" if "j \<in> ?U" "hm (dt d j) = p" for j
    unfolding dist(2) using that by (simp add: cls_def)
  have fin: "d2 ! j = d ! j" if "hm (dt d j) \<noteq> p" "j \<noteq> e" for j
  proof -
    have "j \<notin> set (p # n # ys @ ws)" unfolding dist(2) using that by (simp add: cls_def)
    then have "j \<noteq> q" "j \<noteq> p" using that ql(2) by auto
    then show ?thesis using fr2 fr0 that by simp
  qed
  have "linked hm d2 {..<n}"
  proof (rule linked_change [OF lk len, where T = "{p, n}"])
    show "j \<in> ?U \<and> d2 ! j = d ! j \<and> hm1 (dt d j) = hm (dt d j)"
      if "j \<in> {..<n}" "hm (dt d2 j) \<notin> {p, n}" for j
    proof -
      have je: "j \<noteq> e" using that he by auto
      then have "hm (dt d j) \<noteq> p" using that hm2 by auto
      moreover from this have "hm1 (dt d j) = hm (dt d j)" using unsplit_same [OF u] p(1) by simp
      ultimately show ?thesis using that je fin by simp
    qed
    show "j \<in> {..<n} \<and> d2 ! j = d ! j \<and> hm1 (dt d j) = hm (dt d j)"
      if "j \<in> ?U" "hm1 (dt d j) \<notin> {p, n}" for j
    proof -
      have "j \<noteq> n" using that p(4) by auto
      moreover have "hm (dt d j) = hm1 (dt d j)" using unsplitD(4) [OF u] that by simp
      ultimately show ?thesis using that fin by auto
    qed
    show "\<exists>xs. chain_of hm d2 {..<n} h xs" if h: "h \<in> {p, n}" "cls hm d2 {..<n} h \<noteq> {}" for h
    proof -
      have "cls hm d2 {..<n} n = {}" using unsplitD(3) [OF u] by (force simp: cls_def)
      then have "h = p" using h by auto
      moreover have "distinct (p # e # ys @ ws)" using dist(1) ey p(3) by auto
      ultimately show ?thesis using chain cl unfolding chain_of_def by blast
    qed
  qed
  then show ?thesis using mv dt1 len unfolding d2_def by (simp add: d1_def)
qed

text \<open>The record of slot \<open>n\<close> joins a chain it already belongs to, or the chain it had is merged.\<close>

lemma home_unsplit:
  assumes "blength hash = 2 * 2 ^ m" "2 ^ m \<le> records hash" "records hash < 2 * 2 ^ m"
  shows "unsplit (home1 hash) (home hash) (records hash) (records hash - 2 ^ m)"
  using home1_home [OF assms] unfolding unsplit_def by blast

lemma recs_last:
  assumes e: "e < n" and d': "dt d' e = dt d n" "\<And>x. x < n \<Longrightarrow> x \<noteq> e \<Longrightarrow> dt d' x = dt d x"
  shows "recs d' {..<n} = recs d ({..n} - {e})"
proof -
  let ?R = "{..<n} - {e}"
  have s: "{..<n} = insert e ?R" "{..n} - {e} = insert n ?R" using e by auto
  have "recs d' ?R = recs d ?R" by (rule recs_cong) (use d'(2) in auto)
  then have "recs d' (insert e ?R) = recs d (insert n ?R)"
    using recs_insert [of ?R e d'] recs_insert [of ?R n d] d'(1) by simp
  then show ?thesis unfolding s [symmetric] .
qed

text \<open>The links that \<^verbatim>\<open>fill_hole\<close> merges: the chain of the slot \<open>n\<close> and what follows the slot \<open>p\<close>.\<close>

lemma merge_links:
  assumes u: "unsplit hm1 hm n st" and lk: "linked hm1 d ({..n} - {e})"
    and e: "e < n" and p: "p < n" "p \<noteq> e" "hm (dt d n) = p" "hm (dt d p) = p"
    and mv: "hm1 (dt d n) \<noteq> hm1 (dt d p) \<or> hm1 (dt d n) = n"
  shows "p = st \<and> hm1 (dt d n) = n \<and> (\<exists>ys ws.
    lseg d (nx d n) ys (if hm1 (dt d n) = hm1 (dt d p) then Some p else None) \<and> lseg d (nx d p) ws None
    \<and> distinct (p # n # ys @ ws) \<and> set (p # n # ys @ ws) = cls hm d ({..n} - {e}) p)"
proof -
  let ?U = "{..n} - {e}"
  have nU: "n \<in> ?U" "p \<in> ?U" using e p by auto
  have hn: "hm1 (dt d n) = n"
  proof (rule ccontr)
    assume c: "hm1 (dt d n) \<noteq> n"
    then have "hm1 (dt d n) = p" using unsplitD(4) [OF u] p(3) by simp
    then have "hm1 (dt d p) = p" using linked_home(2) [OF lk nU(1)] by simp
    then show False using mv c \<open>hm1 (dt d n) = p\<close> by simp
  qed
  then have st: "p = st" using unsplitD(2) [OF u hn] p(3) by simp
  have cn: "cls hm d ?U p = cls hm1 d ?U n \<union> cls hm1 d ?U p"
  proof -
    have "hm r = p \<longleftrightarrow> hm1 r = n \<or> hm1 r = p" for r
      using unsplitD(1,2) [OF u, of r] st p(1) by auto
    then show ?thesis by (auto simp: cls_def)
  qed
  obtain xs where c: "chain_of hm1 d ?U n xs" using linkedD [OF lk nU(1)] hn by auto
  then obtain as where as: "xs = n # as" by (rule chain_of_head)
  have s: "lseg d (nx d n) as None" "distinct (n # as)" "set (n # as) = cls hm1 d ?U n"
    using c unfolding as chain_of_def by auto
  show ?thesis
  proof (cases "hm1 (dt d p) = n")
    case True
    have "p \<in> set (n # as)" unfolding s(3) using nU True by (simp add: cls_def)
    then have "p \<in> set as" using p(1) by auto
    then obtain ys ws where y: "as = ys @ p # ws" by (meson split_list)
    have "lseg d (nx d n) ys (Some p)" "lseg d (nx d p) ws None"
      using s(1) unfolding y by (auto simp: lseg_append)
    moreover have "cls hm1 d ?U p = {}"
    proof -
      have "hm1 (dt d j) \<noteq> p" if "j \<in> ?U" for j
        using linked_home(2) [OF lk that] True p(1) by auto
      then show ?thesis by (auto simp: cls_def)
    qed
    then have "set (p # n # ys @ ws) = cls hm d ?U p" using s(3) unfolding cn y by auto
    moreover have "distinct (p # n # ys @ ws)" using s(2) unfolding y by auto
    ultimately show ?thesis using True hn st by auto
  next
    case False
    then have hp: "hm1 (dt d p) = p" using unsplitD(4) [OF u] p(4) by simp
    obtain bs' where c': "chain_of hm1 d ?U p bs'" using linkedD [OF lk nU(2)] hp by auto
    then obtain ws where ws: "bs' = p # ws" by (rule chain_of_head)
    have t: "lseg d (nx d p) ws None" "distinct (p # ws)" "set (p # ws) = cls hm1 d ?U p"
      using c' unfolding ws chain_of_def by auto
    have "set (n # as) \<inter> set (p # ws) = {}" unfolding s(3) t(3) using p(1) by (auto simp: cls_def)
    then have "distinct (p # n # as @ ws)" using s(2) t(2) by auto
    moreover have "set (p # n # as @ ws) = set (n # as) \<union> set (p # ws)" by auto
    then have "set (p # n # as @ ws) = cls hm d ?U p" unfolding cn s(3) t(3) .
    ultimately show ?thesis using s(1) t(1) hn hp st p(1) by auto
  qed
qed

lemma fill_hole_spec:
  assumes b: "blen_ok (blength hash) (records hash)" and len: "records hash < length d"
    and blen: "\<And>h. my_hash_mask h blen (records hash + 1) = my_hash_mask h (blength hash) (records hash + 1)"
    and e: "e \<le> records hash" and lk: "linked (home1 hash) d ({..records hash} - {e})"
  shows "\<exists>d'. fill_hole hash blen d e = Some d' \<and> length d' = length d
    \<and> linked (home hash) d' {..<records hash}
    \<and> recs d' {..<records hash} = recs d ({..records hash} - {e})"
proof (cases "e = records hash")
  case True
  then have U: "{..records hash} - {e} = {..<records hash}" by auto
  show ?thesis
  proof (cases "records hash = 0")
    case z: True
    then show ?thesis using True by (auto simp: fill_hole_def linked_def)
  next
    case False
    then obtain m where m: "blength hash = 2 * 2 ^ m" "2 ^ m \<le> records hash" "records hash < 2 * 2 ^ m"
      using b by (auto simp: blen_ok_def)
    show ?thesis using True unsplit_none [OF home_unsplit [OF m] lk [unfolded U]] unfolding U
      by (simp add: fill_hole_def)
  qed
next
  case False
  let ?n = "records hash" and ?h = "home hash" and ?h1 = "home1 hash"
  let ?U = "{..?n} - {e}"
  have en: "e < ?n" using False e by simp
  then obtain m where m: "blength hash = 2 * 2 ^ m" "2 ^ m \<le> ?n" "?n < 2 * 2 ^ m"
    using b by (auto simp: blen_ok_def)
  note u = home_unsplit [OF m]
  define p where "p = ?h (dt d ?n)"
  have pn: "p < ?n" unfolding p_def by (rule unsplitD(3) [OF u])
  have le: "e < length d" "p < length d" using en pn len by auto
  have nU: "?n \<in> ?U" using en by simp
  have fh: "fill_hole hash blen d e =
    (if p = e then Some (d[e := d ! ?n])
     else if p \<noteq> ?h (dt d p) then movelink (d[e := d ! p, p := d ! ?n]) (Some p) (?h (dt d p)) (Some e)
     else if ?h1 (dt d ?n) = ?h1 (dt d p) \<and> ?h1 (dt d ?n) \<noteq> ?n then
       movelink (d[e := d ! ?n]) (Some ?n) p (Some e)
     else do {
       d' \<leftarrow> movelink (d[e := d ! ?n]) (if ?h1 (dt d ?n) = ?h1 (dt d p) then Some p else None) e (nx d p);
       l' \<leftarrow> rd d' p;
       Some (d'[p := l'\<lparr>link_next := Some e\<rparr>]) })"
    using len le en
    by (simp add: fill_hole_def p_def home_def home1_def Let_def blen [unfolded Suc_eq_plus1 [symmetric]])
  show ?thesis
  proof (cases "p = e")
    case True
    have "linked ?h (d[e := d ! ?n]) {..<?n}"
      by (rule unsplit_move [OF u lk en len _ refl]) (use True p_def in simp)
    moreover have "recs (d[e := d ! ?n]) {..<?n} = recs d ?U"
      by (rule recs_last [OF en]) (use le in auto)
    ultimately show ?thesis using True by (simp add: fh)
  next
    case pe: False
    have pU: "p \<in> ?U" using pe pn by simp
    show ?thesis
    proof (cases "?h (dt d p) = p")
      case wrong: False
      have hp: "?h1 (dt d p) = ?h (dt d p)"
      proof (rule ccontr)
        assume "?h1 (dt d p) \<noteq> ?h (dt d p)"
        then have "?h1 (dt d p) = ?n" using unsplitD(1) [OF u] by metis
        then have "?h1 (dt d ?n) = ?n" using linked_home(2) [OF lk pU] by simp
        then have "p = ?n - 2 ^ m" using unsplitD(2) [OF u] by (simp add: p_def)
        then show False using unsplitD(2) [OF u \<open>?h1 (dt d p) = ?n\<close>] wrong by simp
      qed
      have hn: "?h1 (dt d ?n) = ?n"
      proof (rule ccontr)
        assume "?h1 (dt d ?n) \<noteq> ?n"
        then have "?h1 (dt d ?n) = p" using unsplitD(4) [OF u] by (simp add: p_def)
        then show False using linked_home(2) [OF lk nU] wrong hp by simp
      qed
      let ?d1 = "d[e := d ! p, p := d ! ?n]"
      have w1: "?h1 (dt d p) \<noteq> p" using wrong hp by simp
      have "e \<notin> ?U" by simp
      then obtain d2 where d2: "movelink ?d1 (Some p) (?h1 (dt d p)) (Some e) = Some d2" "length d2 = length d"
        "linked ?h1 d2 (insert e (?U - {p}))" "\<forall>x. dt d2 x = dt ?d1 x" "d2 ! p = ?d1 ! p"
        "\<forall>x. ?h1 (dt d x) \<noteq> ?h1 (dt d p) \<longrightarrow> d2 ! x = ?d1 ! x"
        using relocate [OF lk pU w1 _ le(1), of ?d1] pe le by auto
      have "?h1 (dt d p) \<noteq> ?n" using hp unsplitD(3) [OF u, of "dt d p"] by simp
      then have "d2 ! ?n = d ! ?n" using d2(6) hn en pn by auto
      then have at: "d2 ! p = d2 ! ?n" using d2(5) le by simp
      have Up: "insert e (?U - {p}) = {..?n} - {p}" using en pe by auto
      have "linked ?h (d2[p := d2 ! ?n]) {..<?n}"
        by (rule unsplit_move [OF u d2(3) [unfolded Up] pn _ _ refl])
          (use d2(2) len \<open>d2 ! ?n = d ! ?n\<close> p_def in auto)
      then have "linked ?h d2 {..<?n}" unfolding at [symmetric] by simp
      moreover have "recs d2 {..<?n} = recs d ?U"
      proof -
        let ?R = "{..<?n} - {e, p}"
        have s: "{..<?n} = insert e (insert p ?R)" "?U = insert ?n (insert p ?R)" using en pn pe by auto
        have "recs d2 ?R = recs d ?R" by (rule recs_cong) (use d2(4) in auto)
        then have "recs d2 (insert e (insert p ?R)) = recs d (insert ?n (insert p ?R))"
          using recs_insert [of ?R p d2] recs_insert [of "insert p ?R" e d2] recs_insert [of ?R p d]
            recs_insert [of "insert p ?R" ?n d] d2(4) pn pe le by simp
        then show ?thesis unfolding s [symmetric] .
      qed
      ultimately show ?thesis using pe wrong d2(1,2) by (simp add: fh hp)
    next
      case right: True
      show ?thesis
      proof (cases "?h1 (dt d ?n) = ?h1 (dt d p) \<and> ?h1 (dt d ?n) \<noteq> ?n")
        case True
        have hn: "?h1 (dt d ?n) = p"
          unfolding p_def by (rule unsplitD(4) [OF u conjunct2 [OF True], symmetric])
        let ?d1 = "d[e := d ! ?n]"
        have w1: "?h1 (dt d ?n) \<noteq> ?n" "e \<notin> ?U" using True by auto
        obtain d2 where d2: "movelink ?d1 (Some ?n) p (Some e) = Some d2" "length d2 = length d"
          "linked ?h1 d2 (insert e (?U - {?n}))" "\<forall>x. dt d2 x = dt ?d1 x"
          using relocate [OF lk nU w1 le(1), of ?d1] le hn by auto
        have "insert e (?U - {?n}) = {..<?n}" using en by auto
        then have "linked ?h d2 {..<?n}" using unsplit_none [OF u] d2(3) by simp
        moreover have "recs d2 {..<?n} = recs d ?U"
          by (rule recs_last [OF en]) (use d2(4) le in auto)
        ultimately show ?thesis using pe right True d2(1,2) by (simp add: fh)
      next
        case merge: False
        then have mv: "?h1 (dt d ?n) \<noteq> ?h1 (dt d p) \<or> ?h1 (dt d ?n) = ?n" by blast
        let ?fnd = "if ?h1 (dt d ?n) = ?h1 (dt d p) then Some p else None"
        obtain ys ws where M: "p = ?n - 2 ^ m" "?h1 (dt d ?n) = ?n" "lseg d (nx d ?n) ys ?fnd"
          "lseg d (nx d p) ws None" "distinct (p # ?n # ys @ ws)" "set (p # ?n # ys @ ws) = cls ?h d ?U p"
          using merge_links [OF u lk en pn pe p_def [symmetric] right mv] by blast
        have f: "?fnd = None \<or> ?fnd = Some p" by simp
        obtain d1 d2 where D: "movelink (d[e := d ! ?n]) ?fnd e (nx d p) = Some d1" "length d1 = length d"
          "d2 = d1[p := (d1 ! p)\<lparr>link_next := Some e\<rparr>]" "linked ?h d2 {..<?n}"
          "\<forall>x. dt d2 x = dt (d[e := d ! ?n]) x"
          using unsplit_merge [OF u lk en len M(1) pn pe M(2,3,4) f M(5,6)] by blast
        have "recs d2 {..<?n} = recs d ?U"
          by (rule recs_last [OF en]) (use D(5) le in auto)
        moreover have "fill_hole hash blen d e = do {
            d' \<leftarrow> movelink (d[e := d ! ?n]) ?fnd e (nx d p);
            l' \<leftarrow> rd d' p;
            Some (d'[p := l'\<lparr>link_next := Some e\<rparr>]) }"
          unfolding fh if_not_P [OF pe] if_not_P [OF merge] using right by simp
        then have "fill_hole hash blen d e = Some d2" unfolding D(1) using D(2,3) le by simp
        ultimately show ?thesis using D(2,3,4) by simp
      qed
    qed
  qed
qed


section \<open>The whole deletion\<close>

lemma blen_shrink:
  assumes "blen_ok b (n + 1)"
  shows "blen_ok (if n < drop_bit 1 b then drop_bit 1 b else b) n"
    and "my_hash_mask h b (n + 1) =
      my_hash_mask h (if n < drop_bit 1 b then drop_bit 1 b else b) (n + 1)"
proof -
  obtain m where m: "b = 2 * 2 ^ m" "2 ^ m \<le> n + 1" "n + 1 < b" using assms by (auto simp: blen_ok_def)
  have h: "drop_bit 1 b = 2 ^ m" by (simp add: m(1) drop_bit_eq_div)
  show "blen_ok (if n < drop_bit 1 b then drop_bit 1 b else b) n"
  proof (cases "n < 2 ^ m")
    case True
    then have n: "n + 1 = 2 ^ m" using m(2) by simp
    show ?thesis
    proof (cases m)
      case 0
      then show ?thesis using n h by (simp add: blen_ok_def)
    next
      case (Suc k)
      have "(1::nat) \<le> 2 ^ k" by simp
      then have "2 ^ k \<le> n" using n Suc by simp
      then show ?thesis using n Suc h by (auto simp: blen_ok_def intro!: exI [of _ k])
    qed
  next
    case False
    then show ?thesis using m h by (auto simp: blen_ok_def intro!: exI [of _ m])
  qed
  show "my_hash_mask h b (n + 1) = my_hash_mask h (if n < drop_bit 1 b then drop_bit 1 b else b) (n + 1)"
  proof (cases "n < 2 ^ m")
    case True
    then have n: "n + 1 = 2 ^ m" using m(2) by simp
    show ?thesis
    proof (cases m)
      case 0
      then show ?thesis using n h m(1) mask_one [of "n + 1" h] mask_mod [of h 0 1] by simp
    next
      case (Suc k)
      show ?thesis using double_mask [of h k] True n unfolding h
        by (simp add: m(1) Suc)
    qed
  qed (simp add: h [unfolded One_nat_def])
qed

theorem my_hash_delete_correct:
  assumes wf: "hash_wf hash"
  shows "\<exists>hash' failed freed. my_hash_delete hash r = Some (hash', failed, freed)
    \<and> hash_wf hash' \<and> (failed \<longleftrightarrow> r \<notin> set (hash_records hash)) \<and> (failed \<longrightarrow> hash' = hash)
    \<and> mset (hash_records hash') = mset (hash_records hash) - {#r#}
    \<and> freed = (if has_free hash \<and> \<not> failed then [r] else [])"
proof (cases "records hash = 0")
  case True
  then have "my_hash_delete hash r = Some (hash, True, [])" "hash_records hash = []"
    by (simp_all add: my_hash_delete_def hash_records_def)
  then show ?thesis using wf by (intro exI [of _ hash] exI [of _ True]) simp
next
  case False
  then obtain n where n: "records hash = n + 1" by (metis Suc_eq_plus1 not0_implies_Suc)
  let ?d = "data_of hash" and ?U = "{..<records hash}"
  have W: "da_wf (harray hash)" "elements (harray hash) = records hash"
    "blen_ok (blength hash) (records hash)" "linked (home hash) ?d ?U"
    using wf by (auto simp: hash_wf_def)
  have len: "records hash \<le> length ?d" by (rule hash_wf_length [OF wf])
  let ?h = "home hash r"
  have h: "?h \<in> ?U" using mask_less [OF W(3)] False by (simp add: home_def)
  have ex: "(\<exists>j \<in> ?U. dt ?d j = r) \<longleftrightarrow> r \<in> set (hash_records hash)"
    by (rule mem_hash_records [OF len, symmetric])
  have start: "my_hash_mask (rec_hashnr hash r) (blength hash) (records hash) = ?h" by (simp add: home_def)
  note fu = find_unlink [OF W(4) _ h refl]
  show ?thesis
  proof (cases "r \<in> set (hash_records hash)")
    case out: False
    then have "find_record ?d r ?h None = Some None" using fu ex by simp
    then have "my_hash_delete hash r = Some (hash, True, [])"
      using False by (simp add: my_hash_delete_def start)
    moreover have "mset (hash_records hash) - {#r#} = mset (hash_records hash)"
      using out by (simp add: diff_single_trivial)
    ultimately show ?thesis using wf out by (intro exI [of _ hash] exI [of _ True]) simp
  next
    case True
    obtain p g d e where U: "find_record ?d r ?h None = Some (Some (p, g))"
      "unlink_record ?d p g = Some (d, e)" "length d = length ?d" "e \<in> ?U"
      "linked (home hash) d (?U - {e})" "recs ?d ?U = add_mset r (recs d (?U - {e}))"
      using fu ex True by auto
    define b where "b = (if n < drop_bit 1 (blength hash) then drop_bit 1 (blength hash) else blength hash)"
    define h1 where "h1 = hash\<lparr>records := n, blength := b\<rparr>"
    have Un: "?U = {..n}" using n by auto
    note bs = blen_shrink [OF W(3) [unfolded n], folded b_def]
    have k: "rec_hashnr h1 = rec_hashnr hash" using keys_cong [of h1 hash] by (simp add: h1_def)
    have hm1: "home hash = home1 h1"
      unfolding home_def [abs_def] home1_def [abs_def] k n bs(2) by (simp add: h1_def)
    have r1: "records h1 = n" "blength h1 = b" by (simp_all add: h1_def)
    have "\<exists>d'. fill_hole h1 (blength hash) d e = Some d' \<and> length d' = length d
      \<and> linked (home h1) d' {..<n} \<and> recs d' {..<n} = recs d ({..n} - {e})"
      using fill_hole_spec [of h1 d "blength hash" e] bs U(3,4,5) len n hm1 unfolding r1 Un by simp
    then obtain d' where F: "fill_hole h1 (blength hash) d e = Some d'" "length d' = length d"
      "linked (home h1) d' {..<n}" "recs d' {..<n} = recs d ({..n} - {e})" by blast
    define h2 where "h2 = with_data h1 d'"
    define h3 where "h3 = h2\<lparr>harray := fst (pop_dynamic (harray h2))\<rparr>"
    have del: "my_hash_delete hash r = Some (h3, False, if has_free hash then [r] else [])"
    proof -
      have nm: "records hash - 1 = n" using n by simp
      show ?thesis
        unfolding my_hash_delete_def if_not_P [OF False] start U(1) Let_def nm b_def [symmetric]
          h1_def [symmetric]
        by (simp add: U(2) F(1) h2_def h3_def)
    qed
    have e3: "elements (harray h3) = n" "buffer (harray h3) = Some d'"
      "max_element (harray h3) = max_element (harray hash)"
      "size_of_element (harray h3) = size_of_element (harray hash)"
      "alloc_increment (harray h3) = alloc_increment (harray hash)"
      using W(2) n by (simp_all add: h3_def h2_def h1_def with_data_def pop_dynamic_def Let_def)
    have d3: "data_of h3 = d'" "records h3 = n" "blength h3 = b"
      using e3(2) by (simp_all add: data_of_def) (simp_all add: h3_def h2_def h1_def with_data_def)
    have k3: "rec_hashnr h3 = rec_hashnr h1"
      using keys_cong [of h3 h1] by (simp add: h3_def h2_def with_data_def)
    have hm3: "home h3 = home h1" unfolding home_def [abs_def] k3 d3 r1 ..
    have "length ?d = max_element (harray hash)" by (rule data_of_length [OF W(1)])
    then have "da_wf (harray h3)"
      using W(1,2) e3 n F(2) U(3) by (auto simp: da_wf_def)
    then have wf3: "hash_wf h3" unfolding hash_wf_def hm3 d3 using e3(1) bs(1) F(3) by simp
    have "mset (hash_records hash) = add_mset r (mset (hash_records h3))"
      unfolding hash_records_recs [OF len] hash_records_recs [OF hash_wf_length [OF wf3]] d3
      using U(6) F(4) unfolding Un by simp
    then show ?thesis using del wf3 True by (intro exI [of _ h3] exI [of _ False]) simp
  qed
qed

end
