(* ===== verification/HashUpdate.thy ===== *)
theory HashUpdate
  imports HashFind
begin

text \<open>
  The update after the key of a record has changed in memory: the record leaves the chain of its
  old key and enters the chain of the new one, without a change of its slot number where possible.
\<close>

section \<open>Relinking\<close>

text \<open>A record behind the head of the chain of its home slot.\<close>

lemma linked_after:
  assumes lk: "linked hm d used" and p: "p \<in> used" "hm (dt d p) = p" "hm r = p"
    and e: "e \<notin> used" "e < length d"
    and d': "d' = d[e := \<lparr>link_next = nx d p, link_data = r\<rparr>, p := (d ! p)\<lparr>link_next := Some e\<rparr>]"
  shows "linked hm d' (insert e used)"
proof -
  obtain xs where c: "chain_of hm d used p xs" using linkedD [OF lk p(1)] p(2) by auto
  then obtain ys where ys: "xs = p # ys" "p < length d" by (rule chain_of_head)
  have cl: "set (p # ys) = cls hm d used p" "distinct (p # ys)" "lseg d (Some p) (p # ys) None"
    using c unfolding ys by (auto simp: chain_of_def)
  have ep: "e \<noteq> p" using e(1) p(1) by blast
  have at: "d' ! p = (d ! p)\<lparr>link_next := Some e\<rparr>" "d' ! e = \<lparr>link_next = nx d p, link_data = r\<rparr>"
    using ep e(2) ys(2) by (auto simp: d')
  have fr: "d' ! j = d ! j" if "j \<noteq> e" "j \<noteq> p" for j using that by (simp add: d')
  have dtu: "dt d' j = dt d j" if "j \<noteq> e" for j
    using fr [OF that] at(1) by (cases "j = p") auto
  have len: "length d' = length d" by (simp add: d')
  show ?thesis
  proof (rule linked_change [OF lk len, where T = "{p}"])
    show "j \<in> used \<and> d' ! j = d ! j \<and> hm (dt d j) = hm (dt d j)"
      if "j \<in> insert e used" "hm (dt d' j) \<notin> {p}" for j
    proof -
      have "j \<noteq> p" "j \<noteq> e" using that at p(2,3) by auto
      then show ?thesis using that fr by simp
    qed
    show "j \<in> insert e used \<and> d' ! j = d ! j \<and> hm (dt d j) = hm (dt d j)"
      if "j \<in> used" "hm (dt d j) \<notin> {p}" for j
    proof -
      have "j \<noteq> p" "j \<noteq> e" using that p(2) e(1) by auto
      then show ?thesis using that fr by simp
    qed
    show "\<exists>xs. chain_of hm d' (insert e used) h xs" if "h \<in> {p}" for h
    proof -
      have "set (p # ys) \<subseteq> used" unfolding cl(1) by (auto simp: cls_def)
      then have ey: "e \<notin> set ys" using e(1) by auto
      have sg: "lseg d (nx d p) ys None" using cl(3) by simp
      have "d' ! x = d ! x" if "x \<in> set ys" for x
        by (rule fr) (use ey cl(2) that in auto)
      from lseg_frame [OF sg this len] have "lseg d' (nx d p) ys None" by blast
      then have "lseg d' (Some p) (p # e # ys) None" using at e(2) ys(2) len by simp
      moreover have "set (p # e # ys) = cls hm d' (insert e used) p"
      proof -
        have he: "hm (dt d' e) = p" using at(2) p(3) by simp
        have j: "hm (dt d' j) = hm (dt d j)" if "j \<in> used" for j
        proof -
          have "j \<noteq> e" using that e(1) by blast
          then show ?thesis by (simp add: dtu)
        qed
        have "set (p # e # ys) = insert e (set (p # ys))" by auto
        also have "\<dots> = cls hm d' (insert e used) p" unfolding cl(1) cls_def by (auto simp: j he)
        finally show ?thesis .
      qed
      moreover have "distinct (p # e # ys)" using ey ep cl(2) by auto
      ultimately show ?thesis using that unfolding chain_of_def by blast
    qed
  qed
qed

text \<open>
  The homes \<open>hm\<close> of the time before the change differ from the present ones for the record \<open>r\<close>
  only, which is in one slot.
\<close>

lemma relink_record_spec:
  assumes lk: "linked hm d {..<n}" and len: "n \<le> length d" "n = records hash"
    and same: "\<And>q. q \<noteq> r \<Longrightarrow> hm q = home hash q"
    and one: "\<And>i. i < n \<Longrightarrow> dt d i = r \<Longrightarrow> i = p" and p: "p < n" "dt d p = r"
    and nw: "new_index = home hash r" "new_index < n"
    and ul: "unlink_record d p g = Some (d1, e)" "length d1 = length d" "e < n" "e = p \<or> g = None"
      "linked hm d1 ({..<n} - {e})" "recs d {..<n} = add_mset r (recs d1 ({..<n} - {e}))"
  shows "\<exists>d'. relink_record hash d p g new_index = Some d' \<and> length d' = length d
    \<and> linked (home hash) d' {..<n} \<and> recs d' {..<n} = recs d {..<n}"
proof -
  let ?U = "{..<n} - {e}" and ?w = new_index
  have U: "insert e ?U = {..<n}" "finite ?U" "e \<notin> ?U" using ul(3) by auto
  have o2: "(d ! p)\<lparr>link_next := v\<rparr> = \<lparr>link_next = v, link_data = r\<rparr>" for v using p(2) by simp
  have "r \<notin># recs d1 ?U"
  proof -
    have "recs d {..<n} = add_mset r (recs d ({..<n} - {p}))"
      using recs_insert [of "{..<n} - {p}" p d] p by (simp add: insert_absorb)
    then have "recs d1 ?U = recs d ({..<n} - {p})" using ul(6) by simp
    moreover have "r \<notin># recs d ({..<n} - {p})" using one by (auto simp: recs_def)
    ultimately show ?thesis by simp
  qed
  then have nr: "dt d1 j \<noteq> r" if "j \<in> ?U" for j using that U(2) unfolding recs_def by auto
  have lk1: "linked (home hash) d1 ?U"
    by (rule linked_cong [OF ul(5)]) (use same nr in auto)
  have lt: "?w < length d1" "e < length d1" "p < length d" using nw(2) ul(2,3) len p(1) by auto
  have rec: "recs d' {..<n} = recs d {..<n}"
    if "dt d' e = r" "\<And>j. j \<in> ?U \<Longrightarrow> dt d' j = dt d1 j" for d'
  proof -
    have "recs d' ?U = recs d1 ?U" by (rule recs_cong) (rule that(2))
    then show ?thesis using recs_insert [OF U(2,3), of d'] that(1) unfolding U(1) ul(6) by simp
  qed
  show ?thesis
  proof (cases "?w = e")
    case True
    let ?d = "d1[e := \<lparr>link_next = None, link_data = r\<rparr>]"
    have d1p: "d1 ! e = d ! p" if "e = p"
    proof (cases g)
      case (Some q)
      then show ?thesis using ul(1) that lt p(2)
        by (cases "q = p") (auto simp: unlink_record_def split: option.splits)
    qed (use ul(1) that lt(3) in \<open>auto simp: unlink_record_def split: option.splits if_splits\<close>)
    have "relink_record hash d p g ?w = Some ?d"
      using True lt ul(1) d1p o2 by (cases "e = p") (simp_all add: relink_record_def Let_def)
    moreover have "linked (home hash) ?d (insert e ?U)"
      by (rule linked_alone [OF lk1 U(3) lt(2) refl]) (use True nw in simp)
    moreover have "recs ?d {..<n} = recs d {..<n}" by (rule rec) (use lt in auto)
    ultimately show ?thesis using ul(2) unfolding U(1) by simp
  next
    case we: False
    then have wU: "?w \<in> ?U" using nw by simp
    have g: "my_hash_rec_mask hash (d1 ! ?w) (blength hash) (records hash) = home hash (dt d1 ?w)"
      by (simp add: my_hash_rec_mask_def home_def rec_hashnr_def)
    show ?thesis
    proof (cases "home hash (dt d1 ?w) = ?w")
      case True
      let ?d = "d1[e := \<lparr>link_next = nx d1 ?w, link_data = r\<rparr>, ?w := (d1 ! ?w)\<lparr>link_next := Some e\<rparr>]"
      have "relink_record hash d p g ?w = Some ?d"
        using we lt ul(1) o2 True by (simp add: relink_record_def Let_def g)
      moreover have "linked (home hash) ?d (insert e ?U)"
        by (rule linked_after [OF lk1 wU True nw(1) [symmetric] U(3) lt(2) refl])
      moreover have "recs ?d {..<n} = recs d {..<n}"
      proof (rule rec)
        show "dt ?d e = r" using we lt by simp
        show "dt ?d j = dt d1 j" if "j \<in> ?U" for j
          using that lt by (cases "j = ?w") auto
      qed
      ultimately show ?thesis using ul(2) unfolding U(1) by simp
    next
      case False
      let ?da = "d1[e := d1 ! ?w]"
      obtain d2 where d2: "movelink ?da (Some ?w) (home hash (dt d1 ?w)) (Some e) = Some d2"
        "length d2 = length d1" "linked (home hash) d2 (insert e (?U - {?w}))"
        "\<forall>x. dt d2 x = dt ?da x"
        using relocate [OF lk1 wU False U(3) lt(2), of ?da] we lt by auto
      let ?d = "d2[?w := \<lparr>link_next = None, link_data = r\<rparr>]"
      have "relink_record hash d p g ?w = Some ?d"
        using we lt ul(1) o2 False d2(1) by (simp add: relink_record_def Let_def g)
      moreover have "linked (home hash) ?d (insert ?w (insert e (?U - {?w})))"
        by (rule linked_alone [OF d2(3) _ _ refl nw(1) [symmetric]]) (use we lt d2(2) in auto)
      moreover have "insert ?w (insert e (?U - {?w})) = {..<n}" using U(1) wU by auto
      moreover have "recs ?d {..<n} = recs d {..<n}"
      proof -
        have "recs ?d (insert e ?U) = add_mset r (recs d1 ?U)"
          by (rule recs_move [OF U(2) wU U(3)]) (use d2 we lt in auto)
        then show ?thesis unfolding U(1) ul(6) .
      qed
      ultimately show ?thesis using ul(2) d2(2) by simp
    qed
  qed
qed

section \<open>The whole update\<close>

text \<open>The uniqueness check: does the new key match another record?\<close>

definition dup_other :: "'r HASH \<Rightarrow> 'r \<Rightarrow> bool" where
  "dup_other hash r \<longleftrightarrow> HASH_UNIQUE AND flags hash \<noteq> 0 \<and>
     (\<exists>q \<in> set (hash_records hash). q \<noteq> r \<and>
        key_match hash (my_hash_key hash r True) (length (my_hash_key hash r True)) q)"

lemma other_record_visits:
  "visits hash key (length key) found xs \<Longrightarrow>
     found \<bind> other_record hash r key = Some (\<exists>x \<in> set xs. dt (data_of hash) x \<noteq> r)"
proof (induction xs arbitrary: found)
  case Nil
  then show ?case by (simp add: other_record.simps)
next
  case (Cons x xs)
  then have f: "found = Some (Some (dt (data_of hash) x, x))" by simp
  show ?case using Cons unfolding f by (subst bind.bind_lunit, subst other_record.simps) auto
qed

lemma lseg_unique: "lseg d s xs None \<Longrightarrow> lseg d s ys None \<Longrightarrow> xs = ys"
proof (induction xs arbitrary: s ys)
  case Nil
  then show ?case by (cases ys) auto
next
  case (Cons x xs)
  then show ?case by (cases ys) auto
qed

text \<open>The check is right although the record is still in the chain of its old key.\<close>

lemma other_record_check:
  assumes lk: "linked hm (data_of hash) {..<records hash}" and len: "records hash \<le> length (data_of hash)"
    and b: "blen_ok (blength hash) (records hash)"
    and same: "\<And>q. q \<noteq> r \<Longrightarrow> hm q = home hash q"
    and key: "key_stable hash" "good_key hash (my_hash_key hash r True)" "len_ok hash (length (my_hash_key hash r True))"
  shows "my_hash_first hash (my_hash_key hash r True) (length (my_hash_key hash r True))
      \<bind> other_record hash r (my_hash_key hash r True)
    = Some (\<exists>q \<in> set (hash_records hash). q \<noteq> r
        \<and> key_match hash (my_hash_key hash r True) (length (my_hash_key hash r True)) q)"
proof (cases "records hash = 0")
  case True
  then show ?thesis by (simp add: my_hash_first_def hash_records_def other_record.simps)
next
  case False
  let ?k = "my_hash_key hash r True" and ?d = "data_of hash" and ?U = "{..<records hash}"
  let ?l = "length ?k"
  let ?m = "key_match hash ?k ?l"
  define h where "h = home hash r"
  have h: "h \<in> ?U" using mask_less [OF b] False by (simp add: home_def h_def)
  have kh: "key_home hash ?k ?l = h"
  proof -
    have "(if ?l \<noteq> 0 then ?l else key_length hash) = ?l \<or> ?l = 0 \<and> ?k = []" by auto
    then have "take (if ?l \<noteq> 0 then ?l else key_length hash) ?k = ?k" by auto
    then show ?thesis using key(1) by (simp add: key_home_def h_def home_def rec_hashnr_def key_stable_def)
  qed
  have mh: "home hash q = h" if "?m q" for q using match_home [OF key that] kh by simp
  have first: "my_hash_first hash ?k ?l = first_loop hash ?k ?l True h"
    using False kh by (simp add: my_hash_first_def key_home_def)
  note rs = mem_hash_records [OF len]
  show ?thesis
  proof (cases "home hash (dt ?d h) = h")
    case True
    obtain ws where ws: "lseg ?d (Some h) (h # ws) None" "set ws \<subseteq> ?U" using linked_from [OF lk h] by blast
    have "first_loop hash ?k ?l True h = next_loop hash ?k ?l (Some h)"
      using first_loop_chain [OF ws(1), of True] next_loop_chain [OF ws(1)] True by simp
    then have "visits hash ?k ?l (my_hash_first hash ?k ?l) (filter (\<lambda>x. ?m (dt ?d x)) (h # ws))"
      unfolding first using visits_chain [OF ws(1), of ?k ?l] by simp
    then have "my_hash_first hash ?k ?l \<bind> other_record hash r ?k =
        Some (\<exists>x \<in> set (filter (\<lambda>x. ?m (dt ?d x)) (h # ws)). dt ?d x \<noteq> r)"
      by (rule other_record_visits)
    also have "(\<exists>x \<in> set (filter (\<lambda>x. ?m (dt ?d x)) (h # ws)). dt ?d x \<noteq> r) \<longleftrightarrow>
        (\<exists>q \<in> set (hash_records hash). q \<noteq> r \<and> ?m q)"
    proof
      assume "\<exists>x \<in> set (filter (\<lambda>x. ?m (dt ?d x)) (h # ws)). dt ?d x \<noteq> r"
      then obtain x where x: "x \<in> set (h # ws)" "?m (dt ?d x)" "dt ?d x \<noteq> r"
        unfolding set_filter by blast
      then have "x \<in> ?U" using ws(2) h by auto
      then have "dt ?d x \<in> set (hash_records hash)" unfolding rs by blast
      then show "\<exists>q \<in> set (hash_records hash). q \<noteq> r \<and> ?m q" using x by blast
    next
      assume "\<exists>q \<in> set (hash_records hash). q \<noteq> r \<and> ?m q"
      then obtain q where q: "q \<in> set (hash_records hash)" "q \<noteq> r" "?m q" by blast
      then obtain j where "j \<in> ?U" "dt ?d j = q" using rs by blast
      then have j: "j \<in> ?U" "dt ?d j \<noteq> r" "?m (dt ?d j)" using q by auto
      then have hj: "hm (dt ?d j) = h" using same mh by simp
      then obtain xs where xs: "chain_of hm ?d ?U h xs" using linkedD [OF lk j(1)] by auto
      have "xs = h # ws" using lseg_unique [OF _ ws(1)] xs by (simp add: chain_of_def)
      moreover have "j \<in> set xs" using xs j(1) hj by (simp add: chain_of_def cls_def)
      ultimately show "\<exists>x \<in> set (filter (\<lambda>x. ?m (dt ?d x)) (h # ws)). dt ?d x \<noteq> r"
        using j unfolding set_filter by blast
    qed
    finally show ?thesis .
  next
    case off: False
    then have nm: "\<not> ?m (dt ?d h)" using mh by blast
    have "rd ?d h = Some (?d ! h)" using h len by simp
    then have "first_loop hash ?k ?l True h = Some None"
      using off nm by (subst first_loop.simps) (simp add: hashcmp_match rec_mask_home)
    moreover have "\<not> ?m q" if qr: "q \<in> set (hash_records hash)" "q \<noteq> r" for q
    proof
      assume m: "?m q"
      obtain j where j: "j \<in> ?U" "dt ?d j = q" using qr(1) unfolding rs by blast
      have "hm (dt ?d j) = h" unfolding j(2) by (rule trans [OF same [OF qr(2)] mh [OF m]])
      then have hh: "hm (dt ?d h) = h" using linked_home(2) [OF lk j(1)] by simp
      have "dt ?d h \<noteq> r"
      proof
        assume "dt ?d h = r"
        then show False using off unfolding h_def by simp
      qed
      from same [OF this] hh off show False by simp
    qed
    ultimately show ?thesis unfolding first by (auto simp: other_record.simps)
  qed
qed

text \<open>\<open>hash\<close> is the table \<open>old\<close> after a change in memory of the key of the record \<open>r\<close>.\<close>

definition rekeyed :: "'r HASH \<Rightarrow> 'r HASH \<Rightarrow> 'r \<Rightarrow> bool" where
  "rekeyed old hash r \<longleftrightarrow> hash = old\<lparr>rec_bytes := rec_bytes hash, get_key := get_key hash\<rparr>
     \<and> (\<forall>q first. q \<noteq> r \<longrightarrow> my_hash_key hash q first = my_hash_key old q first)"

lemma rekeyedD:
  assumes "rekeyed old hash r"
  shows "harray hash = harray old" "records hash = records old" "blength hash = blength old"
    "flags hash = flags old" "key_length hash = key_length old" "charset hash = charset old"
    "q \<noteq> r \<Longrightarrow> my_hash_key hash q f = my_hash_key old q f"
proof -
  have e: "hash = old\<lparr>rec_bytes := rec_bytes hash, get_key := get_key hash\<rparr>"
    using assms unfolding rekeyed_def by blast
  show "harray hash = harray old" "records hash = records old" "blength hash = blength old"
    "flags hash = flags old" "key_length hash = key_length old" "charset hash = charset old"
    by (subst e, simp)+
  show "q \<noteq> r \<Longrightarrow> my_hash_key hash q f = my_hash_key old q f" using assms unfolding rekeyed_def by blast
qed

theorem my_hash_update_correct:
  assumes wf: "hash_wf old" and re: "rekeyed old hash r"
    and r: "r \<in> set (hash_records old)" "distinct (hash_records old)"
    and old: "take (if len \<noteq> 0 then len else key_length old) old_key = my_hash_key old r False"
    and key: "key_stable hash" "good_key hash (my_hash_key hash r True)"
      "HASH_UNIQUE AND flags hash = 0 \<or> len_ok hash (length (my_hash_key hash r True))"
  shows "\<exists>hash' failed. my_hash_update hash r old_key len = Some (hash', failed)
    \<and> (failed \<longleftrightarrow> dup_other hash r) \<and> (failed \<longrightarrow> hash' = hash) \<and> (\<not> failed \<longrightarrow> hash_wf hash')
    \<and> mset (hash_records hash') = mset (hash_records old)"
proof -
  note R = rekeyedD [OF re]
  let ?d = "data_of hash" and ?n = "records hash" and ?k = "my_hash_key hash r True"
  let ?U = "{..<records hash}"
  define hm where "hm = home old"
  have d: "data_of hash = data_of old" by (simp add: data_of_def R)
  have W: "da_wf (harray hash)" "elements (harray hash) = ?n" "blen_ok (blength hash) ?n" "linked hm ?d ?U"
    using wf unfolding hash_wf_def hm_def d R(1-3) by blast+
  have len: "?n \<le> length ?d" using hash_wf_length [OF wf] unfolding d R(2) .
  have rs: "hash_records hash = hash_records old" by (simp add: hash_records_def d R)
  have calc: "calc_hash hash = calc_hash old" by (simp add: calc_hash_def [abs_def] R)
  have same: "hm q = home hash q" if "q \<noteq> r" for q
    using R(7) [OF that, of False] by (simp add: hm_def home_def rec_hashnr_def calc R)
  have n0: "?n \<noteq> 0"
  proof
    assume "?n = 0"
    then show False using r(1) unfolding rs [symmetric] by (simp add: hash_records_def)
  qed
  let ?dup = "if HASH_UNIQUE AND flags hash \<noteq> 0 then my_hash_first hash ?k (length ?k) \<bind> other_record hash r ?k else Some False"
  have dup: "?dup = Some (dup_other hash r)"
  proof (cases "HASH_UNIQUE AND flags hash = 0")
    case False
    then have "len_ok hash (length ?k)" using key(3) by simp
    then show ?thesis using other_record_check [OF W(4) len W(3) same key(1,2)] False
      by (simp add: dup_other_def)
  qed (simp add: dup_other_def)
  have idx: "my_hash_mask (calc_hash hash (take (if len \<noteq> 0 then len else key_length hash) old_key))
      (blength hash) ?n = hm r"
    unfolding R(5) old by (simp add: hm_def home_def rec_hashnr_def calc R)
  have nidx: "my_hash_mask (rec_hashnr hash r) (blength hash) ?n = home hash r" by (simp add: home_def)
  have up: "my_hash_update hash r old_key len = (if dup_other hash r then Some (hash, True)
    else if hm r = home hash r then Some (hash, False)
    else do {
      found \<leftarrow> find_record ?d r (hm r) None;
      case found of
        None \<Rightarrow> Some (hash, True)
      | Some (pos, previous) \<Rightarrow> do {
          d \<leftarrow> relink_record hash ?d pos previous (home hash r);
          Some (with_data hash d, False) } })"
    unfolding my_hash_update_def Let_def unfolding dup idx nidx by simp
  show ?thesis
  proof (cases "dup_other hash r")
    case True
    then have "my_hash_update hash r old_key len = Some (hash, True)" by (simp add: up)
    then show ?thesis using True rs by (intro exI [of _ hash] exI [of _ True]) simp
  next
    case nodup: False
    show ?thesis
    proof (cases "hm r = home hash r")
      case True
      then have "hm = home hash" using same by (metis ext)
      then have "hash_wf hash" using W unfolding hash_wf_def by simp
      moreover have "my_hash_update hash r old_key len = Some (hash, False)" using nodup True by (simp add: up)
      ultimately show ?thesis using nodup rs by (intro exI [of _ hash] exI [of _ False]) simp
    next
      case moved: False
      have hr: "hm r \<in> ?U" using mask_less [OF W(3)] n0 by (simp add: hm_def home_def R)
      have "\<exists>j \<in> ?U. dt ?d j = r"
        using r(1) unfolding rs [symmetric] mem_hash_records [OF len] .
      then obtain p g d1 e where F: "find_record ?d r (hm r) None = Some (Some (p, g))" "p \<in> ?U" "dt ?d p = r"
        "unlink_record ?d p g = Some (d1, e)" "length d1 = length ?d" "e \<in> ?U" "e = p \<or> g = None"
        "linked hm d1 (?U - {e})" "recs ?d ?U = add_mset r (recs d1 (?U - {e}))"
        using find_unlink [OF W(4) _ hr refl] by auto
      have one: "i = p" if "i < ?n" "dt ?d i = r" for i
      proof -
        have "hash_records hash ! i = hash_records hash ! p" "i < length (hash_records hash)" "p < length (hash_records hash)"
          using that F(2,3) len by (auto simp: hash_records_def)
        then show ?thesis using r(2) unfolding rs [symmetric] by (simp add: nth_eq_iff_index_eq)
      qed
      have hn: "home hash r < ?n" using mask_less [OF W(3)] n0 by (simp add: home_def)
      have pe: "p < ?n" "e < ?n" using F(2,6) by simp_all
      obtain d' where D: "relink_record hash ?d p g (home hash r) = Some d'" "length d' = length ?d"
        "linked (home hash) d' ?U" "recs d' ?U = recs ?d ?U"
        using relink_record_spec [OF W(4) len refl same one pe(1) F(3) refl hn F(4,5) pe(2) F(7,8,9)]
        by blast
      let ?h = "with_data hash d'"
      have dh: "data_of ?h = d'" "records ?h = ?n" "blength ?h = blength hash"
        by (simp_all add: with_data_def data_of_def)
      have "rec_hashnr ?h = rec_hashnr hash" using keys_cong [of ?h hash] by (simp add: with_data_def)
      then have hmh: "home ?h = home hash" by (simp add: home_def [abs_def] dh)
      have "buffer (harray hash) \<noteq> None" using len n0
        by (cases "buffer (harray hash)") (simp_all add: data_of_def)
      then have "da_wf (harray ?h)" "elements (harray ?h) = ?n"
        using W(1,2) D(2) by (auto simp: da_wf_def with_data_def data_of_def split: option.splits)
      then have wfh: "hash_wf ?h" unfolding hash_wf_def hmh dh using W(3) D(3) by blast
      have "mset (hash_records ?h) = mset (hash_records old)"
        unfolding rs [symmetric] hash_records_recs [OF len] hash_records_recs [OF hash_wf_length [OF wfh]] dh
        by (rule D(4))
      moreover have "my_hash_update hash r old_key len = Some (?h, False)"
        using nodup moved F(1) D(1) by (simp add: up)
      ultimately show ?thesis using nodup wfh by (intro exI [of _ ?h] exI [of _ False]) simp
    qed
  qed
qed

end
