(* ===== verification/Unicase.thy ===== *)
theory Unicase
  imports Collation UnicaseTab
begin

text \<open>
  The operations of \<^verbatim>\<open>MySQL/ctype-utf8.c\<close> that read the case and weight tables: conversion of
  a NUL-terminated string in place, case-insensitive comparison and sort keys.  The theorems
  are about the tables of the source: the bounds on the growth of a converted string, the
  agreement of comparison, hashing and sort keys.
\<close>

section \<open>What the tables guarantee\<close>

definition case_bound :: "nat \<Rightarrow> uni_plane \<Rightarrow> bool" where
  "case_bound m up \<longleftrightarrow> (\<forall>wc. bmp wc \<longrightarrow>
     length (utf8_char (plane_map toupper up wc)) \<le> m * length (utf8_char wc)
     \<and> length (utf8_char (plane_map tolower up wc)) \<le> m * length (utf8_char wc))"

definition weights_ok :: "uni_plane \<Rightarrow> bool" where
  "weights_ok up \<longleftrightarrow> (\<forall>wc. bmp wc \<longrightarrow>
     (plane_map sort_weight up wc < 0x20 \<longleftrightarrow> wc < 0x20)
     \<and> (plane_map sort_weight up wc = 0x20 \<longleftrightarrow> wc = 0x20))"

lemma bmp_plane_map [simp]: "bmp wc \<Longrightarrow> bmp (plane_map fld up wc)"
  using unat_u16_less by (auto simp: plane_map_def bmp_def unat_ucast_up split: option.split)

lemma length_utf8_ulen: "bmp wc \<Longrightarrow> length (utf8_char wc) = ulen (unat wc)"
  by (simp add: length_utf8_char ulen_def word_less_nat_alt)

lemma plane_index:
  "bmp wc \<Longrightarrow> unat (drop_bit 8 wc AND 0xFF) = unat wc div 256"
  "unat (wc AND 0xFF) = unat wc mod 256"
proof -
  have m: "w AND 0xFF = take_bit 8 w" for w :: my_wc_t
    by (simp add: take_bit_eq_mask mask_eq_exp_minus_1)
  show "unat (wc AND 0xFF) = unat wc mod 256" by (simp add: m unat_take_bit)
  assume "bmp wc"
  then have "unat wc div 256 < 256" by (simp add: bmp_def)
  then show "unat (drop_bit 8 wc AND 0xFF) = unat wc div 256"
    by (simp add: m unat_take_bit unat_drop_bit)
qed

lemma plane_map_bmp:
  "bmp wc \<Longrightarrow> plane_map fld up wc =
     (case up (unat wc div 256) of Some tab \<Rightarrow> ucast (fld (tab (unat wc mod 256))) | None \<Rightarrow> wc)"
proof -
  assume wc: "bmp wc"
  show ?thesis unfolding plane_map_def plane_index(1) [OF wc] plane_index(2) [of wc] by (rule refl)
qed

text \<open>A character of a page that is present maps as its row says.\<close>

lemma caseinfo_row:
  assumes ok: "length pages = 256 \<and> pages_ok Q pages 0" and wc: "bmp wc"
  obtains (row) u l s where "Q (unat wc) (u, l, s)"
    "\<And>fld. plane_map fld (caseinfo pages) wc = ucast (fld (unicase_info (u, l, s)))"
  | (same) "\<And>fld. plane_map fld (caseinfo pages) wc = wc"
proof (cases "pages ! (unat wc div 256)")
  case None
  then have "plane_map fld (caseinfo pages) wc = wc" for fld
    using wc by (simp add: plane_map_bmp caseinfo_def)
  then show ?thesis by (rule same)
next
  case (Some t)
  have "unat wc div 256 < 256" using wc by (simp add: bmp_def)
  then have t: "length t = 256" "rows_ok Q t (0 + 256 * (unat wc div 256))"
    using pages_okD [of Q pages 0 "unat wc div 256" t] ok Some by auto
  have "Q (unat wc) (t ! (unat wc mod 256))"
    using rows_okD [OF t(2), of "unat wc mod 256"] t(1) by simp
  moreover obtain u l s where "t ! (unat wc mod 256) = (u, l, s)" by (metis prod.exhaust)
  ultimately show ?thesis
    using row wc Some by (simp add: plane_map_bmp caseinfo_def)
qed

lemma unat_row: "n < 0x10000 \<Longrightarrow> unat (ucast (of_nat n :: u16) :: my_wc_t) = n"
  by (simp add: unat_ucast_up unat_of_nat)

lemma pages_case_bound:
  assumes "length pages = 256 \<and> pages_ok (row_ok m) pages 0" "1 \<le> m"
  shows "case_bound m (caseinfo pages)"
  unfolding case_bound_def
proof (intro allI impI)
  fix wc
  assume wc: "bmp wc"
  from assms(1) wc show "length (utf8_char (plane_map toupper (caseinfo pages) wc)) \<le> m * length (utf8_char wc)
     \<and> length (utf8_char (plane_map tolower (caseinfo pages) wc)) \<le> m * length (utf8_char wc)"
  proof (cases rule: caseinfo_row)
    case (row u l s)
    have e: "length (utf8_char (plane_map fld (caseinfo pages) wc)) =
        ulen (unat (plane_map fld (caseinfo pages) wc))" for fld
      by (rule length_utf8_ulen [OF bmp_plane_map [OF wc]])
    show ?thesis
      unfolding e length_utf8_ulen [OF wc] unfolding row(2)
      using row(1) by (simp add: row_ok_def unicase_info_def unat_row)
  next
    case same
    then show ?thesis using assms(2) by simp
  qed
qed

lemma pages_weights_ok:
  assumes "length pages = 256 \<and> pages_ok (row_ok m) pages 0"
  shows "weights_ok (caseinfo pages)"
  unfolding weights_ok_def
proof (intro allI impI)
  fix wc
  assume wc: "bmp wc"
  from assms wc show "(plane_map sort_weight (caseinfo pages) wc < 0x20 \<longleftrightarrow> wc < 0x20)
     \<and> (plane_map sort_weight (caseinfo pages) wc = 0x20 \<longleftrightarrow> wc = 0x20)"
  proof (cases rule: caseinfo_row)
    case (row u l s)
    then show ?thesis
      by (simp add: row_ok_def unicase_info_def unat_row word_less_nat_alt word_unat_eq_iff)
  qed simp
qed

lemmas default_ok = pages_case_bound [OF default_pages_ok order_refl, folded my_unicase_default_def]
  pages_weights_ok [OF default_pages_ok, folded my_unicase_default_def]

lemma turkish_ok: "case_bound 2 my_unicase_turkish" "weights_ok my_unicase_turkish"
  unfolding my_unicase_turkish_def
  by (rule pages_case_bound [OF turkish_pages_ok], simp) (rule pages_weights_ok [OF turkish_pages_ok])

lemma weights_space_unique: "weights_ok up \<Longrightarrow> space_unique_wc up"
  unfolding weights_ok_def space_unique_wc_def using bmp_space by metis

interpretation coll_utf8: hash_collation "my_strnncollsp_utf8 my_unicase_default" "my_hash_sort_utf8 my_unicase_default"
  by (rule collsp_utf8_contract) (rule weights_space_unique [OF default_ok(2)])

interpretation coll_utf8_turkish:
  hash_collation "my_strnncollsp_utf8 my_unicase_turkish" "my_hash_sort_utf8 my_unicase_turkish"
  by (rule collsp_utf8_contract) (rule weights_space_unique [OF turkish_ok(2)])

section \<open>Case conversion\<close>

text \<open>
  With \<open>m\<close> times the space of the source, \<open>m\<close> the \<^verbatim>\<open>caseup_multiply\<close> of the character set,
  nothing of a well-formed string is cut off.
\<close>

lemma length_concat_bound:
  "(\<And>x. x \<in> set xs \<Longrightarrow> length (f x) \<le> m * length (g x)) \<Longrightarrow>
     length (concat (map f xs)) \<le> m * length (concat (map g xs))"
  by (induction xs) (auto simp: algebra_simps intro: add_mono)

lemma case_loop_complete:
  assumes wcs: "list_all bmp wcs"
    and f: "\<And>wc. bmp wc \<Longrightarrow> bmp (f wc) \<and> length (utf8_char (f wc)) \<le> m * length (utf8_char wc)"
    and room: "m * length (concat (map utf8_char wcs)) \<le> room"
  shows "case_loop_utf8 f (concat (map utf8_char wcs)) room = concat (map utf8_char (map f wcs))"
proof (rule case_loop_utf8_chars [OF wcs])
  show "list_all bmp (map f wcs)" using wcs f by (auto simp: list_all_iff)
  have "length (concat (map (\<lambda>w. utf8_char (f w)) wcs)) \<le> m * length (concat (map utf8_char wcs))"
    by (rule length_concat_bound) (use wcs f in \<open>auto simp: list_all_iff\<close>)
  then show "length (concat (map utf8_char (map f wcs))) \<le> room"
    using room by (simp add: comp_def)
qed

lemma caseup_complete:
  assumes "case_bound m up" "list_all bmp wcs" "m * length (concat (map utf8_char wcs)) \<le> room"
  shows "my_caseup_utf8 up (concat (map utf8_char wcs)) room =
      concat (map utf8_char (map (plane_map toupper up) wcs))"
    and "my_casedn_utf8 up (concat (map utf8_char wcs)) room =
      concat (map utf8_char (map (plane_map tolower up) wcs))"
  unfolding my_caseup_utf8_def my_casedn_utf8_def
  by (rule case_loop_complete [OF assms(2) _ assms(3)], use assms(1) in \<open>simp add: case_bound_def\<close>)+

text \<open>
  \<^verbatim>\<open>my_caseup_str_utf8\<close> converts in place: \<open>mem\<close> is the buffer, \<open>src\<close> and \<open>dst\<close> index it.
  The result is the buffer and the length, or \<^const>\<open>None\<close> for a write outside the buffer.
\<close>

definition write_at :: "byte list \<Rightarrow> nat \<Rightarrow> byte list \<Rightarrow> byte list" where
  "write_at mem dst out = take dst mem @ out @ drop (dst + length out) mem"

lemma length_write_at [simp]: "dst + length out \<le> length mem \<Longrightarrow> length (write_at mem dst out) = length mem"
  by (simp add: write_at_def)

lemma utf8_uni_no_range_pos: "utf8_uni_no_range s = (n, Some wc) \<Longrightarrow> 0 < n"
  by (auto simp: utf8_uni_no_range_eq my_cs_defs Let_def split: if_splits)

function case_str_loop ::
  "(my_wc_t \<Rightarrow> my_wc_t) \<Rightarrow> byte list \<Rightarrow> nat \<Rightarrow> nat \<Rightarrow> (byte list \<times> nat) option" where
  "case_str_loop f mem src dst =
     (let stop = (if dst < length mem then Some (mem[dst := 0], dst) else None)
      in if length mem \<le> src then None
         else if mem ! src = 0 then stop
         else case utf8_uni_no_range (drop src mem) of
             (srcres, None) \<Rightarrow> stop
           | (srcres, Some wc) \<Rightarrow>
               (case my_uni_utf8_no_range (f wc) of (dstres, out) \<Rightarrow>
                  if dstres \<le> 0 then stop
                  else if length mem < dst + length out then None
                  else case_str_loop f (write_at mem dst out) (src + nat srcres) (dst + nat dstres)))"
  by pat_completeness auto
termination
  by (relation "measure (\<lambda>(f, mem, src, dst). length mem - src)")
    (auto dest: utf8_uni_no_range_pos [OF sym])

declare case_str_loop.simps [simp del]

definition my_caseup_str_utf8 :: "uni_plane \<Rightarrow> byte list \<Rightarrow> (byte list \<times> nat) option" where
  "my_caseup_str_utf8 up src = case_str_loop (plane_map toupper up) src 0 0"

definition my_casedn_str_utf8 :: "uni_plane \<Rightarrow> byte list \<Rightarrow> (byte list \<times> nat) option" where
  "my_casedn_str_utf8 up src = case_str_loop (plane_map tolower up) src 0 0"

lemma no_range_eq: "utf8_uni s = (n, Some wc) \<Longrightarrow> utf8_uni_no_range s = (n, Some wc)"
  unfolding utf8_uni_eq utf8_uni_no_range_eq Let_def
  by (auto simp: my_cs_defs split: if_splits)

lemma my_uni_utf8_no_range_char:
  "bmp wc \<Longrightarrow> my_uni_utf8_no_range wc = (int (length (utf8_char wc)), utf8_char wc)"
  by (auto simp: bmp_def utf8_char_def my_uni_utf8_no_range_def word_le_nat_alt Let_def
      utf8_switch_def)

lemma utf8_char_hd: "bmp wc \<Longrightarrow> wc \<noteq> 0 \<Longrightarrow> utf8_char wc ! 0 \<noteq> 0"
proof
  assume wc: "bmp wc" "wc \<noteq> 0" "utf8_char wc ! 0 = 0"
  then have c: "utf8_char wc @ [] = 0 # tl (utf8_char wc)"
    using utf8_char_ne [OF wc(1)] by (cases "utf8_char wc") auto
  have "utf8_uni (0 # t) = (1, Some 0)" for t by (simp add: utf8_uni_eq)
  then show False using utf8_uni_char [OF wc(1), of "[]"] wc(2) unfolding c by simp
qed

text \<open>The loop invariant: the converted part, a gap, and the rest of the source.\<close>

lemma case_str_loop_chars:
  assumes f: "\<And>wc. bmp wc \<Longrightarrow> bmp (f wc) \<and> length (utf8_char (f wc)) \<le> length (utf8_char wc)"
  shows "list_all (\<lambda>wc. bmp wc \<and> wc \<noteq> 0) wcs \<Longrightarrow>
    mem = d @ gap @ concat (map utf8_char wcs) @ 0 # rest \<Longrightarrow>
    \<exists>gap'. case_str_loop f mem (length d + length gap) (length d) =
      Some (d @ concat (map utf8_char (map f wcs)) @ 0 # gap',
        length d + length (concat (map utf8_char (map f wcs))))"
proof (induction wcs arbitrary: mem d gap)
  case Nil
  then show ?case
    by (subst case_str_loop.simps; cases gap) (auto simp: nth_append list_update_append)
next
  case (Cons wc wcs)
  let ?c = "utf8_char wc" and ?o = "utf8_char (f wc)"
  let ?src = "length d + length gap" and ?tl = "concat (map utf8_char wcs) @ 0 # rest"
  have wc: "bmp wc" "wc \<noteq> 0" "bmp (f wc)" "length ?o \<le> length ?c" "?c \<noteq> []"
    using Cons.prems f by auto
  have mem: "mem = d @ gap @ ?c @ ?tl" using Cons.prems by simp
  have at: "drop ?src mem = ?c @ ?tl" unfolding mem by simp
  then have "mem ! ?src = (?c @ ?tl) ! 0" using hd_drop_conv_nth [of ?src mem] wc(5) mem
    by (simp add: hd_conv_nth)
  then have nz: "mem ! ?src \<noteq> 0" using utf8_char_hd [OF wc(1,2)] wc(5) by (simp add: nth_append)
  have dec: "utf8_uni_no_range (drop ?src mem) = (int (length ?c), Some wc)"
    unfolding at by (rule no_range_eq) (rule utf8_uni_char [OF wc(1)])
  have len: "?src < length mem" "length d + length ?o \<le> length mem"
    using wc(4,5) by (auto simp: mem)
  have "0 < length ?o" using utf8_char_ne [OF wc(3)] by simp
  then have step: "case_str_loop f mem ?src (length d) =
      case_str_loop f (write_at mem (length d) ?o) (?src + length ?c) (length d + length ?o)"
    using len nz by (subst case_str_loop.simps)
      (simp add: dec my_uni_utf8_no_range_char [OF wc(3)] Let_def)
  define gap' where "gap' = drop (length ?o) (gap @ ?c)"
  have "write_at mem (length d) ?o = (d @ ?o) @ gap' @ ?tl"
    using wc(4) by (simp add: write_at_def mem gap'_def)
  from Cons.IH [OF _ this] Cons.prems
  obtain g where g: "case_str_loop f (write_at mem (length d) ?o)
      (length (d @ ?o) + length gap') (length (d @ ?o)) =
      Some ((d @ ?o) @ concat (map utf8_char (map f wcs)) @ 0 # g,
        length (d @ ?o) + length (concat (map utf8_char (map f wcs))))"
    by auto
  have "length (d @ ?o) + length gap' = ?src + length ?c" using wc(4) by (simp add: gap'_def)
  then show ?case using g unfolding step by (auto simp: add.assoc)
qed

lemma caseup_str_complete:
  assumes "case_bound 1 up" "list_all (\<lambda>wc. bmp wc \<and> wc \<noteq> 0) wcs"
  shows "\<exists>gap. my_caseup_str_utf8 up (concat (map utf8_char wcs) @ 0 # rest) =
      Some (concat (map utf8_char (map (plane_map toupper up) wcs)) @ 0 # gap,
        length (concat (map utf8_char (map (plane_map toupper up) wcs))))"
    and "\<exists>gap. my_casedn_str_utf8 up (concat (map utf8_char wcs) @ 0 # rest) =
      Some (concat (map utf8_char (map (plane_map tolower up) wcs)) @ 0 # gap,
        length (concat (map utf8_char (map (plane_map tolower up) wcs))))"
  using assms(1) case_str_loop_chars [OF _ assms(2), where d = "[]" and gap = "[]"]
  unfolding my_caseup_str_utf8_def my_casedn_str_utf8_def case_bound_def by simp_all

section \<open>Sort keys\<close>

text \<open>The two bytes of a weight, and the loops that fill the key; \<open>room\<close> is \<^verbatim>\<open>de - dst\<close>.\<close>

definition wkey :: "my_wc_t \<Rightarrow> byte list" where
  "wkey wc = [ucast (drop_bit 8 wc), ucast (wc AND 0xFF)]"

fun xfrm_loop :: "uni_plane \<Rightarrow> nat \<Rightarrow> byte list \<Rightarrow> byte list" where
  "xfrm_loop up (Suc (Suc room)) src =
     (case utf8_uni src of
        (res, Some wc) \<Rightarrow> wkey (plane_map sort_weight up wc) @ xfrm_loop up room (drop (nat res) src)
      | (res, None) \<Rightarrow> [])"
| "xfrm_loop up _ src = []"

fun fill_spaces :: "nat \<Rightarrow> byte list" where
  "fill_spaces (Suc (Suc room)) = 0 # 0x20 # fill_spaces room"
| "fill_spaces (Suc 0) = [0]"
| "fill_spaces 0 = []"

definition my_strnxfrm_utf8 :: "uni_plane \<Rightarrow> nat \<Rightarrow> byte list \<Rightarrow> byte list \<times> nat" where
  "my_strnxfrm_utf8 up dstlen src =
     (let key = xfrm_loop up dstlen src in (key @ fill_spaces (dstlen - length key), dstlen))"

definition my_strnxfrmlen_utf8 :: "nat \<Rightarrow> nat" where
  "my_strnxfrmlen_utf8 len = (len * 2 + 2) div 3"

lemma length_fill [simp]: "length (fill_spaces n) = n"
  by (induction n rule: fill_spaces.induct) auto

lemma length_wkey [simp]: "length (wkey w) = 2"
  by (simp add: wkey_def)

lemma length_xfrm_loop: "length (xfrm_loop up n src) \<le> n"
  by (induction up n src rule: xfrm_loop.induct) (auto split: option.split prod.split)

lemma length_strnxfrm: "length (fst (my_strnxfrm_utf8 up n src)) = n"
  using length_xfrm_loop [of up n src] by (simp add: my_strnxfrm_utf8_def Let_def)

lemma xfrm_char:
  "bmp wc \<Longrightarrow> fst (my_strnxfrm_utf8 up (Suc (Suc n)) (utf8_char wc @ s)) =
     wkey (plane_map sort_weight up wc) @ fst (my_strnxfrm_utf8 up n s)"
  by (simp add: my_strnxfrm_utf8_def Let_def utf8_uni_char)

lemma xfrm_Nil: "fst (my_strnxfrm_utf8 up n []) = fill_spaces n"
proof -
  have "xfrm_loop up n [] = []" by (cases n rule: fill_spaces.cases) (simp_all add: utf8_uni_eq)
  then show ?thesis by (simp add: my_strnxfrm_utf8_def)
qed

lemma fill_wkey: "fill_spaces (Suc (Suc n)) = wkey 0x20 @ fill_spaces n"
  by (simp add: wkey_def)

lemma unat_wkey:
  assumes "bmp w"
  shows "map unat (wkey w) = [unat w div 256, unat w mod 256]"
proof -
  have "unat (ucast (drop_bit 8 w) :: byte) = unat w div 256"
    using assms by (simp add: unsigned_ucast_eq unat_drop_bit bmp_def take_bit_eq_mod
        unsigned_take_bit_eq less_mult_imp_div_less)
  moreover have "unat (ucast (w AND 0xFF) :: byte) = unat w mod 256"
    using plane_index(2) [of w] by (simp add: unsigned_ucast_eq take_bit_eq_mod)
  ultimately show ?thesis by (simp add: wkey_def)
qed

lemma memcmp_wkey:
  assumes "bmp w" "bmp v"
  shows "memcmp (wkey w @ x) (wkey v @ y) = (if w = v then memcmp x y else if w < v then -1 else 1)"
proof -
  obtain a b where a: "wkey w = [a, b]" by (simp add: wkey_def)
  obtain c d where c: "wkey v = [c, d]" by (simp add: wkey_def)
  have u: "unat a = unat w div 256" "unat b = unat w mod 256" "unat c = unat v div 256"
    "unat d = unat v mod 256"
    using unat_wkey [OF assms(1)] unat_wkey [OF assms(2)] by (simp_all add: a c)
  have d: "unat w = 256 * unat a + unat b" "unat v = 256 * unat c + unat d"
    unfolding u by simp_all
  have e: "w = v \<longleftrightarrow> a = c \<and> b = d"
    unfolding word_unat_eq_iff u by (metis div_mult_mod_eq)
  have l: "w < v \<longleftrightarrow> a < c \<or> a = c \<and> b < d"
    unfolding word_less_nat_alt word_unat_eq_iff d
    using unat_byte_less [of b] unat_byte_less [of d] by linarith
  show ?thesis using e l by (auto simp: a c)
qed

text \<open>The first byte of a character compares with the space as the character does.\<close>

lemma utf8_char_lead:
  assumes "bmp wc"
  shows "utf8_char wc = [ucast wc] \<and> unat (utf8_char wc ! 0) = unat wc \<and> unat wc < 0x80
    \<or> 0x80 \<le> unat (utf8_char wc ! 0) \<and> 0x80 \<le> unat wc"
proof -
  have nth: "unat (utf8_char wc ! 0) = map unat (utf8_char wc) ! 0"
    using utf8_char_ne [OF assms] by simp
  have sw: "utf8_char wc = (if unat wc < 0x80 then utf8_case1 wc
      else if unat wc < 0x800 then utf8_case2 wc else utf8_case3 wc)"
    using assms by (simp add: bmp_def utf8_char_def my_uni_utf8_no_range_def word_le_nat_alt
        word_less_nat_alt Let_def utf8_switch_def)
  show ?thesis
  proof (cases "unat wc < 0x80")
    case True
    then show ?thesis using nth sw case1 [OF True] by (simp add: utf8_case1_def)
  next
    case False
    then show ?thesis
      unfolding nth unfolding sw using assms by (auto simp: bmp_def case2 case3 simp del: nth_map)
  qed
qed

lemma utf8_char_first:
  assumes "bmp wc"
  shows "utf8_char wc ! 0 < 0x20 \<longleftrightarrow> wc < 0x20" "utf8_char wc ! 0 = 0x20 \<longleftrightarrow> wc = 0x20"
  using utf8_char_lead [OF assms] by (auto simp: word_less_nat_alt word_unat_eq_iff)

lemma tail_vs_space_char:
  assumes "bmp wc"
  shows "tail_vs_space 0x20 (\<lambda>b. b) (utf8_char wc @ s) swap =
    (if wc = 0x20 then tail_vs_space 0x20 (\<lambda>b. b) s swap else if wc < 0x20 then - swap else swap)"
proof (cases "wc = 0x20")
  case True
  then show ?thesis by (simp add: utf8_char_space)
next
  case False
  obtain b r where "utf8_char wc = b # r" using utf8_char_ne [OF assms] by (cases "utf8_char wc") auto
  then show ?thesis using utf8_char_first [OF assms] False by simp
qed

lemma xfrm_tail:
  assumes up: "weights_ok up"
  shows "list_all bmp vcs \<Longrightarrow> 2 * length vcs \<le> n \<Longrightarrow>
    memcmp (fill_spaces n) (fst (my_strnxfrm_utf8 up n (concat (map utf8_char vcs)))) =
    tail_vs_space 0x20 (\<lambda>b. b) (concat (map utf8_char vcs)) (-1)"
proof (induction vcs arbitrary: n)
  case (Cons vc vcs)
  then obtain m where m: "n = Suc (Suc m)" by (cases n rule: fill_spaces.cases) auto
  have vc: "bmp vc" using Cons.prems by simp
  have w: "plane_map sort_weight up vc < 0x20 \<longleftrightarrow> vc < 0x20"
    "plane_map sort_weight up vc = 0x20 \<longleftrightarrow> vc = 0x20"
    using up vc by (auto simp: weights_ok_def)
  show ?case
    using Cons w unfolding m
    by (auto simp: fill_wkey xfrm_char memcmp_wkey tail_vs_space_char simp del: fill_spaces.simps)
qed (simp add: xfrm_Nil)

lemma sgn_neg_eq: "x = sgn y \<Longrightarrow> - x = sgn (- y :: int)"
  by (simp add: sgn_minus)

lemma sgn_tail: "sgn (tail_vs_space sp w s (-1)) = tail_vs_space sp w s (-1)"
  by (induction s) auto

theorem xfrm_order:
  assumes up: "weights_ok up"
  shows "list_all bmp wcs \<Longrightarrow> list_all bmp vcs \<Longrightarrow> 2 * length wcs \<le> n \<Longrightarrow> 2 * length vcs \<le> n \<Longrightarrow>
    memcmp (fst (my_strnxfrm_utf8 up n (concat (map utf8_char wcs))))
           (fst (my_strnxfrm_utf8 up n (concat (map utf8_char vcs)))) =
    sgn (my_strnncollsp_utf8 up (concat (map utf8_char wcs)) (concat (map utf8_char vcs)))"
proof (induction wcs arbitrary: vcs n)
  case Nil
  then show ?case using xfrm_tail [OF up Nil(2,4)] by (simp add: xfrm_Nil collsp_utf8_Nil sgn_tail)
next
  case (Cons wc wcs)
  show ?case
  proof (cases vcs)
    case Nil
    let ?s = "concat (map utf8_char (wc # wcs))"
    have "memcmp (fill_spaces n) (fst (my_strnxfrm_utf8 up n ?s)) = sgn (my_strnncollsp_utf8 up [] ?s)"
      using xfrm_tail [OF up Cons.prems(1,3)] by (simp only: collsp_utf8_Nil sgn_tail)
    from sgn_neg_eq [OF this] show ?thesis
      using memcmp_sym [of _ "fill_spaces n"] tail_vs_space_neg [of "0x20" "\<lambda>b. b" ?s 1]
      unfolding Nil list.map(1) concat.simps(1) xfrm_Nil by (simp add: collsp_utf8_Nil)
  next
    case (Cons vc ucs)
    then obtain m where m: "n = Suc (Suc m)" using Cons.prems by (cases n rule: fill_spaces.cases) auto
    show ?thesis
      using Cons.IH [of ucs m] Cons.prems unfolding Cons m
      by (auto simp: xfrm_char memcmp_wkey collsp_utf8_char Let_def)
  qed
qed

section \<open>Comparison of NUL-terminated strings\<close>

text \<open>\<^verbatim>\<open>strcmp\<close> of the C library; of a non-zero result only the sign is documented.\<close>

fun strcmp :: "byte list \<Rightarrow> byte list \<Rightarrow> int" where
  "strcmp [] [] = 0"
| "strcmp (a # s) [] = 1"
| "strcmp [] (b # t) = -1"
| "strcmp (a # s) (b # t) = (if a = b then strcmp s t else if a < b then -1 else 1)"

text \<open>
  The weight of the next character and the rest of the string.  ASCII characters are looked up
  in \<^const>\<open>plane00\<close> whatever the character set; a multibyte character is decoded from the next
  three bytes.
\<close>

definition casecmp_char :: "uni_plane \<Rightarrow> byte list \<Rightarrow> (my_wc_t \<times> byte list) option" where
  "casecmp_char up s =
     (if s ! 0 < 128 then Some (ucast (tolower (unicase_info (plane00 ! unat (s ! 0)))), tl s)
      else case utf8_uni (map (cstr_at s) [0, 1, 2]) of
          (res, Some wc) \<Rightarrow> Some (plane_map tolower up wc, drop (nat res) s)
        | (res, None) \<Rightarrow> None)"

lemma utf8_uni_pos: "(n, Some wc) = utf8_uni s \<Longrightarrow> 0 < n"
  using utf8_uni_decode [of s n wc] by auto

lemma casecmp_char_shorter: "s \<noteq> [] \<Longrightarrow> Some (wc, r) = casecmp_char up s \<Longrightarrow> length r < length s"
  by (auto simp: casecmp_char_def dest: utf8_uni_pos [OF sym] split: if_splits prod.splits option.splits)

text \<open>
  The second \<^verbatim>\<open>strcmp\<close> compares from where the pointers are: \<open>s\<close> has moved on already.
\<close>

function my_strcasecmp_utf8 :: "uni_plane \<Rightarrow> byte list \<Rightarrow> byte list \<Rightarrow> int" where
  "my_strcasecmp_utf8 up s t =
     (if s \<noteq> [] \<and> t \<noteq> [] then
        (case casecmp_char up s of
           None \<Rightarrow> strcmp s t
         | Some (s_wc, s') \<Rightarrow>
             (case casecmp_char up t of
                None \<Rightarrow> strcmp s' t
              | Some (t_wc, t') \<Rightarrow>
                  if s_wc \<noteq> t_wc then int (unat s_wc) - int (unat t_wc)
                  else my_strcasecmp_utf8 up s' t'))
      else int (unat (cstr_at s 0)) - int (unat (cstr_at t 0)))"
  by pat_completeness auto
termination
  by (relation "measure (\<lambda>(up, s, t). length s)") (auto dest: casecmp_char_shorter [OF _ sym])

declare my_strcasecmp_utf8.simps [simp del]

lemma plane_map_default_ascii:
  "unat wc < 0x80 \<Longrightarrow>
     plane_map tolower my_unicase_default wc = ucast (tolower (unicase_info (plane00 ! unat wc)))"
  by (simp add: plane_map_bmp bmp_def my_unicase_default_def caseinfo_def default_pages_def)

lemma three_bytes: "length c \<le> 3 \<Longrightarrow> \<exists>r. map (cstr_at (c @ s)) [0, 1, 2] = c @ r"
  by (cases c; cases "tl c"; cases "tl (tl c)") (auto simp: cstr_at_def)

lemma casecmp_char_default:
  assumes "bmp wc"
  shows "casecmp_char my_unicase_default (utf8_char wc @ s) =
    Some (plane_map tolower my_unicase_default wc, s)"
  using utf8_char_lead [OF assms]
proof
  assume c: "utf8_char wc = [ucast wc] \<and> unat (utf8_char wc ! 0) = unat wc \<and> unat wc < 0x80"
  then have "unat (ucast wc :: byte) = unat wc" by (metis nth_Cons_0)
  with c show ?thesis
    by (simp add: casecmp_char_def plane_map_default_ascii word_less_nat_alt)
next
  assume c: "0x80 \<le> unat (utf8_char wc ! 0) \<and> 0x80 \<le> unat wc"
  have "length (utf8_char wc) \<le> 3" using length_utf8_char [OF assms] by simp
  then obtain r where "map (cstr_at (utf8_char wc @ s)) [0, 1, 2] = utf8_char wc @ r"
    using three_bytes by blast
  moreover have "(utf8_char wc @ s) ! 0 = utf8_char wc ! 0"
    using utf8_char_ne [OF assms] by (simp add: nth_append)
  ultimately show ?thesis
    using c utf8_uni_char [OF assms, of r] unfolding casecmp_char_def
    by (simp add: word_less_nat_alt)
qed

lemma strcasecmp_chars:
  "list_all (\<lambda>w. bmp w \<and> w \<noteq> 0) wcs \<Longrightarrow> list_all (\<lambda>w. bmp w \<and> w \<noteq> 0) vcs \<Longrightarrow>
   my_strcasecmp_utf8 my_unicase_default (concat (map utf8_char wcs)) (concat (map utf8_char vcs)) = 0
     \<longleftrightarrow> map (plane_map tolower my_unicase_default) wcs = map (plane_map tolower my_unicase_default) vcs"
proof (induction wcs arbitrary: vcs)
  case Nil
  show ?case
  proof (cases vcs)
    case (Cons v us)
    then show ?thesis
      using Nil.prems utf8_char_hd [of v] utf8_char_ne [of v]
      by (subst my_strcasecmp_utf8.simps) (simp add: cstr_at_def nth_append uint_0_iff)
  qed (subst my_strcasecmp_utf8.simps, simp)
next
  case (Cons w ws)
  show ?case
  proof (cases vcs)
    case Nil
    then show ?thesis
      using Cons.prems utf8_char_hd [of w] utf8_char_ne [of w]
      by (subst my_strcasecmp_utf8.simps) (simp add: cstr_at_def nth_append uint_0_iff)
  next
    case vs: (Cons v us)
    then show ?thesis
      using Cons.prems Cons.IH [of us]
      by (subst my_strcasecmp_utf8.simps) (simp add: casecmp_char_default word_uint_eq_iff)
  qed
qed

section \<open>Properties\<close>

text \<open>
  C24: in the character set \<^verbatim>\<open>utf8_general_ci\<close>, byte strings below 2 GB, well formed or not, compare equal
  by \<^verbatim>\<open>my_strnncollsp_utf8\<close> exactly when they have the same canonical form \<open>utf8_canon\<close>, the weights of the
  characters without trailing spaces and the undecodable rest; so comparing equal is an equivalence.
  Exchanging the strings changes the sign of the result, and strings that compare equal have the same hash by
  \<^verbatim>\<open>my_hash_sort_utf8\<close>.
\<close>

theorem utf8_general_ci_hash:
  assumes "int_length s" "int_length t"
  shows "(my_strnncollsp_utf8 my_unicase_default s t = 0 \<longleftrightarrow>
        utf8_canon my_unicase_default s = utf8_canon my_unicase_default t)
   \<and> my_strnncollsp_utf8 my_unicase_default t s = - my_strnncollsp_utf8 my_unicase_default s t
   \<and> (my_strnncollsp_utf8 my_unicase_default s t = 0 \<longrightarrow>
        my_hash_sort_utf8 my_unicase_default s n = my_hash_sort_utf8 my_unicase_default t n)"
  using coll_utf8.coll_sym [OF assms] coll_utf8.coll_hash [OF assms]
    collsp_utf8_canon [OF weights_space_unique [OF default_ok(2)] assms] by blast

theorem utf8_general_ci_hash_witness:
  "my_hash_sort_utf8 my_unicase_default [0x61, 0x20] (1, 4) =
   my_hash_sort_utf8 my_unicase_default [0x61, 0x20, 0x20] (1, 4)"
proof -
  have "my_strnncollsp_utf8 my_unicase_default [0x61, 0x20] [0x61, 0x20, 0x20] = 0"
    by (simp add: my_strnncollsp_utf8.simps utf8_uni_eq)
  then show ?thesis
    using utf8_general_ci_hash [of "[0x61, 0x20]" "[0x61, 0x20, 0x20]"] by (simp add: int_length_def)
qed

text \<open>
  C31: conversion to upper and lower case of a well-formed string in the character set with the
  default tables never needs more space than the source (\<^verbatim>\<open>caseup_multiply = 1\<close>), with the Turkish
  tables never more than twice the space (\<^verbatim>\<open>caseup_multiply = 2\<close>); with that space the whole
  string is converted, character by character.
\<close>

theorem utf8_case_conversion:
  assumes "list_all bmp wcs" "(up, m) \<in> {(my_unicase_default, 1), (my_unicase_turkish, 2)}"
    and "src = concat (map utf8_char wcs)" "m * length src \<le> room"
  shows "my_caseup_utf8 up src room = concat (map utf8_char (map (plane_map toupper up) wcs))
    \<and> my_casedn_utf8 up src room = concat (map utf8_char (map (plane_map tolower up) wcs))"
  using assms caseup_complete [of m up wcs room] default_ok(1) turkish_ok(1) by auto

theorem utf8_case_conversion_witness:
  "my_casedn_utf8 my_unicase_turkish (concat (map utf8_char [0x49, 0x42])) 4
     = concat (map utf8_char (map (plane_map tolower my_unicase_turkish) [0x49, 0x42]))"
  using utf8_case_conversion [OF _ _ refl, of "[0x49, 0x42]" my_unicase_turkish 2 4]
  by (simp add: bmp_def length_utf8_char)

text \<open>
  In-place conversion of a NUL-terminated string with the default tables stays inside the
  string, never overtakes the characters still to be read, converts all of them and terminates
  the result.
\<close>

theorem utf8_case_in_place:
  assumes "list_all (\<lambda>wc. bmp wc \<and> wc \<noteq> 0) wcs"
  shows "\<exists>gap. my_caseup_str_utf8 my_unicase_default (concat (map utf8_char wcs) @ 0 # rest) =
      Some (concat (map utf8_char (map (plane_map toupper my_unicase_default) wcs)) @ 0 # gap,
        length (concat (map utf8_char (map (plane_map toupper my_unicase_default) wcs))))"
  by (rule caseup_str_complete(1) [OF default_ok(1) assms])

theorem utf8_case_in_place_witness:
  "\<exists>gap. my_caseup_str_utf8 my_unicase_default (concat (map utf8_char [0x61, 0xE9]) @ [0]) =
      Some (concat (map utf8_char (map (plane_map toupper my_unicase_default) [0x61, 0xE9])) @ 0 # gap,
        length (concat (map utf8_char (map (plane_map toupper my_unicase_default) [0x61, 0xE9]))))"
  by (rule utf8_case_in_place) (simp add: bmp_def)

text \<open>
  C25: for well-formed strings in \<^verbatim>\<open>utf8_general_ci\<close> (concatenations of encoded characters below 10000 (hex))
  and a key buffer that holds two bytes for every character, \<^verbatim>\<open>memcmp\<close> of the sort keys of
  \<^verbatim>\<open>my_strnxfrm_utf8\<close> has the sign of \<^verbatim>\<open>my_strnncollsp_utf8\<close>.  Of ill-formed strings the keys do not keep the
  order (\<open>xfrm_malformed\<close>).
\<close>

theorem utf8_sort_key_order:
  assumes "list_all bmp wcs" "list_all bmp vcs" "2 * length wcs \<le> n" "2 * length vcs \<le> n"
  shows "memcmp (fst (my_strnxfrm_utf8 my_unicase_default n (concat (map utf8_char wcs))))
      (fst (my_strnxfrm_utf8 my_unicase_default n (concat (map utf8_char vcs)))) =
    sgn (my_strnncollsp_utf8 my_unicase_default (concat (map utf8_char wcs)) (concat (map utf8_char vcs)))"
  by (rule xfrm_order [OF default_ok(2) assms])

theorem utf8_sort_key_order_witness:
  "memcmp (fst (my_strnxfrm_utf8 my_unicase_default 5 (concat (map utf8_char [0x61, 0xE9]))))
      (fst (my_strnxfrm_utf8 my_unicase_default 5 (concat (map utf8_char [0x62])))) =
    sgn (my_strnncollsp_utf8 my_unicase_default (concat (map utf8_char [0x61, 0xE9])) (concat (map utf8_char [0x62])))"
  by (rule utf8_sort_key_order) (simp_all add: bmp_def)

text \<open>The bytes from the first malformed one on are dropped from the key, but not from the comparison.\<close>

lemma xfrm_malformed:
  "fst (my_strnxfrm_utf8 up n [0xFF]) = fill_spaces n \<and> fst (my_strnxfrm_utf8 up n []) = fill_spaces n
   \<and> my_strnncollsp_utf8 up [0xFF] [0x20] \<noteq> 0 \<and> my_strnncollsp_utf8 up [] [0x20] = 0"
proof -
  have "xfrm_loop up n [0xFF] = []" by (cases n rule: fill_spaces.cases) (simp_all add: utf8_uni_eq)
  moreover have "utf8_uni [0xFF] = (MY_CS_ILSEQ, None)" by (simp add: utf8_uni_eq)
  then have "my_strnncollsp_utf8 up [0xFF] [0x20] = bincmp [0xFF] [0x20]" by (intro collsp_utf8_bad) auto
  moreover have "my_strnncollsp_utf8 up [] [0x20] = 0" by (simp add: collsp_utf8_Nil)
  ultimately show ?thesis using xfrm_Nil [of up n] by (simp add: my_strnxfrm_utf8_def bincmp_0 int_length_def)
qed

text \<open>
  On well-formed NUL-terminated strings with the default tables \<^verbatim>\<open>my_strcasecmp_utf8\<close> returns 0
  exactly when the lower-case forms are the same.
\<close>

theorem utf8_strcasecmp_fold:
  assumes "list_all (\<lambda>w. bmp w \<and> w \<noteq> 0) wcs" "list_all (\<lambda>w. bmp w \<and> w \<noteq> 0) vcs"
  shows "my_strcasecmp_utf8 my_unicase_default (concat (map utf8_char wcs)) (concat (map utf8_char vcs)) = 0
     \<longleftrightarrow> map (plane_map tolower my_unicase_default) wcs = map (plane_map tolower my_unicase_default) vcs"
  by (rule strcasecmp_chars [OF assms])

theorem utf8_strcasecmp_fold_witness:
  "my_strcasecmp_utf8 my_unicase_default (concat (map utf8_char [0x61, 0xC9])) (concat (map utf8_char [0x41, 0xE9])) = 0
     \<longleftrightarrow> map (plane_map tolower my_unicase_default) [0x61, 0xC9] = map (plane_map tolower my_unicase_default) [0x41, 0xE9]"
  by (rule utf8_strcasecmp_fold) (simp_all add: bmp_def)

text \<open>
  On ill-formed strings \<^verbatim>\<open>my_strcasecmp_utf8\<close> takes different strings for equal, and is not
  antisymmetric: when the character of the second string is malformed, the first pointer has
  moved on already, and the rest is compared with the whole of the second string.
\<close>

theorem utf8_strcasecmp_malformed:
  "my_strcasecmp_utf8 up [0x61, 0xFF] [0xFF] = 0 \<and> my_strcasecmp_utf8 up [0xFF] [0x61, 0xFF] = 1"
  by (simp add: my_strcasecmp_utf8.simps casecmp_char_def utf8_uni_eq)

end
