(* ===== verification/HashTable.thy ===== *)
theory HashTable
  imports HashDelete HashUpdate Unicase
begin

text \<open>
  The contract between the hash table and the character sets whose handlers it calls, and the
  properties of the table.
\<close>

section \<open>The character sets of the keys\<close>

text \<open>
  The hash table compares keys with \<^verbatim>\<open>strnncoll\<close> and hashes them with \<^verbatim>\<open>hash_sort\<close>.  It needs that a
  key equals itself and that equal keys below 2 GB hash alike.
\<close>

lemma my_hash_insert_same:
  assumes "my_hash_insert alloc info r = Some (info', failed)"
  shows "my_hash_key info' = my_hash_key info" "charset info' = charset info"
    "key_length info' = key_length info"
proof -
  have f: "get_key info' = get_key info \<and> key_length info' = key_length info
      \<and> key_offset info' = key_offset info \<and> rec_bytes info' = rec_bytes info \<and> charset info' = charset info"
    using assms
    by (auto simp: my_hash_insert_def with_data_def Let_def bind_eq_Some_conv split: if_splits option.splits)
  then show "charset info' = charset info" "key_length info' = key_length info" by blast+
  show "my_hash_key info' = my_hash_key info" using keys_cong [of info' info] f by blast
qed

locale key_charset =
  fixes cs :: CHARSET_INFO
  assumes same_key: "cs_strnncoll cs k k = 0"
    and equal_hash: "int_length s \<Longrightarrow> int_length t \<Longrightarrow> cs_strnncoll cs s t = 0 \<Longrightarrow>
      cs_hash_sort cs s n = cs_hash_sort cs t n"
begin

lemma good: "charset hash = cs \<Longrightarrow> (\<And>r. int_length (my_hash_key hash r True)) \<Longrightarrow> good_key hash key"
  using equal_hash by (simp add: good_key_def Let_def int_length_def min_less_iff_disj)

lemma self_match: "charset hash = cs \<Longrightarrow> key_match hash (my_hash_key hash r True) (length (my_hash_key hash r True)) r"
  using same_key by (simp add: key_match_def Let_def)

text \<open>A key that is inserted is found.\<close>

lemma insert_search:
  assumes cs: "charset info = cs" and wf: "hash_wf info"
    and al: "alloc_ok (size_of_element (harray info)) alloc"
    and room: "room_for (harray info) (max_element (harray info))"
    and key: "key_stable info" "len_ok info (length (my_hash_key info r True))"
      "\<And>q. int_length (my_hash_key info q True)"
    and ins: "my_hash_insert alloc info r = Some (info', False)"
  shows "\<exists>q. my_hash_search info' (my_hash_key info r True) (length (my_hash_key info r True)) = Some (Some q)
    \<and> key_match info' (my_hash_key info r True) (length (my_hash_key info r True)) q"
proof -
  note same = my_hash_insert_same [OF ins, unfolded cs]
  have g: "good_key info (my_hash_key info r True)" "good_key info' (my_hash_key info r True)"
    using cs same key(3) by (auto intro!: good)
  have w: "hash_wf info'" "mset (hash_records info') = add_mset r (mset (hash_records info))"
    using my_hash_insert_correct [OF wf al room key(1) g(1)] key(2) ins by auto
  have "r \<in># mset (hash_records info')" using w(2) by simp
  then have r: "r \<in> set (hash_records info')" by simp
  have k: "key_stable info'" "len_ok info' (length (my_hash_key info r True))"
    using key same by (simp_all add: key_stable_def len_ok_def)
  have "key_match info' (my_hash_key info r True) (length (my_hash_key info r True)) r"
    using self_match [of info' r] same by simp
  then show ?thesis
    using search_correct [OF w(1) k(1) g(2) k(2)] r
    by (auto split: option.splits)
qed

end

definition my_charset_bin :: CHARSET_INFO where
  "my_charset_bin = \<lparr>cs_strnncoll = (\<lambda>s t. my_strnncoll_binary s t False), cs_hash_sort = my_hash_sort_bin\<rparr>"

text \<open>A character set of the single-byte kind, with its table \<^verbatim>\<open>sort_order\<close>.\<close>

definition my_charset_8bit_simple_ci :: "(byte \<Rightarrow> byte) \<Rightarrow> CHARSET_INFO" where
  "my_charset_8bit_simple_ci tab =
     \<lparr>cs_strnncoll = (\<lambda>s t. my_strnncoll_simple tab s t False), cs_hash_sort = my_hash_sort_simple tab\<rparr>"


interpretation bin_keys: key_charset my_charset_bin
proof
  show "cs_strnncoll my_charset_bin k k = 0" for k
    by (simp add: my_charset_bin_def my_strnncoll_binary_def)
  show "cs_hash_sort my_charset_bin s n = cs_hash_sort my_charset_bin t n"
    if "int_length s" "int_length t" "cs_strnncoll my_charset_bin s t = 0" for s t n
    using that coll_bin.coll_hash [of s t n] by (simp add: my_charset_bin_def my_strnncollsp_binary_def)
qed

lemma strnncoll_loop_map:
  "strnncoll_loop tab s t = 0 \<longleftrightarrow>
     map tab (take (min (length s) (length t)) s) = map tab (take (min (length s) (length t)) t)"
  by (induction tab s t rule: strnncoll_loop.induct) (auto simp: uint_eq_iff_eq)

lemma strnncoll_simple_0:
  "my_strnncoll_simple tab s t False = 0 \<longleftrightarrow> map tab s = map tab t"
proof (cases "length s = length t")
  case True
  then show ?thesis using strnncoll_loop_map [of tab s t] by (simp add: my_strnncoll_simple_def Let_def)
next
  case False
  then have "map tab s \<noteq> map tab t" by (metis length_map)
  moreover have "my_strnncoll_simple tab s t False \<noteq> 0"
    using False by (cases "strnncoll_loop tab s t = 0") (auto simp: my_strnncoll_simple_def Let_def)
  ultimately show ?thesis by simp
qed

lemma simple_charset:
  assumes "space_unique tab"
  shows "key_charset (my_charset_8bit_simple_ci tab)"
proof
  show "cs_strnncoll (my_charset_8bit_simple_ci tab) k k = 0" for k
    by (simp add: my_charset_8bit_simple_ci_def strnncoll_simple_0)
  fix s t n
  assume "cs_strnncoll (my_charset_8bit_simple_ci tab) s t = 0"
  then have m: "map tab s = map tab t" by (simp add: my_charset_8bit_simple_ci_def strnncoll_simple_0)
  then have "map tab (strip_spaces s) = map tab (strip_spaces t)"
  proof (induction s arbitrary: t)
    case (Cons a s)
    then obtain b u where t: "t = b # u" "tab a = tab b" "map tab s = map tab u" by (cases t) auto
    have "map tab (strip_spaces s) = map tab (strip_spaces u)" by (rule Cons.IH [OF t(3)])
    moreover have "a = 0x20 \<longleftrightarrow> b = 0x20" using assms t(2) unfolding space_unique_def by metis
    moreover have "(strip_spaces s = []) = (strip_spaces u = [])" using calculation(1) by (metis map_is_Nil_conv)
    ultimately show ?case using t(2) unfolding t(1) strip_spaces_Cons by simp
  qed simp
  then show "cs_hash_sort (my_charset_8bit_simple_ci tab) s n = cs_hash_sort (my_charset_8bit_simple_ci tab) t n"
    using hash_sort_simple_cong [of tab s t n] by (simp add: my_charset_8bit_simple_ci_def)
qed

interpretation ascii_keys: key_charset "my_charset_8bit_simple_ci (\<lambda>b. b)"
  by (rule simple_charset) (simp add: space_unique_def)




text \<open>
  The table of \<^verbatim>\<open>cp1251_ukrainian_ci\<close> (\<^verbatim>\<open>ctype-extra.c\<close>).  The grave accent 60 has the weight of the
  space.
\<close>

definition sort_order_cp1251_ukrainian_ci :: "byte list" where
  "sort_order_cp1251_ukrainian_ci =
    [0x00, 0x01, 0x02, 0x03, 0x04, 0x05, 0x06, 0x07, 0x08, 0x09, 0x0A, 0x0B, 0x0C, 0x0D, 0x0E, 0x0F,
     0x10, 0x11, 0x12, 0x13, 0x14, 0x15, 0x16, 0x17, 0x18, 0x19, 0x1A, 0x1B, 0x1C, 0x1D, 0x1E, 0x1F,
     0x20, 0x21, 0x22, 0x23, 0x24, 0x25, 0x26, 0x27, 0x28, 0x29, 0x2A, 0x2B, 0x2C, 0x2D, 0x2E, 0x2F,
     0x30, 0x31, 0x32, 0x33, 0x34, 0x35, 0x36, 0x37, 0x38, 0x39, 0x3A, 0x3B, 0x3C, 0x3D, 0x3E, 0x3F,
     0x40, 0x41, 0x42, 0x43, 0x44, 0x45, 0x46, 0x47, 0x48, 0x49, 0x4A, 0x4B, 0x4C, 0x4D, 0x4E, 0x4F,
     0x50, 0x51, 0x52, 0x53, 0x54, 0x55, 0x56, 0x57, 0x58, 0x59, 0x5A, 0x5B, 0x5C, 0x5D, 0x5E, 0x5F,
     0x20, 0x41, 0x42, 0x43, 0x44, 0x45, 0x46, 0x47, 0x48, 0x49, 0x4A, 0x4B, 0x4C, 0x4D, 0x4E, 0x4F,
     0x50, 0x51, 0x52, 0x53, 0x54, 0x55, 0x56, 0x57, 0x58, 0x59, 0x5A, 0x7B, 0x7C, 0x7D, 0x7E, 0x7F,
     0xA5, 0xA6, 0xA7, 0xA8, 0xA9, 0xAA, 0xAB, 0xAC, 0xAD, 0xAE, 0xAF, 0xB0, 0xB1, 0xB2, 0xB3, 0xB4,
     0xB5, 0xB6, 0xB7, 0xB8, 0xB9, 0xBA, 0xBB, 0xBC, 0xBD, 0xBE, 0xBF, 0xC0, 0xC1, 0xC2, 0xC3, 0xC4,
     0xC5, 0xC6, 0xC7, 0xC8, 0xC9, 0x84, 0xCA, 0xCB, 0x88, 0xCC, 0x87, 0xCD, 0xCE, 0xCF, 0xD0, 0x8D,
     0xD1, 0xD2, 0x8C, 0x8C, 0x84, 0xD3, 0xD4, 0xD5, 0x88, 0xD6, 0x87, 0xD7, 0xD8, 0xD9, 0xDA, 0x8D,
     0x80, 0x81, 0x82, 0x83, 0x85, 0x86, 0x89, 0x8A, 0x8B, 0x8E, 0x8F, 0x90, 0x91, 0x92, 0x93, 0x94,
     0x95, 0x96, 0x97, 0x98, 0x99, 0x9A, 0x9B, 0x9C, 0x9D, 0x9E, 0x9F, 0xA0, 0xA1, 0xA2, 0xA3, 0xA4,
     0x80, 0x81, 0x82, 0x83, 0x85, 0x86, 0x89, 0x8A, 0x8B, 0x8E, 0x8F, 0x90, 0x91, 0x92, 0x93, 0x94,
     0x95, 0x96, 0x97, 0x98, 0x99, 0x9A, 0x9B, 0x9C, 0x9D, 0x9E, 0x9F, 0xA0, 0xA1, 0xA2, 0xA3, 0xA4]"

definition cp1251_ukrainian_order :: "byte \<Rightarrow> byte" where
  "cp1251_ukrainian_order b = sort_order_cp1251_ukrainian_ci ! unat b"

section \<open>Properties\<close>

text \<open>A small table for the witnesses: the keys are single bytes, the records their numbers.\<close>

definition demo_alloc :: "nat HASH_LINK alloc" where
  "demo_alloc n = Some (replicate (n div 16) \<lparr>link_next = None, link_data = 0\<rparr>)"

definition demo_table :: "nat HASH_LINK list \<Rightarrow> nat \<Rightarrow> nat \<Rightarrow> CHARSET_INFO \<Rightarrow> nat HASH" where
  "demo_table d n b cs = \<lparr>key_offset = 0, key_length = 1, blength = b, records = n, flags = HASH_UNIQUE,
     harray = \<lparr>buffer = Some d, is_static = False, elements = n, max_element = length d,
               alloc_increment = 4, size_of_element = 16\<rparr>,
     get_key = None, has_free = True, charset = cs, rec_bytes = (\<lambda>r. [of_nat r])\<rparr>"

definition demo_three :: "nat HASH" where
  "demo_three = demo_table [\<lparr>link_next = None, link_data = 5\<rparr>, \<lparr>link_next = Some 2, link_data = 8\<rparr>,
     \<lparr>link_next = None, link_data = 6\<rparr>, \<lparr>link_next = None, link_data = 0\<rparr>] 3 4 my_charset_bin"

lemma demo_fields [simp]:
  "records (demo_table d n b cs) = n" "blength (demo_table d n b cs) = b"
  "charset (demo_table d n b cs) = cs" "data_of (demo_table d n b cs) = d"
  "my_hash_key (demo_table d n b cs) r f = [of_nat r]" "flags (demo_table d n b cs) = HASH_UNIQUE"
  "key_length (demo_table d n b cs) = 1" "has_free (demo_table d n b cs)"
  by (simp_all add: demo_table_def data_of_def my_hash_key_def)

lemma demo_array [simp]:
  "size_of_element (harray (demo_table d n b cs)) = 16" "max_element (harray (demo_table d n b cs)) = length d"
  "alloc_ok 16 demo_alloc" "key_stable (demo_table d n b cs)" "len_ok (demo_table d n b cs) l"
  "room_for (harray (demo_table d n b cs)) m \<longleftrightarrow> (m + 4) * 16 < 4294967296"
  by (simp_all add: demo_table_def demo_alloc_def alloc_ok_def key_stable_def len_ok_def room_for_def my_hash_key_def)


lemmas bin_hash_defs = rec_hashnr_def calc_hash_def my_charset_bin_def my_hash_sort_bin_def
  hash_rounds_def hash_round_def

lemma demo_hash [simp]:
  "rec_hashnr (demo_table d n b my_charset_bin) 5 = 280"
  "rec_hashnr (demo_table d n b my_charset_bin) 6 = 287"
  "rec_hashnr (demo_table d n b my_charset_bin) 8 = 297"
  by (simp_all add: bin_hash_defs)

lemma less_three: "{..<3} = {0, 1, 2 :: nat}"
  by auto

lemma demo_three_wf: "hash_wf demo_three"
proof -
  let ?d = "data_of demo_three" and ?hm = "home demo_three"
  have d: "?d = [\<lparr>link_next = None, link_data = 5\<rparr>, \<lparr>link_next = Some 2, link_data = 8\<rparr>,
     \<lparr>link_next = None, link_data = 6\<rparr>, \<lparr>link_next = None, link_data = 0\<rparr>]"
    by (simp add: demo_three_def)
  have hm: "?hm 5 = 0" "?hm 6 = 1" "?hm 8 = 1"
    by (simp_all add: demo_three_def home_def my_hash_mask_def size_dec_def)
  have "chain_of ?hm ?d {..<3} 0 [0]" "chain_of ?hm ?d {..<3} 1 [1, 2]"
    unfolding chain_of_def cls_def less_three d using hm by auto
  then have "linked ?hm ?d {..<3}"
    unfolding linked_def less_three [symmetric] d using hm by (auto simp: less_three)
  moreover have "blen_ok 4 3" by (auto simp: blen_ok_def intro: exI [of _ 1])
  ultimately show ?thesis
    by (simp add: hash_wf_def demo_three_def) (simp add: demo_table_def da_wf_def)
qed

lemma demo_three_records [simp]: "hash_records demo_three = [5, 8, 6]"
  by (simp add: demo_three_def hash_records_def numeral_3_eq_3)


lemma demo_three_simps [simp]:
  "my_hash_key demo_three r f = [of_nat r]" "flags demo_three = 1" "charset demo_three = my_charset_bin"
  "alloc_ok (size_of_element (harray demo_three)) demo_alloc"
  "room_for (harray demo_three) (max_element (harray demo_three))"
  "key_stable demo_three" "len_ok demo_three l" "has_free demo_three" "key_length demo_three = 1"
  by (simp_all add: demo_three_def HASH_UNIQUE_def)

lemma demo_three_good [simp]: "good_key demo_three key"
  by (rule bin_keys.good) (simp_all add: int_length_def)

text \<open>
  C1: an insertion keeps the table well formed and adds exactly the new record; it fails, and
  leaves the table as it is, exactly when the table is unique and has the key, or memory is short.
\<close>
theorem hash_insert_adds:
  assumes "hash_wf info" "alloc_ok (size_of_element (harray info)) alloc"
    and "room_for (harray info) (max_element (harray info))"
    and "key_stable info" "good_key info (my_hash_key info r True)"
    and "HASH_UNIQUE AND flags info = 0 \<or> len_ok info (length (my_hash_key info r True))"
  shows "\<exists>info' failed. my_hash_insert alloc info r = Some (info', failed) \<and> hash_wf info'
    \<and> mset (hash_records info') =
        (if failed then mset (hash_records info) else add_mset r (mset (hash_records info)))
    \<and> (failed \<longleftrightarrow> dup_key info r
          \<or> (\<exists>arr. alloc_dynamic alloc (harray info) = Some (arr, None)))"
  using my_hash_insert_correct [OF assms] .

theorem hash_insert_adds_witness:
  "(\<exists>info'. my_hash_insert demo_alloc demo_three 7 = Some (info', False)
     \<and> mset (hash_records info') = {#5, 6, 7, 8#})
   \<and> (\<exists>info'. my_hash_insert demo_alloc demo_three 8 = Some (info', True)
     \<and> mset (hash_records info') = {#5, 6, 8#})"
proof -
  have al: "alloc_dynamic demo_alloc (harray demo_three) \<noteq> Some (arr, None)" for arr
    by (simp add: demo_three_def demo_table_def alloc_dynamic_def)
  have m: "key_match demo_three [of_nat r] 1 q \<longleftrightarrow> (of_nat q :: byte) = of_nat r" for r q
    by (simp add: key_match_def my_charset_bin_def my_strnncoll_binary_def Let_def)
  have dup: "dup_key demo_three 8" "\<not> dup_key demo_three 7"
    using m [of 8] m [of 7] by (simp_all add: dup_key_def HASH_UNIQUE_def)
  note i = hash_insert_adds [OF demo_three_wf, of demo_alloc]
  show ?thesis
    using i [of 7] i [of 8] al dup by (auto simp: add_mset_commute)
qed

text \<open>
  C2: a search by key and the calls of \<^verbatim>\<open>my_hash_next\<close> that follow return each slot whose
  record has the key exactly once, and then report the end.
\<close>
theorem hash_lookup_all:
  assumes "hash_wf hash" "key_stable hash" "good_key hash key" "len_ok hash len"
  shows "\<exists>xs. visits hash key len (my_hash_first hash key len) xs \<and> distinct xs
    \<and> set xs = {i. i < records hash \<and> key_match hash key len (link_data (data_of hash ! i))}"
  using first_next_visits [OF assms] .

theorem hash_lookup_all_witness:
  "\<exists>xs. visits demo_three [8] 1 (my_hash_first demo_three [8] 1) xs \<and> distinct xs \<and> set xs = {1}"
proof -
  have m: "key_match demo_three [8] 1 q \<longleftrightarrow> (of_nat q :: byte) = 8" for q
    by (simp add: key_match_def my_charset_bin_def my_strnncoll_binary_def Let_def)
  have "{i. i < records demo_three \<and> key_match demo_three [8] 1 (link_data (data_of demo_three ! i))} = {1}"
    unfolding m by (auto simp: demo_three_def less_Suc_eq numeral_3_eq_3)
  then show ?thesis using hash_lookup_all [OF demo_three_wf, of "[8]" 1] by simp
qed

text \<open>
  C3: a deletion succeeds exactly when the record is in the table, removes one entry of it, keeps
  the table well formed, and hands the record to the \<^verbatim>\<open>free\<close> call-back if there is one.
\<close>
theorem hash_delete_removes:
  assumes "hash_wf hash"
  shows "\<exists>hash' failed freed. my_hash_delete hash r = Some (hash', failed, freed)
    \<and> hash_wf hash' \<and> (failed \<longleftrightarrow> r \<notin> set (hash_records hash)) \<and> (failed \<longrightarrow> hash' = hash)
    \<and> mset (hash_records hash') = mset (hash_records hash) - {#r#}
    \<and> freed = (if has_free hash \<and> \<not> failed then [r] else [])"
  using my_hash_delete_correct [OF assms] .

theorem hash_delete_removes_witness:
  "\<exists>hash'. my_hash_delete demo_three 5 = Some (hash', False, [5])
     \<and> hash_wf hash' \<and> mset (hash_records hash') = {#6, 8#}"
  using hash_delete_removes [OF demo_three_wf, of 5] by (auto simp: add_mset_commute)

text \<open>
  C4: after the key of one record has changed in memory, an update re-chains the record; it fails
  exactly when the table is unique and another record has the new key.
\<close>
theorem hash_update_rechains:
  assumes "hash_wf old" "rekeyed old hash r"
    and "r \<in> set (hash_records old)" "distinct (hash_records old)"
    and "take (if len \<noteq> 0 then len else key_length old) old_key = my_hash_key old r False"
    and "key_stable hash" "good_key hash (my_hash_key hash r True)"
    and "HASH_UNIQUE AND flags hash = 0 \<or> len_ok hash (length (my_hash_key hash r True))"
  shows "\<exists>hash' failed. my_hash_update hash r old_key len = Some (hash', failed)
    \<and> (failed \<longleftrightarrow> dup_other hash r) \<and> (failed \<longrightarrow> hash' = hash) \<and> (\<not> failed \<longrightarrow> hash_wf hash')
    \<and> mset (hash_records hash') = mset (hash_records old)"
  using my_hash_update_correct [OF assms] .

definition demo_moved :: "nat HASH" where
  "demo_moved = demo_three\<lparr>rec_bytes := (\<lambda>r. [if r = 5 then 7 else of_nat r])\<rparr>"

theorem hash_update_rechains_witness:
  "\<exists>hash'. my_hash_update demo_moved 5 [5] 1 = Some (hash', False) \<and> hash_wf hash'
     \<and> mset (hash_records hash') = {#5, 6, 8#}"
proof -
  have k: "my_hash_key demo_moved q f = [if q = 5 then 7 else of_nat q]" for q f
    by (simp add: demo_moved_def demo_three_def demo_table_def my_hash_key_def)
  have re: "rekeyed demo_three demo_moved 5"
    using k unfolding rekeyed_def by (simp add: demo_moved_def)
  have f: "charset demo_moved = my_charset_bin" "hash_records demo_moved = [5, 8, 6]"
    using demo_three_records by (simp_all add: demo_moved_def hash_records_def data_of_def)
  have st: "key_stable demo_moved" "len_ok demo_moved 1" by (simp_all add: key_stable_def len_ok_def k)
  have cs: "good_key demo_moved key" for key
    by (rule bin_keys.good) (simp_all add: f k int_length_def)
  have nd: "\<not> dup_other demo_moved 5"
    by (simp add: dup_other_def f k key_match_def my_charset_bin_def my_strnncoll_binary_def Let_def)
  have "\<exists>hash' failed. my_hash_update demo_moved 5 [5] 1 = Some (hash', failed)
    \<and> (failed \<longleftrightarrow> dup_other demo_moved 5) \<and> (failed \<longrightarrow> hash' = demo_moved) \<and> (\<not> failed \<longrightarrow> hash_wf hash')
    \<and> mset (hash_records hash') = mset (hash_records demo_three)"
    by (rule hash_update_rechains [OF demo_three_wf re]) (use st cs k in simp_all)
  then show ?thesis using nd by (auto simp: add_mset_commute)
qed



text \<open>
  The table of \<^verbatim>\<open>cp1251_ukrainian_ci\<close> breaks the contract of the hash table: the keys \<open>a`\<close> and
  \<open>a\<close> with a space compare equal and have different hash values, because \<^verbatim>\<open>my_hash_sort_simple\<close> drops
  trailing spaces only.
\<close>
lemma cp1251_ukrainian_hash_disagrees:
  "cs_strnncoll (my_charset_8bit_simple_ci cp1251_ukrainian_order) [0x61, 0x60] [0x61, 0x20] = 0
   \<and> cs_hash_sort (my_charset_8bit_simple_ci cp1251_ukrainian_order) [0x61, 0x60] (1, 4)
     \<noteq> cs_hash_sort (my_charset_8bit_simple_ci cp1251_ukrainian_order) [0x61, 0x20] (1, 4)"
  by (simp add: my_charset_8bit_simple_ci_def my_strnncoll_simple_def my_hash_sort_simple_def
      cp1251_ukrainian_order_def sort_order_cp1251_ukrainian_ci_def hash_rounds_def hash_round_def
      strip_spaces_def)

end
