(* ===== verification/Sha1.thy ===== *)
theory Sha1
  imports Prelude
begin

text \<open>
  The SHA-1 message digest (\<^verbatim>\<open>MySQL/sha1.c\<close>, \<^verbatim>\<open>sha1.h\<close>): the incremental code with its context, the
  standard (FIPS 180-1) as an abstract specification, and the refinement.  The checks under
  \<^verbatim>\<open>#ifndef DBUG_OFF\<close> are not compiled, so every function returns \<^verbatim>\<open>SHA_SUCCESS\<close>, which the model leaves
  out.
\<close>

section \<open>The code\<close>

record SHA1_CONTEXT =
  Length :: u64
  Intermediate_Hash :: "u32 list"
  Computed :: bool
  Corrupted :: int
  Message_Block_Index :: nat
  Message_Block :: "byte list"

definition SHA1_HASH_SIZE :: nat where "SHA1_HASH_SIZE = 20"

definition SHA1CircularShift :: "nat \<Rightarrow> u32 \<Rightarrow> u32" where
  "SHA1CircularShift bits w = push_bit bits w OR drop_bit (32 - bits) w"

definition sha_const_key :: "u32 list" where
  "sha_const_key = [0x67452301, 0xEFCDAB89, 0x98BADCFE, 0x10325476, 0xC3D2E1F0]"

definition sha_K :: "u32 list" where
  "sha_K = [0x5A827999, 0x6ED9EBA1, 0x8F1BBCDC, 0xCA62C1D6]"

definition mysql_sha1_reset :: "SHA1_CONTEXT \<Rightarrow> SHA1_CONTEXT" where
  "mysql_sha1_reset context =
     context\<lparr>Length := 0, Message_Block_Index := 0, Intermediate_Hash := sha_const_key,
       Computed := False, Corrupted := 0\<rparr>"

text \<open>The first 16 words, and the loop that extends them to 80.\<close>

definition block_word :: "byte list \<Rightarrow> nat \<Rightarrow> u32" where
  "block_word mb t =
     (let idx = t * 4
      in push_bit 24 (ucast (mb ! idx)) OR push_bit 16 (ucast (mb ! (idx + 1)))
         OR push_bit 8 (ucast (mb ! (idx + 2))) OR ucast (mb ! (idx + 3)))"

primrec extend_words :: "nat \<Rightarrow> u32 list \<Rightarrow> u32 list" where
  "extend_words 0 W = W"
| "extend_words (Suc n) W =
     (let t = length W
      in extend_words n (W @ [SHA1CircularShift 1
           (W ! (t - 3) XOR W ! (t - 8) XOR W ! (t - 14) XOR W ! (t - 16))]))"

type_synonym sha_state = "u32 \<times> u32 \<times> u32 \<times> u32 \<times> u32"

text \<open>The body of the four loops; \<open>f\<close> and \<open>k\<close> are what they differ in.\<close>

definition sha_step :: "(u32 \<Rightarrow> u32 \<Rightarrow> u32 \<Rightarrow> u32) \<Rightarrow> u32 \<Rightarrow> u32 list \<Rightarrow> nat \<Rightarrow> sha_state \<Rightarrow> sha_state" where
  "sha_step f k W t = (\<lambda>(A, B, C, D, E).
     let temp = SHA1CircularShift 5 A + f B C D + E + W ! t + k
     in (temp, A, SHA1CircularShift 30 B, C, D))"

definition sha_rounds :: "u32 list \<Rightarrow> sha_state \<Rightarrow> sha_state" where
  "sha_rounds W s =
     (let s = fold (sha_step (\<lambda>B C D. (B AND C) OR (NOT B AND D)) (sha_K ! 0) W) [0..<20] s;
          s = fold (sha_step (\<lambda>B C D. B XOR C XOR D) (sha_K ! 1) W) [20..<40] s;
          s = fold (sha_step (\<lambda>B C D. (B AND C) OR (B AND D) OR (C AND D)) (sha_K ! 2) W) [40..<60] s
      in fold (sha_step (\<lambda>B C D. B XOR C XOR D) (sha_K ! 3) W) [60..<80] s)"

definition SHA1ProcessMessageBlock :: "SHA1_CONTEXT \<Rightarrow> SHA1_CONTEXT" where
  "SHA1ProcessMessageBlock context =
     (let W = extend_words 64 (map (block_word (Message_Block context)) [0..<16]);
          H = Intermediate_Hash context;
          (A, B, C, D, E) = sha_rounds W (H ! 0, H ! 1, H ! 2, H ! 3, H ! 4)
      in context\<lparr>Intermediate_Hash := [H ! 0 + A, H ! 1 + B, H ! 2 + C, H ! 3 + D, H ! 4 + E],
           Message_Block_Index := 0\<rparr>)"

definition input_byte :: "SHA1_CONTEXT \<Rightarrow> byte \<Rightarrow> SHA1_CONTEXT" where
  "input_byte context b =
     (let i = Message_Block_Index context;
          context = context\<lparr>Message_Block := (Message_Block context)[i := b AND 0xFF],
                            Message_Block_Index := i + 1, Length := Length context + 8\<rparr>
      in if Message_Block_Index context = 64 then SHA1ProcessMessageBlock context else context)"

definition mysql_sha1_input :: "SHA1_CONTEXT \<Rightarrow> byte list \<Rightarrow> SHA1_CONTEXT" where
  "mysql_sha1_input context message = foldl input_byte context message"

definition bzero :: "byte list \<Rightarrow> nat \<Rightarrow> nat \<Rightarrow> byte list" where
  "bzero mb i n = take i mb @ replicate n 0 @ drop (i + n) mb"

text \<open>The eight bytes of the length, most significant first.\<close>

definition length_octets :: "u64 \<Rightarrow> byte list" where
  "length_octets n = map (\<lambda>k. ucast (drop_bit k n)) [56, 48, 40, 32, 24, 16, 8, 0]"

definition SHA1PadMessage :: "SHA1_CONTEXT \<Rightarrow> SHA1_CONTEXT" where
  "SHA1PadMessage context =
     (let i = Message_Block_Index context;
          mb = (Message_Block context)[i := 0x80]; i' = i + 1;
          context =
            (if 55 < i then
               let context = SHA1ProcessMessageBlock
                     (context\<lparr>Message_Block := bzero mb i' (64 - i'), Message_Block_Index := 64\<rparr>)
               in context\<lparr>Message_Block := bzero (Message_Block context) 0 56, Message_Block_Index := 56\<rparr>
             else context\<lparr>Message_Block := bzero mb i' (56 - i'), Message_Block_Index := 56\<rparr>)
      in SHA1ProcessMessageBlock
           (context\<lparr>Message_Block := take 56 (Message_Block context) @ length_octets (Length context)\<rparr>))"

definition mysql_sha1_result :: "SHA1_CONTEXT \<Rightarrow> SHA1_CONTEXT \<times> byte list" where
  "mysql_sha1_result context =
     (let context =
        (if \<not> Computed context then
           let context = SHA1PadMessage context
           in context\<lparr>Message_Block := replicate 64 0, Length := 0, Computed := True\<rparr>
         else context)
      in (context,
          map (\<lambda>i. ucast (drop_bit (8 * (3 - i mod 4)) (Intermediate_Hash context ! (i div 4))))
            [0..<SHA1_HASH_SIZE]))"

section \<open>The standard\<close>

text \<open>
  FIPS 180-1: the functions and constants of the 80 rounds, the message schedule as a recursive
  function, the compression of a block, the padding and the digest.  Nothing of the code is used: the
  rotation is that of the word library, the initial hash value and the constants are those of the standard.
\<close>

definition fips_H0 :: "u32 list" where
  "fips_H0 = map (of_nat \<circ> foldl (\<lambda>v d. v * 16 + d) 0)
     [[6, 7, 4, 5, 2, 3, 0, 1], [14, 15, 12, 13, 10, 11, 8, 9], [9, 8, 11, 10, 13, 12, 15, 14],
      [1, 0, 3, 2, 5, 4, 7, 6], [12, 3, 13, 2, 14, 1, 15, 0]]"

definition fips_f :: "nat \<Rightarrow> u32 \<Rightarrow> u32 \<Rightarrow> u32 \<Rightarrow> u32" where
  "fips_f t B C D =
     (if t < 20 then (B AND C) OR (NOT B AND D)
      else if 40 \<le> t \<and> t < 60 then (B AND C) OR (B AND D) OR (C AND D)
      else B XOR C XOR D)"

definition fips_K :: "nat \<Rightarrow> u32" where
  "fips_K t = (if t < 20 then 0x5A827999 else if t < 40 then 0x6ED9EBA1
     else if t < 60 then 0x8F1BBCDC else 0xCA62C1D6)"

fun fips_W :: "u32 list \<Rightarrow> nat \<Rightarrow> u32" where
  "fips_W M t =
     (if t < 16 then M ! t
      else word_rotl 1 (fips_W M (t - 3) XOR fips_W M (t - 8) XOR fips_W M (t - 14) XOR fips_W M (t - 16)))"

declare fips_W.simps [simp del]

definition be32 :: "byte list \<Rightarrow> u32" where
  "be32 bs = of_nat (foldl (\<lambda>v b. v * 256 + unat b) 0 bs)"

definition fips_block :: "byte list \<Rightarrow> u32 list" where
  "fips_block bs = map (\<lambda>t. be32 (take 4 (drop (4 * t) bs))) [0..<16]"

definition fips_round :: "u32 list \<Rightarrow> nat \<Rightarrow> sha_state \<Rightarrow> sha_state" where
  "fips_round M t = (\<lambda>(A, B, C, D, E).
     (word_rotl 5 A + fips_f t B C D + E + fips_W M t + fips_K t, A, word_rotl 30 B, C, D))"

definition fips_compress :: "u32 list \<Rightarrow> byte list \<Rightarrow> u32 list" where
  "fips_compress H bs =
     (case fold (fips_round (fips_block bs)) [0..<80] (H ! 0, H ! 1, H ! 2, H ! 3, H ! 4) of
        (A, B, C, D, E) \<Rightarrow> [H ! 0 + A, H ! 1 + B, H ! 2 + C, H ! 3 + D, H ! 4 + E])"

function fips_hash :: "u32 list \<Rightarrow> byte list \<Rightarrow> u32 list" where
  "fips_hash H bs = (if length bs < 64 then H else fips_hash (fips_compress H (take 64 bs)) (drop 64 bs))"
  by pat_completeness auto
termination
  by (relation "measure (\<lambda>(H, bs). length bs)") auto

declare fips_hash.simps [simp del]

text \<open>The padding: a one bit, zeros up to 56 modulo 64 bytes, the length in bits.\<close>

definition fips_octets :: "nat \<Rightarrow> byte list" where
  "fips_octets n = map (\<lambda>k. of_nat (n div 256 ^ k)) [7, 6, 5, 4, 3, 2, 1, 0]"

definition fips_pad :: "byte list \<Rightarrow> byte list" where
  "fips_pad m = m @ [0x80] @ replicate ((119 - length m mod 64) mod 64) 0 @ fips_octets (8 * length m)"

definition sha1 :: "byte list \<Rightarrow> byte list" where
  "sha1 m = concat (map (\<lambda>h. map (\<lambda>k. of_nat (unat h div 256 ^ k)) [3, 2, 1, 0])
     (fips_hash fips_H0 (fips_pad m)))"

section \<open>The block function\<close>

lemma circular_shift: "0 < n \<Longrightarrow> n < 32 \<Longrightarrow> SHA1CircularShift n w = word_rotl n w"
proof (rule bit_word_eqI)
  fix i
  assume n: "0 < n" "n < 32" and i: "i < LENGTH(32)"
  show "bit (SHA1CircularShift n w) i \<longleftrightarrow> bit (word_rotl n w) i"
  proof (cases "n \<le> i")
    case True
    then have "(i + (LENGTH(32) - n mod LENGTH(32))) mod LENGTH(32) = i - n" using n i by (simp add: mod_if)
    moreover have "\<not> bit w (32 - n + i)" using bit_imp_le_length [of w "32 - n + i"] True n by auto
    ultimately show ?thesis using True n i by (simp add: SHA1CircularShift_def bit_simps)
  next
    case False
    then have "(i + (LENGTH(32) - n mod LENGTH(32))) mod LENGTH(32) = 32 - n + i" using n i by (simp add: mod_if) arith
    then show ?thesis using False n i by (simp add: SHA1CircularShift_def bit_simps)
  qed
qed

lemma initial_hash: "sha_const_key = fips_H0"
  by (simp add: sha_const_key_def fips_H0_def)

lemma extend_words_spec:
  "16 \<le> t \<Longrightarrow> extend_words n (map (fips_W M) [0..<t]) = map (fips_W M) [0..<t + n]"
proof (induction n arbitrary: t)
  case (Suc n)
  have "SHA1CircularShift 1 (fips_W M (t - 3) XOR fips_W M (t - 8) XOR fips_W M (t - 14) XOR fips_W M (t - 16))
      = fips_W M t"
    using Suc.prems by (subst (5) fips_W.simps) (simp add: circular_shift)
  then show ?case using Suc.IH [of "Suc t"] Suc.prems by (simp add: Let_def)
qed simp

lemma be32_Cons4:
  "be32 [a, b, c, d] = push_bit 24 (ucast a) OR push_bit 16 (ucast b) OR push_bit 8 (ucast c) OR ucast d"
proof -
  let ?u = "ucast :: byte \<Rightarrow> u32"
  have u: "unat (?u x) = unat x" for x by (simp add: unat_ucast_up)
  have m1: "unat c * 256 + unat d < 65536" using unat_byte_less [of c] unat_byte_less [of d] by linarith
  then have m2: "unat b * 65536 + (unat c * 256 + unat d) < 16777216" using unat_byte_less [of b] by linarith
  then have m3: "unat a * 16777216 + (unat b * 65536 + (unat c * 256 + unat d)) < 4294967296"
    using unat_byte_less [of a] by linarith
  have 1: "unat (push_bit 8 (?u c) OR ?u d) = unat c * 2 ^ 8 + unat d"
    by (subst unat_push_or) (use m1 in \<open>simp_all add: u\<close>)
  have 2: "unat (push_bit 16 (?u b) OR (push_bit 8 (?u c) OR ?u d)) = unat b * 2 ^ 16 + (unat c * 2 ^ 8 + unat d)"
    by (subst unat_push_or) (use m1 m2 in \<open>simp_all add: u 1\<close>)
  have 3: "unat (push_bit 24 (?u a) OR (push_bit 16 (?u b) OR (push_bit 8 (?u c) OR ?u d))) =
      unat a * 2 ^ 24 + (unat b * 2 ^ 16 + (unat c * 2 ^ 8 + unat d))"
    by (subst unat_push_or) (use m2 m3 in \<open>simp_all add: u 2\<close>)
  have "be32 [a, b, c, d] = of_nat (unat (push_bit 24 (?u a) OR (push_bit 16 (?u b) OR (push_bit 8 (?u c) OR ?u d))))"
    unfolding 3 by (simp add: be32_def algebra_simps)
  then show ?thesis by (simp add: ac_simps)
qed

lemma take4_drop: "n + 3 < length xs \<Longrightarrow> take 4 (drop n xs) = [xs ! n, xs ! (n + 1), xs ! (n + 2), xs ! (n + 3)]"
  by (rule nth_equalityI) (auto simp: nth_Cons' less_Suc_eq numeral_eq_Suc)

lemma block_word_be32: "length mb = 64 \<Longrightarrow> t < 16 \<Longrightarrow> block_word mb t = be32 (take 4 (drop (4 * t) mb))"
  by (simp add: take4_drop be32_Cons4 block_word_def Let_def mult.commute)

lemma block_words: "length mb = 64 \<Longrightarrow>
  extend_words 64 (map (block_word mb) [0..<16]) = map (fips_W (fips_block mb)) [0..<80]"
proof -
  assume mb: "length mb = 64"
  have "map (block_word mb) [0..<16] = map (fips_W (fips_block mb)) [0..<16]"
    using mb by (intro map_cong refl) (simp add: fips_W.simps fips_block_def block_word_be32)
  then show ?thesis using extend_words_spec [of 16 64 "fips_block mb"] by (simp del: map_eq_conv)
qed

lemma sha_rounds_spec:
  assumes "W = map (fips_W M) [0..<80]"
  shows "sha_rounds W s = fold (fips_round M) [0..<80] s"
proof -
  have seg: "fold (sha_step f k W) [a..<b] s = fold (fips_round M) [a..<b] s"
    if "b \<le> 80" "\<And>t. a \<le> t \<Longrightarrow> t < b \<Longrightarrow> fips_f t = f \<and> fips_K t = k" for f k a b s
    using that by (intro fold_cong) (auto simp: sha_step_def fips_round_def assms Let_def circular_shift)
  have K: "sha_K ! 0 = 0x5A827999" "sha_K ! Suc 0 = 0x6ED9EBA1" "sha_K ! 2 = 0x8F1BBCDC" "sha_K ! 3 = 0xCA62C1D6"
    by (simp_all add: sha_K_def)
  have "[0..<80] = [0..<20] @ [20..<40] @ [40..<60] @ [60..<80]"
    using upt_add_eq_append [of 0 20 60] upt_add_eq_append [of 20 40 40] upt_add_eq_append [of 40 60 20] by simp
  moreover have "fold (sha_step (\<lambda>B C D. (B AND C) OR (NOT B AND D)) (sha_K ! 0) W) [0..<20] s
      = fold (fips_round M) [0..<20] s" for s
    by (rule seg) (auto simp: fips_f_def fips_K_def K fun_eq_iff)
  moreover have "fold (sha_step (\<lambda>B C D. B XOR C XOR D) (sha_K ! 1) W) [20..<40] s
      = fold (fips_round M) [20..<40] s" for s
    by (rule seg) (auto simp: fips_f_def fips_K_def K fun_eq_iff)
  moreover have "fold (sha_step (\<lambda>B C D. (B AND C) OR (B AND D) OR (C AND D)) (sha_K ! 2) W) [40..<60] s
      = fold (fips_round M) [40..<60] s" for s
    by (rule seg) (auto simp: fips_f_def fips_K_def K fun_eq_iff)
  moreover have "fold (sha_step (\<lambda>B C D. B XOR C XOR D) (sha_K ! 3) W) [60..<80] s
      = fold (fips_round M) [60..<80] s" for s
    by (rule seg) (auto simp: fips_f_def fips_K_def K fun_eq_iff)
  ultimately show ?thesis unfolding sha_rounds_def Let_def by simp
qed

lemma process_block:
  "length (Message_Block c) = 64 \<Longrightarrow> SHA1ProcessMessageBlock c =
     c\<lparr>Intermediate_Hash := fips_compress (Intermediate_Hash c) (Message_Block c), Message_Block_Index := 0\<rparr>"
  unfolding SHA1ProcessMessageBlock_def fips_compress_def Let_def
  by (simp only: sha_rounds_spec [OF block_words]) (simp split: prod.split)

section \<open>The message\<close>

lemma fips_hash_append:
  "length xs mod 64 = 0 \<Longrightarrow> fips_hash H (xs @ ys) = fips_hash (fips_hash H xs) ys"
proof (induction H xs rule: fips_hash.induct)
  case (1 H xs)
  show ?case
  proof (cases "length xs < 64")
    case True
    then show ?thesis using 1(2) by (simp add: fips_hash.simps [of H "[]"])
  next
    case False
    then have "length (drop 64 xs) mod 64 = 0" using 1(2) by (simp add: le_mod_geq)
    then show ?thesis
      using 1(1) False by (simp add: fips_hash.simps [of H xs] fips_hash.simps [of H "xs @ ys"])
  qed
qed

lemma fips_hash_block: "length b = 64 \<Longrightarrow> fips_hash H b = fips_compress H b"
  by (simp add: fips_hash.simps)

text \<open>The part of the message in whole blocks, and the rest.\<close>

definition whole :: "byte list \<Rightarrow> byte list" where
  "whole m = take (64 * (length m div 64)) m"

definition remainder :: "byte list \<Rightarrow> byte list" where
  "remainder m = drop (64 * (length m div 64)) m"

lemma whole_remainder: "whole m @ remainder m = m"
  by (simp add: whole_def remainder_def)

lemma length_whole: "length (whole m) mod 64 = 0"
  by (simp add: whole_def)

lemma length_remainder: "length (remainder m) = length m mod 64"
  by (simp add: remainder_def minus_mult_div_eq_mod [symmetric])

lemma whole_snoc:
  "whole (m @ [b]) = (if length m mod 64 = 63 then whole m @ remainder m @ [b] else whole m)"
  "remainder (m @ [b]) = (if length m mod 64 = 63 then [] else remainder m @ [b])"
proof -
  define q where "q = length m div 64"
  have e: "64 * q + length m mod 64 = length m" by (simp add: q_def)
  have "whole (m @ [b]) = (if length m mod 64 = 63 then m @ [b] else whole m)
     \<and> remainder (m @ [b]) = (if length m mod 64 = 63 then [] else remainder m @ [b])"
  proof (cases "length m mod 64 = 63")
    case True
    then have "length (m @ [b]) = 64 * Suc q" using e by simp
    then have "64 * (length (m @ [b]) div 64) = length (m @ [b])" by simp
    then show ?thesis using True by (simp add: whole_def remainder_def)
  next
    case False
    then have "length (m @ [b]) div 64 = q" by (simp add: q_def div_Suc mod_Suc)
    then show ?thesis using False e by (simp add: whole_def remainder_def q_def)
  qed
  then show "whole (m @ [b]) = (if length m mod 64 = 63 then whole m @ remainder m @ [b] else whole m)"
    "remainder (m @ [b]) = (if length m mod 64 = 63 then [] else remainder m @ [b])"
    using whole_remainder [of m] by (auto simp flip: append_assoc)
qed

text \<open>The context after the message \<open>m\<close>.\<close>

definition sha_inv :: "byte list \<Rightarrow> SHA1_CONTEXT \<Rightarrow> bool" where
  "sha_inv m c \<longleftrightarrow> \<not> Computed c \<and> Length c = of_nat (8 * length m)
     \<and> Message_Block_Index c = length m mod 64 \<and> length (Message_Block c) = 64
     \<and> take (length m mod 64) (Message_Block c) = remainder m
     \<and> Intermediate_Hash c = fips_hash sha_const_key (whole m)"

lemma sha_inv_reset: "length (Message_Block c) = 64 \<Longrightarrow> sha_inv [] (mysql_sha1_reset c)"
  by (simp add: sha_inv_def mysql_sha1_reset_def whole_def remainder_def fips_hash.simps)

lemma sha_inv_input_byte:
  assumes "sha_inv m c"
  shows "sha_inv (m @ [b]) (input_byte c b)"
proof -
  let ?i = "length m mod 64"
  let ?mb = "(Message_Block c)[?i := b]"
  have "(0xFF :: byte) = - 1" by simp
  then have b: "b AND 255 = b" by (metis and.right_neutral)
  have mb: "take (Suc ?i) ?mb = remainder m @ [b]"
    using assms by (simp add: sha_inv_def take_Suc_conv_app_nth)
  show ?thesis
  proof (cases "?i = 63")
    case True
    then have "?mb = remainder m @ [b]" using mb assms by (simp add: sha_inv_def)
    moreover have "fips_hash sha_const_key (whole m @ remainder m @ [b])
        = fips_compress (fips_hash sha_const_key (whole m)) (remainder m @ [b])"
      using True by (subst fips_hash_append) (simp_all add: length_whole fips_hash_block length_remainder)
    ultimately show ?thesis
      using assms True
      by (simp add: sha_inv_def input_byte_def Let_def b process_block whole_snoc mod_Suc length_remainder)
  next
    case False
    moreover have "?i < 64" by simp
    ultimately have "Suc ?i \<noteq> 64" "Suc (length m) mod 64 = Suc ?i" by (simp_all add: mod_Suc)
    then show ?thesis
      using assms False mb by (simp add: sha_inv_def input_byte_def Let_def b whole_snoc)
  qed
qed

lemma sha_inv_input: "sha_inv m c \<Longrightarrow> sha_inv (m @ msg) (mysql_sha1_input c msg)"
  unfolding mysql_sha1_input_def
  by (induction msg arbitrary: m c) (use sha_inv_input_byte in fastforce)+

section \<open>The digest\<close>

lemma ucast_drop_bit: "ucast (drop_bit k w) = (of_nat (unat w div 2 ^ k) :: byte)" for w :: "'a::len word"
  by (simp add: word_unat_eq_iff unsigned_ucast_eq unat_drop_bit unsigned_of_nat)

lemma length_octets_of_nat: "length_octets (of_nat n) = fips_octets n"
proof -
  have e: "(ucast (drop_bit k (of_nat n :: u64)) :: byte) = of_nat (n div 2 ^ k)" if "k \<le> 56" for k
  proof -
    have "take_bit 8 (take_bit 64 n div 2 ^ k) = take_bit 8 (n div 2 ^ k)"
      unfolding drop_bit_eq_div [symmetric]
      by (rule bit_eqI) (use that in \<open>auto simp: bit_simps\<close>)
    then show ?thesis unfolding ucast_drop_bit by (simp add: word_unat_eq_iff unsigned_of_nat)
  qed
  show ?thesis
    unfolding length_octets_def fips_octets_def
    using e [of 56] e [of 48] e [of 40] e [of 32] e [of 24] e [of 16] e [of 8] e [of 0] by simp
qed

lemma length_fips_octets [simp]: "length (fips_octets n) = 8"
  by (simp add: fips_octets_def)

lemma bzero_tail: "length mb = 64 \<Longrightarrow> i + n = 64 \<Longrightarrow> bzero mb i n = take i mb @ replicate n 0"
  by (simp add: bzero_def)

lemma pad_zeros:
  fixes i :: nat
  assumes "i < 64"
  shows "(119 - i) mod 64 = (if 55 < i then 63 - i + 56 else 55 - i)"
proof (cases "55 < i")
  case False
  then have "64 \<le> 119 - i" "119 - i - 64 = 55 - i" by linarith+
  then show ?thesis using False by (simp add: le_mod_geq)
qed (use assms in simp)

lemma pad_message:
  assumes "sha_inv m c"
  shows "Intermediate_Hash (SHA1PadMessage c) = fips_hash sha_const_key (fips_pad m)"
proof -
  let ?i = "length m mod 64" and ?oct = "fips_octets (8 * length m)"
  have i: "?i < 64" by simp
  have inv: "Message_Block_Index c = ?i" "length (Message_Block c) = 64" "Length c = of_nat (8 * length m)"
    "take ?i (Message_Block c) = remainder m" "Intermediate_Hash c = fips_hash sha_const_key (whole m)"
    using assms by (simp_all add: sha_inv_def)
  have mb: "take (?i + 1) ((Message_Block c)[?i := 0x80]) = remainder m @ [0x80]"
    using inv i by (simp add: take_Suc_conv_app_nth)
  have oct: "length_octets (Length c) = ?oct" unfolding inv by (rule length_octets_of_nat)
  have pad: "fips_pad m = whole m @ remainder m @ [0x80] @ replicate ((119 - ?i) mod 64) 0 @ ?oct"
    unfolding fips_pad_def using whole_remainder [of m] by (metis append_assoc)
  have hash: "fips_hash sha_const_key (whole m @ xs) = fips_hash (Intermediate_Hash c) xs" for xs
    unfolding inv by (rule fips_hash_append) (rule length_whole)
  show ?thesis
  proof (cases "55 < ?i")
    case True
    let ?b1 = "remainder m @ [0x80] @ replicate (63 - ?i) 0"
    have "(119 - ?i) mod 64 = (63 - ?i) + 56" using True i pad_zeros [OF i] by simp
    then have "replicate ((119 - ?i) mod 64) (0 :: byte) = replicate (63 - ?i) 0 @ replicate 56 0"
      by (metis replicate_add)
    then have "fips_pad m = whole m @ ?b1 @ replicate 56 0 @ ?oct"
      unfolding pad by (metis append_assoc)
    then have spec: "fips_hash sha_const_key (fips_pad m) =
        fips_compress (fips_compress (Intermediate_Hash c) ?b1) (replicate 56 0 @ ?oct)"
      using i by (simp only: hash) (subst fips_hash_append, simp_all add: fips_hash_block length_remainder)
    have b1: "bzero ((Message_Block c)[?i := 0x80]) (?i + 1) (64 - (?i + 1)) = ?b1"
      using i inv by (subst bzero_tail) (simp_all only: mb, simp_all)
    have "length ?b1 = 64" using i by (simp add: length_remainder)
    moreover have "length (replicate 56 0 @ ?oct) = 64" by simp
    ultimately show ?thesis
      unfolding SHA1PadMessage_def Let_def inv(1) if_P [OF True] b1 spec
      by (simp add: process_block bzero_def oct)
  next
    case False
    let ?b = "remainder m @ [0x80] @ replicate (55 - ?i) 0 @ ?oct"
    have "(119 - ?i) mod 64 = 55 - ?i" using False pad_zeros [OF i] by simp
    then have "fips_pad m = whole m @ ?b" unfolding pad by (simp only:)
    moreover have len: "length ?b = 64" using False by (simp add: length_remainder)
    ultimately have spec: "fips_hash sha_const_key (fips_pad m) = fips_compress (Intermediate_Hash c) ?b"
      by (simp only: hash fips_hash_block)
    have "take 56 (bzero ((Message_Block c)[?i := 0x80]) (?i + 1) (56 - (?i + 1)))
        = remainder m @ [0x80] @ replicate (55 - ?i) 0"
      unfolding bzero_def mb using False by (simp add: length_remainder take_Cons')
    then have b: "take 56 (bzero ((Message_Block c)[?i := 0x80]) (?i + 1) (56 - (?i + 1))) @ ?oct = ?b"
      by (simp only: append_assoc)
    show ?thesis
      unfolding SHA1PadMessage_def Let_def inv(1) if_not_P [OF False] spec
      using len b by (simp add: process_block oct)
  qed
qed

lemma length_fips_hash: "length H = 5 \<Longrightarrow> length (fips_hash H m) = 5"
proof (induction H m rule: fips_hash.induct)
  case (1 H bs)
  have "length (fips_compress H (take 64 bs)) = 5"
    by (simp add: fips_compress_def split: prod.split)
  then show ?case using 1 by (simp add: fips_hash.simps [of H bs])
qed

lemma list5: "length xs = 5 \<Longrightarrow> \<exists>a b c d e. xs = [a, b, c, d, e]"
  by (auto simp: numeral_eq_Suc length_Suc_conv)

lemma fips_words: "\<exists>h0 h1 h2 h3 h4. fips_hash sha_const_key m = [h0, h1, h2, h3, h4]"
  by (rule list5, rule length_fips_hash) (simp add: sha_const_key_def)

lemma sha1_result:
  assumes "sha_inv m c"
  shows "snd (mysql_sha1_result c) = sha1 m"
proof -
  obtain h0 h1 h2 h3 h4 where h: "fips_hash sha_const_key (fips_pad m) = [h0, h1, h2, h3, h4]"
    using fips_words by blast
  have "\<not> Computed c" using assms by (simp add: sha_inv_def)
  then have "snd (mysql_sha1_result c) =
      map (\<lambda>i. ucast (drop_bit (8 * (3 - i mod 4)) ([h0, h1, h2, h3, h4] ! (i div 4)))) [0..<20]"
    using pad_message [OF assms] by (simp add: mysql_sha1_result_def Let_def SHA1_HASH_SIZE_def h)
  then show ?thesis
    unfolding sha1_def initial_hash [symmetric] h by (simp add: upt_rec ucast_drop_bit)
qed

lemma sha1_length [simp]: "length (sha1 m) = 20"
proof -
  obtain h0 h1 h2 h3 h4 where "fips_hash sha_const_key (fips_pad m) = [h0, h1, h2, h3, h4]"
    using fips_words by blast
  then show ?thesis by (simp add: sha1_def initial_hash [symmetric])
qed

lemma sha_inv_inputs: "sha_inv m c \<Longrightarrow> sha_inv (m @ concat msgs) (foldl mysql_sha1_input c msgs)"
  by (induction msgs arbitrary: m c) (use sha_inv_input in fastforce)+

section \<open>Properties\<close>

text \<open>
  C34: after a reset, whatever the context held before, feeding a message in any number of pieces
  gives the digest that FIPS 180-1 defines for the whole message.
\<close>
theorem sha1_refines_fips:
  assumes "length (Message_Block c) = 64"
  shows "snd (mysql_sha1_result (foldl mysql_sha1_input (mysql_sha1_reset c) msgs)) = sha1 (concat msgs)"
  using sha1_result [OF sha_inv_inputs [OF sha_inv_reset [OF assms], of msgs]] by simp

definition sha_context :: SHA1_CONTEXT where
  "sha_context = \<lparr>Length = 0, Intermediate_Hash = replicate 5 0, Computed = False, Corrupted = 0,
     Message_Block_Index = 0, Message_Block = replicate 64 0\<rparr>"

theorem sha1_refines_fips_witness:
  "snd (mysql_sha1_result (mysql_sha1_input (mysql_sha1_input (mysql_sha1_reset sha_context) [0x61]) [0x62, 0x63]))
     = sha1 [0x61, 0x62, 0x63]"
  using sha1_refines_fips [of sha_context "[[0x61], [0x62, 0x63]]"] by (simp add: sha_context_def)

end
