(* ===== verification/Strtoll10.thy ===== *)
theory Strtoll10
  imports Prelude
begin

text \<open>
  The conversion of decimal digits to a 64-bit integer (\<^verbatim>\<open>MySQL/my_strtoll10.c\<close>): digits in three
  groups of 9, 9 and 2, with a test against the limits for 20 digits.  The result is the 64-bit
  pattern of the \<^verbatim>\<open>longlong\<close>, the stop position and the error code.
\<close>

section \<open>The code\<close>

definition MY_ERRNO_EDOM :: int where "MY_ERRNO_EDOM = 33"
definition MY_ERRNO_ERANGE :: int where "MY_ERRNO_ERANGE = 34"

definition ULONGLONG_MAX :: u64 where "ULONGLONG_MAX = 0xFFFFFFFFFFFFFFFF"
definition MAX_NEGATIVE_NUMBER :: u64 where "MAX_NEGATIVE_NUMBER = 0x8000000000000000"
definition LFACTOR :: u64 where "LFACTOR = 1000000000"
definition LFACTOR1 :: u64 where "LFACTOR1 = 10000000000"
definition LFACTOR2 :: u64 where "LFACTOR2 = 100000000000"
definition INIT_CNT :: nat where "INIT_CNT = 9"

definition lfactor :: "u64 list" where
  "lfactor = [1, 10, 100, 1000, 10000, 100000, 1000000, 10000000, 100000000]"

lemmas strtoll10_consts = ULONGLONG_MAX_def MAX_NEGATIVE_NUMBER_def LFACTOR_def LFACTOR1_def
  LFACTOR2_def INIT_CNT_def

text \<open>\<^verbatim>\<open>c= (*s-'0')\<close>, a \<^verbatim>\<open>uchar\<close>.\<close>

definition digit_at :: "byte list \<Rightarrow> nat \<Rightarrow> byte" where
  "digit_at str s = cstr_at str s - 0x30"

text \<open>At most \<open>n\<close> digits from \<open>s\<close> on; the flag tells that a character stopped the loop.\<close>

primrec scan_digits :: "byte list \<Rightarrow> nat \<Rightarrow> nat \<Rightarrow> u64 \<Rightarrow> nat \<times> u64 \<times> bool" where
  "scan_digits str 0 s acc = (s, acc, False)"
| "scan_digits str (Suc n) s acc =
     (let c = digit_at str s
      in if 9 < c then (s, acc, True) else scan_digits str n (s + 1) (acc * 10 + ucast c))"

text \<open>The loop over leading zeros with \<open>n\<close> characters left: \<^const>\<open>None\<close> when it reaches the end.\<close>

primrec skip_zeros :: "byte list \<Rightarrow> nat \<Rightarrow> nat \<Rightarrow> nat option" where
  "skip_zeros str 0 s = None"
| "skip_zeros str (Suc n) s = (if cstr_at str s = 0x30 then skip_zeros str n (s + 1) else Some s)"

definition cutoffs :: "bool \<Rightarrow> u64 \<times> u64 \<times> u64" where
  "cutoffs negative =
     (if negative then (MAX_NEGATIVE_NUMBER div LFACTOR2, MAX_NEGATIVE_NUMBER mod LFACTOR2 div 100,
                        MAX_NEGATIVE_NUMBER mod 100)
      else (ULONGLONG_MAX div LFACTOR2, ULONGLONG_MAX mod LFACTOR2 div 100, ULONGLONG_MAX mod 100))"

text \<open>The label \<^verbatim>\<open>overflow\<close>.\<close>

definition strtoll10_overflow :: "bool \<Rightarrow> nat \<Rightarrow> u64 \<times> nat \<times> int" where
  "strtoll10_overflow negative endptr =
     (if negative then MAX_NEGATIVE_NUMBER else ULONGLONG_MAX, endptr, MY_ERRNO_ERANGE)"

text \<open>From \<^verbatim>\<open>Handle the next 1 or 2 digits\<close> on; \<open>s\<close> is at the first of them.\<close>

definition strtoll10_last ::
  "byte list \<Rightarrow> nat \<Rightarrow> bool \<Rightarrow> int \<Rightarrow> u64 \<Rightarrow> u64 \<Rightarrow> nat \<Rightarrow> u64 \<times> nat \<times> int" where
  "strtoll10_last str e negative err i j s =
     (let k = ucast (digit_at str s); s = s + 1
      in if s = e \<or> 9 < digit_at str s then
           let li = i * LFACTOR1 + j * 10 + k
           in if negative then
                if MAX_NEGATIVE_NUMBER < li then strtoll10_overflow negative s else (- li, s, err)
              else (li, s, err)
         else
           let k = k * 10 + ucast (digit_at str s); s = s + 1; (cutoff, cutoff2, cutoff3) = cutoffs negative
           in if s \<noteq> e \<and> digit_at str s \<le> 9 then strtoll10_overflow negative s
              else if cutoff < i \<or> i = cutoff \<and> (cutoff2 < j \<or> j = cutoff2) \<and> cutoff3 < k
                then strtoll10_overflow negative s
              else (i * LFACTOR2 + j * 100 + k, s, err))"

text \<open>From \<^verbatim>\<open>Handle first 9 digits\<close> on; \<open>n\<close> of them are to be read.\<close>

definition strtoll10_digits ::
  "byte list \<Rightarrow> nat \<Rightarrow> bool \<Rightarrow> int \<Rightarrow> u64 \<Rightarrow> nat \<Rightarrow> nat \<Rightarrow> u64 \<times> nat \<times> int" where
  "strtoll10_digits str e negative err i0 s n =
     (let (s, i, stop) = scan_digits str (min n (e - s)) s i0
      in if stop \<or> s = e then (if negative then - i else i, s, err)
         else
           let start = s; (s, j, stop) = scan_digits str (min INIT_CNT (e - s)) s 0
           in if stop \<or> (s = e \<and> s \<noteq> start + INIT_CNT) then
                let li = i * lfactor ! (s - start) + j in (if negative then - li else li, s, err)
              else if s = e \<or> 9 < digit_at str s then
                let li = i * LFACTOR + j in (if negative then - li else li, s, err)
              else strtoll10_last str e negative err i j s)"

text \<open>
  \<open>fixed\<close> tells whether the caller gives the end of the string; otherwise the string is
  NUL-terminated and at most 65535 characters behind the blanks are read.
\<close>

definition my_strtoll10 :: "byte list \<Rightarrow> bool \<Rightarrow> u64 \<times> nat \<times> int" where
  "my_strtoll10 str fixed =
     (let s = length (takeWhile (\<lambda>c. c = 0x20 \<or> c = 0x09) str);
          e = (if fixed then length str else s + 65535);
          no_conv = (0, 0, MY_ERRNO_EDOM)
      in if s = e \<or> (\<not> fixed \<and> cstr_at str s = 0) then no_conv
         else
           let c = cstr_at str s; negative = (c = 0x2D); err = (if negative then -1 else 0);
               s = (if negative \<or> c = 0x2B then s + 1 else s)
           in if s = e then no_conv
              else if cstr_at str s = 0x30 then
                (case skip_zeros str (e - (s + 1)) (s + 1) of
                   None \<Rightarrow> (0, e, err)
                 | Some s \<Rightarrow> strtoll10_digits str e negative err 0 s INIT_CNT)
              else if 9 < digit_at str s then no_conv
              else strtoll10_digits str e negative err (ucast (digit_at str s)) (s + 1) (INIT_CNT - 1))"

section \<open>Decimal digits\<close>

definition dec_value :: "nat list \<Rightarrow> nat" where
  "dec_value ds = foldl (\<lambda>v d. v * 10 + d) 0 ds"

definition dec_char :: "nat \<Rightarrow> byte" where
  "dec_char d = of_nat (48 + d)"

lemma dec_value_Nil [simp]: "dec_value [] = 0"
  by (simp add: dec_value_def)

lemma foldl_dec: "foldl (\<lambda>v d. v * 10 + d) a ds = a * 10 ^ length ds + dec_value ds"
proof (induction ds arbitrary: a)
  case (Cons d ds)
  show ?case
    using Cons [of "a * 10 + d"] Cons [of d] by (simp add: dec_value_def algebra_simps)
qed (simp add: dec_value_def)

lemma dec_value_Cons [simp]: "dec_value (d # ds) = d * 10 ^ length ds + dec_value ds"
  using foldl_dec [of d ds] by (simp add: dec_value_def)

lemma dec_value_append: "dec_value (xs @ ys) = dec_value xs * 10 ^ length ys + dec_value ys"
  using foldl_dec [of "dec_value xs" ys] by (simp add: dec_value_def)

lemma dec_value_less: "list_all (\<lambda>d. d < 10) ds \<Longrightarrow> dec_value ds < 10 ^ length ds"
proof (induction ds)
  case (Cons d ds)
  then have "d + 1 \<le> 10" "dec_value ds < 10 ^ length ds" by auto
  then have "d * 10 ^ length ds + dec_value ds < (d + 1) * 10 ^ length ds" by simp
  also have "\<dots> \<le> 10 * 10 ^ length ds" by (rule mult_le_mono1) fact
  finally show ?case by simp
qed simp

lemma dec_value_ge: "d \<noteq> 0 \<Longrightarrow> 10 ^ length ds \<le> dec_value (d # ds)"
  by (simp add: trans_le_add1)

lemma digit_char: "d < 10 \<Longrightarrow> dec_char d - 0x30 = of_nat d"
  by (simp add: dec_char_def)

lemma digit_nonzero: "d < 10 \<Longrightarrow> d \<noteq> 0 \<Longrightarrow> (of_nat d :: byte) \<noteq> 0"
  by (simp add: word_unat_eq_iff unsigned_of_nat take_bit_nat_eq_self)

lemma digit_le: "d < 10 \<Longrightarrow> (of_nat d :: byte) \<le> 9"
  by (simp add: word_le_nat_alt take_bit_nat_eq_self unsigned_of_nat)

lemma ucast_digit: "d < 10 \<Longrightarrow> ucast (of_nat d :: byte) = (of_nat d :: u64)"
  by (simp add: word_unat_eq_iff unsigned_ucast_eq unsigned_of_nat take_bit_nat_eq_self)

text \<open>The characters at \<open>s\<close> are the digits \<open>ds\<close>, up to the end \<open>e\<close> or to a character that is no digit.\<close>

definition digits_at :: "byte list \<Rightarrow> nat \<Rightarrow> nat \<Rightarrow> nat list \<Rightarrow> bool" where
  "digits_at str e s ds \<longleftrightarrow> list_all (\<lambda>d. d < 10) ds \<and> s + length ds \<le> e
     \<and> (\<forall>i < length ds. cstr_at str (s + i) = dec_char (ds ! i))
     \<and> (s + length ds < e \<longrightarrow> 9 < digit_at str (s + length ds))"

lemma digits_at_Cons:
  "digits_at str e s (d # ds) \<longleftrightarrow>
     d < 10 \<and> s < e \<and> cstr_at str s = dec_char d \<and> digits_at str e (Suc s) ds"
  unfolding digits_at_def by (auto simp: All_less_Suc2)

lemma digits_at_Nil: "digits_at str e s [] \<longleftrightarrow> s \<le> e \<and> (s < e \<longrightarrow> 9 < digit_at str s)"
  by (simp add: digits_at_def)

lemma digits_at_digit: "digits_at str e s (d # ds) \<Longrightarrow> digit_at str s = of_nat d"
  by (simp add: digits_at_Cons digit_at_def digit_char)

lemma digits_at_append: "digits_at str e s (xs @ ys) \<Longrightarrow> digits_at str e (s + length xs) ys"
proof (induction xs arbitrary: s)
  case (Cons x xs)
  then show ?case using Cons.IH [of "Suc s"] by (simp add: digits_at_Cons)
qed simp

lemma scan_digits_spec:
  "digits_at str e s ds \<Longrightarrow>
     scan_digits str (min n (e - s)) s (of_nat a) =
       (s + min n (length ds), of_nat (a * 10 ^ min n (length ds) + dec_value (take n ds)),
        length ds < n \<and> s + length ds < e)"
proof (induction ds arbitrary: s n a)
  case Nil
  then show ?case by (cases "min n (e - s)") (auto simp: digits_at_Nil)
next
  case (Cons d ds)
  then have d: "d < 10" "s < e" "digits_at str e (Suc s) ds" "digit_at str s = of_nat d"
    using digits_at_digit [OF Cons.prems] by (auto simp: digits_at_Cons)
  show ?case
  proof (cases n)
    case (Suc m)
    have m: "min n (e - s) = Suc (min m (e - Suc s))" using d(2) Suc by simp
    have "scan_digits str (min n (e - s)) s (of_nat a) =
        scan_digits str (min m (e - Suc s)) (Suc s) (of_nat (a * 10 + d))"
      using d digit_le [OF d(1)] by (simp add: m ucast_digit not_less [symmetric] Let_def)
    also have "\<dots> = (Suc s + min m (length ds),
        of_nat ((a * 10 + d) * 10 ^ min m (length ds) + dec_value (take m ds)),
        length ds < m \<and> Suc s + length ds < e)"
      by (rule Cons.IH [OF d(3)])
    also have "(a * 10 + d) * 10 ^ min m (length ds) + dec_value (take m ds) =
        a * 10 ^ min n (length (d # ds)) + dec_value (take n (d # ds))"
      using Suc by (simp add: algebra_simps min.commute)
    finally show ?thesis using Suc by simp
  qed simp
qed


section \<open>The value\<close>

lemma strtoll10_last_spec:
  assumes d: "digits_at str e s (k # zs)"
  shows "strtoll10_last str e negative err i j s =
    (case zs of
       [] \<Rightarrow> let li = i * LFACTOR1 + j * 10 + of_nat k
             in if negative \<and> MAX_NEGATIVE_NUMBER < li then strtoll10_overflow negative (s + 1)
                else (if negative then - li else li, s + 1, err)
     | k2 # zs' \<Rightarrow> let (c, c2, c3) = cutoffs negative; k = of_nat (k * 10 + k2)
             in if zs' \<noteq> [] \<or> c < i \<or> i = c \<and> (c2 < j \<or> j = c2) \<and> c3 < k
                then strtoll10_overflow negative (s + 2)
                else (i * LFACTOR2 + j * 100 + k, s + 2, err))"
proof (cases zs)
  case Nil
  then have "s + 1 = e \<or> 9 < digit_at str (s + 1)" using d by (auto simp: digits_at_Cons digits_at_Nil)
  moreover have "ucast (digit_at str s) = (of_nat k :: u64)"
    using digits_at_digit [OF d] d ucast_digit [of k] by (simp add: digits_at_Cons)
  ultimately show ?thesis using Nil by (simp add: strtoll10_last_def Let_def)
next
  case (Cons k2 zs')
  then have d2: "digits_at str e (s + 1) (k2 # zs')" using d by (simp add: digits_at_Cons)
  then have d3: "k2 < 10" "s + 1 < e" "digits_at str e (s + 2) zs'" by (simp_all add: digits_at_Cons)
  have k: "ucast (digit_at str s) = (of_nat k :: u64)" "ucast (digit_at str (s + 1)) = (of_nat k2 :: u64)"
    using digits_at_digit [OF d] digits_at_digit [OF d2] d d2 ucast_digit [of k] ucast_digit [of k2]
    by (simp_all add: digits_at_Cons)
  have ne: "s + 1 \<noteq> e" "\<not> 9 < digit_at str (s + 1)"
    using d3 digits_at_digit [OF d2] digit_le [of k2] by (simp_all add: not_less)
  have more: "s + 2 \<noteq> e \<and> digit_at str (s + 2) \<le> 9 \<longleftrightarrow> zs' \<noteq> []"
  proof (cases zs')
    case Nil
    then show ?thesis using d3(3) by (auto simp: digits_at_Nil not_le)
  next
    case (Cons k3 zs'')
    then show ?thesis using d3(3) digits_at_digit [of str e "s + 2" k3 zs''] digit_le [of k3]
      by (simp add: digits_at_Cons)
  qed
  have m: "of_nat k * 10 + of_nat k2 = (of_nat (k * 10 + k2) :: u64)" by simp
  have add2: "s + 1 + 1 = s + 2" by simp
  obtain c c2 c3 where cut: "cutoffs negative = (c, c2, c3)" by (cases "cutoffs negative")
  show ?thesis
    unfolding strtoll10_last_def Let_def add2 more m k cut using ne Cons by (auto simp: more cut)
qed

text \<open>
  The result for the significant digits \<open>ds\<close> at \<open>s\<close>.  The groups are
  \<open>i = v div 10^11\<close>, \<open>j = v div 100 mod 10^9\<close> and \<open>k = v mod 100\<close>.
\<close>

definition missed_overflow :: "nat \<Rightarrow> bool" where
  "missed_overflow v \<longleftrightarrow> v div 100000000000 = 184467440 \<and> 737095516 < v div 100 mod 1000000000 \<and> v mod 100 \<le> 15"

definition strtoll10_result :: "bool \<Rightarrow> int \<Rightarrow> nat \<Rightarrow> nat list \<Rightarrow> u64 \<times> nat \<times> int" where
  "strtoll10_result negative err s ds =
     (let v = dec_value ds
      in if v \<le> (if negative then 2 ^ 63 else 2 ^ 64 - 1) \<or> (\<not> negative \<and> length ds = 20 \<and> missed_overflow v)
         then (if negative then - of_nat v else of_nat v, s + length ds, err)
         else strtoll10_overflow negative (s + min 20 (length ds)))"

lemma lfactor_power: "n < 9 \<Longrightarrow> lfactor ! n = of_nat (10 ^ n)"
  by (auto simp: lfactor_def less_Suc_eq numeral_eq_Suc)

lemma unat_of_small: "n < 2 ^ 64 \<Longrightarrow> unat (of_nat n :: u64) = n"
  by (simp add: unsigned_of_nat take_bit_nat_eq_self)

lemma power10_le: "n \<le> m \<Longrightarrow> (10 :: nat) ^ n \<le> 10 ^ m"
  by (rule power_increasing) auto

text \<open>Up to 18 digits.\<close>

lemma strtoll10_digits_short:
  assumes d: "digits_at str e s ds" and n: "length ds \<le> 18"
  shows "strtoll10_digits str e negative err 0 s 9 =
    (if negative then - of_nat (dec_value ds) else of_nat (dec_value ds), s + length ds, err)"
proof -
  note sc = scan_digits_spec [OF d, of 9 0]
  have e: "s + length ds \<le> e" using d by (simp add: digits_at_def)
  show ?thesis
  proof (cases "length ds < 9")
    case True
    then show ?thesis using sc e by (simp add: strtoll10_digits_def Let_def)
  next
    case False
    define xs ys where "xs = take 9 ds" and "ys = drop 9 ds"
    have ds: "ds = xs @ ys" "length xs = 9" "length ys \<le> 9" using False n by (simp_all add: xs_def ys_def)
    have dy: "digits_at str e (s + 9) ys" using digits_at_append [of str e s xs ys] d ds by simp
    note sy = scan_digits_spec [OF dy, of 9 0]
    have v: "of_nat (dec_value ds) = (of_nat (dec_value xs) * of_nat (10 ^ length ys) + of_nat (dec_value ys) :: u64)"
      unfolding ds(1) dec_value_append by simp
    have s1: "scan_digits str (min 9 (e - s)) s 0 = (s + 9, of_nat (dec_value xs), False)"
      using sc False by (simp add: xs_def min_def)
    have s2: "scan_digits str (min 9 (e - (s + 9))) (s + 9) 0 =
        (s + 9 + length ys, of_nat (dec_value ys), length ys < 9 \<and> s + 9 + length ys < e)"
      using sy ds(3) by (simp add: min_absorb2)
    have len: "length ds = 9 + length ys" using ds(2) by (simp add: ds(1))
    have e2: "s + 9 + length ys \<le> e" using dy by (simp add: digits_at_def)
    show ?thesis
    proof (cases "s + 9 = e")
      case True
      then have "ys = []" using e2 by simp
      then have "length ds = 9" "dec_value ds = dec_value xs" using len ds(1) by simp_all
      then show ?thesis using s1 True by (simp add: strtoll10_digits_def Let_def)
    next
      case ne: False
      show ?thesis
      proof (cases "length ys < 9")
        case True
        then have "length ys < 9 \<and> s + 9 + length ys < e \<or> s + 9 + length ys = e \<and> s + 9 + length ys \<noteq> s + 9 + 9"
          using e2 by auto
        then show ?thesis
          using s1 s2 ne True lfactor_power [OF True]
          unfolding v len strtoll10_digits_def INIT_CNT_def Let_def by (auto simp: add.assoc)
      next
        case False
        then have l9: "length ys = 9" using ds(3) by simp
        have p: "s + 9 + length ys = s + 18" using l9 by simp
        have "s + 18 = e \<or> 9 < digit_at str (s + 18)"
          using dy unfolding digits_at_def p by (meson le_neq_implies_less)
        then have "18 + s = e \<or> 9 < digit_at str (18 + s)" by (simp add: add.commute)
        then show ?thesis
          using s1 s2 ne l9 e2 unfolding v len strtoll10_digits_def INIT_CNT_def Let_def
          by (auto simp: LFACTOR_def)
      qed
    qed
  qed
qed


text \<open>From 19 digits on.\<close>

lemma strtoll10_digits_long:
  assumes d: "digits_at str e s (xs @ ys @ k # zs)" and len: "length xs = 9" "length ys = 9"
  shows "strtoll10_digits str e negative err 0 s 9 =
    strtoll10_last str e negative err (of_nat (dec_value xs)) (of_nat (dec_value ys)) (s + 18)"
proof -
  have dy: "digits_at str e (s + 9) (ys @ k # zs)" using digits_at_append [OF d] len by simp
  have "digits_at str e (s + 9 + 9) (k # zs)" using digits_at_append [OF dy] len by simp
  then have dz: "digits_at str e (s + 18) (k # zs)" by (simp add: add.assoc)
  have k: "s + 18 < e" "\<not> 9 < digit_at str (s + 18)"
    using dz digits_at_digit [OF dz] digit_le [of k] by (simp_all add: digits_at_Cons not_less)
  have s1: "scan_digits str (min 9 (e - s)) s 0 = (s + 9, of_nat (dec_value xs), False)"
    using scan_digits_spec [OF d, of 9 0] len by simp
  have s2: "scan_digits str (min 9 (e - (s + 9))) (s + 9) 0 = (s + 18, of_nat (dec_value ys), False)"
    using scan_digits_spec [OF dy, of 9 0] len by (simp add: add.assoc)
  show ?thesis
    unfolding strtoll10_digits_def INIT_CNT_def Let_def s1 prod.case s2 using k by auto
qed

lemma cutoffs_pos: "cutoffs False = (184467440, 737095516, 15)"
  by (simp add: cutoffs_def strtoll10_consts)

lemma cutoffs_neg: "cutoffs True = (92233720, 368547758, 8)"
  by (simp add: cutoffs_def strtoll10_consts)

lemma of_nat_less_u64: "a < 2 ^ 64 \<Longrightarrow> b < 2 ^ 64 \<Longrightarrow> (of_nat a :: u64) < of_nat b \<longleftrightarrow> a < b"
  by (simp add: word_less_nat_alt unat_of_small)

lemma of_nat_eq_u64: "a < 2 ^ 64 \<Longrightarrow> b < 2 ^ 64 \<Longrightarrow> (of_nat a :: u64) = of_nat b \<longleftrightarrow> a = b"
  by (metis unat_of_small)

text \<open>The test for overflow in the code, for 20 digits in groups.\<close>

lemma overflow_test:
  assumes "i < 10 ^ 9" "j < 10 ^ 9" "k < 100"
  shows "(184467440 :: u64) < of_nat i \<or> (of_nat i :: u64) = 184467440 \<and>
      ((737095516 :: u64) < of_nat j \<or> of_nat j = (737095516 :: u64)) \<and> (15 :: u64) < of_nat k
    \<longleftrightarrow> 2 ^ 64 - 1 < i * 100000000000 + j * 100 + k
       \<and> \<not> missed_overflow (i * 100000000000 + j * 100 + k)"
proof -
  have b: "i < 2 ^ 64" "j < 2 ^ 64" "k < 2 ^ 64" using assms by simp_all
  note cmp = of_nat_less_u64 [of 184467440 i, OF _ b(1)] of_nat_eq_u64 [of i 184467440, OF b(1)]
    of_nat_less_u64 [of 737095516 j, OF _ b(2)] of_nat_eq_u64 [of j 737095516, OF b(2)]
    of_nat_less_u64 [of 15 k, OF _ b(3)]
  have w: "i * 100000000000 + j * 100 + k = (i * 1000000000 + j) * 100 + k" by simp
  have "((i * 1000000000 + j) * 100 + k) div 100 = i * 1000000000 + j"
    "((i * 1000000000 + j) * 100 + k) mod 100 = k" for i j :: nat
    using assms(3) mod_mult_self3 [of "i * 1000000000 + j" 100 k] by simp_all
  moreover have "(i * 1000000000 + j) mod 1000000000 = j" using assms(2) by simp
  moreover have "(i * 100000000000 + j * 100 + k) div 100000000000 = i" using assms by simp
  ultimately have div: "(i * 100000000000 + j * 100 + k) div 100000000000 = i"
    "(i * 100000000000 + j * 100 + k) div 100 mod 1000000000 = j"
    "(i * 100000000000 + j * 100 + k) mod 100 = k" unfolding w by simp_all
  show ?thesis unfolding missed_overflow_def div using cmp assms by auto
qed

lemma split_digits:
  assumes "18 < length ds"
  obtains xs ys k zs where "ds = xs @ ys @ k # zs" "length xs = 9" "length ys = 9"
proof -
  have "drop 9 (drop 9 ds) = drop 18 ds" by simp
  then have ds: "ds = take 9 ds @ take 9 (drop 9 ds) @ drop 18 ds"
    by (metis append_take_drop_id)
  obtain k zs where "drop 18 ds = k # zs" using assms by (cases "drop 18 ds") auto
  then show ?thesis using that [of "take 9 ds" "take 9 (drop 9 ds)" k zs] ds assms by simp
qed

lemma strtoll10_digits_spec:
  assumes d: "digits_at str e s ds" and hd: "ds \<noteq> [] \<Longrightarrow> hd ds \<noteq> 0"
  shows "strtoll10_digits str e negative err 0 s 9 = strtoll10_result negative err s ds"
proof (cases "length ds \<le> 18")
  case True
  have "dec_value ds < 10 ^ length ds" using d by (intro dec_value_less) (simp add: digits_at_def)
  also have "\<dots> \<le> 10 ^ 18" using True by (rule power10_le)
  finally have "dec_value ds \<le> (if negative then 2 ^ 63 else 2 ^ 64 - 1)" by simp
  then show ?thesis using strtoll10_digits_short [OF d True] by (simp add: strtoll10_result_def Let_def)
next
  case False
  then obtain xs ys k zs where ds: "ds = xs @ ys @ k # zs" and len: "length xs = 9" "length ys = 9"
    using split_digits [of ds] by (metis not_le)
  have dg: "list_all (\<lambda>d. d < 10) ds" using d by (simp add: digits_at_def)
  let ?i = "dec_value xs" and ?j = "dec_value ys"
  have ij: "?i < 10 ^ 9" "?j < 10 ^ 9"
    using dec_value_less [of xs] dec_value_less [of ys] dg len by (simp_all add: ds)
  have k10: "k < 10" using dg by (simp add: ds)
  have xs: "xs \<noteq> []" using len by auto
  then have "hd ds = hd xs" by (simp add: ds)
  then have i8: "10 ^ 8 \<le> ?i"
    using hd dec_value_ge [of "hd xs" "tl xs"] xs len ds by (cases xs) auto
  have dz: "digits_at str e (s + 18) (k # zs)"
    using digits_at_append [of str e s "xs @ ys" "k # zs"] d len by (simp add: ds)
  have code: "strtoll10_digits str e negative err 0 s 9 =
      strtoll10_last str e negative err (of_nat ?i) (of_nat ?j) (s + 18)"
    by (rule strtoll10_digits_long [OF d [unfolded ds] len])
  note last = strtoll10_last_spec [OF dz, of negative err "of_nat ?i" "of_nat ?j"]
  have v: "dec_value ds = ?i * (10 ^ 9 * 10 ^ length (k # zs)) + ?j * 10 ^ length (k # zs) + dec_value (k # zs)"
    unfolding ds dec_value_append len(2) length_append by (simp add: algebra_simps power_add len)
  show ?thesis
  proof (cases zs)
    case Nil
    have vn: "dec_value ds = ?i * 10000000000 + ?j * 10 + k" unfolding v Nil by simp
    then have small: "dec_value ds < 2 ^ 64" using ij k10 by simp
    have li: "of_nat ?i * LFACTOR1 + of_nat ?j * 10 + of_nat k = (of_nat (dec_value ds) :: u64)"
      unfolding vn by (simp add: LFACTOR1_def)
    have neg: "MAX_NEGATIVE_NUMBER < (of_nat (dec_value ds) :: u64) \<longleftrightarrow> 2 ^ 63 < dec_value ds"
      using small by (simp add: word_less_nat_alt unat_of_small MAX_NEGATIVE_NUMBER_def)
    have l19: "length ds = 19" using len Nil by (simp add: ds)
    show ?thesis
      unfolding code last Nil list.case li Let_def neg strtoll10_result_def l19 using small
      by (simp add: not_le [symmetric] add.commute [of s])
  next
    case (Cons k2 zs')
    have k2: "k2 < 10" using dg Cons by (simp add: ds)
    show ?thesis
    proof (cases zs')
      case Nil
      have vn: "dec_value ds = ?i * 100000000000 + ?j * 100 + (k * 10 + k2)" unfolding v Cons Nil by simp
      have li: "of_nat ?i * LFACTOR2 + of_nat ?j * 100 + of_nat (k * 10 + k2) = (of_nat (dec_value ds) :: u64)"
        unfolding vn by (simp add: LFACTOR2_def)
      have l20: "length ds = 20" using len Cons Nil by (simp add: ds)
      show ?thesis
      proof (cases negative)
        case True
        have "(92233720 :: u64) < of_nat ?i"
          using of_nat_less_u64 [of 92233720 ?i] ij i8 by simp
        moreover have "2 ^ 63 < dec_value ds" unfolding vn using i8 by simp
        ultimately show ?thesis
          unfolding code last Cons list.case Let_def strtoll10_result_def l20
          using True by (simp add: cutoffs_neg add.commute [of s])
      next
        case False
        have kk: "k * 10 + k2 < 100" using k10 k2 by simp
        show ?thesis
          unfolding code last Cons list.case Let_def strtoll10_result_def l20 li Nil
          using False overflow_test [OF ij kk, folded vn] by (auto simp: cutoffs_pos add.commute [of s])
      qed
    next
      case (Cons k3 zs'')
      have "10 ^ 8 * (10 ^ 9 * 10 ^ length (k # zs)) \<le> ?i * (10 ^ 9 * 10 ^ length (k # zs))"
        using i8 by (rule mult_le_mono1)
      also have "\<dots> \<le> dec_value ds" unfolding v by simp
      finally have "10 ^ 17 * 10 ^ length (k # zs) \<le> dec_value ds" by simp
      moreover have "(10::nat) ^ 3 \<le> 10 ^ length (k # zs)"
        by (rule power10_le) (simp add: \<open>zs = k2 # zs'\<close> Cons)
      ultimately have "10 ^ 17 * 10 ^ 3 \<le> dec_value ds" by (meson le_trans mult_le_mono2)
      moreover have "20 < length ds" using len Cons \<open>zs = k2 # zs'\<close> by (simp add: ds)
      ultimately show ?thesis
        unfolding code last \<open>zs = k2 # zs'\<close> list.case Let_def strtoll10_result_def
        using Cons by (simp add: split_beta add.commute [of s])
    qed
  qed
qed


section \<open>Whole strings\<close>

text \<open>
  The strings that are numbers: blanks, an optional sign, and digits up to the end or to a
  character that is no digit.
\<close>

lemma skip_zeros_spec:
  "digits_at str e s (replicate m 0 @ ds) \<Longrightarrow> ds \<noteq> [] \<longrightarrow> hd ds \<noteq> 0 \<Longrightarrow>
     skip_zeros str (e - s) s = (if s + m = e \<and> ds = [] then None else Some (s + m))"
proof (induction m arbitrary: s)
  case 0
  then show ?case
  proof (cases "s = e")
    case True
    then show ?thesis using 0 by (cases ds) (auto simp: digits_at_Cons)
  next
    case False
    then obtain n where n: "e - s = Suc n" using 0 by (metis Suc_diff_Suc digits_at_def le_add1 le_neq_implies_less le_trans)
    have "cstr_at str s \<noteq> 0x30"
    proof (cases ds)
      case Nil
      then show ?thesis using 0 False by (auto simp: digits_at_Nil digit_at_def)
    next
      case (Cons d ds')
      then have "digit_at str s = of_nat d" "d < 10" "d \<noteq> 0"
        using 0 digits_at_digit [of str e s d ds'] by (auto simp: digits_at_Cons)
      then show ?thesis using digit_nonzero [of d] by (auto simp: digit_at_def)
    qed
    then show ?thesis using False n by simp
  qed
next
  case (Suc m)
  then have d: "s < e" "cstr_at str s = 0x30" "digits_at str e (Suc s) (replicate m 0 @ ds)"
    by (auto simp: digits_at_Cons dec_char_def)
  obtain n where n: "e - s = Suc n" "e - Suc s = n" using d(1) by (metis Suc_diff_Suc)
  show ?case using Suc.IH [OF d(3) Suc.prems(2)] d n by simp
qed

text \<open>\<open>ds\<close> are the digits with the leading zeros, \<open>negative\<close> and \<open>sg\<close> the sign.\<close>

definition sig_digits :: "nat list \<Rightarrow> nat list" where
  "sig_digits ds = dropWhile (\<lambda>d. d = 0) ds"

lemma sig_digits_split: "\<exists>m. ds = replicate m 0 @ sig_digits ds"
proof (induction ds)
  case (Cons d ds)
  then obtain m where m: "ds = replicate m 0 @ sig_digits ds" by blast
  show ?case
  proof (cases "d = 0")
    case True
    then have "d # ds = replicate (Suc m) 0 @ sig_digits (d # ds)"
      using m by (simp add: sig_digits_def)
    then show ?thesis by blast
  qed (auto simp: sig_digits_def intro: exI [of _ 0])
qed (simp add: sig_digits_def)

lemma sig_digits_hd: "sig_digits ds \<noteq> [] \<Longrightarrow> hd (sig_digits ds) \<noteq> 0"
  using hd_dropWhile [of "\<lambda>d. d = 0" ds] by (simp add: sig_digits_def)

lemma dec_value_sig: "dec_value (sig_digits ds) = dec_value ds"
  by (induction ds) (auto simp: sig_digits_def)

lemma sig_digits_suffix: "length (sig_digits ds) \<le> length ds"
  by (simp add: sig_digits_def length_dropWhile_le)

lemma strtoll10_start:
  assumes d: "digits_at str e s ds" and ne: "ds \<noteq> []"
  shows "(if cstr_at str s = 0x30 then
            (case skip_zeros str (e - (s + 1)) (s + 1) of
               None \<Rightarrow> (0, e, err)
             | Some s \<Rightarrow> strtoll10_digits str e negative err 0 s INIT_CNT)
          else if 9 < digit_at str s then no_conv
          else strtoll10_digits str e negative err (ucast (digit_at str s)) (s + 1) (INIT_CNT - 1))
    = strtoll10_result negative err (s + length ds - length (sig_digits ds)) (sig_digits ds)"
proof -
  obtain m where m: "ds = replicate m 0 @ sig_digits ds" using sig_digits_split by blast
  let ?s = "sig_digits ds"
  have len: "length ds = m + length ?s" by (metis length_append length_replicate m)
  have dm: "digits_at str e (s + m) ?s" using digits_at_append [of str e s "replicate m 0" ?s] d m by simp
  show ?thesis
  proof (cases m)
    case 0
    then have "?s = ds" using m by simp
    then obtain c cs where c: "ds = c # cs" "c \<noteq> 0" using ne sig_digits_hd [of ds] by (cases ds) auto
    have c10: "c < 10" "s < e" using d c by (simp_all add: digits_at_Cons)
    have at: "digit_at str s = of_nat c" using digits_at_digit d c by metis
    have "cstr_at str s \<noteq> 0x30" using at c c10 digit_nonzero [of c] by (auto simp: digit_at_def)
    moreover have "\<not> 9 < digit_at str s" using at digit_le [OF c10(1)] by (simp add: not_less)
    moreover have "strtoll10_digits str e negative err (ucast (digit_at str s)) (s + 1) (INIT_CNT - 1) =
        strtoll10_digits str e negative err 0 s 9"
    proof -
      have "min 9 (e - s) = Suc (min 8 (e - (s + 1)))" using c10(2) by simp
      then have "scan_digits str (min 9 (e - s)) s 0 = scan_digits str (min 8 (e - (s + 1))) (s + 1) (ucast (digit_at str s))"
        using at digit_le [OF c10(1)] by (simp add: Let_def not_less [symmetric])
      then show ?thesis by (simp add: strtoll10_digits_def INIT_CNT_def)
    qed
    ultimately show ?thesis
      using strtoll10_digits_spec [OF dm sig_digits_hd] 0 len by simp
  next
    case (Suc n)
    then have z: "cstr_at str s = 0x30" "digits_at str e (s + 1) (replicate n 0 @ ?s)"
      using d m by (metis append_Cons digits_at_Cons dec_char_def of_nat_numeral add.right_neutral replicate_Suc Suc_eq_plus1)+
    have sz: "skip_zeros str (e - (s + 1)) (s + 1) = (if s + 1 + n = e \<and> ?s = [] then None else Some (s + 1 + n))"
      using skip_zeros_spec [OF z(2)] sig_digits_hd [of ds] by blast
    show ?thesis
    proof (cases "s + 1 + n = e \<and> ?s = []")
      case True
      then show ?thesis using z(1) sz len Suc
        by (simp add: strtoll10_result_def Let_def)
    next
      case False
      have p: "s + 1 + n = s + m" "s + length ds - length ?s = s + m" using Suc len by simp_all
      show ?thesis
        using z(1) sz False strtoll10_digits_spec [OF dm sig_digits_hd] unfolding p INIT_CNT_def
        by (auto simp: p)
    qed
  qed
qed


text \<open>The input with its parts: blanks, sign, digits, and what follows.\<close>

definition sign_chars :: "byte list set" where
  "sign_chars = {[], [0x2B], [0x2D]}"

lemma unat_dec_char: "d < 10 \<Longrightarrow> unat (dec_char d) = 48 + d"
  by (simp add: dec_char_def unsigned_of_nat take_bit_nat_eq_self del: of_nat_add)

lemma dec_char_range: "d < 10 \<Longrightarrow> dec_char d \<noteq> 0x20 \<and> dec_char d \<noteq> 0x09 \<and> dec_char d \<noteq> 0x2B
    \<and> dec_char d \<noteq> 0x2D \<and> dec_char d \<noteq> 0"
  using unat_dec_char [of d] by (auto simp: word_unat_eq_iff)

definition no_digit :: "byte list \<Rightarrow> bool" where
  "no_digit rest \<longleftrightarrow> rest = [] \<or> 9 < hd rest - 0x30"

lemma digits_at_str:
  assumes "list_all (\<lambda>d. d < 10) ds" "no_digit rest"
    and "e = length pre + length ds + length rest \<or> rest = [] \<and> length pre + length ds \<le> e"
  shows "digits_at (pre @ map dec_char ds @ rest) e (length pre) ds"
proof -
  have "9 < digit_at (pre @ map dec_char ds @ rest) (length pre + length ds)"
    if "length pre + length ds < e"
    using assms that by (cases rest) (auto simp: digit_at_def no_digit_def nth_append cstr_at_def)
  then show ?thesis using assms unfolding digits_at_def by (auto simp: cstr_at_def nth_append)
qed

theorem strtoll10_string:
  assumes bl: "set blanks \<subseteq> {0x20, 0x09}" and sg: "sg \<in> sign_chars"
    and ds: "ds \<noteq> []" "list_all (\<lambda>d. d < 10) ds" and rest: "no_digit rest"
    and fixed: "fixed \<or> rest = [] \<and> length sg + length ds \<le> 65535"
  shows "my_strtoll10 (blanks @ sg @ map dec_char ds @ rest) fixed =
    strtoll10_result (sg = [0x2D]) (if sg = [0x2D] then -1 else 0)
      (length blanks + length sg + length ds - length (sig_digits ds)) (sig_digits ds)"
proof -
  let ?str = "blanks @ sg @ map dec_char ds @ rest" and ?neg = "sg = [0x2D]"
  let ?p = "length blanks" and ?q = "length blanks + length sg"
  let ?e = "if fixed then length ?str else ?p + 65535"
  obtain d ds' where d: "ds = d # ds'" "d < 10" using ds by (cases ds) auto
  have blank: "\<not> (c = 0x20 \<or> c = 0x09)" if "c \<in> set sg \<union> {dec_char d}" for c
    using that sg dec_char_range [OF d(2)] by (auto simp: sign_chars_def)
  have tw: "length (takeWhile (\<lambda>c. c = 0x20 \<or> c = 0x09) ?str) = ?p"
  proof -
    have "takeWhile (\<lambda>c. c = 0x20 \<or> c = 0x09) ?str =
        blanks @ takeWhile (\<lambda>c. c = 0x20 \<or> c = 0x09) (sg @ map dec_char ds @ rest)"
      using bl by (intro takeWhile_append2) auto
    moreover have "takeWhile (\<lambda>c. c = 0x20 \<or> c = 0x09) (sg @ map dec_char ds @ rest) = []"
      using blank d by (cases sg) auto
    ultimately show ?thesis by simp
  qed
  have dg: "digits_at ?str ?e ?q ds"
    using digits_at_str [of ds rest ?e "blanks @ sg"] ds(2) rest fixed by (auto split: if_splits)
  have c: "cstr_at ?str ?p = (if sg = [] then dec_char d else hd sg)"
    using d by (cases sg) (auto simp: cstr_at_def nth_append)
  have c0: "cstr_at ?str ?p \<noteq> 0" using c sg dec_char_range [OF d(2)] by (auto simp: sign_chars_def)
  have neg: "cstr_at ?str ?p = 0x2D \<longleftrightarrow> ?neg"
    using c sg dec_char_range [OF d(2)] by (auto simp: sign_chars_def)
  have pos: "(if cstr_at ?str ?p = 0x2D \<or> cstr_at ?str ?p = 0x2B then ?p + 1 else ?p) = ?q"
    using c sg dec_char_range [OF d(2)] by (auto simp: sign_chars_def)
  have e: "?p \<noteq> ?e" "?q \<noteq> ?e" using d fixed by auto
  show ?thesis
    unfolding my_strtoll10_def tw Let_def if_not_P [OF e(1)]
    using c0 e strtoll10_start [OF dg ds(1), of "if ?neg then -1 else 0" ?neg "(0, 0, MY_ERRNO_EDOM)"]
    unfolding neg [symmetric] pos by simp
qed


section \<open>Properties\<close>

text \<open>
  C30: a decimal number that fits 64 bits is converted exactly, after blanks, a sign and leading
  zeros; a larger one gives the largest value of its sign and the error ERANGE, except for the
  numbers of \<open>missed_overflow\<close>, which are returned modulo 2^64 without an error.
\<close>
theorem strtoll10_value:
  assumes "set blanks \<subseteq> {0x20, 0x09}" "sg \<in> {[], [0x2B], [0x2D]}"
    and "ds \<noteq> []" "list_all (\<lambda>d. d < 10) ds" "rest = [] \<or> 9 < hd rest - 0x30"
    and "fixed \<or> rest = [] \<and> length sg + length ds \<le> 65535"
  defines "v \<equiv> dec_value ds" and "neg \<equiv> (sg = [0x2D])"
    and "res \<equiv> my_strtoll10 (blanks @ sg @ map dec_char ds @ rest) fixed"
  shows "if v \<le> (if neg then 2 ^ 63 else 2 ^ 64 - 1)
      then res = (if neg then - of_nat v else of_nat v, length blanks + length sg + length ds, if neg then -1 else 0)
      else if \<not> neg \<and> length (dropWhile (\<lambda>d. d = 0) ds) = 20 \<and> missed_overflow v
      then res = (of_nat v, length blanks + length sg + length ds, 0)
      else fst res = (if neg then 0x8000000000000000 else 0xFFFFFFFFFFFFFFFF) \<and> snd (snd res) = MY_ERRNO_ERANGE"
proof -
  have "length (sig_digits ds) \<le> length ds" by (rule sig_digits_suffix)
  moreover have "res = strtoll10_result neg (if neg then -1 else 0)
      (length blanks + length sg + length ds - length (sig_digits ds)) (sig_digits ds)"
    unfolding res_def neg_def by (rule strtoll10_string) (use assms in \<open>auto simp: sign_chars_def no_digit_def\<close>)
  ultimately show ?thesis
    unfolding sig_digits_def [symmetric]
    by (auto simp: strtoll10_result_def dec_value_sig v_def Let_def strtoll10_overflow_def strtoll10_consts)
qed

theorem strtoll10_value_witness:
  "my_strtoll10 [0x20, 0x2D, 0x30, 0x31, 0x32, 0x78] True = (-12, 5, -1)"
  using strtoll10_value [of "[0x20]" "[0x2D]" "[0, 1, 2]" "[0x78]" True] by (simp add: dec_char_def)

text \<open>
  The test for the overflow of 20 digits misses some numbers: 18446744073709551700 is above \<open>2 ^ 64\<close> and is converted
  to 84 without an error, while 18446744073709551716 is reported.
\<close>
lemma strtoll10_misses_overflow:
  "my_strtoll10 (map dec_char [1,8,4,4,6,7,4,4,0,7,3,7,0,9,5,5,1,7,0,0]) True = (84, 20, 0)
   \<and> my_strtoll10 (map dec_char [1,8,4,4,6,7,4,4,0,7,3,7,0,9,5,5,1,7,1,6]) True
       = (0xFFFFFFFFFFFFFFFF, 20, MY_ERRNO_ERANGE)"
  using strtoll10_string [of "[]" "[]" "[1,8,4,4,6,7,4,4,0,7,3,7,0,9,5,5,1,7,0,0]" "[]" True]
    strtoll10_string [of "[]" "[]" "[1,8,4,4,6,7,4,4,0,7,3,7,0,9,5,5,1,7,1,6]" "[]" True]
  by (simp add: strtoll10_result_def sig_digits_def sign_chars_def no_digit_def missed_overflow_def
      strtoll10_overflow_def strtoll10_consts)

text \<open>
  Without a digit behind blanks and sign the result is 0 with the error EDOM, and the stop
  position is the start of the string.
\<close>
theorem strtoll10_no_digits:
  assumes "set blanks \<subseteq> {0x20, 0x09}" "sg \<in> {[], [0x2B], [0x2D]}"
    and "rest = [] \<or> 9 < hd rest - 0x30 \<and> (sg = [] \<longrightarrow> hd rest \<notin> {0x20, 0x09, 0x2B, 0x2D})"
  shows "my_strtoll10 (blanks @ sg @ rest) fixed = (0, 0, MY_ERRNO_EDOM)"
proof -
  let ?str = "blanks @ sg @ rest" and ?p = "length blanks" and ?q = "length blanks + length sg"
  have "takeWhile (\<lambda>c. c = 0x20 \<or> c = 0x09) ?str = blanks @ takeWhile (\<lambda>c. c = 0x20 \<or> c = 0x09) (sg @ rest)"
    using assms(1) by (intro takeWhile_append2) auto
  moreover have "takeWhile (\<lambda>c. c = 0x20 \<or> c = 0x09) (sg @ rest) = []"
    using assms(2,3) by (cases sg; cases rest) auto
  ultimately have tw: "length (takeWhile (\<lambda>c. c = 0x20 \<or> c = 0x09) ?str) = ?p" by simp
  have q: "cstr_at ?str ?q = (if rest = [] then 0 else hd rest)" by (cases rest) (auto simp: nth_append)
  have p: "cstr_at ?str ?p = (if sg = [] then (if rest = [] then 0 else hd rest) else hd sg)"
    by (cases sg; cases rest) (auto simp: nth_append)
  have pos: "(if cstr_at ?str ?p = 0x2D \<or> cstr_at ?str ?p = 0x2B then ?p + 1 else ?p) = ?q"
    using assms(2,3) unfolding p by auto
  have nd: "cstr_at ?str ?q \<noteq> 0x30" "9 < digit_at ?str ?q"
    using assms(3) unfolding digit_at_def q by auto
  show ?thesis
    unfolding my_strtoll10_def tw Let_def pos if_not_P [OF nd(1)] if_P [OF nd(2)] by simp
qed

theorem strtoll10_no_digits_witness:
  "my_strtoll10 [0x20, 0x2D, 0x78] False = (0, 0, MY_ERRNO_EDOM)"
  using strtoll10_no_digits [of "[0x20]" "[0x2D]" "[0x78]" False] by simp

end
