(* ===== verification/IntStr.thy ===== *)
theory IntStr
  imports Strtoll10
begin

text \<open>
  Integers as text: \<^verbatim>\<open>MySQL/int2str.c\<close>, \<^verbatim>\<open>longlong2str.c\<close>, \<^verbatim>\<open>llstr.c\<close>.  A result is the string
  written to the destination, without its NUL.  Values are the 64-bit patterns of \<^verbatim>\<open>long\<close> and
  \<^verbatim>\<open>longlong\<close>; where a loop works on a \<^verbatim>\<open>long\<close> that is not negative it is a natural number, on
  which the signed division is that of the naturals.
\<close>

section \<open>The code\<close>

definition dig_vec_upper :: "byte list" where
  "dig_vec_upper =
     [0x30, 0x31, 0x32, 0x33, 0x34, 0x35, 0x36, 0x37, 0x38, 0x39, 0x41, 0x42, 0x43, 0x44, 0x45, 0x46,
      0x47, 0x48, 0x49, 0x4A, 0x4B, 0x4C, 0x4D, 0x4E, 0x4F, 0x50, 0x51, 0x52, 0x53, 0x54, 0x55, 0x56,
      0x57, 0x58, 0x59, 0x5A]"

definition dig_vec_lower :: "byte list" where
  "dig_vec_lower =
     [0x30, 0x31, 0x32, 0x33, 0x34, 0x35, 0x36, 0x37, 0x38, 0x39, 0x61, 0x62, 0x63, 0x64, 0x65, 0x66,
      0x67, 0x68, 0x69, 0x6A, 0x6B, 0x6C, 0x6D, 0x6E, 0x6F, 0x70, 0x71, 0x72, 0x73, 0x74, 0x75, 0x76,
      0x77, 0x78, 0x79, 0x7A]"

text \<open>
  The loop that writes the digits of \<open>val\<close> in front of \<open>p\<close>.  The radix has been checked to be at
  least 2, else the loop would not end.
\<close>

function digit_loop :: "(nat \<Rightarrow> byte) \<Rightarrow> nat \<Rightarrow> nat \<Rightarrow> byte list \<Rightarrow> byte list" where
  "digit_loop dig radix val p =
     (if val = 0 \<or> radix < 2 then p
      else let new_val = val div radix
           in digit_loop dig radix new_val (dig (val - new_val * radix) # p))"
  by pat_completeness auto
termination
  by (relation "measure (\<lambda>(dig, radix, val, p). val)") auto

declare digit_loop.simps [simp del]

text \<open>The first digit is computed with unsigned, the others with signed division.\<close>

definition first_digit :: "(nat \<Rightarrow> byte) \<Rightarrow> nat \<Rightarrow> u64 \<Rightarrow> byte list" where
  "first_digit dig radix uval =
     (let new_val = uval div of_nat radix
      in digit_loop dig radix (unat new_val) [dig (unat (uval - new_val * of_nat radix))])"

definition int2str :: "u64 \<Rightarrow> int \<Rightarrow> bool \<Rightarrow> byte list option" where
  "int2str val radix upcase =
     (let dig = (!) (if upcase then dig_vec_upper else dig_vec_lower)
      in if radix < 0 then
           if radix < -36 \<or> -2 < radix then None
           else if sint val < 0 then Some (0x2D # first_digit dig (nat (- radix)) (0 - val))
           else Some (first_digit dig (nat (- radix)) val)
         else if 36 < radix \<or> radix < 2 then None
         else Some (first_digit dig (nat radix) val))"

definition int10_to_str :: "u64 \<Rightarrow> int \<Rightarrow> byte list" where
  "int10_to_str val radix =
     (let dig = (\<lambda>d. 0x30 + of_nat d)
      in if radix < 0 \<and> sint val < 0 then 0x2D # first_digit dig 10 (0 - val)
         else first_digit dig 10 val)"

text \<open>
  The first loop of \<^verbatim>\<open>longlong2str\<close> divides unsigned as long as the value exceeds \<^verbatim>\<open>LONG_MAX\<close>,
  a parameter here: 2147483647 or 9223372036854775807.
\<close>

function big_loop :: "u64 \<Rightarrow> (nat \<Rightarrow> byte) \<Rightarrow> u64 \<Rightarrow> u64 \<Rightarrow> byte list \<Rightarrow> u64 \<times> byte list" where
  "big_loop long_max dig radix uval p =
     (if uval \<le> long_max \<or> unat radix < 2 then (uval, p)
      else let quo = uval div radix
           in big_loop long_max dig radix quo (dig (unat (uval - quo * radix)) # p))"
  by pat_completeness auto
termination
proof (relation "measure (\<lambda>(m, dig, radix, uval, p). unat uval)")
  fix long_max dig radix uval p quo
  assume "\<not> (uval \<le> long_max \<or> unat radix < 2)" "quo = uval div radix"
  moreover from this have "uval \<noteq> 0" by auto
  then have "0 < unat uval" by (simp add: unat_gt_0)
  ultimately show "((long_max, dig, radix, quo, dig (unat (uval - quo * radix)) # p), long_max, dig, radix, uval, p)
      \<in> measure (\<lambda>(m, dig, radix, uval, p). unat uval)"
    by (simp add: unat_div)
qed simp

declare big_loop.simps [simp del]

definition longlong_digits :: "u64 \<Rightarrow> nat \<Rightarrow> u64 \<Rightarrow> byte list" where
  "longlong_digits long_max radix uval =
     (if uval = 0 then [0x30]
      else case big_loop long_max ((!) dig_vec_upper) (of_nat radix) uval [] of
        (long_val, p) \<Rightarrow> digit_loop ((!) dig_vec_upper) radix (unat long_val) p)"

definition longlong2str :: "u64 \<Rightarrow> u64 \<Rightarrow> int \<Rightarrow> byte list option" where
  "longlong2str long_max val radix =
     (if radix < 0 then
        if radix < -36 \<or> -2 < radix then None
        else if sint val < 0 then Some (0x2D # longlong_digits long_max (nat (- radix)) (0 - val))
        else Some (longlong_digits long_max (nat (- radix)) val)
      else if 36 < radix \<or> radix < 2 then None
      else Some (longlong_digits long_max (nat radix) val))"

definition longlong10_to_str :: "u64 \<Rightarrow> u64 \<Rightarrow> int \<Rightarrow> byte list" where
  "longlong10_to_str long_max val radix =
     (if radix < 0 \<and> sint val < 0 then 0x2D # longlong_digits long_max 10 (0 - val)
      else longlong_digits long_max 10 val)"

definition llstr :: "u64 \<Rightarrow> u64 \<Rightarrow> byte list" where
  "llstr long_max val = longlong10_to_str long_max val (-10)"

definition ullstr :: "u64 \<Rightarrow> u64 \<Rightarrow> byte list" where
  "ullstr long_max val = longlong10_to_str long_max val 10"

section \<open>Digits\<close>

text \<open>The digits of a number, most significant first.\<close>

function radix_digits :: "nat \<Rightarrow> nat \<Rightarrow> nat list" where
  "radix_digits r n = (if n < r \<or> r < 2 then [n] else radix_digits r (n div r) @ [n mod r])"
  by pat_completeness auto
termination
  by (relation "measure snd") auto

declare radix_digits.simps [simp del]

definition radix_value :: "nat \<Rightarrow> nat list \<Rightarrow> nat" where
  "radix_value r ds = foldl (\<lambda>v d. v * r + d) 0 ds"

lemma radix_value_snoc: "radix_value r (ds @ [d]) = radix_value r ds * r + d"
  by (simp add: radix_value_def)

lemma radix_value_digits: "radix_value r (radix_digits r n) = n"
proof (induction r n rule: radix_digits.induct)
  case (1 r n)
  show ?case
  proof (cases "n < r \<or> r < 2")
    case True
    then show ?thesis by (subst radix_digits.simps) (simp add: radix_value_def)
  next
    case False
    then show ?thesis using 1 by (subst radix_digits.simps) (simp add: radix_value_snoc)
  qed
qed

lemma radix_digits_less: "2 \<le> r \<Longrightarrow> d \<in> set (radix_digits r n) \<Longrightarrow> d < r"
proof (induction r n rule: radix_digits.induct)
  case (1 r n)
  show ?case
  proof (cases "n < r")
    case True
    then show ?thesis using 1 by (subst (asm) radix_digits.simps) auto
  next
    case False
    then have "radix_digits r n = radix_digits r (n div r) @ [n mod r]"
      using 1 by (subst radix_digits.simps) auto
    then show ?thesis using 1 False by auto
  qed
qed

lemma radix_digits_ne [simp]: "radix_digits r n \<noteq> []"
  by (subst radix_digits.simps) simp

lemma radix_digits_length: "2 \<le> r \<Longrightarrow> n < r ^ Suc k \<Longrightarrow> length (radix_digits r n) \<le> Suc k"
proof (induction k arbitrary: n)
  case 0
  then show ?case by (subst radix_digits.simps) simp
next
  case (Suc k)
  show ?case
  proof (cases "n < r")
    case True
    then show ?thesis by (subst radix_digits.simps) simp
  next
    case False
    have "n div r < r ^ Suc k" using Suc.prems by (simp add: less_mult_imp_div_less mult.commute)
    then show ?thesis using Suc False by (subst radix_digits.simps) simp
  qed
qed

lemma radix_digits_hd: "2 \<le> r \<Longrightarrow> n \<noteq> 0 \<Longrightarrow> hd (radix_digits r n) \<noteq> 0"
proof (induction r n rule: radix_digits.induct)
  case (1 r n)
  show ?case
  proof (cases "n < r")
    case False
    then have "n div r \<noteq> 0" using 1 by (simp add: div_eq_0_iff)
    then show ?thesis using 1 False by (subst radix_digits.simps) (simp add: hd_append)
  qed (use 1 in \<open>subst radix_digits.simps, simp\<close>)
qed

lemma digit_loop_digits:
  "2 \<le> r \<Longrightarrow> digit_loop dig r n p = (if n = 0 then p else map dig (radix_digits r n) @ p)"
proof (induction dig r n p rule: digit_loop.induct)
  case (1 dig r n p)
  show ?case
  proof (cases "n = 0")
    case False
    have m: "n - n div r * r = n mod r" by (simp add: minus_div_mult_eq_mod)
    have "digit_loop dig r n p = digit_loop dig r (n div r) (dig (n mod r) # p)"
      using False 1 by (subst digit_loop.simps) (simp add: m)
    also have "\<dots> = (if n div r = 0 then dig (n mod r) # p
        else map dig (radix_digits r (n div r)) @ dig (n mod r) # p)"
    proof -
      have "digit_loop dig r (n div r) (dig (n - n div r * r) # p) = (if n div r = 0 then dig (n - n div r * r) # p
          else map dig (radix_digits r (n div r)) @ dig (n - n div r * r) # p)"
        using 1 False by simp
      then show ?thesis unfolding m .
    qed
    also have "\<dots> = map dig (radix_digits r n) @ p"
    proof (cases "n < r")
      case True
      then show ?thesis by (subst (2) radix_digits.simps) simp
    next
      case False
      then have "n div r \<noteq> 0" using 1 by (simp add: div_eq_0_iff)
      then show ?thesis using False 1 by (subst (2) radix_digits.simps) simp
    qed
    finally show ?thesis using False by simp
  qed (subst digit_loop.simps, simp)
qed

lemma unat_of_radix: "r \<le> 36 \<Longrightarrow> unat (of_nat r :: u64) = r"
  by (simp add: unsigned_of_nat take_bit_nat_eq_self)

lemma word_digit:
  fixes v :: u64
  assumes "2 \<le> r" "r \<le> 36"
  shows "unat (v div of_nat r) = unat v div r" "unat (v - v div of_nat r * of_nat r) = unat v mod r"
proof -
  show "unat (v div of_nat r) = unat v div r" by (simp add: unat_div unat_of_radix assms)
  have "v - v div of_nat r * of_nat r = v mod of_nat r" by (simp add: minus_div_mult_eq_mod)
  then show "unat (v - v div of_nat r * of_nat r) = unat v mod r" by (simp add: unat_mod unat_of_radix assms)
qed

lemma first_digit_digits:
  assumes "2 \<le> r" "r \<le> 36"
  shows "first_digit dig r v = map dig (radix_digits r (unat v))"
proof (cases "unat v < r")
  case True
  then show ?thesis
    using assms by (subst radix_digits.simps) (simp add: first_digit_def Let_def word_digit digit_loop_digits)
next
  case False
  then have "unat v div r \<noteq> 0" using assms by (simp add: div_eq_0_iff)
  then show ?thesis
    using False assms by (subst radix_digits.simps) (simp add: first_digit_def Let_def word_digit digit_loop_digits)
qed

lemma big_loop_digits:
  assumes "2 \<le> r" "r \<le> 36"
  shows "big_loop m dig (of_nat r) v p = (w, q) \<Longrightarrow> v \<noteq> 0 \<Longrightarrow>
     digit_loop dig r (unat w) q = map dig (radix_digits r (unat v)) @ p"
proof (induction "unat v" arbitrary: v p rule: less_induct)
  case less
  show ?case
  proof (cases "v \<le> m")
    case True
    then have "w = v" "q = p" using less.prems(1) by (auto simp: big_loop.simps)
    then show ?thesis using less.prems(2) assms by (simp add: digit_loop_digits unat_eq_zero)
  next
    case False
    let ?q = "v div of_nat r"
    note wd = word_digit [OF assms, of v]
    have b: "big_loop m dig (of_nat r) ?q (dig (unat v mod r) # p) = (w, q)"
      using less.prems(1) False assms by (subst (asm) big_loop.simps) (simp add: Let_def wd unat_of_radix)
    have v0: "0 < unat v" using less.prems(2) by (simp add: unat_gt_0)
    show ?thesis
    proof (cases "unat v < r")
      case True
      then have q0: "?q = 0" using wd(1) by (simp add: unat_eq_zero [symmetric])
      then have "w = 0" "q = dig (unat v mod r) # p" using b by (auto simp: big_loop.simps)
      then show ?thesis using True assms by (subst radix_digits.simps) (simp add: digit_loop_digits)
    next
      case ge: False
      have "unat ?q \<noteq> 0" using wd(1) ge assms by (simp add: div_eq_0_iff)
      then have q0: "?q \<noteq> 0" by (simp add: unat_eq_zero)
      have "unat ?q < unat v" using wd(1) v0 assms by simp
      from less.hyps [OF this b q0] show ?thesis
        using ge assms wd(1) by (subst radix_digits.simps) simp
    qed
  qed
qed

lemma longlong_digits_spec:
  assumes "2 \<le> r" "r \<le> 36"
  shows "longlong_digits m r v = map ((!) dig_vec_upper) (radix_digits r (unat v))"
proof (cases "v = 0")
  case True
  then show ?thesis using assms
    by (subst radix_digits.simps) (simp add: longlong_digits_def dig_vec_upper_def)
next
  case False
  obtain w q where b: "big_loop m ((!) dig_vec_upper) (of_nat r) v [] = (w, q)" by (cases "big_loop m ((!) dig_vec_upper) (of_nat r) v []")
  then show ?thesis using big_loop_digits [OF assms b False] False by (simp add: longlong_digits_def)
qed


section \<open>The strings\<close>

lemma unat_neg: "v \<noteq> 0 \<Longrightarrow> unat (0 - v) = 2 ^ 64 - unat v" for v :: u64
  using unat_sub_if' [of 0 v] by (simp add: unat_eq_zero [symmetric])

lemma wrap_signed:
  fixes u :: int
  assumes "0 \<le> u" "u < 2 ^ 64"
  shows "(u + 2 ^ 63) mod 2 ^ 64 - 2 ^ 63 = (if u < 2 ^ 63 then u else u - 2 ^ 64)"
proof (cases "u < 2 ^ 63")
  case True
  then show ?thesis using assms by (simp add: mod_pos_pos_trivial)
next
  case False
  have "u + 2 ^ 63 = (u - 2 ^ 63) + 2 ^ 64" by simp
  then have "(u + 2 ^ 63) mod 2 ^ 64 = ((u - 2 ^ 63) + 2 ^ 64) mod 2 ^ 64" by (simp only:)
  also have "\<dots> = (u - 2 ^ 63) mod 2 ^ 64" by (rule mod_add_self2)
  also have "\<dots> = u - 2 ^ 63" using False assms by (intro mod_pos_pos_trivial) auto
  finally show ?thesis using False by simp
qed

lemma sint_u64: "sint v = (if unat v < 2 ^ 63 then int (unat v) else int (unat v) - 2 ^ 64)" for v :: u64
proof -
  have "LENGTH(64) - Suc 0 = 63" "Suc 63 = 64" by simp_all
  then have "sint v = take_bit 64 (uint v + 2 ^ 63) - 2 ^ 63"
    using sint_uint [of v] signed_take_bit_eq_take_bit_shift [of 63 "uint v"] by metis
  also have "take_bit 64 (uint v + 2 ^ 63) = (uint v + 2 ^ 63) mod 2 ^ 64" by (rule take_bit_eq_mod)
  finally have "sint v = (uint v + 2 ^ 63) mod 2 ^ 64 - 2 ^ 63" .
  also have "\<dots> = (if uint v < 2 ^ 63 then uint v else uint v - 2 ^ 64)"
    by (rule wrap_signed) (use unsigned_less [of v, where 'a = int] in simp_all)
  also have "uint v < 2 ^ 63 \<longleftrightarrow> unat v < 2 ^ 63"
    using of_nat_less_iff [of "unat v" "2 ^ 63", where 'a = int] by simp
  finally show ?thesis by simp
qed

lemma sint_neg_unat: "sint v < 0 \<Longrightarrow> sint v = int (unat v) - 2 ^ 64 \<and> v \<noteq> 0" for v :: u64
  by (auto simp: sint_u64 split: if_splits)

lemma sint_pos_unat: "\<not> sint v < 0 \<Longrightarrow> sint v = int (unat v)" for v :: u64
  using unsigned_less [of v, where 'a = int] by (auto simp: sint_u64 split: if_splits)

lemma abs_sint: "unat (if sint v < 0 then 0 - v else v) = nat \<bar>sint v\<bar>" for v :: u64
proof (cases "sint v < 0")
  case True
  then have v: "sint v = int (unat v) - 2 ^ 64" "v \<noteq> 0" using sint_neg_unat by blast+
  moreover have "unat v < 2 ^ 64" using unat_u64_less [of v] by simp
  then have "2 ^ 64 - unat v = nat (- (int (unat v) - 2 ^ 64))"
    by (simp add: nat_diff_distrib' of_nat_diff del: int_nat_eq)
  then have "unat (0 - v) = nat (- sint v)" unfolding unat_neg [OF v(2)] v(1) .
  then show ?thesis using True by simp
next
  case False
  then show ?thesis using sint_pos_unat [of v] by simp
qed

text \<open>The text of an integer: \<open>sgd\<close> tells whether the 64 bits are read as signed.\<close>

definition int_text :: "(nat \<Rightarrow> byte) \<Rightarrow> nat \<Rightarrow> bool \<Rightarrow> u64 \<Rightarrow> byte list" where
  "int_text dig r sgd v =
     (if sgd then (if sint v < 0 then [0x2D] else []) @ map dig (radix_digits r (nat \<bar>sint v\<bar>))
      else map dig (radix_digits r (unat v)))"

lemma signed_text:
  "(if sint v < 0 then 0x2D # map dig (radix_digits r (unat (0 - v))) else map dig (radix_digits r (unat v)))
     = int_text dig r True v"
  using abs_sint [of v] by (auto simp: int_text_def split: if_splits)

lemma unsigned_text: "map dig (radix_digits r (unat v)) = int_text dig r False v"
  by (simp add: int_text_def)

lemma int2str_text:
  "int2str v radix upcase =
     (if 2 \<le> \<bar>radix\<bar> \<and> \<bar>radix\<bar> \<le> 36
      then Some (int_text ((!) (if upcase then dig_vec_upper else dig_vec_lower)) (nat \<bar>radix\<bar>) (radix < 0) v)
      else None)"
proof (cases "2 \<le> \<bar>radix\<bar> \<and> \<bar>radix\<bar> \<le> 36")
  case True
  define r where "r = nat \<bar>radix\<bar>"
  have r: "2 \<le> r" "r \<le> 36" "radix < 0 \<Longrightarrow> nat (- radix) = r" "\<not> radix < 0 \<Longrightarrow> nat radix = r"
    using True by (auto simp: r_def)
  have "\<not> (radix < -36 \<or> -2 < radix)" if "radix < 0" using True that by auto
  moreover have "\<not> (36 < radix \<or> radix < 2)" if "\<not> radix < 0" using True that by auto
  ultimately show ?thesis
    using True unfolding r_def [symmetric] int2str_def Let_def
    by (auto simp: r first_digit_digits signed_text [symmetric] unsigned_text [symmetric])
next
  case False
  then show ?thesis by (auto simp: int2str_def Let_def)
qed

lemma int10_to_str_text:
  "int10_to_str v radix = int_text (\<lambda>d. 0x30 + of_nat d) 10 (radix < 0) v"
  by (cases "radix < 0")
    (auto simp: int10_to_str_def Let_def first_digit_digits signed_text [symmetric] unsigned_text [symmetric])

lemma longlong2str_text:
  "longlong2str long_max v radix =
     (if 2 \<le> \<bar>radix\<bar> \<and> \<bar>radix\<bar> \<le> 36 then Some (int_text ((!) dig_vec_upper) (nat \<bar>radix\<bar>) (radix < 0) v)
      else None)"
proof (cases "2 \<le> \<bar>radix\<bar> \<and> \<bar>radix\<bar> \<le> 36")
  case True
  define r where "r = nat \<bar>radix\<bar>"
  have r: "2 \<le> r" "r \<le> 36" "radix < 0 \<Longrightarrow> nat (- radix) = r" "\<not> radix < 0 \<Longrightarrow> nat radix = r"
    using True by (auto simp: r_def)
  have "\<not> (radix < -36 \<or> -2 < radix)" if "radix < 0" using True that by auto
  moreover have "\<not> (36 < radix \<or> radix < 2)" if "\<not> radix < 0" using True that by auto
  ultimately show ?thesis
    using True unfolding r_def [symmetric] longlong2str_def
    by (auto simp: r longlong_digits_spec signed_text [symmetric] unsigned_text [symmetric])
next
  case False
  then show ?thesis by (auto simp: longlong2str_def)
qed

lemma longlong10_to_str_text:
  "longlong10_to_str long_max v radix = int_text ((!) dig_vec_upper) 10 (radix < 0) v"
  by (cases "radix < 0")
    (auto simp: longlong10_to_str_def longlong_digits_spec signed_text [symmetric] unsigned_text [symmetric])

text \<open>The digit characters below ten are the same everywhere.\<close>

lemma dig_vec_ten: "d < 10 \<Longrightarrow> dig_vec_upper ! d = 0x30 + of_nat d \<and> dig_vec_lower ! d = 0x30 + of_nat d"
  by (auto simp: dig_vec_upper_def dig_vec_lower_def less_Suc_eq numeral_eq_Suc)

lemma int_text_cong:
  "2 \<le> r \<Longrightarrow> (\<And>d. d < r \<Longrightarrow> f d = g d) \<Longrightarrow> int_text f r s v = int_text g r s v"
  using radix_digits_less by (auto simp: int_text_def)

lemma int_text_ten:
  "int_text ((!) dig_vec_upper) 10 s v = int_text (\<lambda>d. 0x30 + of_nat d) 10 s v"
  "int_text ((!) dig_vec_lower) 10 s v = int_text (\<lambda>d. 0x30 + of_nat d) 10 s v"
  using int_text_cong [of 10 "(!) dig_vec_upper" "\<lambda>d. 0x30 + of_nat d"]
    int_text_cong [of 10 "(!) dig_vec_lower" "\<lambda>d. 0x30 + of_nat d"] dig_vec_ten by simp_all


section \<open>Properties\<close>

text \<open>
  C32: \<^verbatim>\<open>int2str\<close> writes the sign and the digits of the value in the radix, without leading zeros;
  the text with its NUL fits the buffer of 65 bytes behind the sign; a radix outside 2..36 and
  -36..-2 is refused.
\<close>
theorem int2str_digits:
  "int2str v radix upcase =
     (if 2 \<le> \<bar>radix\<bar> \<and> \<bar>radix\<bar> \<le> 36
      then let n = (if radix < 0 then nat \<bar>sint v\<bar> else unat v); ds = radix_digits (nat \<bar>radix\<bar>) n
           in Some ((if radix < 0 \<and> sint v < 0 then [0x2D] else [])
                @ map ((!) (if upcase then dig_vec_upper else dig_vec_lower)) ds)
      else None)
   \<and> (2 \<le> \<bar>radix\<bar> \<longrightarrow>
        (let n = (if radix < 0 then nat \<bar>sint v\<bar> else unat v); ds = radix_digits (nat \<bar>radix\<bar>) n
         in radix_value (nat \<bar>radix\<bar>) ds = n \<and> (\<forall>d \<in> set ds. d < nat \<bar>radix\<bar>)
            \<and> (n \<noteq> 0 \<longrightarrow> hd ds \<noteq> 0) \<and> length ds \<le> 64))"
proof (intro conjI impI)
  assume r: "2 \<le> \<bar>radix\<bar>"
  define n where "n = (if radix < 0 then nat \<bar>sint v\<bar> else unat v)"
  have "n < 2 ^ 64"
    using unat_u64_less [of v] abs_sint [of v] unat_u64_less [of "if sint v < 0 then 0 - v else v"]
    by (auto simp: n_def)
  also have "(2::nat) ^ 64 \<le> nat \<bar>radix\<bar> ^ 64" using r by (intro power_mono) auto
  finally have "n < nat \<bar>radix\<bar> ^ Suc 63" by simp
  then have "length (radix_digits (nat \<bar>radix\<bar>) n) \<le> Suc 63" using r by (intro radix_digits_length) auto
  moreover have "2 \<le> nat \<bar>radix\<bar>" using r by auto
  ultimately show "let n = (if radix < 0 then nat \<bar>sint v\<bar> else unat v); ds = radix_digits (nat \<bar>radix\<bar>) n
      in radix_value (nat \<bar>radix\<bar>) ds = n \<and> (\<forall>d \<in> set ds. d < nat \<bar>radix\<bar>)
         \<and> (n \<noteq> 0 \<longrightarrow> hd ds \<noteq> 0) \<and> length ds \<le> 64"
    unfolding n_def [symmetric] Let_def
    using radix_value_digits radix_digits_less radix_digits_hd by auto
qed (auto simp: int2str_text int_text_def Let_def)

theorem int2str_digits_witness:
  "int2str (-255) (-16) True = Some [0x2D, 0x46, 0x46] \<and> length (radix_digits 16 255) \<le> 64"
  using int2str_digits [of "-255" "-16" True]
  by (simp add: radix_digits.simps dig_vec_upper_def Let_def)

text \<open>
  The four conversions agree: the decimal ones with \<^verbatim>\<open>int2str\<close> in radix 10 and -10, and those
  for \<^verbatim>\<open>longlong\<close> with those for \<^verbatim>\<open>long\<close>, whatever the width of \<^verbatim>\<open>long\<close>.
\<close>
theorem int_strings_agree:
  "longlong2str long_max v radix = int2str v radix True
   \<and> Some (int10_to_str v radix) = int2str v (if radix < 0 then -10 else 10) upcase
   \<and> longlong10_to_str long_max v radix = int10_to_str v radix"
  by (simp add: longlong2str_text int2str_text int10_to_str_text longlong10_to_str_text int_text_ten)

lemma radix_ten: "radix_value 10 ds = dec_value ds"
  by (simp add: radix_value_def dec_value_def)

lemma sig_radix_digits: "sig_digits (radix_digits 10 n) = (if n = 0 then [] else radix_digits 10 n)"
proof (cases "n = 0")
  case True
  then show ?thesis by (subst radix_digits.simps) (simp add: sig_digits_def)
next
  case False
  obtain d ds where "radix_digits 10 n = d # ds" using radix_digits_ne [of 10 n] by (cases "radix_digits 10 n") auto
  then show ?thesis using False radix_digits_hd [of 10 n] by (simp add: sig_digits_def)
qed

lemma strtoll10_radix_digits:
  assumes "n \<le> (if neg then 2 ^ 63 else 2 ^ 64 - 1)"
  shows "my_strtoll10 ((if neg then [0x2D] else []) @ map dec_char (radix_digits 10 n)) True =
    (if neg then - of_nat n else of_nat n, length (radix_digits 10 n) + (if neg then 1 else 0), if neg then -1 else 0)"
proof -
  let ?ds = "radix_digits 10 n"
  have l: "list_all (\<lambda>d. d < 10) ?ds" using radix_digits_less [of 10 _ n] by (auto simp: list_all_iff)
  have v: "dec_value (sig_digits ?ds) = n" using radix_value_digits [of 10 n] by (simp add: dec_value_sig radix_ten)
  have "length (sig_digits ?ds) \<le> length ?ds" by (rule sig_digits_suffix)
  then show ?thesis
    using strtoll10_string [of "[]" "if neg then [0x2D] else []" ?ds "[]" True] l assms
    by (cases neg) (simp_all add: sign_chars_def no_digit_def strtoll10_result_def v Let_def)
qed

lemma dec_char_eq: "dec_char = (\<lambda>d. 0x30 + of_nat d)"
  by (simp add: dec_char_def fun_eq_iff)

text \<open>
  \<^verbatim>\<open>my_strtoll10\<close> reads back what the decimal conversions write, for every 64-bit value,
  signed and unsigned, and stops at the end of the text.
\<close>
theorem strtoll10_int10_to_str:
  "my_strtoll10 (int10_to_str v radix) True =
     (v, length (int10_to_str v radix), if radix < 0 \<and> sint v < 0 then -1 else 0)"
proof (cases "radix < 0 \<and> sint v < 0")
  case True
  have v: "nat \<bar>sint v\<bar> \<le> 2 ^ 63" 
  proof -
    have "\<bar>sint v\<bar> \<le> 2 ^ 63"
      using sint_neg_unat [of v] sint_u64 [of v] True of_nat_less_iff [of "unat v" "2 ^ 63", where 'a = int]
      by (simp split: if_splits)
    then show ?thesis by simp
  qed
  have t: "int10_to_str v radix = [0x2D] @ map dec_char (radix_digits 10 (nat \<bar>sint v\<bar>))"
    using True by (simp add: int10_to_str_text int_text_def dec_char_eq)
  have "- of_nat (nat \<bar>sint v\<bar>) = v"
  proof -
    have "unat (0 - v) = nat \<bar>sint v\<bar>" using abs_sint [of v] True by (simp only: if_True)
    then have "of_nat (nat \<bar>sint v\<bar>) = (of_nat (unat (0 - v)) :: u64)" by (simp only:)
    then show ?thesis by simp
  qed
  then show ?thesis using strtoll10_radix_digits [of "nat \<bar>sint v\<bar>" True] v True unfolding t by simp
next
  case False
  have t: "int10_to_str v radix = map dec_char (radix_digits 10 (unat v))"
    using False abs_sint [of v] by (auto simp: int10_to_str_text int_text_def dec_char_eq)
  have "unat v \<le> 2 ^ 64 - 1" using unat_u64_less [of v] by simp
  then show ?thesis using strtoll10_radix_digits [of "unat v" False] False unfolding t by auto
qed

end
