(* ===== verification/Str2int.thy ===== *)
theory Str2int
  imports IntStr "HOL-Library.Signed_Division"
begin

text \<open>
  Text to \<^verbatim>\<open>long\<close> in any radix within bounds (\<^verbatim>\<open>MySQL/str2int.c\<close>), with the character classes
  of latin1.  The build defines \<^verbatim>\<open>DBUG_OFF\<close> (\<^verbatim>\<open>MySQL/my_config.h\<close>), so that the check of the radix
  is not compiled.  A \<^verbatim>\<open>long\<close> of 64 bits is an integer, with its wrap-around written out where the
  code multiplies and adds.
\<close>

section \<open>The code\<close>

definition ctype_latin1 :: "nat list" where
  "ctype_latin1 =
     [0,
      32, 32, 32, 32, 32, 32, 32, 32, 32, 40, 40, 40, 40, 40, 32, 32,
      32, 32, 32, 32, 32, 32, 32, 32, 32, 32, 32, 32, 32, 32, 32, 32,
      72, 16, 16, 16, 16, 16, 16, 16, 16, 16, 16, 16, 16, 16, 16, 16,
      132, 132, 132, 132, 132, 132, 132, 132, 132, 132, 16, 16, 16, 16, 16, 16,
      16, 129, 129, 129, 129, 129, 129, 1, 1, 1, 1, 1, 1, 1, 1, 1,
      1, 1, 1, 1, 1, 1, 1, 1, 1, 1, 1, 16, 16, 16, 16, 16,
      16, 130, 130, 130, 130, 130, 130, 2, 2, 2, 2, 2, 2, 2, 2, 2,
      2, 2, 2, 2, 2, 2, 2, 2, 2, 2, 2, 16, 16, 16, 16, 32,
      16, 0, 16, 2, 16, 16, 16, 16, 16, 16, 1, 16, 1, 0, 1, 0,
      0, 16, 16, 16, 16, 16, 16, 16, 16, 16, 2, 16, 2, 0, 2, 1,
      72, 16, 16, 16, 16, 16, 16, 16, 16, 16, 16, 16, 16, 16, 16, 16,
      16, 16, 16, 16, 16, 16, 16, 16, 16, 16, 16, 16, 16, 16, 16, 16,
      1, 1, 1, 1, 1, 1, 1, 1, 1, 1, 1, 1, 1, 1, 1, 1,
      1, 1, 1, 1, 1, 1, 1, 16, 1, 1, 1, 1, 1, 1, 1, 2,
      2, 2, 2, 2, 2, 2, 2, 2, 2, 2, 2, 2, 2, 2, 2, 2,
      2, 2, 2, 2, 2, 2, 2, 16, 2, 2, 2, 2, 2, 2, 2, 2]"

definition my_isspace :: "byte \<Rightarrow> bool" where
  "my_isspace c \<longleftrightarrow> (ctype_latin1 ! (unat c + 1)) AND 8 \<noteq> 0"

definition char_val :: "byte \<Rightarrow> nat" where
  "char_val c =
     (if 0x30 \<le> c \<and> c \<le> 0x39 then unat c - 0x30
      else if 0x41 \<le> c \<and> c \<le> 0x5A then unat c - 0x41 + 10
      else if 0x61 \<le> c \<and> c \<le> 0x7A then unat c - 0x61 + 10
      else 127)"

definition wrap_long :: "int \<Rightarrow> int" where
  "wrap_long x = (x + 2 ^ 63) mod 2 ^ 64 - 2 ^ 63"

text \<open>The digits from \<open>s\<close> on, \<open>n\<close> at most, and the position behind them.\<close>

primrec scan_radix :: "byte list \<Rightarrow> int \<Rightarrow> nat \<Rightarrow> nat \<Rightarrow> nat list \<times> nat" where
  "scan_radix str radix 0 s = ([], s)"
| "scan_radix str radix (Suc n) s =
     (if int (char_val (cstr_at str s)) < radix then
        case scan_radix str radix n (s + 1) of
          (ds, s') \<Rightarrow> (char_val (cstr_at str s) # ds, s')
      else ([], s))"

text \<open>
  The conversion, from the last digit to the first, on negative values: \<open>limit\<close> is the least value
  the digits to the left may have.  \<^const>\<open>None\<close> is the error \<^verbatim>\<open>ERANGE\<close>.
\<close>

fun convert_digits :: "int \<Rightarrow> nat list \<Rightarrow> int \<Rightarrow> int \<Rightarrow> int \<Rightarrow> int option" where
  "convert_digits radix [] limit sofar scale = Some sofar"
| "convert_digits radix [d] limit sofar scale =
     (if - int d < limit then None else Some (wrap_long (sofar + wrap_long (int d * scale))))"
| "convert_digits radix (d # d' # ds) limit sofar scale =
     (if - int d < limit then None
      else convert_digits radix (d' # ds) (wrap_long (limit + int d) sdiv radix)
             (wrap_long (sofar + wrap_long (int d * scale))) (wrap_long (scale * radix)))"

definition str2int :: "byte list \<Rightarrow> int \<Rightarrow> u64 \<Rightarrow> u64 \<Rightarrow> int + int \<times> nat" where
  "str2int str radix lower upper =
     (let lower = sint lower; upper = sint upper;
          limit = (if 0 < lower then - lower else lower);
          scale = (if 0 < upper then - upper else upper);
          limit = (if scale < limit then scale else limit);
          s = length (takeWhile my_isspace str);
          (negative, s) = (if cstr_at str s = 0x2B then (False, s + 1)
                           else if cstr_at str s = 0x2D then (True, s + 1) else (False, s));
          start = s;
          s = s + length (takeWhile (\<lambda>c. c = 0x30) (drop s str));
          (digits, s) = scan_radix str radix 20 s
      in if start = s then Inl MY_ERRNO_EDOM
         else case convert_digits radix (rev digits) limit 0 (-1) of
           None \<Rightarrow> Inl MY_ERRNO_ERANGE
         | Some sofar \<Rightarrow>
             if \<not> negative then
               if sofar < - (2 ^ 63 - 1) \<or> upper < - sofar then Inl MY_ERRNO_ERANGE
               else Inr (- sofar, s)
             else if sofar < lower then Inl MY_ERRNO_ERANGE
             else Inr (sofar, s))"

section \<open>The conversion\<close>

lemma wrap_long_id: "- (2 ^ 63) \<le> x \<Longrightarrow> x < 2 ^ 63 \<Longrightarrow> wrap_long x = x"
  by (simp add: wrap_long_def)

lemma sdiv_int: "int a sdiv int r = int (a div r)"
  by (cases "a = 0"; cases "r = 0") (simp_all add: signed_divide_int_def zdiv_int)

lemma lsb_value_le:
  fixes r :: nat
  assumes "0 < r"
  shows "v * r + d \<le> L \<longleftrightarrow> d \<le> L \<and> v \<le> (L - d) div r"
  using less_eq_div_iff_mult_less_eq [OF assms, of v "L - d"] by auto

text \<open>
  \<open>P\<close> is the power of the radix reached, \<open>A\<close> the value of the digits done and \<open>L\<close> the greatest value
  of those to come.  When \<open>L\<close> is 0 only zeros may follow, and the scale, which may have wrapped
  around, does not matter.
\<close>

lemma convert_digits_spec:
  assumes "2 \<le> r" "r \<le> 36" "0 \<le> A" "0 < P" "A + P * int L \<le> 2 ^ 63" "L \<noteq> 0 \<longrightarrow> sc = - P"
  shows "convert_digits (int r) ds (- int L) (- A) sc =
    (let v = foldr (\<lambda>d v. v * r + d) ds 0 in if v \<le> L then Some (- (A + P * int v)) else None)"
  using assms(3-6)
proof (induction ds arbitrary: A P L sc)
  case Nil
  then show ?case by simp
next
  case (Cons d ds)
  define v where "v = foldr (\<lambda>d v. v * r + d) ds 0"
  show ?case
  proof (cases "d \<le> L")
    case False
    then have "\<not> v * r + d \<le> L" by auto
    moreover have "convert_digits (int r) (d # ds) (- int L) (- A) sc = None"
      using False by (cases ds) simp_all
    ultimately show ?thesis by (simp add: v_def)
  next
    case True
    have PL: "0 \<le> P * int d" "P * int d \<le> P * int L" using True Cons.prems(2) by simp_all
    have dsc: "int d * sc = - (P * int d)"
      using True Cons.prems(4) by (cases "L = 0") simp_all
    have w: "wrap_long (int d * sc) = - (P * int d)"
      using PL Cons.prems(1,3) unfolding dsc
      by (intro wrap_long_id) auto
    have s: "wrap_long (- A + wrap_long (int d * sc)) = - (A + P * int d)"
      using PL Cons.prems(1,3) unfolding w by (subst wrap_long_id) auto
    show ?thesis
    proof (cases ds)
      case Nil
      then show ?thesis using True s by simp
    next
      case (Cons d' ds')
      define L' where "L' = (L - d) div r"
      have "int L \<le> P * int L" using \<open>0 < P\<close> by (cases "L = 0") auto
      then have "int L \<le> 2 ^ 63" using \<open>0 \<le> A\<close> \<open>A + P * int L \<le> 2 ^ 63\<close> by linarith
      then have "wrap_long (- int L + int d) = - int (L - d)"
        using True by (subst wrap_long_id) auto
      then have lim: "wrap_long (- int L + int d) sdiv int r = - int L'"
        using assms(1) by (simp add: sdiv_int L'_def)
      have "r * L' \<le> L - d" unfolding L'_def by (rule times_div_less_eq_dividend)
      then have "r * L' + d \<le> L" using True by linarith
      then have "P * int (r * L' + d) \<le> P * int L"
        using \<open>0 < P\<close> by (intro mult_left_mono) (simp_all only: of_nat_le_iff)
      then have inv: "(A + P * int d) + (P * int r) * int L' \<le> 2 ^ 63"
        using \<open>A + P * int L \<le> 2 ^ 63\<close> by (simp add: algebra_simps)
      have sc: "wrap_long (sc * int r) = - (P * int r)" if "L' \<noteq> 0"
      proof -
        have "L \<noteq> 0" by (rule ccontr) (use that in \<open>simp add: L'_def\<close>)
        moreover have "P * int r * 1 \<le> P * int r * int L'"
          using that \<open>0 < P\<close> by (intro mult_left_mono) auto
        then have "P * int r \<le> 2 ^ 63" using inv PL \<open>0 \<le> A\<close> by linarith
        moreover have "0 \<le> P * int r" using \<open>0 < P\<close> by simp
        ultimately show ?thesis using \<open>L \<noteq> 0 \<longrightarrow> sc = - P\<close> by (subst wrap_long_id) auto
      qed
      have "convert_digits (int r) (d # ds) (- int L) (- A) sc =
          convert_digits (int r) ds (- int L') (- (A + P * int d)) (wrap_long (sc * int r))"
        unfolding Cons convert_digits.simps lim s using True by simp
      also have "\<dots> = (if v \<le> L' then Some (- ((A + P * int d) + (P * int r) * int v)) else None)"
        unfolding v_def using Cons.IH [of "A + P * int d" "P * int r" L' "wrap_long (sc * int r)"]
          inv sc PL \<open>0 < P\<close> \<open>0 \<le> A\<close> assms(1) by simp
      also have "\<dots> = (if v * r + d \<le> L then Some (- (A + P * int (v * r + d))) else None)"
        using True assms(1) lsb_value_le [of r v d L] by (simp add: L'_def algebra_simps)
      finally show ?thesis by (simp add: v_def)
    qed
  qed
qed

section \<open>The scan\<close>

definition digit_chars :: "nat \<Rightarrow> byte list \<Rightarrow> bool" where
  "digit_chars r cs \<longleftrightarrow> list_all (\<lambda>c. char_val c < r) cs"

lemma char_val_zero: "char_val c = 0 \<longleftrightarrow> c = 0x30"
proof
  assume a: "char_val c = 0"
  then have "0x30 \<le> c" "c \<le> 0x39" "unat c - 0x30 = 0" by (auto simp: char_val_def split: if_splits)
  then have "unat c = unat (0x30 :: byte)" by (simp add: word_le_nat_alt)
  then show "c = 0x30" by (rule word_unat_eq_iff [THEN iffD2])
qed (simp add: char_val_def)

lemma cstr_at_append: "cstr_at (xs @ ys) (length xs + i) = cstr_at ys i"
  by (simp add: cstr_at_def nth_append)

lemma scan_radix_append:
  assumes "digit_chars r cs" "length cs < n \<Longrightarrow> r \<le> char_val (cstr_at rest 0)"
  shows "scan_radix (pre @ cs @ rest) (int r) n (length pre) =
    (map char_val (take n cs), length pre + min n (length cs))"
  using assms
proof (induction cs arbitrary: n pre)
  case Nil
  then show ?case using cstr_at_append [of pre rest 0] by (cases n) auto
next
  case (Cons c cs)
  show ?case
  proof (cases n)
    case (Suc m)
    have "scan_radix ((pre @ [c]) @ cs @ rest) (int r) m (length (pre @ [c])) =
        (map char_val (take m cs), length (pre @ [c]) + min m (length cs))"
      by (rule Cons.IH) (use Cons.prems Suc in \<open>simp_all add: digit_chars_def\<close>)
    moreover have "cstr_at (pre @ c # cs @ rest) (length pre) = c" by simp
    ultimately show ?thesis using Cons.prems Suc by (simp add: digit_chars_def)
  qed simp
qed

lemma radix_value_foldr: "radix_value r ds = foldr (\<lambda>d v. v * r + d) (rev ds) 0"
  by (simp add: radix_value_def foldl_conv_foldr)

lemma radix_value_zeros: "radix_value r (replicate n 0 @ ds) = radix_value r ds"
  by (induction n) (simp_all add: radix_value_def)

text \<open>The conversion of the digits \<open>ds\<close> with the initial limit.\<close>

lemma convert_value:
  fixes lower upper :: u64 and ds :: "nat list"
  assumes "2 \<le> r" "r \<le> 36"
  defines "M \<equiv> nat (max \<bar>sint lower\<bar> \<bar>sint upper\<bar>)" and "v \<equiv> radix_value r ds"
  shows "convert_digits (int r) (rev ds) (- int M) 0 (-1) = (if v \<le> M then Some (- int v) else None)"
proof -
  have "\<bar>sint lower\<bar> \<le> 2 ^ 63" "\<bar>sint upper\<bar> \<le> 2 ^ 63"
    using sint_ge [of lower] sint_lt [of lower] sint_ge [of upper] sint_lt [of upper] by auto
  then have "0 + 1 * int M \<le> 2 ^ 63" by (auto simp: M_def)
  then show ?thesis
    using convert_digits_spec [of r 0 1 M "-1" "rev ds"] assms(1,2)
    by (simp add: v_def radix_value_foldr Let_def)
qed

lemma start_limit:
  fixes l u :: int
  shows "(if (if 0 < u then - u else u) < (if 0 < l then - l else l) then (if 0 < u then - u else u)
     else (if 0 < l then - l else l)) = - int (nat (max \<bar>l\<bar> \<bar>u\<bar>))"
  by auto

text \<open>The white space of latin1: the controls 9 to 13, the space and the no-break space.\<close>

lemma replicate_numeral: "replicate (numeral k) x = x # replicate (pred_numeral k) x"
  by (simp add: numeral_eq_Suc)

lemma space_codes:
  "map (\<lambda>t. t AND 8 \<noteq> 0) (tl ctype_latin1) =
     replicate 9 False @ replicate 5 True @ replicate 18 False @ [True] @ replicate 127 False @ [True]
     @ replicate 95 False"
  by (simp add: ctype_latin1_def replicate_numeral)

lemma my_isspace_iff: "my_isspace c \<longleftrightarrow> unat c \<in> {9, 10, 11, 12, 13, 32, 160}"
proof -
  have l: "length ctype_latin1 = 257" by (simp add: ctype_latin1_def)
  have "my_isspace c \<longleftrightarrow> map (\<lambda>t. t AND 8 \<noteq> 0) (tl ctype_latin1) ! unat c"
    using l unat_byte_less [of c] by (simp add: my_isspace_def nth_tl)
  also have "\<dots> \<longleftrightarrow> unat c \<in> {9, 10, 11, 12, 13, 32, 160}"
  proof -
    have "unat c - 161 < 95" using unat_byte_less [of c] by linarith
    then show ?thesis unfolding space_codes by (auto simp: nth_append nth_Cons')
  qed
  finally show ?thesis .
qed

lemma digit_not_space: "char_val c < 36 \<Longrightarrow> \<not> my_isspace c \<and> c \<noteq> 0x2B \<and> c \<noteq> 0x2D \<and> c \<noteq> 0"
  by (auto simp: my_isspace_iff char_val_def word_le_nat_alt split: if_splits)

definition str2int_result :: "bool \<Rightarrow> nat \<Rightarrow> u64 \<Rightarrow> u64 \<Rightarrow> nat \<Rightarrow> int + int \<times> nat" where
  "str2int_result neg v lower upper s =
     (let v = (if neg then - int v else int v)
      in if (if neg then sint lower \<le> v else v \<le> sint upper) then Inr (v, s) else Inl MY_ERRNO_ERANGE)"

lemma range_check:
  fixes v :: nat
  shows "(case if v \<le> nat (max \<bar>sint lower\<bar> \<bar>sint upper\<bar>) then Some (- int v) else None of
     None \<Rightarrow> Inl MY_ERRNO_ERANGE
   | Some sofar \<Rightarrow>
       if \<not> neg then
         if sofar < - (2 ^ 63 - 1) \<or> sint upper < - sofar then Inl MY_ERRNO_ERANGE else Inr (- sofar, s)
       else if sofar < sint lower then Inl MY_ERRNO_ERANGE else Inr (sofar, s)) =
   str2int_result neg v lower upper s"
proof -
  have u: "sint upper < 2 ^ 63" using sint_lt [of upper] by simp
  show ?thesis
  proof (cases "int v \<le> max \<bar>sint lower\<bar> \<bar>sint upper\<bar>")
    case True
    then have "v \<le> nat (max \<bar>sint lower\<bar> \<bar>sint upper\<bar>)" by simp
    then show ?thesis using u by (cases neg) (simp_all add: str2int_result_def)
  next
    case False
    then have "\<not> v \<le> nat (max \<bar>sint lower\<bar> \<bar>sint upper\<bar>)" "\<not> int v \<le> sint upper"
      "\<not> sint lower \<le> - int v" by linarith+
    then show ?thesis by (cases neg) (simp_all add: str2int_result_def)
  qed
qed

lemma no_zero_prefix: "xs = [] \<or> hd xs \<noteq> z \<Longrightarrow> length (takeWhile (\<lambda>c. c = z) (replicate k z @ xs)) = k"
  by (induction k) (cases xs; simp)+

lemma str2int_string:
  assumes r: "2 \<le> r" "r \<le> 36" and bl: "list_all my_isspace blanks"
    and sg: "sg \<in> {[], [0x2B], [0x2D]}" and ds: "digit_chars r cs" "hd (cs @ [0x31]) \<noteq> 0x30"
    and ne: "0 < k \<or> cs \<noteq> []"
    and rest: "length cs < 20 \<Longrightarrow> r \<le> char_val (cstr_at rest 0)"
  defines "n \<equiv> length blanks + length sg + k"
  shows "str2int (blanks @ sg @ replicate k 0x30 @ cs @ rest) (int r) lower upper =
    str2int_result (sg = [0x2D]) (radix_value r (map char_val (take 20 cs))) lower upper
      (n + min 20 (length cs))"
proof -
  let ?tail = "replicate k 0x30 @ cs @ rest"
  let ?str = "blanks @ sg @ ?tail"
  have next_digit: "char_val (cstr_at ?tail 0) < 36"
    using ne ds(1) r by (cases k; cases cs) (auto simp: digit_chars_def char_val_def)
  have "hd (sg @ ?tail) = (if sg = [] then cstr_at ?tail 0 else hd sg)" "sg @ ?tail \<noteq> []"
    using ne by (cases k; cases cs; auto)+
  then have "\<not> my_isspace (hd (sg @ ?tail))"
    using sg digit_not_space [OF next_digit] by (auto simp: my_isspace_iff)
  then have sp: "length (takeWhile my_isspace ?str) = length blanks"
    using bl by (subst takeWhile_append2, simp add: list_all_iff, cases "sg @ ?tail") auto
  have sign: "(if cstr_at ?str (length blanks) = 0x2B then (False, length blanks + 1)
      else if cstr_at ?str (length blanks) = 0x2D then (True, length blanks + 1)
      else (False, length blanks)) = (sg = [0x2D], length blanks + length sg)"
    using sg digit_not_space [OF next_digit] cstr_at_append [of blanks "sg @ ?tail" 0]
    by (auto simp: cstr_at_def)
  have zeros: "length (takeWhile (\<lambda>c. c = 0x30) (drop (length blanks + length sg) ?str)) = k"
  proof -
    have "cs @ rest = [] \<or> hd (cs @ rest) \<noteq> 0x30"
      using ds(2) rest r by (cases cs; cases rest) (auto simp: char_val_def)
    then have "length (takeWhile (\<lambda>c. c = 0x30) ?tail) = k" by (rule no_zero_prefix)
    then show ?thesis by simp
  qed
  have pre: "?str = (blanks @ sg @ replicate k 0x30) @ cs @ rest" "n = length (blanks @ sg @ replicate k 0x30)"
    by (simp_all add: n_def)
  have scan: "scan_radix ?str (int r) 20 n = (map char_val (take 20 cs), n + min 20 (length cs))"
    unfolding pre by (rule scan_radix_append) (use ds rest in auto)
  have start: "length blanks + length sg \<noteq> n + min 20 (length cs)" using ne by (auto simp: n_def)
  let ?v = "radix_value r (map char_val (take 20 cs))"
  have "str2int ?str (int r) lower upper =
      (case convert_digits (int r) (rev (map char_val (take 20 cs))) (- int (nat (max \<bar>sint lower\<bar> \<bar>sint upper\<bar>))) 0 (-1) of
         None \<Rightarrow> Inl MY_ERRNO_ERANGE
       | Some sofar \<Rightarrow>
           if \<not> sg = [0x2D] then
             if sofar < - (2 ^ 63 - 1) \<or> sint upper < - sofar then Inl MY_ERRNO_ERANGE
             else Inr (- sofar, n + min 20 (length cs))
           else if sofar < sint lower then Inl MY_ERRNO_ERANGE
           else Inr (sofar, n + min 20 (length cs)))"
    unfolding str2int_def Let_def start_limit sp sign prod.case zeros n_def [symmetric] scan if_not_P [OF start]
    by (rule refl)
  also have "\<dots> = str2int_result (sg = [0x2D]) ?v lower upper (n + min 20 (length cs))"
    unfolding convert_value [OF r] by (rule range_check)
  finally show ?thesis .
qed

lemma blanks_length:
  assumes "list_all my_isspace blanks" "xs = [] \<or> \<not> my_isspace (hd xs)"
  shows "length (takeWhile my_isspace (blanks @ xs)) = length blanks"
  using assms by (subst takeWhile_append2, simp add: list_all_iff, cases xs) auto

lemma char_val_dig_vec:
  "map char_val dig_vec_upper = [0..<36]" "map char_val dig_vec_lower = [0..<36]"
  by (simp_all add: dig_vec_upper_def dig_vec_lower_def char_val_def upt_rec)

lemma char_val_dig:
  assumes "d < 36"
  shows "char_val ((if upcase then dig_vec_upper else dig_vec_lower) ! d) = d"
proof -
  have "map char_val (if upcase then dig_vec_upper else dig_vec_lower) ! d = d"
    using assms by (simp add: char_val_dig_vec)
  moreover have "length (if upcase then dig_vec_upper else dig_vec_lower) = 36"
    by (simp add: dig_vec_upper_def dig_vec_lower_def)
  ultimately show ?thesis using assms by (simp add: nth_map)
qed

lemma str2int_scanned:
  assumes "2 \<le> r" "r \<le> 36" "list_all my_isspace blanks" "sg \<in> {[], [0x2B], [0x2D]}"
    and "list_all (\<lambda>c. char_val c < r) cs" "cs \<noteq> []" "r \<le> char_val (cstr_at rest 0)"
  defines "z \<equiv> length (takeWhile (\<lambda>c. c = 0x30) cs)" and "neg \<equiv> (sg = [0x2D])"
  defines "used \<equiv> take (z + 20) cs"
  defines "v \<equiv> (if neg then - 1 else 1) * int (radix_value r (map char_val used))"
  shows "str2int (blanks @ sg @ cs @ rest) (int r) lower upper =
    (if (if neg then sint lower \<le> v else v \<le> sint upper)
     then Inr (v, length blanks + length sg + length used) else Inl MY_ERRNO_ERANGE)"
proof -
  let ?ds = "drop z cs"
  have cs: "cs = replicate z 0x30 @ ?ds"
    unfolding z_def by (induction cs) auto
  have hd: "hd (?ds @ [0x31]) \<noteq> 0x30"
    unfolding z_def by (induction cs) auto
  have dg: "digit_chars r ?ds"
    using assms(5) by (auto simp: digit_chars_def list_all_iff dest: in_set_dropD)
  have ne: "0 < z \<or> ?ds \<noteq> []" using \<open>cs \<noteq> []\<close> by auto
  have used: "used = replicate z 0x30 @ take 20 ?ds"
    unfolding used_def by (subst cs) simp
  have "map char_val used = replicate z 0 @ map char_val (take 20 ?ds)"
    unfolding used by (simp add: char_val_def)
  then have v: "radix_value r (map char_val used) = radix_value r (map char_val (take 20 ?ds))"
    by (simp only: radix_value_zeros)
  have len: "length used = z + min 20 (length ?ds)" unfolding used by (simp add: min.commute)
  have "str2int (blanks @ sg @ cs @ rest) (int r) lower upper =
      str2int (blanks @ sg @ replicate z 0x30 @ ?ds @ rest) (int r) lower upper"
    by (subst cs) simp
  also have "\<dots> = str2int_result neg (radix_value r (map char_val used)) lower upper
      (length blanks + length sg + length used)"
    unfolding neg_def v len add.assoc [symmetric] 
    by (rule str2int_string [OF assms(1-4) dg hd ne assms(7)])
  finally show ?thesis by (simp add: str2int_result_def v_def Let_def)
qed

section \<open>Properties\<close>

text \<open>
  C33: blanks, a sign, zeros and digits are converted: of the digits behind the zeros the first 20
  count, and the function stops there.  The result is their value when it is not below \<open>lower\<close>, for
  a number with minus sign, or not above \<open>upper\<close>, for another one, and the error \<^verbatim>\<open>ERANGE\<close> otherwise;
  no step overflows.
\<close>
theorem str2int_value:
  assumes "2 \<le> r" "r \<le> 36" "list_all my_isspace blanks" "sg \<in> {[], [0x2B], [0x2D]}"
    and "list_all (\<lambda>c. char_val c < r) cs" "cs \<noteq> []" "r \<le> char_val (cstr_at rest 0)"
  defines "z \<equiv> length (takeWhile (\<lambda>c. c = 0x30) cs)" and "neg \<equiv> (sg = [0x2D])"
  defines "used \<equiv> take (z + 20) cs"
  defines "v \<equiv> (if neg then - 1 else 1) * int (radix_value r (map char_val used))"
  shows "str2int (blanks @ sg @ cs @ rest) (int r) lower upper =
    (if (if neg then sint lower \<le> v else v \<le> sint upper)
     then Inr (v, length blanks + length sg + length used) else Inl MY_ERRNO_ERANGE)"
  unfolding z_def neg_def used_def v_def using str2int_scanned [OF assms(1-7)] .

theorem str2int_value_witness:
  "str2int ([0x20, 0x2D, 0x30, 0x37, 0x66, 0x2C]) 16 (-200) 200 = Inr (-127, 5)"
  using str2int_value [of 16 "[0x20]" "[0x2D]" "[0x30, 0x37, 0x66]" "[0x2C]" "-200" 200]
  by (simp add: my_isspace_iff char_val_def radix_value_def)

text \<open>
  Without a digit behind blanks and sign the result is the error \<^verbatim>\<open>EDOM\<close>.
\<close>
theorem str2int_no_digits:
  assumes "2 \<le> r" "r \<le> 36" "list_all my_isspace blanks" "sg \<in> {[], [0x2B], [0x2D]}"
    and "r \<le> char_val (cstr_at rest 0)"
    and "sg = [] \<Longrightarrow> \<not> my_isspace (cstr_at rest 0) \<and> cstr_at rest 0 \<notin> {0x2B, 0x2D}"
  shows "str2int (blanks @ sg @ rest) (int r) lower upper = Inl MY_ERRNO_EDOM"
proof -
  let ?str = "blanks @ sg @ rest"
  have sp: "length (takeWhile my_isspace ?str) = length blanks"
  proof (rule blanks_length [OF assms(3)])
    have "my_isspace 0x2B = False" "my_isspace 0x2D = False" by (simp_all add: my_isspace_iff)
    then show "sg @ rest = [] \<or> \<not> my_isspace (hd (sg @ rest))"
      using assms(4,6) by (cases rest; cases sg) auto
  qed
  have sign: "(if cstr_at ?str (length blanks) = 0x2B then (False, length blanks + 1)
      else if cstr_at ?str (length blanks) = 0x2D then (True, length blanks + 1)
      else (False, length blanks)) = (sg = [0x2D], length blanks + length sg)"
    using assms(4,6) cstr_at_append [of blanks "sg @ rest" 0] by (auto simp: cstr_at_def)
  have c: "cstr_at rest 0 \<noteq> 0x30" using assms(1,5) by (auto simp: char_val_def)
  then have z: "length (takeWhile (\<lambda>c. c = 0x30) (drop (length blanks + length sg) ?str)) = 0"
    by (cases rest) auto
  have "scan_radix ?str (int r) 20 (length blanks + length sg) = ([], length blanks + length sg)"
    using scan_radix_append [of r "[]" 20 rest "blanks @ sg"] assms(5) by (simp add: digit_chars_def)
  then show ?thesis
    unfolding str2int_def Let_def sp sign prod.case z by simp
qed

theorem str2int_no_digits_witness:
  "str2int [0x20, 0x2D, 0x7A] 10 0 100 = Inl MY_ERRNO_EDOM"
  using str2int_no_digits [of 10 "[0x20]" "[0x2D]" "[0x7A]" 0 100]
  by (simp add: my_isspace_iff char_val_def)

text \<open>
  \<^verbatim>\<open>str2int\<close> reads back what \<^verbatim>\<open>int2str\<close> has written, for every value and every radix
  from 10 to 36, in either case of the letters.
\<close>
theorem str2int_int2str:
  assumes "10 \<le> r" "r \<le> 36" "int2str v (- int r) upcase = Some str"
  shows "str2int str (int r) 0x8000000000000000 0x7FFFFFFFFFFFFFFF = Inr (sint v, length str)"
proof -
  let ?dig = "(!) (if upcase then dig_vec_upper else dig_vec_lower)" and ?n = "nat \<bar>sint v\<bar>"
  define cs where "cs = map ?dig (radix_digits r ?n)"
  define sg :: "byte list" where "sg = (if sint v < 0 then [0x2D] else [])"
  have str: "str = [] @ sg @ cs @ []"
    using assms by (auto simp: int2str_text int_text_def cs_def sg_def split: if_splits)
  have less: "d < r" if "d \<in> set (radix_digits r ?n)" for d
    using radix_digits_less [OF _ that] assms(1) by simp
  then have "char_val (?dig d) = d" if "d \<in> set (radix_digits r ?n)" for d
    using that char_val_dig assms(2) by (meson less_le_trans)
  then have vals: "map char_val cs = radix_digits r ?n"
    unfolding cs_def by (simp add: map_idI)
  have "\<forall>d \<in> set (map char_val cs). d < r" unfolding vals using less by blast
  then have dg: "list_all (\<lambda>c. char_val c < r) cs" by (simp add: list_all_iff)
  have "2 ^ 64 \<le> r ^ 20" using power_mono [of 10 r 20] assms(1) by simp
  moreover have "?n < 2 ^ 64" using sint_ge [of v] sint_lt [of v] by (simp add: nat_less_iff abs_less_iff)
  ultimately have "length cs \<le> 20"
    using radix_digits_length [of r ?n 19] assms(1) by (simp add: cs_def)
  then have used: "take (z + 20) cs = cs" for z by simp
  have ne: "cs \<noteq> []" using radix_digits_ne [of r ?n] by (simp add: cs_def)
  have val: "radix_value r (map char_val cs) = ?n" unfolding vals by (rule radix_value_digits)
  have "str2int ([] @ sg @ cs @ []) (int r) 0x8000000000000000 0x7FFFFFFFFFFFFFFF = Inr (sint v, length str)"
    by (subst str2int_scanned [of r "[]" sg cs "[]"])
      (use assms dg ne used val sint_ge [of v] sint_lt [of v] in \<open>auto simp: sg_def str char_val_def\<close>)
  then show ?thesis unfolding str .
qed

theorem str2int_int2str_witness:
  "str2int [0x2D, 0x46, 0x46] 16 0x8000000000000000 0x7FFFFFFFFFFFFFFF = Inr (-255, 3)"
  using str2int_int2str [of 16 "-255" True "[0x2D, 0x46, 0x46]"]
  by (simp add: int2str_def first_digit_def digit_loop.simps dig_vec_upper_def)

text \<open>
  A positive number may be below \<open>lower\<close>, and a number of more than 20 binary digits is cut off.
\<close>
theorem str2int_gaps:
  "str2int [0x35] 10 10 20 = Inr (5, 1) \<and> str2int (replicate 21 0x31) 2 0 0x7FFFFFFFFFFFFFFF = Inr (2 ^ 20 - 1, 20)"
  using str2int_scanned [where r = 10 and blanks = "[]" and sg = "[]" and cs = "[0x35]" and rest = "[]"
      and lower = 10 and upper = 20]
    str2int_scanned [where r = 2 and blanks = "[]" and sg = "[]" and cs = "replicate 21 0x31" and rest = "[]"
      and lower = 0 and upper = "0x7FFFFFFFFFFFFFFF"]
  by (simp add: replicate_numeral char_val_def radix_value_def)

end
