(* ===== verification/Password.thy ===== *)
theory Password
  imports Sha1 Str2int Collation
begin

text \<open>
  Password hashing and the two challenge-response authentications (\<^verbatim>\<open>MySQL/password.c\<close>).  A C string
  is the list of its characters; contents behind a NUL do not count.  The \<^verbatim>\<open>SHA1_CONTEXT\<close> on the stack
  of a function has arbitrary contents and is an argument, as are the two floating-point expressions
  \<^verbatim>\<open>floor(my_rnd()*31)\<close> and \<^verbatim>\<open>my_rnd()*94+33\<close>, functions of the seed, and the
  \<^verbatim>\<open>memcmp\<close> of the C library, of which only the contract is known.
\<close>

section \<open>The code of 4.0\<close>

definition strlen :: "byte list \<Rightarrow> nat" where
  "strlen s = length (takeWhile (\<lambda>c. c \<noteq> 0) s)"

record rand_struct =
  seed1 :: u64
  seed2 :: u64
  max_value :: u64

definition randominit :: "u64 \<Rightarrow> u64 \<Rightarrow> rand_struct" where
  "randominit s1 s2 = \<lparr>seed1 = s1 mod 0x3FFFFFFF, seed2 = s2 mod 0x3FFFFFFF, max_value = 0x3FFFFFFF\<rparr>"

text \<open>The result is the quotient of \<^const>\<open>seed1\<close> and \<^const>\<open>max_value\<close>, here the former.\<close>

definition my_rnd :: "rand_struct \<Rightarrow> u64 \<times> rand_struct" where
  "my_rnd st =
     (let s1 = (seed1 st * 3 + seed2 st) mod max_value st;
          s2 = (s1 + seed2 st + 33) mod max_value st
      in (s1, st\<lparr>seed1 := s1, seed2 := s2\<rparr>))"

definition hash_char :: "u64 \<times> u64 \<times> u64 \<Rightarrow> byte \<Rightarrow> u64 \<times> u64 \<times> u64" where
  "hash_char = (\<lambda>(nr, nr2, add) c.
     if c = 0x20 \<or> c = 0x09 then (nr, nr2, add)
     else
       let tmp = ucast c;
           nr = nr XOR ((((nr AND 63) + add) * tmp) + push_bit 8 nr);
           nr2 = nr2 + (push_bit 8 nr2 XOR nr);
           add = add + tmp
       in (nr, nr2, add))"

definition hash_password :: "byte list \<Rightarrow> nat \<Rightarrow> u64 \<times> u64" where
  "hash_password password password_len =
     (case foldl hash_char (1345345333, 0x12345671, 7) (take password_len password) of
        (nr, nr2, add) \<Rightarrow> (nr AND (push_bit 31 1 - 1), nr2 AND (push_bit 31 1 - 1)))"

text \<open>\<^verbatim>\<open>sprintf\<close> with the format \<^verbatim>\<open>%08lx\<close>.\<close>

definition hex08 :: "u64 \<Rightarrow> byte list" where
  "hex08 n = (let ds = radix_digits 16 (unat n)
              in replicate (8 - length ds) 0x30 @ map ((!) dig_vec_lower) ds)"

definition make_password_from_salt_323 :: "u64 \<times> u64 \<Rightarrow> byte list" where
  "make_password_from_salt_323 salt = hex08 (fst salt) @ hex08 (snd salt)"

definition my_make_scrambled_password_323 :: "byte list \<Rightarrow> nat \<Rightarrow> byte list" where
  "my_make_scrambled_password_323 password pass_len =
     make_password_from_salt_323 (hash_password password (wrap32 pass_len))"

definition make_scrambled_password_323 :: "byte list \<Rightarrow> byte list" where
  "make_scrambled_password_323 password = my_make_scrambled_password_323 password (strlen password)"

definition SCRAMBLE_LENGTH_323 :: nat where "SCRAMBLE_LENGTH_323 = 8"
definition SCRAMBLE_LENGTH :: nat where "SCRAMBLE_LENGTH = 20"

text \<open>\<open>n\<close> characters \<^verbatim>\<open>floor(my_rnd()*31)+64\<close>.\<close>

primrec scramble_chars :: "(u64 \<Rightarrow> byte) \<Rightarrow> nat \<Rightarrow> rand_struct \<Rightarrow> byte list \<times> rand_struct" where
  "scramble_chars rnd31 0 st = ([], st)"
| "scramble_chars rnd31 (Suc n) st =
     (case my_rnd st of (r, st) \<Rightarrow>
        (case scramble_chars rnd31 n st of (cs, st) \<Rightarrow> ((rnd31 r + 64) # cs, st)))"

definition scramble_323 :: "(u64 \<Rightarrow> byte) \<Rightarrow> byte list \<Rightarrow> byte list \<Rightarrow> byte list" where
  "scramble_323 rnd31 message password =
     (if cstr_at password 0 \<noteq> 0 then
        let (p1, p2) = hash_password password (wrap32 (strlen password));
            (m1, m2) = hash_password message SCRAMBLE_LENGTH_323;
            (cs, st) = scramble_chars rnd31 SCRAMBLE_LENGTH_323 (randominit (p1 XOR m1) (p2 XOR m2));
            extra = rnd31 (fst (my_rnd st))
        in map (\<lambda>c. c XOR extra) cs
      else [])"

text \<open>The result is a \<^verbatim>\<open>my_bool\<close>: \<^const>\<open>True\<close> is 1, a wrong password.\<close>

definition check_scramble_323 :: "(u64 \<Rightarrow> byte) \<Rightarrow> byte list \<Rightarrow> byte list \<Rightarrow> u64 \<times> u64 \<Rightarrow> bool" where
  "check_scramble_323 rnd31 scrambled message hash_pass =
     (let (m1, m2) = hash_password message SCRAMBLE_LENGTH_323;
          n = min 16 (strlen scrambled);
          (buff, st) = scramble_chars rnd31 n (randominit (fst hash_pass XOR m1) (snd hash_pass XOR m2))
      in if n \<noteq> SCRAMBLE_LENGTH_323 then True
         else
           let extra = rnd31 (fst (my_rnd st))
           in take (strlen scrambled) scrambled \<noteq> map (\<lambda>c. c XOR extra) buff)"

definition pw_char_val :: "byte \<Rightarrow> byte" where
  "pw_char_val X =
     (if 0x30 \<le> X \<and> X \<le> 0x39 then X - 0x30
      else if 0x41 \<le> X \<and> X \<le> 0x5A then X - 0x41 + 10
      else X - 0x61 + 10)"

text \<open>
  Groups of eight digits up to the NUL; \<^const>\<open>None\<close> when the length is not a multiple of eight, where
  the code reads past the end.
\<close>

definition salt_word :: "byte list \<Rightarrow> u64" where
  "salt_word cs = foldl (\<lambda>val c. push_bit 4 val + ucast (pw_char_val c)) 0 cs"

function get_salt_from_password_323 :: "byte list \<Rightarrow> u64 list option" where
  "get_salt_from_password_323 password =
     (if password = [] then Some []
      else if length password < 8 then None
      else do { res \<leftarrow> get_salt_from_password_323 (drop 8 password);
                Some (salt_word (take 8 password) # res) })"
  by pat_completeness auto
termination
  by (relation "measure length") auto

declare get_salt_from_password_323.simps [simp del]

section \<open>The code of 4.1\<close>

primrec create_random_string :: "(u64 \<Rightarrow> byte) \<Rightarrow> nat \<Rightarrow> rand_struct \<Rightarrow> byte list \<times> rand_struct" where
  "create_random_string rnd94 0 st = ([], st)"
| "create_random_string rnd94 (Suc n) st =
     (case my_rnd st of (r, st) \<Rightarrow>
        (case create_random_string rnd94 n st of (cs, st) \<Rightarrow> (rnd94 r # cs, st)))"

definition PVERSION41_CHAR :: byte where "PVERSION41_CHAR = 0x2A"

definition octet2hex :: "byte list \<Rightarrow> byte list" where
  "octet2hex str =
     concat (map (\<lambda>b. [dig_vec_upper ! unat (drop_bit 4 b), dig_vec_upper ! unat (b AND 0x0F)]) str)"

fun hex2octet :: "byte list \<Rightarrow> byte list" where
  "hex2octet (a # b # str) = (push_bit 4 (pw_char_val a) OR pw_char_val b) # hex2octet str"
| "hex2octet _ = []"

definition my_crypt :: "byte list \<Rightarrow> byte list \<Rightarrow> nat \<Rightarrow> byte list" where
  "my_crypt s1 s2 len = map2 (XOR) (take len s1) (take len s2)"

definition my_make_scrambled_password :: "SHA1_CONTEXT \<Rightarrow> byte list \<Rightarrow> nat \<Rightarrow> byte list" where
  "my_make_scrambled_password ctx password pass_len =
     (let ctx = mysql_sha1_input (mysql_sha1_reset ctx) (take (wrap32 pass_len) password);
          (ctx, to) = mysql_sha1_result ctx;
          ctx = mysql_sha1_input (mysql_sha1_reset ctx) (take SHA1_HASH_SIZE to);
          (ctx, hash_stage2) = mysql_sha1_result ctx
      in PVERSION41_CHAR # octet2hex (take SHA1_HASH_SIZE hash_stage2))"

definition make_scrambled_password :: "SHA1_CONTEXT \<Rightarrow> byte list \<Rightarrow> byte list" where
  "make_scrambled_password ctx password = my_make_scrambled_password ctx password (strlen password)"

definition scramble :: "SHA1_CONTEXT \<Rightarrow> byte list \<Rightarrow> byte list \<Rightarrow> byte list" where
  "scramble ctx message password =
     (let ctx = mysql_sha1_input (mysql_sha1_reset ctx) (take (wrap32 (strlen password)) password);
          (ctx, hash_stage1) = mysql_sha1_result ctx;
          ctx = mysql_sha1_input (mysql_sha1_reset ctx) (take SHA1_HASH_SIZE hash_stage1);
          (ctx, hash_stage2) = mysql_sha1_result ctx;
          ctx = mysql_sha1_input (mysql_sha1_reset ctx) (take SCRAMBLE_LENGTH message);
          ctx = mysql_sha1_input ctx (take SHA1_HASH_SIZE hash_stage2);
          (ctx, to) = mysql_sha1_result ctx
      in my_crypt to hash_stage1 SCRAMBLE_LENGTH)"

text \<open>The \<^verbatim>\<open>int\<close> of \<^verbatim>\<open>memcmp\<close> is returned as a \<^verbatim>\<open>my_bool\<close>, a \<^verbatim>\<open>char\<close>.\<close>

definition check_scramble ::
  "(byte list \<Rightarrow> byte list \<Rightarrow> int) \<Rightarrow> SHA1_CONTEXT \<Rightarrow> byte list \<Rightarrow> byte list \<Rightarrow> byte list \<Rightarrow> byte" where
  "check_scramble cmp ctx scramble_arg message hash_stage2 =
     (let ctx = mysql_sha1_input (mysql_sha1_reset ctx) (take SCRAMBLE_LENGTH message);
          ctx = mysql_sha1_input ctx (take SHA1_HASH_SIZE hash_stage2);
          (ctx, buf) = mysql_sha1_result ctx;
          buf = my_crypt buf scramble_arg SCRAMBLE_LENGTH;
          ctx = mysql_sha1_input (mysql_sha1_reset ctx) (take SHA1_HASH_SIZE buf);
          (ctx, hash_stage2_reassured) = mysql_sha1_result ctx
      in of_int (cmp (take SHA1_HASH_SIZE hash_stage2) (take SHA1_HASH_SIZE hash_stage2_reassured)))"

definition get_salt_from_password :: "byte list \<Rightarrow> byte list" where
  "get_salt_from_password password = hex2octet (take (SHA1_HASH_SIZE * 2) (drop 1 password))"

definition make_password_from_salt :: "byte list \<Rightarrow> byte list" where
  "make_password_from_salt hash_stage2 = PVERSION41_CHAR # octet2hex (take SHA1_HASH_SIZE hash_stage2)"

section \<open>Hexadecimal text\<close>

lemma pw_char_val_dig:
  "d < 16 \<Longrightarrow> pw_char_val (dig_vec_upper ! d) = of_nat d \<and> pw_char_val (dig_vec_lower ! d) = of_nat d"
proof -
  have "list_all (\<lambda>d. pw_char_val (dig_vec_upper ! d) = of_nat d \<and> pw_char_val (dig_vec_lower ! d) = of_nat d)
      [0..<16]"
    by (simp add: upt_rec dig_vec_upper_def dig_vec_lower_def pw_char_val_def)
  then show "d < 16 \<Longrightarrow> ?thesis" by (simp add: list_all_iff)
qed

lemma join_nibbles: "push_bit 4 (drop_bit 4 b) OR (b AND 0x0F) = b" for b :: byte
proof -
  have m: "(0x0F :: byte) = mask 4" by (simp add: mask_eq_exp_minus_1)
  show ?thesis
    unfolding m take_bit_eq_mask [symmetric] by (rule bit_word_eqI) (auto simp: bit_simps)
qed

lemma nibble_less: "unat (drop_bit 4 b) < 16" "unat (b AND 0x0F) < 16" for b :: byte
proof -
  have "unat b < 16 * 16" by simp
  then show "unat (drop_bit 4 b) < 16" by (simp add: unat_drop_bit less_mult_imp_div_less)
  have "b AND 0x0F \<le> 0x0F" by (rule word_and_le1)
  then show "unat (b AND 0x0F) < 16" by (simp add: word_le_nat_alt)
qed

lemma hex2octet_octet2hex: "hex2octet (octet2hex bs) = bs"
proof (induction bs)
  case (Cons b bs)
  have "pw_char_val (dig_vec_upper ! unat (drop_bit 4 b)) = drop_bit 4 b"
    "pw_char_val (dig_vec_upper ! unat (b AND 0x0F)) = b AND 0x0F"
    using pw_char_val_dig nibble_less [of b] by simp_all
  then show ?case using Cons by (simp add: octet2hex_def join_nibbles del: push_bit_eq_mult)
qed (simp add: octet2hex_def)

lemma length_octet2hex [simp]: "length (octet2hex bs) = 2 * length bs"
  by (induction bs) (simp_all add: octet2hex_def)

lemma salt_word_digits:
  "list_all (\<lambda>d. d < 16) ds \<Longrightarrow> salt_word (map ((!) dig_vec_lower) ds) = of_nat (radix_value 16 ds)"
proof (induction ds rule: rev_induct)
  case (snoc d ds)
  then have "ucast (pw_char_val (dig_vec_lower ! d)) = (of_nat d :: u64)"
    using pw_char_val_dig [of d]
    by (simp add: word_unat_eq_iff unsigned_ucast_eq unsigned_of_nat take_bit_nat_eq_self)
  then show ?case
    using snoc by (simp add: salt_word_def radix_value_snoc push_bit_eq_mult)
qed (simp add: salt_word_def radix_value_def)

lemma hex08_inverse:
  assumes "unat n < 2 ^ 32"
  shows "length (hex08 n) = 8 \<and> salt_word (hex08 n) = n"
proof -
  define ds where "ds = radix_digits 16 (unat n)"
  have "length ds \<le> 8" using radix_digits_length [of 16 "unat n" 7] assms by (simp add: ds_def)
  moreover have hex: "hex08 n = map ((!) dig_vec_lower) (replicate (8 - length ds) 0 @ ds)"
    by (simp add: hex08_def Let_def ds_def dig_vec_lower_def)
  moreover have "list_all (\<lambda>d. d < 16) (replicate (8 - length ds) 0 @ ds)"
    using radix_digits_less [of 16 _ "unat n"] by (auto simp: ds_def list_all_iff)
  then have "salt_word (hex08 n) = of_nat (radix_value 16 (replicate (8 - length ds) 0 @ ds))"
    unfolding hex by (rule salt_word_digits)
  ultimately show ?thesis
    unfolding hex by (simp add: radix_value_zeros ds_def radix_value_digits)
qed

lemma mask31_less: "unat (n AND (push_bit 31 1 - 1)) < 2 ^ 32" for n :: u64
proof -
  have "push_bit 31 1 - 1 = (mask 31 :: u64)" by (simp add: mask_eq_exp_minus_1)
  then have "unat (n AND (push_bit 31 1 - 1)) = unat n mod 2 ^ 31"
    unfolding take_bit_eq_mask [symmetric] by (simp only: take_bit_eq_mask [symmetric] unat_take_bit)
  also have "\<dots> < 2 ^ 32" by (rule less_le_trans [of _ "2 ^ 31"]) simp_all
  finally show ?thesis .
qed

lemma hash_password_less: "unat (fst (hash_password p n)) < 2 ^ 32" "unat (snd (hash_password p n)) < 2 ^ 32"
  using mask31_less by (simp_all add: hash_password_def split: prod.split)

lemma get_salt_323: "length a = 8 \<Longrightarrow> length b = 8 \<Longrightarrow>
  get_salt_from_password_323 (a @ b) = Some [salt_word a, salt_word b]"
  by (subst get_salt_from_password_323.simps, subst get_salt_from_password_323.simps,
      subst get_salt_from_password_323.simps) auto

lemma salt_roundtrip_323:
  "unat (fst h) < 2 ^ 32 \<Longrightarrow> unat (snd h) < 2 ^ 32 \<Longrightarrow>
     get_salt_from_password_323 (make_password_from_salt_323 h) = Some [fst h, snd h]"
  using hex08_inverse [of "fst h"] hex08_inverse [of "snd h"]
  by (simp add: make_password_from_salt_323_def get_salt_323)

section \<open>The authentication of 4.0\<close>

lemma scramble_chars_spec:
  assumes "\<And>r. rnd31 r < 32"
  shows "length (fst (scramble_chars rnd31 n st)) = n \<and>
    (\<forall>c \<in> set (fst (scramble_chars rnd31 n st)). 64 \<le> unat c)"
proof (induction n arbitrary: st)
  case (Suc n)
  have "unat (rnd31 r + 64) = unat (rnd31 r) + 64" for r
  proof -
    have "unat (rnd31 r) < 32" using assms [of r] by (simp add: word_less_nat_alt)
    then have "unat (rnd31 r) + unat (64 :: byte) < 2 ^ LENGTH(8)" by simp
    then show ?thesis using unat_add_lem [of "rnd31 r" 64] by simp
  qed
  then have "64 \<le> unat (rnd31 r + 64)" for r by simp
  moreover obtain r st' where "my_rnd st = (r, st')" by fastforce
  moreover obtain cs st'' where "scramble_chars rnd31 n st' = (cs, st'')" by fastforce
  ultimately show ?case using Suc [of st'] by simp
qed simp

lemma strlen_nonzero: "0 \<notin> set s \<Longrightarrow> strlen s = length s"
  unfolding strlen_def by (subst takeWhile_eq_all_conv [THEN iffD2]) auto

lemma xor_nonzero: "c \<noteq> e \<Longrightarrow> c XOR e \<noteq> 0" for c e :: "'a::len word"
  by (metis xor.left_neutral xor.assoc xor_self_eq)

lemma scramble_323_reply:
  assumes "\<And>r. rnd31 r < 32" "cstr_at password 0 \<noteq> 0"
  defines "h \<equiv> hash_password password (wrap32 (strlen password))"
  shows "check_scramble_323 rnd31 (scramble_323 rnd31 message password) message h = False"
proof -
  obtain m1 m2 where m: "hash_password message 8 = (m1, m2)" by fastforce
  obtain p1 p2 where p: "h = (p1, p2)" by fastforce
  obtain cs st where cs: "scramble_chars rnd31 8 (randominit (p1 XOR m1) (p2 XOR m2)) = (cs, st)" by fastforce
  define extra where "extra = rnd31 (fst (my_rnd st))"
  have len: "length cs = 8" and ge: "\<forall>c \<in> set cs. 64 \<le> unat c"
    using scramble_chars_spec [of rnd31, OF assms(1), where n = 8 and st = "randominit (p1 XOR m1) (p2 XOR m2)"] by (simp_all add: cs)
  have to: "scramble_323 rnd31 message password = map (\<lambda>c. c XOR extra) cs"
    using assms(2) cs unfolding scramble_323_def
    by (simp add: m p [unfolded h_def] SCRAMBLE_LENGTH_323_def extra_def Let_def)
  have "unat extra < 32" using assms(1) [of "fst (my_rnd st)"] by (simp add: extra_def word_less_nat_alt)
  then have "c XOR extra \<noteq> 0" if "c \<in> set cs" for c
    using that ge by (intro xor_nonzero) auto
  then have "strlen (map (\<lambda>c. c XOR extra) cs) = 8"
    by (subst strlen_nonzero) (auto simp: len)
  then show ?thesis
    unfolding to check_scramble_323_def
    using m p len cs by (simp add: SCRAMBLE_LENGTH_323_def extra_def Let_def)
qed

section \<open>The authentication of 4.1\<close>

abbreviation xor_list :: "byte list \<Rightarrow> byte list \<Rightarrow> byte list" where
  "xor_list \<equiv> map2 (XOR)"

lemma xor_list_cancel: "length a = length b \<Longrightarrow> xor_list a (xor_list a b) = b"
  by (induction a b rule: list_induct2) (simp_all add: xor.assoc [symmetric])

lemma length_xor_list: "length (xor_list a b) = min (length a) (length b)"
  by simp

text \<open>One use of the context, in one or two pieces, whatever it held before.\<close>

definition ctx_ok :: "SHA1_CONTEXT \<Rightarrow> bool" where
  "ctx_ok c \<longleftrightarrow> length (Message_Block c) = 64"

lemma sha1_once:
  assumes "ctx_ok c"
  obtains c' where "mysql_sha1_result (mysql_sha1_input (mysql_sha1_reset c) a) = (c', sha1 a)" "ctx_ok c'"
proof -
  have "sha_inv ([] @ a) (mysql_sha1_input (mysql_sha1_reset c) a)"
    using assms by (intro sha_inv_input sha_inv_reset) (simp add: ctx_ok_def)
  then have inv: "sha_inv a (mysql_sha1_input (mysql_sha1_reset c) a)" by simp
  have "\<not> Computed (mysql_sha1_input (mysql_sha1_reset c) a)" using inv by (simp add: sha_inv_def)
  then have "ctx_ok (fst (mysql_sha1_result (mysql_sha1_input (mysql_sha1_reset c) a)))"
    by (simp add: mysql_sha1_result_def ctx_ok_def Let_def)
  then show ?thesis using sha1_result [OF inv] that by (metis prod.collapse)
qed

lemma sha1_twice:
  "ctx_ok c \<Longrightarrow> snd (mysql_sha1_result (mysql_sha1_input (mysql_sha1_input (mysql_sha1_reset c) a) b)) = sha1 (a @ b)"
  using sha1_result [OF sha_inv_input [OF sha_inv_input [OF sha_inv_reset, of c a], of b]] by (simp add: ctx_ok_def)

lemma sha1_twice_ok:
  assumes "ctx_ok c"
  obtains c' where "mysql_sha1_result (mysql_sha1_input (mysql_sha1_input (mysql_sha1_reset c) a) b) = (c', sha1 (a @ b))"
    "ctx_ok c'"
proof -
  have "mysql_sha1_input (mysql_sha1_input (mysql_sha1_reset c) a) b = mysql_sha1_input (mysql_sha1_reset c) (a @ b)"
    by (simp add: mysql_sha1_input_def)
  then show ?thesis using sha1_once [OF assms, of "a @ b"] that by auto
qed

lemma scramble_spec:
  fixes password :: "byte list"
  assumes "ctx_ok c"
  defines "p \<equiv> take (wrap32 (strlen password)) password"
  shows "scramble c message password =
    xor_list (sha1 (take 20 message @ sha1 (sha1 p))) (sha1 p)"
proof -
  obtain c1 where 1: "mysql_sha1_result (mysql_sha1_input (mysql_sha1_reset c) p) = (c1, sha1 p)" "ctx_ok c1"
    by (rule sha1_once [OF assms(1)])
  obtain c2 where 2: "mysql_sha1_result (mysql_sha1_input (mysql_sha1_reset c1) (sha1 p)) = (c2, sha1 (sha1 p))"
    "ctx_ok c2"
    by (rule sha1_once [OF 1(2)])
  obtain c3 where 3: "mysql_sha1_result (mysql_sha1_input (mysql_sha1_input (mysql_sha1_reset c2) (take 20 message))
      (sha1 (sha1 p))) = (c3, sha1 (take 20 message @ sha1 (sha1 p)))"
    by (rule sha1_twice_ok [OF 2(2)])
  show ?thesis
    unfolding scramble_def p_def [symmetric] Let_def
    by (simp add: 1(1) 2(1) 3 SHA1_HASH_SIZE_def SCRAMBLE_LENGTH_def my_crypt_def)
qed

lemma check_scramble_spec:
  assumes "ctx_ok c" "length reply = 20" "length h2 = 20"
  shows "check_scramble cmp c reply message h2 =
    of_int (cmp h2 (sha1 (xor_list (sha1 (take 20 message @ h2)) reply)))"
proof -
  obtain c1 where 1: "mysql_sha1_result (mysql_sha1_input (mysql_sha1_input (mysql_sha1_reset c) (take 20 message)) h2)
      = (c1, sha1 (take 20 message @ h2))" "ctx_ok c1"
    by (rule sha1_twice_ok [OF assms(1)])
  let ?b = "xor_list (sha1 (take 20 message @ h2)) reply"
  obtain c2 where 2: "mysql_sha1_result (mysql_sha1_input (mysql_sha1_reset c1) ?b) = (c2, sha1 ?b)"
    by (rule sha1_once [OF 1(2)])
  show ?thesis
    unfolding check_scramble_def Let_def
    using assms(2,3) by (simp add: 1(1) 2 SHA1_HASH_SIZE_def SCRAMBLE_LENGTH_def my_crypt_def)
qed

lemma stored_password:
  assumes "ctx_ok c"
  shows "get_salt_from_password (make_scrambled_password c password) =
    sha1 (sha1 (take (wrap32 (strlen password)) password))"
proof -
  let ?p = "take (wrap32 (strlen password)) password"
  obtain c1 where 1: "mysql_sha1_result (mysql_sha1_input (mysql_sha1_reset c) ?p) = (c1, sha1 ?p)" "ctx_ok c1"
    by (rule sha1_once [OF assms(1)])
  obtain c2 where 2: "mysql_sha1_result (mysql_sha1_input (mysql_sha1_reset c1) (sha1 ?p)) = (c2, sha1 (sha1 ?p))"
    by (rule sha1_once [OF 1(2)])
  show ?thesis
    unfolding get_salt_from_password_def make_scrambled_password_def my_make_scrambled_password_def Let_def
    by (simp add: 1(1) 2 SHA1_HASH_SIZE_def hex2octet_octet2hex)
qed

text \<open>
  The contract of \<^verbatim>\<open>memcmp\<close>: 0 for equal blocks only.  Nothing is said about the size of another
  result.
\<close>

locale block_compare =
  fixes cmp :: "byte list \<Rightarrow> byte list \<Rightarrow> int"
  assumes zero_iff: "length a = length b \<Longrightarrow> cmp a b = 0 \<longleftrightarrow> a = b"
begin

lemma self: "cmp a a = 0"
  by (simp add: zero_iff)

lemma login_accepted:
  assumes "ctx_ok c" "ctx_ok c'" "ctx_ok c''" "length message = 20"
  shows "check_scramble cmp c' (scramble c message password) message
    (get_salt_from_password (make_scrambled_password c'' password)) = 0"
proof -
  let ?p = "take (wrap32 (strlen password)) password"
  let ?mask = "sha1 (take 20 message @ sha1 (sha1 ?p))"
  have "check_scramble cmp c' (xor_list ?mask (sha1 ?p)) message (sha1 (sha1 ?p)) =
      of_int (cmp (sha1 (sha1 ?p)) (sha1 (xor_list ?mask (xor_list ?mask (sha1 ?p)))))"
    by (rule check_scramble_spec) (simp_all add: assms)
  also have "\<dots> = 0" by (simp add: xor_list_cancel self)
  finally show ?thesis unfolding scramble_spec [OF assms(1)] stored_password [OF assms(3)] .
qed

lemma check_exact:
  assumes "ctx_ok c" "length reply = 20" "length h2 = 20"
    and "\<And>a b. \<bar>cmp a b\<bar> < 256"
  shows "check_scramble cmp c reply message h2 = 0 \<longleftrightarrow>
    sha1 (xor_list (sha1 (take 20 message @ h2)) reply) = h2"
proof -
  let ?d = "cmp h2 (sha1 (xor_list (sha1 (take 20 message @ h2)) reply))"
  have "(of_int ?d :: byte) = 0 \<longleftrightarrow> 256 dvd ?d"
    by (simp add: word_of_int_eq_0_iff)
  also have "\<dots> \<longleftrightarrow> ?d = 0" using assms(4) zdvd_not_zless [of "\<bar>?d\<bar>" 256] by auto
  also have "\<dots> \<longleftrightarrow> sha1 (xor_list (sha1 (take 20 message @ h2)) reply) = h2"
    by (subst zero_iff) (auto simp: assms)
  finally show ?thesis unfolding check_scramble_spec [OF assms(1-3)] .
qed

end

interpretation libc_memcmp: block_compare memcmp
  by unfold_locales (rule memcmp_0_eq)

text \<open>An implementation of the contract that returns differences scaled by 256, as word-wise ones may.\<close>

definition memcmp_wide :: "byte list \<Rightarrow> byte list \<Rightarrow> int" where
  "memcmp_wide a b = 256 * memcmp a b"

lemma memcmp_wide_byte: "(of_int (memcmp_wide a b) :: byte) = 0"
  unfolding memcmp_wide_def word_of_int_eq_0_iff by simp

interpretation wide_memcmp: block_compare memcmp_wide
  by unfold_locales (simp add: memcmp_wide_def memcmp_0_eq)

section \<open>Properties\<close>

text \<open>
  C35: what the client computes from the password and the challenge is accepted by the check against the
  stored form of the same password, for any implementation of \<^verbatim>\<open>memcmp\<close>, any challenge of 20 bytes
  and any earlier contents of the contexts.
\<close>
theorem scramble_accepted:
  assumes "\<And>a b. length a = length b \<Longrightarrow> cmp a b = 0 \<longleftrightarrow> a = b"
    and "length (Message_Block c) = 64" "length (Message_Block c') = 64" "length (Message_Block c'') = 64"
    and "length message = SCRAMBLE_LENGTH"
  shows "check_scramble cmp c' (scramble c message password) message
    (get_salt_from_password (make_scrambled_password c'' password)) = 0"
  using block_compare.login_accepted [of cmp c c' c''] assms
  by (simp add: block_compare_def ctx_ok_def SCRAMBLE_LENGTH_def)

theorem scramble_accepted_witness:
  "check_scramble memcmp sha_context (scramble sha_context (replicate 20 0x41) [0x70, 0x77]) (replicate 20 0x41)
    (get_salt_from_password (make_scrambled_password sha_context [0x70, 0x77])) = 0"
  using scramble_accepted [of memcmp sha_context sha_context sha_context "replicate 20 0x41"]
  by (simp add: memcmp_0_eq sha_context_def SCRAMBLE_LENGTH_def)

text \<open>
  C36: a reply is accepted only when it unmasks to a preimage of the stored hash, as long as the
  results of \<^verbatim>\<open>memcmp\<close> lie strictly between -256 and 256.
\<close>
theorem check_scramble_exact:
  assumes "\<And>a b. length a = length b \<Longrightarrow> cmp a b = 0 \<longleftrightarrow> a = b" "\<And>a b. \<bar>cmp a b\<bar> < 256"
    and "length (Message_Block c) = 64" "length reply = SHA1_HASH_SIZE" "length h2 = SHA1_HASH_SIZE"
  shows "check_scramble cmp c reply message h2 = 0 \<longleftrightarrow>
    sha1 (map2 (XOR) (sha1 (take 20 message @ h2)) reply) = h2"
  by (rule block_compare.check_exact)
    (use assms in \<open>simp_all add: block_compare_def ctx_ok_def SHA1_HASH_SIZE_def\<close>)

theorem check_scramble_exact_witness:
  "check_scramble memcmp sha_context (replicate 20 1) (replicate 20 0x41) (replicate 20 2) = 0 \<longleftrightarrow>
    sha1 (map2 (XOR) (sha1 (replicate 20 0x41 @ replicate 20 2)) (replicate 20 1)) = replicate 20 2"
proof -
  have "\<bar>memcmp a b\<bar> < 256" for a b by (induction a b rule: memcmp.induct) auto
  then show ?thesis
    using check_scramble_exact [of memcmp sha_context "replicate 20 1" "replicate 20 2" "replicate 20 0x41"]
    by (simp add: memcmp_0_eq sha_context_def SHA1_HASH_SIZE_def)
qed

text \<open>
  Without that bound the check is void: the result of \<^verbatim>\<open>memcmp\<close>, an \<^verbatim>\<open>int\<close>, is cut to a
  \<^verbatim>\<open>char\<close>, and with an implementation that returns multiples of 256, which the C standard permits,
  every reply is accepted for every password.
\<close>
theorem check_scramble_truncates:
  "(\<forall>a b. length a = length b \<longrightarrow> (memcmp_wide a b = 0 \<longleftrightarrow> a = b))
   \<and> check_scramble memcmp_wide c reply message h2 = 0"
proof
  show "\<forall>a b. length a = length b \<longrightarrow> (memcmp_wide a b = 0 \<longleftrightarrow> a = b)"
    by (simp add: memcmp_wide_def memcmp_0_eq)
  show "check_scramble memcmp_wide c reply message h2 = 0"
    unfolding check_scramble_def Let_def by (simp only: memcmp_wide_byte split: prod.split) simp
qed

theorem check_scramble_truncates_witness:
  "check_scramble memcmp_wide sha_context (replicate 20 0) (replicate 20 0) (replicate 20 0) = 0"
  using check_scramble_truncates by blast

text \<open>
  C37: the authentication of 4.0: the stored form of a password reads back as its hash, and the reply
  computed from the password is accepted against it, provided that \<^verbatim>\<open>floor(my_rnd()*31)\<close> stays
  below 32.
\<close>
theorem scramble_323_accepted:
  assumes "\<And>r. rnd31 r < 32" "cstr_at password 0 \<noteq> 0"
  defines "h \<equiv> hash_password password (wrap32 (strlen password))"
  shows "get_salt_from_password_323 (make_scrambled_password_323 password) = Some [fst h, snd h]
    \<and> \<not> check_scramble_323 rnd31 (scramble_323 rnd31 message password) message h"
  using scramble_323_reply [of rnd31, OF assms(1,2)] salt_roundtrip_323 [OF hash_password_less]
  by (simp add: h_def make_scrambled_password_323_def my_make_scrambled_password_323_def wrap32_def)

theorem scramble_323_accepted_witness:
  "\<not> check_scramble_323 (\<lambda>r. ucast r AND 0x1F) (scramble_323 (\<lambda>r. ucast r AND 0x1F) [0x61] [0x70, 0x77]) [0x61]
     (hash_password [0x70, 0x77] (strlen [0x70, 0x77]))"
proof -
  have "ucast r AND (0x1F :: byte) < 32" for r :: u64
    by (rule le_less_trans [OF word_and_le1]) simp
  then show ?thesis
    using scramble_323_accepted [of "\<lambda>r. ucast r AND 0x1F" "[0x70, 0x77]" "[0x61]"]
    by (simp add: strlen_def)
qed

end
