(* ===== verification/MbCharset.thy ===== *)
theory MbCharset
  imports Utf8
begin

text \<open>
  The multi-byte character sets of the client as far as the recognition of characters goes: the
  \<^verbatim>\<open>ismbchar\<close> and \<^verbatim>\<open>mbcharlen\<close> handlers of \<^verbatim>\<open>MySQL/ctype-gbk.c\<close>, \<^verbatim>\<open>ctype-big5.c\<close>,
  \<^verbatim>\<open>ctype-sjis.c\<close>, \<^verbatim>\<open>ctype-cp932.c\<close>, \<^verbatim>\<open>ctype-euc_kr.c\<close>, \<^verbatim>\<open>ctype-gb2312.c\<close>, \<^verbatim>\<open>ctype-ujis.c\<close>,
  \<^verbatim>\<open>ctype-eucjpms.c\<close>, \<^verbatim>\<open>ctype-ucs2.c\<close> and \<^verbatim>\<open>ctype-utf8.c\<close>, and the locale of the laws that the code
  relies on.  The argument of \<open>ismbchar\<close> is the string from the position to the end; the bytes are read in
  the order of the code, and a read beyond the end makes the result \<^const>\<open>None\<close>.
\<close>

section \<open>The handlers\<close>

record MY_CHARSET =
  use_mb :: bool
  ismbchar :: "byte list \<Rightarrow> nat option"
  mbcharlen :: "u32 \<Rightarrow> nat"

definition isgbkhead :: "byte \<Rightarrow> bool" where
  "isgbkhead c \<longleftrightarrow> 0x81 \<le> c \<and> c \<le> 0xfe"

definition isgbktail :: "byte \<Rightarrow> bool" where
  "isgbktail c \<longleftrightarrow> 0x40 \<le> c \<and> c \<le> 0x7e \<or> 0x80 \<le> c \<and> c \<le> 0xfe"

definition ismbchar_gbk :: "byte list \<Rightarrow> nat option" where
  "ismbchar_gbk p = do {
     c \<leftarrow> rd p 0;
     b \<leftarrow> and_then (Some (isgbkhead c \<and> length p > 1)) (map_option isgbktail (rd p 1));
     Some (if b then 2 else 0) }"

definition mbcharlen_gbk :: "u32 \<Rightarrow> nat" where
  "mbcharlen_gbk c = (if isgbkhead (ucast c) then 2 else 1)"

definition isbig5head :: "byte \<Rightarrow> bool" where
  "isbig5head c \<longleftrightarrow> 0xa1 \<le> c \<and> c \<le> 0xf9"

definition isbig5tail :: "byte \<Rightarrow> bool" where
  "isbig5tail c \<longleftrightarrow> 0x40 \<le> c \<and> c \<le> 0x7e \<or> 0xa1 \<le> c \<and> c \<le> 0xfe"

definition ismbchar_big5 :: "byte list \<Rightarrow> nat option" where
  "ismbchar_big5 p = do {
     c \<leftarrow> rd p 0;
     b \<leftarrow> and_then (Some (isbig5head c \<and> length p > 1)) (map_option isbig5tail (rd p 1));
     Some (if b then 2 else 0) }"

definition mbcharlen_big5 :: "u32 \<Rightarrow> nat" where
  "mbcharlen_big5 c = (if isbig5head (ucast c) then 2 else 1)"

definition issjishead :: "byte \<Rightarrow> bool" where
  "issjishead c \<longleftrightarrow> 0x81 \<le> c \<and> c \<le> 0x9f \<or> 0xe0 \<le> c \<and> c \<le> 0xfc"

definition issjistail :: "byte \<Rightarrow> bool" where
  "issjistail c \<longleftrightarrow> 0x40 \<le> c \<and> c \<le> 0x7e \<or> 0x80 \<le> c \<and> c \<le> 0xfc"

definition ismbchar_sjis :: "byte list \<Rightarrow> nat option" where
  "ismbchar_sjis p = do {
     c \<leftarrow> rd p 0;
     b \<leftarrow> and_then (Some (issjishead c \<and> length p > 1)) (map_option issjistail (rd p 1));
     Some (if b then 2 else 0) }"

definition mbcharlen_sjis :: "u32 \<Rightarrow> nat" where
  "mbcharlen_sjis c = (if issjishead (ucast c) then 2 else 1)"

definition iscp932head :: "byte \<Rightarrow> bool" where
  "iscp932head c \<longleftrightarrow> 0x81 \<le> c \<and> c \<le> 0x9f \<or> 0xe0 \<le> c \<and> c \<le> 0xfc"

definition iscp932tail :: "byte \<Rightarrow> bool" where
  "iscp932tail c \<longleftrightarrow> 0x40 \<le> c \<and> c \<le> 0x7e \<or> 0x80 \<le> c \<and> c \<le> 0xfc"

definition ismbchar_cp932 :: "byte list \<Rightarrow> nat option" where
  "ismbchar_cp932 p = do {
     c \<leftarrow> rd p 0;
     b \<leftarrow> and_then (Some (iscp932head c \<and> length p > 1)) (map_option iscp932tail (rd p 1));
     Some (if b then 2 else 0) }"

definition mbcharlen_cp932 :: "u32 \<Rightarrow> nat" where
  "mbcharlen_cp932 c = (if iscp932head (ucast c) then 2 else 1)"

definition iseuc_kr_head :: "byte \<Rightarrow> bool" where
  "iseuc_kr_head c \<longleftrightarrow> 0x81 \<le> c \<and> c \<le> 0xfe"

definition iseuc_kr_tail :: "byte \<Rightarrow> bool" where
  "iseuc_kr_tail c \<longleftrightarrow> 0x41 \<le> c \<and> c \<le> 0x5A \<or> 0x61 \<le> c \<and> c \<le> 0x7A \<or> 0x81 \<le> c \<and> c \<le> 0xFE"

definition ismbchar_euc_kr :: "byte list \<Rightarrow> nat option" where
  "ismbchar_euc_kr p = do {
     c \<leftarrow> rd p 0;
     if c < 0x80 then Some 0
     else do {
       b \<leftarrow> and_then (Some (iseuc_kr_head c \<and> length p > 1)) (map_option iseuc_kr_tail (rd p 1));
       Some (if b then 2 else 0) } }"

definition mbcharlen_euc_kr :: "u32 \<Rightarrow> nat" where
  "mbcharlen_euc_kr c = (if iseuc_kr_head (ucast c) then 2 else 1)"

definition isgb2312head :: "byte \<Rightarrow> bool" where
  "isgb2312head c \<longleftrightarrow> 0xa1 \<le> c \<and> c \<le> 0xf7"

definition isgb2312tail :: "byte \<Rightarrow> bool" where
  "isgb2312tail c \<longleftrightarrow> 0xa1 \<le> c \<and> c \<le> 0xfe"

definition ismbchar_gb2312 :: "byte list \<Rightarrow> nat option" where
  "ismbchar_gb2312 p = do {
     c \<leftarrow> rd p 0;
     b \<leftarrow> and_then (Some (isgb2312head c \<and> length p > 1)) (map_option isgb2312tail (rd p 1));
     Some (if b then 2 else 0) }"

definition mbcharlen_gb2312 :: "u32 \<Rightarrow> nat" where
  "mbcharlen_gb2312 c = (if isgb2312head (ucast c) then 2 else 1)"

definition isujis :: "byte \<Rightarrow> bool" where
  "isujis c \<longleftrightarrow> 0xa1 \<le> c \<and> c \<le> 0xfe"

definition iskata :: "byte \<Rightarrow> bool" where
  "iskata c \<longleftrightarrow> 0xa1 \<le> c \<and> c \<le> 0xdf"

definition isujis_ss2 :: "byte \<Rightarrow> bool" where
  "isujis_ss2 c \<longleftrightarrow> c = 0x8e"

definition isujis_ss3 :: "byte \<Rightarrow> bool" where
  "isujis_ss3 c \<longleftrightarrow> c = 0x8f"

definition ismbchar_ujis :: "byte list \<Rightarrow> nat option" where
  "ismbchar_ujis p = do {
     c \<leftarrow> rd p 0;
     if c < 0x80 then Some 0
     else do {
       b \<leftarrow> and_then (Some (isujis c \<and> length p > 1)) (map_option isujis (rd p 1));
       if b then Some 2
       else do {
         b \<leftarrow> and_then (Some (isujis_ss2 c \<and> length p > 1)) (map_option iskata (rd p 1));
         if b then Some 2
         else do {
           b \<leftarrow> and_then (Some (isujis_ss3 c \<and> length p > 2))
                  (and_then (map_option isujis (rd p 1)) (map_option isujis (rd p 2)));
           Some (if b then 3 else 0) } } } }"

definition mbcharlen_ujis :: "u32 \<Rightarrow> nat" where
  "mbcharlen_ujis c =
     (if isujis (ucast c) then 2 else if isujis_ss2 (ucast c) then 2 else if isujis_ss3 (ucast c) then 3 else 1)"

text \<open>The macros of \<^verbatim>\<open>ctype-eucjpms.c\<close> are those of ujis under other names.\<close>

definition ismbchar_eucjpms :: "byte list \<Rightarrow> nat option" where
  "ismbchar_eucjpms p = do {
     c \<leftarrow> rd p 0;
     if c < 0x80 then Some 0
     else do {
       b \<leftarrow> and_then (Some (isujis c \<and> length p > 1)) (map_option isujis (rd p 1));
       if b then Some 2
       else do {
         b \<leftarrow> and_then (Some (isujis_ss2 c \<and> length p > 1)) (map_option iskata (rd p 1));
         if b then Some 2
         else do {
           b \<leftarrow> and_then (Some (isujis_ss3 c \<and> length p > 2))
                  (and_then (map_option isujis (rd p 1)) (map_option isujis (rd p 2)));
           Some (if b then 3 else 0) } } } }"

definition mbcharlen_eucjpms :: "u32 \<Rightarrow> nat" where
  "mbcharlen_eucjpms c =
     (if isujis (ucast c) then 2 else if isujis_ss2 (ucast c) then 2 else if isujis_ss3 (ucast c) then 3 else 1)"

definition my_ismbchar_ucs2 :: "byte list \<Rightarrow> nat option" where
  "my_ismbchar_ucs2 p = Some 2"

definition my_mbcharlen_ucs2 :: "u32 \<Rightarrow> nat" where
  "my_mbcharlen_ucs2 c = 2"

definition charset_8bit :: MY_CHARSET where
  "charset_8bit = \<lparr>use_mb = False, ismbchar = \<lambda>p. Some 0, mbcharlen = \<lambda>c. 1\<rparr>"

definition charset_gbk :: MY_CHARSET where
  "charset_gbk = \<lparr>use_mb = True, ismbchar = ismbchar_gbk, mbcharlen = mbcharlen_gbk\<rparr>"

definition charset_big5 :: MY_CHARSET where
  "charset_big5 = \<lparr>use_mb = True, ismbchar = ismbchar_big5, mbcharlen = mbcharlen_big5\<rparr>"

definition charset_sjis :: MY_CHARSET where
  "charset_sjis = \<lparr>use_mb = True, ismbchar = ismbchar_sjis, mbcharlen = mbcharlen_sjis\<rparr>"

definition charset_cp932 :: MY_CHARSET where
  "charset_cp932 = \<lparr>use_mb = True, ismbchar = ismbchar_cp932, mbcharlen = mbcharlen_cp932\<rparr>"

definition charset_euc_kr :: MY_CHARSET where
  "charset_euc_kr = \<lparr>use_mb = True, ismbchar = ismbchar_euc_kr, mbcharlen = mbcharlen_euc_kr\<rparr>"

definition charset_gb2312 :: MY_CHARSET where
  "charset_gb2312 = \<lparr>use_mb = True, ismbchar = ismbchar_gb2312, mbcharlen = mbcharlen_gb2312\<rparr>"

definition charset_ujis :: MY_CHARSET where
  "charset_ujis = \<lparr>use_mb = True, ismbchar = ismbchar_ujis, mbcharlen = mbcharlen_ujis\<rparr>"

definition charset_eucjpms :: MY_CHARSET where
  "charset_eucjpms = \<lparr>use_mb = True, ismbchar = ismbchar_eucjpms, mbcharlen = mbcharlen_eucjpms\<rparr>"

definition charset_utf8 :: MY_CHARSET where
  "charset_utf8 = \<lparr>use_mb = True, ismbchar = my_ismbchar_utf8, mbcharlen = my_mbcharlen_utf8\<rparr>"

definition charset_ucs2 :: MY_CHARSET where
  "charset_ucs2 = \<lparr>use_mb = True, ismbchar = my_ismbchar_ucs2, mbcharlen = my_mbcharlen_ucs2\<rparr>"

section \<open>The laws\<close>

text \<open>
  \<open>mb_at\<close> is the call of \<open>ismbchar\<close> at a position of a string, \<open>mb_here\<close> the length of the multi-byte
  character that it reports there, or 0, and \<open>lead_len\<close> what the first byte announces: a \<^verbatim>\<open>char\<close>, converted to
  \<^verbatim>\<open>uint\<close> with its sign.
\<close>

definition mb_at :: "MY_CHARSET \<Rightarrow> byte list \<Rightarrow> nat option" where
  "mb_at cs s = (if use_mb cs then ismbchar cs s else Some 0)"

definition mb_here :: "MY_CHARSET \<Rightarrow> byte list \<Rightarrow> nat" where
  "mb_here cs s = the (mb_at cs s)"

definition lead_len :: "MY_CHARSET \<Rightarrow> byte \<Rightarrow> nat" where
  "lead_len cs c = (if use_mb cs then mbcharlen cs (scast c) else 0)"

text \<open>A byte outside ASCII that is taken for itself wherever it stands.\<close>

definition plain_byte :: "MY_CHARSET \<Rightarrow> byte \<Rightarrow> bool" where
  "plain_byte cs b \<longleftrightarrow> 0x80 \<le> b \<and> lead_len cs b \<le> 1 \<and> (\<forall>u. mb_here cs (b # u) = 0)"

text \<open>
  A character is recognised by its own bytes; ASCII bytes stand for themselves; a byte that is no
  multi-byte character and does not announce one stays so whatever replaces the string behind it,
  as long as the plain bytes that follow it are the same; no character contains the single quote; and
  nothing is read beyond the end of a string that is not empty.
\<close>

locale mb_charset =
  fixes cs :: MY_CHARSET
  assumes mb_char: "s \<noteq> [] \<Longrightarrow> mb_here cs s \<noteq> 0 \<Longrightarrow>
      2 \<le> mb_here cs s \<and> mb_here cs s \<le> length s \<and> mb_here cs (take (mb_here cs s) s @ t) = mb_here cs s"
    and ascii: "c < 0x80 \<Longrightarrow> mb_here cs (c # s) = 0 \<and> lead_len cs c \<le> 1"
    and lone: "mb_here cs (c # s) = 0 \<Longrightarrow> lead_len cs c \<le> 1 \<Longrightarrow>
      takeWhile (plain_byte cs) s = takeWhile (plain_byte cs) t \<Longrightarrow> mb_here cs (c # t) = 0"
    and no_quote: "s \<noteq> [] \<Longrightarrow> 0x27 \<notin> set (take (mb_here cs s) s)"
    and in_string: "mb_at cs (c # s) = Some (mb_here cs (c # s))"

lemma ucast_scast: "ucast (scast c :: u32) = c" for c :: byte
  by (rule bit_word_eqI) (auto simp: bit_simps)

lemma mb_charset_8bit: "\<not> use_mb cs \<Longrightarrow> mb_charset cs"
  by unfold_locales (simp_all add: mb_here_def mb_at_def lead_len_def)

text \<open>The character sets of two bytes at most.\<close>

lemma mb_charset_dbcs:
  assumes "use_mb cs" and head: "\<And>c. head c \<Longrightarrow> 0x80 \<le> c"
    and ism: "\<And>c s. ismbchar cs (c # s) = Some (if head c \<and> 0 < length s \<and> tail (s ! 0) then 2 else 0)"
    and len: "\<And>c. mbcharlen cs c = (if head (ucast c) then 2 else 1)"
    and tail: "\<not> tail 0x27"
  shows "mb_charset cs"
proof
  have here: "mb_here cs (c # s) = (if head c \<and> 0 < length s \<and> tail (s ! 0) then 2 else 0)" for c s
    using assms(1) by (simp add: mb_here_def mb_at_def ism)
  have lead: "lead_len cs c = (if head c then 2 else 1)" for c
    using assms(1) by (simp add: lead_len_def len ucast_scast)
  show "2 \<le> mb_here cs s \<and> mb_here cs s \<le> length s \<and> mb_here cs (take (mb_here cs s) s @ t) = mb_here cs s"
    if ne: "s \<noteq> []" "mb_here cs s \<noteq> 0" for s t
  proof -
    obtain c d u where s: "s = c # d # u" using ne by (cases s rule: remdups_adj.cases) (auto simp: here)
    then show ?thesis using ne by (auto simp: here split: if_splits)
  qed
  show "mb_here cs (c # s) = 0 \<and> lead_len cs c \<le> 1" if "c < 0x80" for c s
    using head [of c] that by (auto simp: here lead)
  show "mb_here cs (c # t) = 0" if "lead_len cs c \<le> 1" for c t
    using that by (auto simp: here lead split: if_splits)
  show "0x27 \<notin> set (take (mb_here cs s) s)" if ne: "s \<noteq> []" for s
    using ne head [of "0x27"] tail by (cases s rule: remdups_adj.cases) (auto simp: here)
  show "mb_at cs (c # s) = Some (mb_here cs (c # s))" for c s
    using assms(1) by (simp add: mb_here_def mb_at_def ism)
qed

interpretation charset_8bit: mb_charset charset_8bit
  by (rule mb_charset_8bit) (simp add: charset_8bit_def)

interpretation charset_gbk: mb_charset charset_gbk
  by (rule mb_charset_dbcs [where head = isgbkhead and tail = isgbktail])
    (auto simp: charset_gbk_def ismbchar_gbk_def mbcharlen_gbk_def isgbkhead_def isgbktail_def
      word_le_nat_alt)

interpretation charset_big5: mb_charset charset_big5
  by (rule mb_charset_dbcs [where head = isbig5head and tail = isbig5tail])
    (auto simp: charset_big5_def ismbchar_big5_def mbcharlen_big5_def isbig5head_def isbig5tail_def
      word_le_nat_alt)

interpretation charset_sjis: mb_charset charset_sjis
  by (rule mb_charset_dbcs [where head = issjishead and tail = issjistail])
    (auto simp: charset_sjis_def ismbchar_sjis_def mbcharlen_sjis_def issjishead_def issjistail_def
      word_le_nat_alt)

interpretation charset_cp932: mb_charset charset_cp932
  by (rule mb_charset_dbcs [where head = iscp932head and tail = iscp932tail])
    (auto simp: charset_cp932_def ismbchar_cp932_def mbcharlen_cp932_def iscp932head_def iscp932tail_def
      word_le_nat_alt)

interpretation charset_euc_kr: mb_charset charset_euc_kr
  by (rule mb_charset_dbcs [where head = iseuc_kr_head and tail = iseuc_kr_tail])
    (auto simp: charset_euc_kr_def ismbchar_euc_kr_def mbcharlen_euc_kr_def iseuc_kr_head_def iseuc_kr_tail_def
      word_le_nat_alt word_less_nat_alt)

interpretation charset_gb2312: mb_charset charset_gb2312
  by (rule mb_charset_dbcs [where head = isgb2312head and tail = isgb2312tail])
    (auto simp: charset_gb2312_def ismbchar_gb2312_def mbcharlen_gb2312_def isgb2312head_def isgb2312tail_def
      word_le_nat_alt)

text \<open>The Japanese sets of up to three bytes, whose first byte tells the length.\<close>

lemma ismbchar_ujis_Cons:
  "ismbchar_ujis (c # s) = Some
     (if isujis c \<and> 0 < length s \<and> isujis (s ! 0) \<or> isujis_ss2 c \<and> 0 < length s \<and> iskata (s ! 0) then 2
      else if isujis_ss3 c \<and> 1 < length s \<and> isujis (s ! 0) \<and> isujis (s ! 1) then 3 else 0)"
proof -
  have "\<not> c < 0x80" if "isujis c \<or> isujis_ss2 c \<or> isujis_ss3 c"
    using that by (auto simp: isujis_def isujis_ss2_def isujis_ss3_def word_le_nat_alt word_less_nat_alt)
  moreover have "isujis c \<Longrightarrow> \<not> isujis_ss2 c \<and> \<not> isujis_ss3 c" "isujis_ss2 c \<Longrightarrow> \<not> isujis_ss3 c"
    by (auto simp: isujis_def isujis_ss2_def isujis_ss3_def)
  ultimately show ?thesis
    by (cases s rule: remdups_adj.cases) (auto simp: ismbchar_ujis_def)
qed

lemma mb_charset_ujis:
  assumes "use_mb cs" "ismbchar cs = ismbchar_ujis" "mbcharlen cs = mbcharlen_ujis"
  shows "mb_charset cs"
proof
  have here: "mb_here cs s = the (ismbchar_ujis s)" for s
    using assms by (simp add: mb_here_def mb_at_def)
  have lead: "lead_len cs c = (if isujis c then 2 else if isujis_ss2 c then 2 else if isujis_ss3 c then 3 else 1)" for c
    using assms by (simp add: lead_len_def mbcharlen_ujis_def ucast_scast)
  show "2 \<le> mb_here cs s \<and> mb_here cs s \<le> length s \<and> mb_here cs (take (mb_here cs s) s @ t) = mb_here cs s"
    if "s \<noteq> []" "mb_here cs s \<noteq> 0" for s t
  proof -
    obtain c u where s: "s = c # u" using \<open>s \<noteq> []\<close> by (cases s) auto
    then show ?thesis
      using that(2) unfolding here s ismbchar_ujis_Cons
      by (cases u rule: remdups_adj.cases) (auto simp: ismbchar_ujis_Cons numeral_eq_Suc split: if_splits)
  qed
  show "mb_here cs (c # s) = 0 \<and> lead_len cs c \<le> 1" if "c < 0x80" for c s
  proof -
    have "\<not> isujis c" "\<not> isujis_ss2 c" "\<not> isujis_ss3 c"
      using that by (auto simp: isujis_def isujis_ss2_def isujis_ss3_def word_le_nat_alt word_less_nat_alt)
    then show ?thesis by (simp add: here lead ismbchar_ujis_Cons)
  qed
  show "mb_here cs (c # t) = 0" if "lead_len cs c \<le> 1" for c t
    using that by (auto simp: here lead ismbchar_ujis_Cons split: if_splits)
  show "0x27 \<notin> set (take (mb_here cs s) s)" if ne: "s \<noteq> []" for s
  proof -
    obtain c u where s: "s = c # u" using ne by (cases s) auto
    have "\<not> isujis 0x27" "\<not> isujis_ss2 0x27" "\<not> isujis_ss3 0x27" "\<not> iskata 0x27"
      by (simp_all add: isujis_def isujis_ss2_def isujis_ss3_def iskata_def)
    then show ?thesis
      unfolding here s ismbchar_ujis_Cons
      by (cases u rule: remdups_adj.cases) (auto simp: numeral_eq_Suc)
  qed
  show "mb_at cs (c # s) = Some (mb_here cs (c # s))" for c s
    using assms by (simp add: mb_here_def mb_at_def ismbchar_ujis_Cons)
qed

interpretation charset_ujis: mb_charset charset_ujis
  by (rule mb_charset_ujis) (simp_all add: charset_ujis_def)

interpretation charset_eucjpms: mb_charset charset_eucjpms
  by (rule mb_charset_ujis)
    (simp_all add: charset_eucjpms_def fun_eq_iff ismbchar_ujis_def ismbchar_eucjpms_def
      mbcharlen_ujis_def mbcharlen_eucjpms_def)

text \<open>utf8: the sign of the \<^verbatim>\<open>char\<close> makes \<open>mbcharlen\<close> 0 for every byte outside ASCII.\<close>

lemma my_ismbchar_utf8_Cons:
  "my_ismbchar_utf8 (c # s) = Some
     (if 0xc2 \<le> c \<and> c < 0xe0 \<and> 0 < length s \<and> is_cont (s ! 0) then 2
      else if 0xe0 \<le> c \<and> c < 0xf0 \<and> 1 < length s \<and> is_cont (s ! 0) \<and> is_cont (s ! 1)
        \<and> (0xe1 \<le> c \<or> 0xa0 \<le> s ! 0) then 3 else 0)"
  by (auto simp: my_ismbchar_utf8_def my_utf8_uni_returns Let_def my_cs_defs not_less word_le_nat_alt word_less_nat_alt)

lemma bit_unat: "bit w n \<longleftrightarrow> odd (unat w div 2 ^ n)" for w :: "'a::len word"
  by (metis bit_iff_odd bit_unsigned_iff possible_bit_nat)

lemma bit_7_iff: "bit c 7 \<longleftrightarrow> 0x80 \<le> c" for c :: byte
proof -
  have "bit c 7 \<longleftrightarrow> odd (unat c div 2 ^ 7)"
    by (rule bit_unat)
  moreover have "unat c div 2 ^ 7 < 2" by (rule less_mult_imp_div_less) simp
  moreover have "unat c div 2 ^ 7 = 0 \<longleftrightarrow> unat c < 128" by (simp add: div_eq_0_iff)
  ultimately show ?thesis by (auto simp: word_le_nat_alt less_2_cases_iff)
qed

lemma scast_char:
  "c < 0x80 \<Longrightarrow> scast c = (ucast c :: u32)" "0x80 \<le> c \<Longrightarrow> 0x80000000 \<le> (scast c :: u32)" for c :: byte
proof -
  assume "c < 0x80"
  then have "\<not> bit c 7" using bit_7_iff [of c] by simp
  moreover have "bit c n \<Longrightarrow> n < 8" for n using bit_imp_le_length [of c n] by simp
  ultimately have "n < 7" if "bit c n" for n
    using that by (cases "n = 7") (auto simp: less_Suc_eq numeral_eq_Suc)
  then show "scast c = (ucast c :: u32)"
  proof (intro bit_word_eqI)
    fix n
    assume lt: "\<And>n. bit c n \<Longrightarrow> n < 7" and "n < LENGTH(32)"
    show "bit (scast c :: u32) n \<longleftrightarrow> bit (ucast c :: u32) n"
      using lt [of n] \<open>\<not> bit c 7\<close> \<open>n < LENGTH(32)\<close>
      by (cases "n < 7") (auto simp: bit_signed_iff bit_unsigned_iff min_def)
  qed
next
  assume "0x80 \<le> c"
  then have "bit (scast c :: u32) 31" using bit_7_iff [of c] by (simp add: bit_simps)
  then have "odd (unat (scast c :: u32) div 2 ^ 31)" by (rule bit_unat [THEN iffD1])
  then have "unat (scast c :: u32) div 2 ^ 31 \<noteq> 0" by (metis even_zero)
  then show "0x80000000 \<le> (scast c :: u32)" by (simp add: word_le_nat_alt div_eq_0_iff)
qed

lemma lead_len_utf8: "lead_len charset_utf8 c = (if c < 0x80 then 1 else 0)"
proof (cases "c < 0x80")
  case True
  then have "(scast c :: u32) < 0x80"
    using scast_char(1) [OF True] by (simp add: word_less_nat_alt unat_ucast_up)
  then show ?thesis using True by (simp add: lead_len_def charset_utf8_def my_mbcharlen_utf8_def)
next
  case False
  then have "0x80000000 \<le> (scast c :: u32)" by (intro scast_char(2)) simp
  then show ?thesis
    using False by (simp add: lead_len_def charset_utf8_def my_mbcharlen_utf8_def word_le_nat_alt word_less_nat_alt)
qed

lemma mb_here_utf8: "mb_here charset_utf8 s = the (my_ismbchar_utf8 s)"
  by (simp add: mb_here_def mb_at_def charset_utf8_def)

lemma plain_byte_cont: "is_cont b \<Longrightarrow> plain_byte charset_utf8 b"
  by (auto simp: plain_byte_def lead_len_utf8 mb_here_utf8 my_ismbchar_utf8_Cons is_cont_range
      word_le_nat_alt word_less_nat_alt)

lemma takeWhile_same:
  assumes "takeWhile P s = takeWhile P t" "k < length t" "\<forall>i \<le> k. P (t ! i)"
  shows "k < length s \<and> s ! k = t ! k"
proof -
  have "k < length (takeWhile P t)"
    using assms(2,3) by (metis linorder_not_le nth_length_takeWhile length_takeWhile_le le_less_trans le_neq_implies_less)
  then show ?thesis using assms(1) by (metis length_takeWhile_le less_le_trans takeWhile_nth)
qed

interpretation charset_utf8: mb_charset charset_utf8
proof
  show "mb_at charset_utf8 (c # s) = Some (mb_here charset_utf8 (c # s))" for c s
    by (simp add: mb_here_def mb_at_def charset_utf8_def my_ismbchar_utf8_Cons)
  show "2 \<le> mb_here charset_utf8 s \<and> mb_here charset_utf8 s \<le> length s
      \<and> mb_here charset_utf8 (take (mb_here charset_utf8 s) s @ t) = mb_here charset_utf8 s"
    if ne: "s \<noteq> []" "mb_here charset_utf8 s \<noteq> 0" for s t
  proof -
    obtain c u where s: "s = c # u" using ne(1) by (cases s) auto
    then show ?thesis
      using ne(2) unfolding mb_here_utf8 s my_ismbchar_utf8_Cons
      by (cases u rule: remdups_adj.cases) (auto simp: my_ismbchar_utf8_Cons numeral_eq_Suc split: if_splits)
  qed
  show "mb_here charset_utf8 (c # s) = 0 \<and> lead_len charset_utf8 c \<le> 1" if "c < 0x80" for c s
    using that by (auto simp: lead_len_utf8 mb_here_utf8 my_ismbchar_utf8_Cons word_le_nat_alt word_less_nat_alt)
  show "0x27 \<notin> set (take (mb_here charset_utf8 s) s)" if ne: "s \<noteq> []" for s
  proof -
    obtain c u where s: "s = c # u" using ne by (cases s) auto
    have "\<not> is_cont 0x27" by (simp add: is_cont_def)
    then show ?thesis
      unfolding mb_here_utf8 s my_ismbchar_utf8_Cons
      by (cases u rule: remdups_adj.cases) (auto simp: take_Cons' split: if_splits)
  qed
  show "mb_here charset_utf8 (c # t) = 0"
    if z: "mb_here charset_utf8 (c # s) = 0"
      and tw: "takeWhile (plain_byte charset_utf8) s = takeWhile (plain_byte charset_utf8) t" for c s t
  proof (rule ccontr)
    assume nz: "mb_here charset_utf8 (c # t) \<noteq> 0"
    then have 0: "0 < length t" "is_cont (t ! 0)"
      by (auto simp: mb_here_utf8 my_ismbchar_utf8_Cons split: if_splits)
    then have s0: "0 < length s \<and> s ! 0 = t ! 0"
      by (intro takeWhile_same [OF tw]) (auto intro: plain_byte_cont)
    have s1: "1 < length s \<and> s ! 1 = t ! 1" if "1 < length t" "is_cont (t ! 1)"
      using 0 that by (intro takeWhile_same [OF tw]) (auto intro: plain_byte_cont simp: le_Suc_eq)
    show False
      using nz z s0 s1 by (auto simp: mb_here_utf8 my_ismbchar_utf8_Cons split: if_splits)
  qed
qed

end
