(* ===== verification/Escape.thy ===== *)
theory Escape
  imports MbCharset
begin

text \<open>
  Escaping a string for an SQL literal (\<^verbatim>\<open>escape_string_for_mysql\<close> and \<^verbatim>\<open>escape_quotes_for_mysql\<close> of
  \<^verbatim>\<open>MySQL/charset.c\<close>), and the reading of a literal as the SQL language defines it, in the
  character set of the connection.
\<close>

section \<open>The code\<close>

text \<open>The \<^verbatim>\<open>switch\<close>: the character to write behind the backslash, 0 for none.\<close>

definition escape_char :: "byte \<Rightarrow> byte" where
  "escape_char c =
     (if c = 0 then 0x30 else if c = 0x0A then 0x6E else if c = 0x0D then 0x72
      else if c = 0x5C then 0x5C else if c = 0x27 then 0x27 else if c = 0x22 then 0x22
      else if c = 0x1A then 0x5A else 0)"

text \<open>
  \<open>room\<close> is \<^verbatim>\<open>to_end - to\<close>.  The result is what is written and whether it did not fit; it is
  \<^const>\<open>None\<close> when bytes beyond the end of the string are read, by \<^verbatim>\<open>ismbchar\<close> or to be copied.
\<close>

function escape_loop :: "MY_CHARSET \<Rightarrow> nat \<Rightarrow> byte list \<Rightarrow> (byte list \<times> bool) option" where
  "escape_loop cs room [] = Some ([], False)"
| "escape_loop cs room (c # s) = do {
     tmp_length \<leftarrow> mb_at cs (c # s);
     if tmp_length \<noteq> 0 then
       if room < tmp_length then Some ([], True)
       else if length (c # s) < tmp_length then None
       else map_option (apfst ((@) (take tmp_length (c # s))))
              (escape_loop cs (room - tmp_length) (drop tmp_length (c # s)))
     else
       let escape = (if lead_len cs c > 1 then c else escape_char c)
       in if escape \<noteq> 0 then
            if room < 2 then Some ([], True)
            else map_option (apfst (\<lambda>out. 0x5C # escape # out)) (escape_loop cs (room - 2) s)
          else if room < 1 then Some ([], True)
          else map_option (apfst ((#) c)) (escape_loop cs (room - 1) s) }"
  by pat_completeness auto
termination
  by (relation "measure (\<lambda>(cs, room, s). length s)") auto

declare escape_loop.simps [simp del]

text \<open>The contents of the buffer \<open>to\<close>, with the NUL, and the result.\<close>

definition escape_string_for_mysql :: "MY_CHARSET \<Rightarrow> nat \<Rightarrow> byte list \<Rightarrow> (byte list \<times> int) option" where
  "escape_string_for_mysql cs to_length from =
     map_option (\<lambda>(out, overflow). (out @ [0], if overflow then -1 else int (length out)))
       (escape_loop cs (if to_length \<noteq> 0 then to_length - 1 else 2 * length from) from)"

function quotes_loop :: "MY_CHARSET \<Rightarrow> nat \<Rightarrow> byte list \<Rightarrow> (byte list \<times> bool) option" where
  "quotes_loop cs room [] = Some ([], False)"
| "quotes_loop cs room (c # s) = do {
     tmp_length \<leftarrow> mb_at cs (c # s);
     if tmp_length \<noteq> 0 then
       if room < tmp_length then Some ([], True)
       else if length (c # s) < tmp_length then None
       else map_option (apfst ((@) (take tmp_length (c # s))))
              (quotes_loop cs (room - tmp_length) (drop tmp_length (c # s)))
     else if c = 0x27 then
       if room < 2 then Some ([], True)
       else map_option (apfst (\<lambda>out. 0x27 # 0x27 # out)) (quotes_loop cs (room - 2) s)
     else if room < 1 then Some ([], True)
     else map_option (apfst ((#) c)) (quotes_loop cs (room - 1) s) }"
  by pat_completeness auto
termination
  by (relation "measure (\<lambda>(cs, room, s). length s)") auto

declare quotes_loop.simps [simp del]

definition escape_quotes_for_mysql :: "MY_CHARSET \<Rightarrow> nat \<Rightarrow> byte list \<Rightarrow> (byte list \<times> int) option" where
  "escape_quotes_for_mysql cs to_length from =
     map_option (\<lambda>(out, overflow). (out @ [0], if overflow then -1 else int (length out)))
       (quotes_loop cs (if to_length \<noteq> 0 then to_length - 1 else 2 * length from) from)"

section \<open>The literals of SQL\<close>

text \<open>
  The reading of a literal behind its opening quote: the value and the text behind the closing
  quote.  A multi-byte character is read as a whole; with \<open>bs\<close> a backslash escapes the next byte,
  and a doubled quote stands for one.
\<close>

definition unescape :: "byte \<Rightarrow> byte list" where
  "unescape d =
     (if d = 0x30 then [0] else if d = 0x6E then [0x0A] else if d = 0x72 then [0x0D]
      else if d = 0x5A then [0x1A] else if d = 0x74 then [0x09] else if d = 0x62 then [0x08]
      else if d = 0x25 \<or> d = 0x5F then [0x5C, d] else [d])"

function read_literal :: "MY_CHARSET \<Rightarrow> bool \<Rightarrow> byte list \<Rightarrow> (byte list \<times> byte list) option" where
  "read_literal cs bs [] = None"
| "read_literal cs bs (c # s) =
     (let n = mb_here cs (c # s)
      in if n \<noteq> 0 then
           map_option (apfst ((@) (take n (c # s)))) (read_literal cs bs (drop n (c # s)))
         else if bs \<and> c = 0x5C then
           if s = [] then None
           else map_option (apfst ((@) (unescape (hd s)))) (read_literal cs bs (drop 1 s))
         else if c = 0x27 then
           if s \<noteq> [] \<and> hd s = 0x27 then map_option (apfst ((#) 0x27)) (read_literal cs bs (drop 1 s))
           else Some ([], s)
         else map_option (apfst ((#) c)) (read_literal cs bs s))"
  by pat_completeness auto
termination
  by (relation "measure (\<lambda>(cs, bs, s). length s)") auto

declare read_literal.simps [simp del]

section \<open>What is written is read back\<close>

text \<open>A closing quote with what follows it: no second quote.\<close>

definition closing :: "byte list \<Rightarrow> bool" where
  "closing q \<longleftrightarrow> (\<exists>rest. q = 0x27 # rest \<and> (rest = [] \<or> hd rest \<noteq> 0x27))"

text \<open>An outcome of the loop: it fits the room, and twice the length is enough room.\<close>

definition fits :: "nat \<Rightarrow> byte list \<Rightarrow> (byte list \<times> bool) option \<Rightarrow> bool" where
  "fits room s r \<longleftrightarrow> (\<exists>out overflow. r = Some (out, overflow) \<and> length out \<le> room
     \<and> (2 * length s \<le> room \<longrightarrow> \<not> overflow))"

lemma fits_append:
  assumes "fits (room - length w) t r" "length w \<le> room" "length w + 2 * length t \<le> 2 * length s"
  shows "fits room s (map_option (apfst ((@) w)) r)"
proof -
  obtain out overflow where "r = Some (out, overflow)" "length out \<le> room - length w"
    "2 * length t \<le> room - length w \<longrightarrow> \<not> overflow"
    using assms(1) by (auto simp: fits_def)
  then show ?thesis
    unfolding fits_def using assms(2,3) by (intro exI [of _ "w @ out"] exI [of _ overflow]) auto
qed

lemma fits_overflow: "room < 2 * length s \<Longrightarrow> fits room s (Some ([], True))"
  by (simp add: fits_def)

lemma append_fun: "(@) [x] = (#) x" "(@) [x, y] = (\<lambda>out. x # y # out)"
  by auto

lemma read_literal_char:
  "w \<noteq> [] \<Longrightarrow> mb_here cs (w @ t) = length w \<Longrightarrow>
     read_literal cs bs (w @ t) = map_option (apfst ((@) w)) (read_literal cs bs t)"
  by (cases w) (simp_all add: read_literal.simps Let_def)

context mb_charset
begin

lemmas escape_eq = escape_loop.simps(1) escape_loop.simps(2) [of cs, unfolded in_string bind.simps]

lemmas quotes_eq = quotes_loop.simps(1) quotes_loop.simps(2) [of cs, unfolded in_string bind.simps]

lemma plain_ascii: "c < 0x80 \<Longrightarrow> \<not> plain_byte cs c"
  by (auto simp: plain_byte_def)

lemma plain_lead: "1 < lead_len cs c \<Longrightarrow> \<not> plain_byte cs c"
  by (simp add: plain_byte_def)

lemma plain_char: "mb_here cs (c # s) \<noteq> 0 \<Longrightarrow> \<not> plain_byte cs c"
  by (auto simp: plain_byte_def)

lemma escape_ascii: "escape_char c \<noteq> 0 \<Longrightarrow> c < 0x80 \<and> escape_char c < 0x80"
  by (auto simp: escape_char_def split: if_splits)

lemma closing_quote:
  assumes "closing q"
  shows "takeWhile (plain_byte cs) q = []" "read_literal cs bs q = Some ([], tl q)"
proof -
  obtain rest where q: "q = 0x27 # rest" "rest = [] \<or> hd rest \<noteq> 0x27"
    using assms by (auto simp: closing_def)
  then show "takeWhile (plain_byte cs) q = []" using plain_ascii [of "0x27"] by simp
  show "read_literal cs bs q = Some ([], tl q)"
    using q ascii [of "0x27" rest] by (auto simp: read_literal.simps Let_def)
qed

lemma unescape_escape:
  "escape_char c \<noteq> 0 \<Longrightarrow> unescape (escape_char c) = [c]" "0x80 \<le> c \<Longrightarrow> unescape c = [c]"
  by (auto simp: escape_char_def unescape_def split: if_splits)

text \<open>The cases of one round of the loop, for an output that fits.\<close>

lemma escape_loop_cases:
  assumes "escape_loop cs room (c # s) = Some (out, False)"
  obtains
    (mb) n out' where "mb_here cs (c # s) = n" "n \<noteq> 0" "n \<le> length (c # s)" "n \<le> room"
      "out = take n (c # s) @ out'" "escape_loop cs (room - n) (drop n (c # s)) = Some (out', False)"
  | (esc) e out' where "mb_here cs (c # s) = 0" "e = (if lead_len cs c > 1 then c else escape_char c)" "e \<noteq> 0"
      "2 \<le> room" "out = 0x5C # e # out'" "escape_loop cs (room - 2) s = Some (out', False)"
  | (copy) out' where "mb_here cs (c # s) = 0" "lead_len cs c \<le> 1" "escape_char c = 0"
      "1 \<le> room" "out = c # out'" "escape_loop cs (room - 1) s = Some (out', False)"
proof (cases "mb_here cs (c # s) = 0")
  case False
  then show ?thesis
    using assms mb by (auto simp: escape_eq Let_def split: if_splits)
next
  case True
  show ?thesis
  proof (cases "(if lead_len cs c > 1 then c else escape_char c) = 0")
    case False
    then show ?thesis
      using True assms esc by (auto simp: escape_eq Let_def split: if_splits)
  next
    case e: True
    have "lead_len cs c \<le> 1"
      using ascii [of 0 s] e by (auto split: if_splits)
    then show ?thesis
      using True e assms copy by (auto simp: escape_eq Let_def split: if_splits)
  qed
qed

lemma escaped_byte:
  assumes "e = (if lead_len cs c > 1 then c else escape_char c)" "e \<noteq> 0"
  shows "\<not> plain_byte cs c" "unescape e = [c]"
proof -
  have "c < 0x80 \<or> 0x80 \<le> c" by auto
  moreover have "lead_len cs c \<le> 1" if "c < 0x80" using ascii [OF that] by blast
  ultimately show "\<not> plain_byte cs c" "unescape e = [c]"
    using assms escape_ascii [of c] unescape_escape [of c] plain_ascii [of c] plain_lead [of c]
    by (auto split: if_splits)
qed

lemma plain_prefix:
  "escape_loop cs room s = Some (out, False) \<Longrightarrow> closing q \<Longrightarrow>
     takeWhile (plain_byte cs) (out @ q) = takeWhile (plain_byte cs) s"
proof (induction s arbitrary: room out)
  case Nil
  then show ?case using closing_quote(1) by (simp add: escape_eq)
next
  case (Cons c s)
  from Cons.prems(1) show ?case
  proof (cases rule: escape_loop_cases)
    case (mb n out')
    then have "\<not> plain_byte cs c" using plain_char [of c s] by simp
    then show ?thesis using mb by (cases n) auto
  next
    case (esc e out')
    then show ?thesis using escaped_byte(1) [of e c] plain_ascii [of "0x5C"] by simp
  next
    case (copy out')
    then show ?thesis using Cons.IH [of "room - 1" out'] Cons.prems(2) by simp
  qed
qed

lemma read_escaped:
  "escape_loop cs room s = Some (out, False) \<Longrightarrow> closing q \<Longrightarrow> read_literal cs True (out @ q) = Some (s, tl q)"
proof (induction s arbitrary: room out rule: length_induct)
  case (1 s)
  show ?case
  proof (cases s)
    case Nil
    then show ?thesis using 1(2,3) closing_quote(2) by (simp add: escape_eq)
  next
    case s: (Cons c s')
    have IH: "read_literal cs True (out' @ q) = Some (t, tl q)"
      if "escape_loop cs room' t = Some (out', False)" "length t < length s" for room' t out'
      using 1(1,3) that by blast
    from 1(2) [unfolded s] show ?thesis
    proof (cases rule: escape_loop_cases)
      case (mb n out')
      then have "mb_here cs (take n s @ out' @ q) = n" "0 < n"
        using mb_char [of s "out' @ q"] s by auto
      moreover have "read_literal cs True (out' @ q) = Some (drop n s, tl q)"
        using mb s by (intro IH) auto
      moreover have "length (take n s) = n" using mb(3) s by simp
      ultimately have "read_literal cs True (take n s @ out' @ q) = Some (take n s @ drop n s, tl q)"
        by (subst read_literal_char) auto
      then show ?thesis using mb s by simp
    next
      case (esc e out')
      have "read_literal cs True (out' @ q) = Some (s', tl q)" using esc s by (intro IH) auto
      then show ?thesis
        using esc s ascii [of "0x5C" "e # out' @ q"] escaped_byte(2) [of e c]
        by (simp add: read_literal.simps Let_def)
    next
      case (copy out')
      have "takeWhile (plain_byte cs) s' = takeWhile (plain_byte cs) (out' @ q)"
        using plain_prefix [OF copy(6) 1(3)] by simp
      then have "mb_here cs (c # out' @ q) = 0" by (rule lone [OF copy(1,2)])
      moreover have "c \<noteq> 0x5C" "c \<noteq> 0x27" using copy(3) by (auto simp: escape_char_def)
      moreover have "read_literal cs True (out' @ q) = Some (s', tl q)" using copy s by (intro IH) auto
      ultimately show ?thesis using copy s by (simp add: read_literal.simps Let_def)
    qed
  qed
qed

text \<open>Twice the length is always enough, and no byte beyond the end is read.\<close>

lemma char_fits:
  assumes "mb_here cs (c # s) = n" "n \<noteq> 0"
  shows "2 \<le> n" "n \<le> length (c # s)" "length (drop n (c # s)) < length (c # s)"
  using mb_char [of "c # s"] assms by auto

lemma escape_loop_fits: "fits room s (escape_loop cs room s)"
proof (induction s arbitrary: room rule: length_induct)
  case (1 s)
  have step: "fits room s (map_option (apfst ((@) w)) (escape_loop cs (room - length w) t))"
    if "length t < length s" "length w \<le> room" "length w + 2 * length t \<le> 2 * length s" for w t
    using 1 that by (intro fits_append) auto
  show ?case
  proof (cases s)
    case (Cons c s')
    let ?n = "mb_here cs (c # s')" and ?e = "if lead_len cs c > 1 then c else escape_char c"
    show ?thesis
    proof (cases "?n = 0")
      case False
      then show ?thesis
        using char_fits [OF refl False] step [of "drop ?n s" "take ?n s"] Cons
        by (cases "room < ?n") (auto simp: escape_eq Let_def fits_overflow)
    next
      case True
      show ?thesis
      proof (cases "?e = 0")
        case False
        then show ?thesis
          using True step [of s' "[0x5C, ?e]"] Cons
          by (cases "room < 2") (auto simp: escape_eq Let_def numeral_2_eq_2 fits_overflow append_fun)
      next
        case e: True
        then show ?thesis
          using True step [of s' "[c]"] Cons
          by (cases "room < 1") (auto simp: escape_eq Let_def fits_overflow append_fun)
      qed
    qed
  qed (simp add: escape_eq fits_def)
qed

lemma quotes_loop_fits: "fits room s (quotes_loop cs room s)"
proof (induction s arbitrary: room rule: length_induct)
  case (1 s)
  have step: "fits room s (map_option (apfst ((@) w)) (quotes_loop cs (room - length w) t))"
    if "length t < length s" "length w \<le> room" "length w + 2 * length t \<le> 2 * length s" for w t
    using 1 that by (intro fits_append) auto
  show ?case
  proof (cases s)
    case (Cons c s')
    let ?n = "mb_here cs (c # s')"
    show ?thesis
    proof (cases "?n = 0")
      case False
      then show ?thesis
        using char_fits [OF refl False] step [of "drop ?n s" "take ?n s"] Cons
        by (cases "room < ?n") (auto simp: quotes_eq Let_def fits_overflow)
    next
      case True
      then show ?thesis
        using step [of s' "[0x27, 0x27]"] step [of s' "[c]"] Cons
        by (cases "c = 0x27"; cases "room < 2")
          (auto simp: quotes_eq Let_def numeral_2_eq_2 fits_overflow append_fun)
    qed
  qed (simp add: quotes_eq fits_def)
qed

text \<open>The same for the doubled quotes.\<close>

lemma quotes_loop_cases:
  assumes "quotes_loop cs room (c # s) = Some (out, False)"
  obtains
    (mb) n out' where "mb_here cs (c # s) = n" "n \<noteq> 0" "n \<le> length (c # s)"
      "out = take n (c # s) @ out'" "quotes_loop cs (room - n) (drop n (c # s)) = Some (out', False)"
  | (quote) out' where "mb_here cs (c # s) = 0" "c = 0x27"
      "out = 0x27 # 0x27 # out'" "quotes_loop cs (room - 2) s = Some (out', False)"
  | (copy) out' where "mb_here cs (c # s) = 0" "c \<noteq> 0x27"
      "out = c # out'" "quotes_loop cs (room - 1) s = Some (out', False)"
  using assms that by (auto simp: quotes_eq Let_def split: if_splits)

lemma quotes_prefix:
  "quotes_loop cs room s = Some (out, False) \<Longrightarrow> closing q \<Longrightarrow>
     takeWhile (\<lambda>b. b \<noteq> 0x27) (out @ q) = takeWhile (\<lambda>b. b \<noteq> 0x27) s"
proof (induction s arbitrary: room out rule: length_induct)
  case (1 s)
  show ?case
  proof (cases s)
    case Nil
    then show ?thesis using 1(2,3) by (auto simp: quotes_eq closing_def)
  next
    case s: (Cons c s')
    from 1(2) [unfolded s] show ?thesis
    proof (cases rule: quotes_loop_cases)
      case (mb n out')
      have "length (drop n s) < length s" using mb s by simp
      then have IH: "takeWhile (\<lambda>b. b \<noteq> 0x27) (out' @ q) = takeWhile (\<lambda>b. b \<noteq> 0x27) (drop n s)"
        using 1(1,3) mb(5) s by blast
      have nq: "\<forall>b \<in> set (take n s). b \<noteq> 0x27" using no_quote [of s] mb s by auto
      have "takeWhile (\<lambda>b. b \<noteq> 0x27) (take n s @ t) = take n s @ takeWhile (\<lambda>b. b \<noteq> 0x27) t" for t
        by (rule takeWhile_append2) (use nq in blast)
      from this [of "out' @ q"] this [of "drop n s"] IH
      have "takeWhile (\<lambda>b. b \<noteq> 0x27) (take n s @ out' @ q) = takeWhile (\<lambda>b. b \<noteq> 0x27) s" by simp
      then show ?thesis using mb s by simp
    next
      case (copy out')
      have "length s' < length s" using s by simp
      then have "takeWhile (\<lambda>b. b \<noteq> 0x27) (out' @ q) = takeWhile (\<lambda>b. b \<noteq> 0x27) s'"
        using 1(1,3) copy(4) by blast
      then show ?thesis using copy s by simp
    qed (use s in simp)
  qed
qed

text \<open>A lone byte stays so when only the part behind the next quote changes.\<close>

lemma lone_quote:
  assumes "mb_here cs (c # s) = 0" "takeWhile (\<lambda>b. b \<noteq> 0x27) s = takeWhile (\<lambda>b. b \<noteq> 0x27) t"
  shows "mb_here cs (c # t) = 0"
proof (rule ccontr)
  let ?n = "mb_here cs (c # t)"
  assume nz: "?n \<noteq> 0"
  have n: "?n \<le> length (c # t)" "mb_here cs (take ?n (c # t) @ u) = ?n" for u
    using mb_char [of "c # t"] nz by auto
  have "set (take (?n - 1) t) \<subseteq> set (take ?n (c # t))" using nz by (cases ?n) auto
  then have nq: "b \<noteq> 0x27" if "b \<in> set (take (?n - 1) t)" for b using no_quote [of "c # t"] that by auto
  have "takeWhile (\<lambda>b. b \<noteq> 0x27) (take (?n - 1) t @ drop (?n - 1) t)
      = take (?n - 1) t @ takeWhile (\<lambda>b. b \<noteq> 0x27) (drop (?n - 1) t)"
    by (rule takeWhile_append2) (rule nq)
  then have "takeWhile (\<lambda>b. b \<noteq> 0x27) s = take (?n - 1) t @ takeWhile (\<lambda>b. b \<noteq> 0x27) (drop (?n - 1) t)"
    using assms(2) by simp
  then have "s = take (?n - 1) t @ takeWhile (\<lambda>b. b \<noteq> 0x27) (drop (?n - 1) t) @ dropWhile (\<lambda>b. b \<noteq> 0x27) s"
    by (metis takeWhile_dropWhile_id append_assoc)
  moreover have "take ?n (c # t) = c # take (?n - 1) t" using nz by (cases ?n) auto
  ultimately obtain w where "c # s = take ?n (c # t) @ w" by (metis append_Cons)
  then show False using n(2) [of w] assms(1) nz by simp
qed

lemma read_doubled:
  "quotes_loop cs room s = Some (out, False) \<Longrightarrow> closing q \<Longrightarrow> read_literal cs False (out @ q) = Some (s, tl q)"
proof (induction s arbitrary: room out rule: length_induct)
  case (1 s)
  show ?case
  proof (cases s)
    case Nil
    then show ?thesis using 1(2,3) closing_quote(2) by (simp add: quotes_eq)
  next
    case s: (Cons c s')
    have IH: "read_literal cs False (out' @ q) = Some (t, tl q)"
      if "quotes_loop cs room' t = Some (out', False)" "length t < length s" for room' t out'
      using 1(1,3) that by blast
    from 1(2) [unfolded s] show ?thesis
    proof (cases rule: quotes_loop_cases)
      case (mb n out')
      then have "mb_here cs (take n s @ out' @ q) = n" "0 < n"
        using mb_char [of s "out' @ q"] s by auto
      moreover have "read_literal cs False (out' @ q) = Some (drop n s, tl q)"
        using mb s by (intro IH) auto
      moreover have "length (take n s) = n" using mb(3) s by simp
      ultimately have "read_literal cs False (take n s @ out' @ q) = Some (take n s @ drop n s, tl q)"
        by (subst read_literal_char) auto
      then show ?thesis using mb s by simp
    next
      case (quote out')
      have "read_literal cs False (out' @ q) = Some (s', tl q)" using quote s by (intro IH) auto
      then show ?thesis
        using quote s ascii [of "0x27" "0x27 # out' @ q"] by (simp add: read_literal.simps Let_def)
    next
      case (copy out')
      have "takeWhile (\<lambda>b. b \<noteq> 0x27) s' = takeWhile (\<lambda>b. b \<noteq> 0x27) (out' @ q)"
        using quotes_prefix [OF copy(4) 1(3)] by simp
      then have "mb_here cs (c # out' @ q) = 0" by (rule lone_quote [OF copy(1)])
      moreover have "read_literal cs False (out' @ q) = Some (s', tl q)" using copy s by (intro IH) auto
      ultimately show ?thesis using copy s by (simp add: read_literal.simps Let_def)
    qed
  qed
qed

end

section \<open>Properties\<close>

text \<open>The character sets a connection may use, the single-byte ones being all alike.\<close>

definition client_charsets :: "MY_CHARSET list" where
  "client_charsets =
     [charset_8bit, charset_utf8, charset_gbk, charset_big5, charset_sjis, charset_cp932, charset_euc_kr,
      charset_gb2312, charset_ujis, charset_eucjpms]"

lemma client_mb_charset: "cs \<in> set client_charsets \<Longrightarrow> mb_charset cs"
  unfolding client_charsets_def
  using charset_8bit.mb_charset_axioms charset_utf8.mb_charset_axioms charset_gbk.mb_charset_axioms
    charset_big5.mb_charset_axioms charset_sjis.mb_charset_axioms charset_cp932.mb_charset_axioms
    charset_euc_kr.mb_charset_axioms charset_gb2312.mb_charset_axioms charset_ujis.mb_charset_axioms
    charset_eucjpms.mb_charset_axioms
  by auto

lemma escape_result:
  assumes "cs \<in> set client_charsets"
  obtains out overflow where
    "escape_string_for_mysql cs n from = Some (out @ [0], if overflow then -1 else int (length out))"
    "escape_loop cs (if n \<noteq> 0 then n - 1 else 2 * length from) from = Some (out, overflow)"
    "length out \<le> (if n \<noteq> 0 then n - 1 else 2 * length from)"
    "2 * length from \<le> (if n \<noteq> 0 then n - 1 else 2 * length from) \<longrightarrow> \<not> overflow"
  using mb_charset.escape_loop_fits [OF client_mb_charset [OF assms],
      of "if n \<noteq> 0 then n - 1 else 2 * length from" "from"]
  by (auto simp: fits_def escape_string_for_mysql_def)

lemma quotes_result:
  assumes "cs \<in> set client_charsets"
  obtains out overflow where
    "escape_quotes_for_mysql cs n from = Some (out @ [0], if overflow then -1 else int (length out))"
    "quotes_loop cs (if n \<noteq> 0 then n - 1 else 2 * length from) from = Some (out, overflow)"
    "length out \<le> (if n \<noteq> 0 then n - 1 else 2 * length from)"
    "2 * length from \<le> (if n \<noteq> 0 then n - 1 else 2 * length from) \<longrightarrow> \<not> overflow"
  using mb_charset.quotes_loop_fits [OF client_mb_charset [OF assms],
      of "if n \<noteq> 0 then n - 1 else 2 * length from" "from"]
  by (auto simp: fits_def escape_quotes_for_mysql_def)

text \<open>
  C38: an escaped string is safe inside single quotes: in every character set of the client, the
  literal ends at the closing quote that the program puts behind it, whatever bytes the string
  holds, and its value is the string.
\<close>
theorem escape_string_safe:
  assumes "cs \<in> set client_charsets" "escape_string_for_mysql cs to_length from = Some (buf, len)" "0 \<le> len"
    and "rest = [] \<or> hd rest \<noteq> 0x27"
  shows "read_literal cs True (take (nat len) buf @ 0x27 # rest) = Some (from, rest)"
proof -
  obtain out overflow where
    "escape_string_for_mysql cs to_length from = Some (out @ [0], if overflow then -1 else int (length out))"
    and run: "escape_loop cs (if to_length \<noteq> 0 then to_length - 1 else 2 * length from) from = Some (out, overflow)"
    by (rule escape_result [OF assms(1)])
  then have out: "buf = out @ [0]" "len = (if overflow then -1 else int (length out))"
    using assms(2) by simp_all
  then have "\<not> overflow" using assms(3) by auto
  moreover have "closing (0x27 # rest)" using assms(4) by (simp add: closing_def)
  ultimately show ?thesis
    using mb_charset.read_escaped [OF client_mb_charset [OF assms(1)], of _ "from" out "0x27 # rest"] run out by simp
qed

theorem escape_string_safe_witness:
  "read_literal charset_gbk True ([0x5C, 0xBF, 0x5C, 0x27, 0x61] @ [0x27]) = Some ([0xBF, 0x27, 0x61], [])"
proof -
  have "escape_string_for_mysql charset_gbk 0 [0xBF, 0x27, 0x61] = Some ([0x5C, 0xBF, 0x5C, 0x27, 0x61, 0], 5)"
    by (simp add: escape_string_for_mysql_def escape_loop.simps mb_at_def lead_len_def charset_gbk_def
        ismbchar_gbk_def mbcharlen_gbk_def isgbkhead_def isgbktail_def ucast_scast escape_char_def Let_def)
  then show ?thesis
    using escape_string_safe [of charset_gbk 0 "[0xBF, 0x27, 0x61]" _ 5 "[]"]
    by (simp add: client_charsets_def)
qed

text \<open>
  C39: the same for the doubled quotes of the mode \<^verbatim>\<open>NO_BACKSLASH_ESCAPES\<close>.
\<close>
theorem escape_quotes_safe:
  assumes "cs \<in> set client_charsets" "escape_quotes_for_mysql cs to_length from = Some (buf, len)" "0 \<le> len"
    and "rest = [] \<or> hd rest \<noteq> 0x27"
  shows "read_literal cs False (take (nat len) buf @ 0x27 # rest) = Some (from, rest)"
proof -
  obtain out overflow where
    "escape_quotes_for_mysql cs to_length from = Some (out @ [0], if overflow then -1 else int (length out))"
    and run: "quotes_loop cs (if to_length \<noteq> 0 then to_length - 1 else 2 * length from) from = Some (out, overflow)"
    by (rule quotes_result [OF assms(1)])
  then have out: "buf = out @ [0]" "len = (if overflow then -1 else int (length out))"
    using assms(2) by simp_all
  then have "\<not> overflow" using assms(3) by auto
  moreover have "closing (0x27 # rest)" using assms(4) by (simp add: closing_def)
  ultimately show ?thesis
    using mb_charset.read_doubled [OF client_mb_charset [OF assms(1)], of _ "from" out "0x27 # rest"] run out by simp
qed

theorem escape_quotes_safe_witness:
  "read_literal charset_8bit False ([0x61, 0x27, 0x27, 0x5C] @ [0x27]) = Some ([0x61, 0x27, 0x5C], [])"
proof -
  have "escape_quotes_for_mysql charset_8bit 0 [0x61, 0x27, 0x5C] = Some ([0x61, 0x27, 0x27, 0x5C, 0], 4)"
    by (simp add: escape_quotes_for_mysql_def quotes_loop.simps mb_at_def charset_8bit_def Let_def)
  then show ?thesis
    using escape_quotes_safe [of charset_8bit 0 "[0x61, 0x27, 0x5C]" _ 4 "[]"]
    by (simp add: client_charsets_def)
qed

text \<open>
  C40: in the ten character sets a connection may use (\<open>client_charsets\<close>; ucs2 is not one of them, see
  \<open>escape_ucs2_overread\<close>) both functions return: neither they nor \<open>ismbchar\<close> read a byte beyond the end of the
  string, which would make the result \<^const>\<open>None\<close>.  They never write more than \<open>to_length\<close> bytes with the NUL,
  or \<open>2 * length + 1\<close> bytes if \<open>to_length\<close> is 0, and succeed when the buffer has room for twice the string and the
  NUL, or \<open>to_length\<close> is 0.
\<close>
theorem escape_bounds:
  assumes "cs \<in> set client_charsets" "f \<in> {escape_string_for_mysql, escape_quotes_for_mysql}"
  shows "\<exists>buf len. f cs to_length from = Some (buf, len)
     \<and> length buf \<le> (if to_length = 0 then 2 * length from + 1 else to_length)
     \<and> (len = -1 \<or> len = int (length buf) - 1)
     \<and> (to_length = 0 \<or> 2 * length from + 1 \<le> to_length \<longrightarrow> len \<noteq> -1)"
proof -
  let ?room = "if to_length \<noteq> 0 then to_length - 1 else 2 * length from"
  obtain out overflow where out: "f cs to_length from = Some (out @ [0], if overflow then -1 else int (length out))"
    "length out \<le> ?room" "2 * length from \<le> ?room \<longrightarrow> \<not> overflow"
  proof (cases "f = escape_string_for_mysql")
    case True
    then show ?thesis using escape_result [OF assms(1), of to_length "from"] that by metis
  next
    case False
    then show ?thesis using quotes_result [OF assms(1), of to_length "from"] that assms(2) by auto
  qed
  then show ?thesis by (intro exI [of _ "out @ [0]"] exI conjI) (auto split: if_splits)
qed

theorem escape_bounds_witness:
  "\<exists>buf len. escape_string_for_mysql charset_8bit 3 [0x27, 0x27] = Some (buf, len) \<and> length buf \<le> 3"
  using escape_bounds [of charset_8bit escape_string_for_mysql 3 "[0x27, 0x27]"] by (auto simp: client_charsets_def)

text \<open>
  In ucs2, whose \<open>ismbchar\<close> is always 2, a string of odd length is read beyond its end.
\<close>

lemma escape_ucs2_overread: "escape_string_for_mysql charset_ucs2 0 [0x61] = None"
  by (simp add: escape_string_for_mysql_def escape_loop.simps mb_at_def charset_ucs2_def my_ismbchar_ucs2_def)

end
