(* ===== verification/LinkedList.thy ===== *)
theory LinkedList
  imports Prelude
begin

text \<open>
  The doubly linked lists of \<^verbatim>\<open>MySQL/list.c\<close>, and the loop of \<^verbatim>\<open>MySQL/client.c\<close> that prunes the list of
  the prepared statements of a connection.  The nodes lie in a store, a map from addresses; the null
  pointer is \<^const>\<open>None\<close>, and an access to memory that is not allocated makes the result of an
  operation \<^const>\<open>None\<close>, as does a loop that does not end.
\<close>

section \<open>The store\<close>

type_synonym addr = nat

record 'a LIST =
  prev :: "addr option"
  succ :: "addr option"
  data :: 'a

type_synonym 'a store = "addr \<Rightarrow> 'a LIST option"

text \<open>Assignment to a member of the node that a pointer points to.\<close>

definition set_prev :: "'a store \<Rightarrow> addr \<Rightarrow> addr option \<Rightarrow> 'a store option" where
  "set_prev h p v = do { n \<leftarrow> h p; Some (h(p \<mapsto> n\<lparr>prev := v\<rparr>)) }"

definition set_succ :: "'a store \<Rightarrow> addr \<Rightarrow> addr option \<Rightarrow> 'a store option" where
  "set_succ h p v = do { n \<leftarrow> h p; Some (h(p \<mapsto> n\<lparr>succ := v\<rparr>)) }"

section \<open>Operations\<close>

definition list_add :: "'a store \<Rightarrow> addr option \<Rightarrow> addr \<Rightarrow> ('a store \<times> addr) option" where
  "list_add h root element = do {
     h \<leftarrow> (case root of
         Some r \<Rightarrow> do {
           n \<leftarrow> h r;
           h \<leftarrow> (case prev n of None \<Rightarrow> Some h | Some p \<Rightarrow> set_succ h p (Some element));
           n \<leftarrow> h r;
           h \<leftarrow> set_prev h element (prev n);
           set_prev h r (Some element) }
       | None \<Rightarrow> set_prev h element None);
     h \<leftarrow> set_succ h element root;
     Some (h, element) }"

definition list_delete :: "'a store \<Rightarrow> addr option \<Rightarrow> addr \<Rightarrow> ('a store \<times> addr option) option" where
  "list_delete h root element = do {
     e \<leftarrow> h element;
     (h, root) \<leftarrow> (case prev e of
         Some p \<Rightarrow> do { h \<leftarrow> set_succ h p (succ e); Some (h, root) }
       | None \<Rightarrow> Some (h, succ e));
     e \<leftarrow> h element;
     h \<leftarrow> (case succ e of Some s \<Rightarrow> set_prev h s (prev e) | None \<Rightarrow> Some h);
     Some (h, root) }"

text \<open>\<open>free_data\<close> tells whether the data is released as well: the list of what is freed is returned.\<close>

partial_function (option) list_free :: "'a store \<Rightarrow> addr option \<Rightarrow> bool \<Rightarrow> ('a store \<times> 'a list) option" where
  "list_free h root free_data =
     (case root of
        None \<Rightarrow> Some (h, [])
      | Some r \<Rightarrow> do {
          n \<leftarrow> h r;
          (h, freed) \<leftarrow> list_free (h(r := None)) (succ n) free_data;
          Some (h, if free_data then data n # freed else freed) })"

text \<open>\<open>place\<close> is the address that \<^verbatim>\<open>my_malloc\<close> returns.\<close>

definition list_cons :: "'a store \<Rightarrow> addr option \<Rightarrow> 'a \<Rightarrow> addr option \<Rightarrow> ('a store \<times> addr option) option" where
  "list_cons h place d lst =
     (case place of
        None \<Rightarrow> Some (h, None)
      | Some a \<Rightarrow> do {
          (h, root) \<leftarrow> list_add (h(a \<mapsto> \<lparr>prev = None, succ = None, data = d\<rparr>)) lst a;
          Some (h, Some root) })"

partial_function (option) reverse_loop ::
  "'a store \<Rightarrow> addr option \<Rightarrow> addr option \<Rightarrow> ('a store \<times> addr option) option" where
  "reverse_loop h root lst =
     (case root of
        None \<Rightarrow> Some (h, lst)
      | Some r \<Rightarrow> do {
          n \<leftarrow> h r;
          h \<leftarrow> set_succ h r (prev n);
          h \<leftarrow> set_prev h r (succ n);
          reverse_loop h (succ n) root })"

definition list_reverse :: "'a store \<Rightarrow> addr option \<Rightarrow> ('a store \<times> addr option) option" where
  "list_reverse h root = reverse_loop h root root"

partial_function (option) length_loop :: "'a store \<Rightarrow> addr option \<Rightarrow> nat \<Rightarrow> nat option" where
  "length_loop h lst count0 =
     (case lst of
        None \<Rightarrow> Some count0
      | Some p \<Rightarrow> do { n \<leftarrow> h p; length_loop h (succ n) (wrap32 (count0 + 1)) })"

definition list_length :: "'a store \<Rightarrow> addr option \<Rightarrow> nat option" where
  "list_length h lst = length_loop h lst 0"

text \<open>The action works on the state \<open>s\<close> of its caller; its result is an error code, 0 for none.\<close>

partial_function (option) list_walk ::
  "('a \<Rightarrow> 's \<Rightarrow> 's \<times> int) \<Rightarrow> 'a store \<Rightarrow> addr option \<Rightarrow> 's \<Rightarrow> ('s \<times> int) option" where
  "list_walk action h lst s =
     (case lst of
        None \<Rightarrow> Some (s, 0)
      | Some p \<Rightarrow> do {
          n \<leftarrow> h p;
          let (s, error) = action (data n) s;
          if error \<noteq> 0 then Some (s, error) else list_walk action h (succ n) s })"

section \<open>Lists in the store\<close>

text \<open>
  A segment: the nodes from \<open>p\<close> on are those of \<open>xs\<close> (addresses with data), the first is linked back to
  \<open>b\<close>, the last one is \<open>l\<close>, and it is linked to \<open>q\<close>.
\<close>

fun seg :: "'a store \<Rightarrow> addr option \<Rightarrow> addr option \<Rightarrow> (addr \<times> 'a) list \<Rightarrow> addr option \<Rightarrow> addr option \<Rightarrow> bool" where
  "seg h b p [] l q = (p = q \<and> b = l)"
| "seg h b p ((a, d) # xs) l q =
     (p = Some a \<and> (\<exists>n. h a = Some n \<and> prev n = b \<and> data n = d \<and> seg h (Some a) (succ n) xs l q))"

definition dlist :: "'a store \<Rightarrow> addr option \<Rightarrow> (addr \<times> 'a) list \<Rightarrow> bool" where
  "dlist h root xs \<longleftrightarrow> distinct (map fst xs) \<and> (\<exists>l. seg h None root xs l None)"

lemma seg_append: "seg h b p (xs @ ys) l q \<longleftrightarrow> (\<exists>m r. seg h b p xs m r \<and> seg h m r ys l q)"
  by (induction xs arbitrary: b p) (auto, blast+)

lemma seg_frame [simp]: "a \<notin> fst ` set xs \<Longrightarrow> seg (h(a := v)) b p xs l q = seg h b p xs l q"
  by (induction xs arbitrary: b p) auto

lemma seg_last: "seg h b p xs l q \<Longrightarrow> l = (if xs = [] then b else Some (fst (last xs)))"
  by (induction xs arbitrary: b p) auto

lemma seg_first: "seg h b p xs l q \<Longrightarrow> p = (if xs = [] then q else Some (fst (hd xs)))"
  by (cases xs) auto

lemma seg_set_last:
  assumes "seg h b p (xs @ [(a, d)]) l q" "a \<notin> fst ` set xs" "h a = Some n"
  shows "seg (h(a \<mapsto> n\<lparr>succ := r\<rparr>)) b p (xs @ [(a, d)]) (Some a) r"
  using assms by (auto simp: seg_append)

lemma seg_set_first:
  assumes "seg h b p ((a, d) # xs) l q" "a \<notin> fst ` set xs" "h a = Some n"
  shows "seg (h(a \<mapsto> n\<lparr>prev := c\<rparr>)) c p ((a, d) # xs) l q"
  using assms by auto

lemma seg_mem: "seg h b p xs l q \<Longrightarrow> (a, d) \<in> set xs \<Longrightarrow> \<exists>n. h a = Some n \<and> data n = d"
  by (induction xs arbitrary: b p) auto

section \<open>What the operations do\<close>

text \<open>A node that is put before the list.\<close>

lemma list_add_front:
  assumes "dlist h root xs" "h a = Some n" "a \<notin> fst ` set xs"
  shows "\<exists>h'. list_add h root a = Some (h', a) \<and> dlist h' (Some a) ((a, data n) # xs)
    \<and> (\<forall>x. x \<noteq> a \<and> x \<notin> fst ` set xs \<longrightarrow> h' x = h x)"
proof (cases xs)
  case Nil
  then show ?thesis using assms by (auto simp: list_add_def set_prev_def set_succ_def dlist_def)
next
  case (Cons y ys)
  obtain r d where y: "y = (r, d)" by fastforce
  show ?thesis using assms by (auto simp: Cons y list_add_def set_prev_def set_succ_def dlist_def)
qed

lemma list_delete_mid:
  assumes "dlist h root (xs @ (a, d) # ys)"
  shows "\<exists>h' root'. list_delete h root a = Some (h', root') \<and> dlist h' root' (xs @ ys) \<and> h' a = h a"
proof -
  obtain l m n where dist: "distinct (map fst (xs @ (a, d) # ys))" and xs: "seg h None root xs m (Some a)"
    and n: "h a = Some n" "prev n = m" and ys: "seg h (Some a) (succ n) ys l None"
    using assms by (auto simp: dlist_def seg_append)
  have "\<exists>h1 root'. (case prev n of Some p \<Rightarrow> do { h \<leftarrow> set_succ h p (succ n); Some (h, root) }
       | None \<Rightarrow> Some (h, succ n)) = Some (h1, root') \<and> seg h1 None root' xs m (succ n) \<and>
       seg h1 (Some a) (succ n) ys l None \<and> h1 a = h a"
  proof (cases "xs = []")
    case True
    then show ?thesis using xs ys n by auto
  next
    case False
    then obtain zs q e where z: "xs = zs @ [(q, e)]" by (metis append_butlast_last_id surj_pair)
    obtain k where k: "h q = Some k" using seg_mem [OF xs, of q e] z by auto
    have m: "m = Some q" using seg_last [OF xs] z by simp
    let ?h = "h(q \<mapsto> k\<lparr>succ := succ n\<rparr>)"
    have "seg ?h None root xs (Some q) (succ n)"
      using seg_set_last [of h None root zs q e] xs k dist unfolding z by auto
    moreover have "q \<notin> fst ` set ys" "q \<noteq> a" using dist by (auto simp: z)
    ultimately show ?thesis using k m n ys by (simp add: set_succ_def)
  qed
  then obtain h1 root' where 1: "(case prev n of Some p \<Rightarrow> do { h \<leftarrow> set_succ h p (succ n); Some (h, root) }
       | None \<Rightarrow> Some (h, succ n)) = Some (h1, root')" and xs1: "seg h1 None root' xs m (succ n)"
    and ys1: "seg h1 (Some a) (succ n) ys l None" and a1: "h1 a = h a" by blast
  show ?thesis
  proof (cases ys)
    case Nil
    then have "list_delete h root a = Some (h1, root')" using n 1 a1 ys1 by (simp add: list_delete_def)
    then show ?thesis using xs1 ys1 Nil dist a1 by (auto simp: dlist_def)
  next
    case (Cons y zs)
    obtain s e where y: "y = (s, e)" by fastforce
    obtain k where k: "h1 s = Some k" using ys1 Cons y by auto
    have s: "succ n = Some s" "s \<noteq> a" "s \<notin> fst ` set xs" "s \<notin> fst ` set zs" using ys1 dist Cons y by auto
    let ?h = "h1(s \<mapsto> k\<lparr>prev := prev n\<rparr>)"
    have "list_delete h root a = Some (?h, root')"
      using n 1 a1 s k by (simp add: list_delete_def set_prev_def)
    moreover have "seg ?h m (Some s) ys l None"
      using seg_set_first [of h1 "Some a" "Some s" s e zs l None k "prev n"] ys1 s k n Cons y by simp
    moreover have "seg ?h None root' xs m (Some s)" using xs1 s by simp
    ultimately show ?thesis using dist a1 s by (auto simp: dlist_def seg_append)
  qed
qed

lemma reverse_loop_spec:
  "seg h root b (rev xs) l None \<Longrightarrow> seg h b root ys l' None \<Longrightarrow> distinct (map fst (xs @ ys)) \<Longrightarrow>
   (ys = [] \<Longrightarrow> lst = b) \<Longrightarrow>
     \<exists>h' p l. reverse_loop h root lst = Some (h', p) \<and> seg h' None p (rev (xs @ ys)) l None"
proof (induction ys arbitrary: h root b xs lst l)
  case Nil
  then show ?case by (auto simp: reverse_loop.simps)
next
  case (Cons y ys)
  obtain a d where y: "y = (a, d)" by fastforce
  obtain n where n: "root = Some a" "h a = Some n" "prev n = b" "data n = d" "seg h (Some a) (succ n) ys l' None"
    using Cons.prems(2) y by auto
  let ?h = "h(a \<mapsto> n\<lparr>succ := b, prev := succ n\<rparr>)"
  have notin: "a \<notin> fst ` set xs" "a \<notin> fst ` set ys" using Cons.prems(3) y by auto
  have "reverse_loop h root lst = reverse_loop ?h (succ n) (Some a)"
    using n by (simp add: reverse_loop.simps [of h] set_succ_def set_prev_def)
  moreover have "\<exists>h' p l. reverse_loop ?h (succ n) (Some a) = Some (h', p) \<and> seg h' None p (rev ((xs @ [y]) @ ys)) l None"
  proof (rule Cons.IH)
    show "seg ?h (succ n) (Some a) (rev (xs @ [y])) l None" using Cons.prems(1) n notin y by simp
    show "seg ?h (Some a) (succ n) ys l' None" using n notin by simp
    show "distinct (map fst ((xs @ [y]) @ ys))" using Cons.prems(3) by simp
  qed simp
  ultimately show ?case by simp
qed

lemma list_reverse_spec:
  assumes "dlist h root xs"
  shows "\<exists>h' p. list_reverse h root = Some (h', p) \<and> dlist h' p (rev xs)"
proof -
  obtain l where l: "distinct (map fst xs)" "seg h None root xs l None" using assms by (auto simp: dlist_def)
  then have "\<exists>h' p l. reverse_loop h root root = Some (h', p) \<and> seg h' None p (rev ([] @ xs)) l None"
    using reverse_loop_spec [of h root None "[]" root xs l root] by (cases xs) auto
  then show ?thesis using l(1) by (auto simp: list_reverse_def dlist_def rev_map [symmetric])
qed

lemma length_loop_spec:
  "seg h b p xs l None \<Longrightarrow> k < 4294967296 \<Longrightarrow> length_loop h p k = Some (wrap32 (k + length xs))"
proof (induction xs arbitrary: b p k)
  case Nil
  then show ?case by (simp add: length_loop.simps)
next
  case (Cons x xs)
  obtain a d where x: "x = (a, d)" by fastforce
  then show ?case using Cons.prems(1) Cons.IH [of "Some a" _ "wrap32 (k + 1)"]
    by (auto simp: length_loop.simps [of h "Some a"] wrap32_def mod_simps)
qed

text \<open>The action is called for the data in order, up to the first error.\<close>

fun walk :: "('a \<Rightarrow> 's \<Rightarrow> 's \<times> int) \<Rightarrow> 'a list \<Rightarrow> 's \<Rightarrow> 's \<times> int" where
  "walk action [] s = (s, 0)"
| "walk action (d # ds) s =
     (case action d s of (s, error) \<Rightarrow> if error \<noteq> 0 then (s, error) else walk action ds s)"

lemma list_walk_spec: "seg h b p xs l None \<Longrightarrow> list_walk action h p s = Some (walk action (map snd xs) s)"
proof (induction xs arbitrary: b p s)
  case Nil
  then show ?case by (simp add: list_walk.simps)
next
  case (Cons x xs)
  obtain a d where x: "x = (a, d)" by fastforce
  obtain s' e where "action d s = (s', e)" by fastforce
  then show ?case using Cons x by (auto simp: list_walk.simps [of action h "Some a"])
qed

lemma list_free_spec:
  "seg h b p xs l None \<Longrightarrow> distinct (map fst xs) \<Longrightarrow>
     list_free h p free_data = Some (h |` (- fst ` set xs), if free_data then map snd xs else [])"
proof (induction xs arbitrary: h b p)
  case Nil
  then show ?case by (simp add: list_free.simps)
next
  case (Cons x xs)
  obtain a d where x: "x = (a, d)" by fastforce
  then obtain n where n: "p = Some a" "h a = Some n" "data n = d" "seg h (Some a) (succ n) xs l None" "a \<notin> fst ` set xs"
    using Cons.prems by auto
  have "list_free (h(a := None)) (succ n) free_data =
      Some ((h(a := None)) |` (- fst ` set xs), if free_data then map snd xs else [])"
    by (rule Cons.IH [of "h(a := None)" "Some a" "succ n"]) (use n Cons.prems(2) x in \<open>simp_all del: fun_upd_apply\<close>)
  moreover have "(h(a := None)) |` (- fst ` set xs) = h |` (- fst ` set (x # xs))"
    by (auto simp: x restrict_map_def)
  ultimately show ?case using n x by (simp add: list_free.simps [of h "Some a"])
qed

section \<open>The statements of a connection\<close>

text \<open>
  \<^verbatim>\<open>MYSQL_STMT\<close> with the members that \<^verbatim>\<open>mysql_prune_stmt_list\<close> uses; the connection of a statement is
  the flag \<open>attached\<close>.  The list of a connection holds the addresses of its statements.
\<close>

datatype stmt_state = MYSQL_STMT_INIT_DONE | MYSQL_STMT_PREPARE_DONE | MYSQL_STMT_EXECUTE_DONE | MYSQL_STMT_FETCH_DONE

record MYSQL_STMT =
  state :: stmt_state
  attached :: bool
  stmt_errno :: nat

definition CR_SERVER_LOST :: nat where "CR_SERVER_LOST = 2013"

type_synonym stmts = "addr \<Rightarrow> MYSQL_STMT"

definition lost :: "MYSQL_STMT \<Rightarrow> MYSQL_STMT" where
  "lost s = s\<lparr>attached := False, stmt_errno := CR_SERVER_LOST\<rparr>"

partial_function (option) prune_loop ::
  "addr store \<Rightarrow> stmts \<Rightarrow> addr option \<Rightarrow> addr option \<Rightarrow> (addr store \<times> stmts \<times> addr option) option" where
  "prune_loop h st element pruned_list =
     (case element of
        None \<Rightarrow> Some (h, st, pruned_list)
      | Some e \<Rightarrow> do {
          n \<leftarrow> h e;
          (h, st, pruned_list) \<leftarrow>
            (if state (st (data n)) \<noteq> MYSQL_STMT_INIT_DONE then Some (h, st(data n := lost (st (data n))), pruned_list)
             else do { (h, p) \<leftarrow> list_add h pruned_list e; Some (h, st, Some p) });
          n \<leftarrow> h e;
          prune_loop h st (succ n) pruned_list })"

definition mysql_prune_stmt_list :: "addr store \<Rightarrow> stmts \<Rightarrow> addr option \<Rightarrow> (addr store \<times> stmts \<times> addr option) option" where
  "mysql_prune_stmt_list h st element = prune_loop h st element None"

definition beyond_init :: "stmts \<Rightarrow> (addr \<times> addr) list \<Rightarrow> bool" where
  "beyond_init st xs \<longleftrightarrow> (\<forall>(a, s) \<in> set xs. state (st s) \<noteq> MYSQL_STMT_INIT_DONE)"

definition mark_lost :: "addr set \<Rightarrow> stmts \<Rightarrow> stmts" where
  "mark_lost A st = (\<lambda>s. if s \<in> A then lost (st s) else st s)"

lemma state_lost [simp]: "state (lost s) = state s"
  by (simp add: lost_def)

lemma lost_lost [simp]: "lost (lost s) = lost s"
  by (simp add: lost_def)

lemma beyond_init_mark [simp]: "beyond_init (mark_lost A st) xs = beyond_init st xs"
  by (simp add: beyond_init_def mark_lost_def)

lemma beyond_init_Cons: "beyond_init st ((a, s) # xs) \<longleftrightarrow> state (st s) \<noteq> MYSQL_STMT_INIT_DONE \<and> beyond_init st xs"
  by (simp add: beyond_init_def)

lemma mark_lost_insert: "mark_lost A (st(s := lost (st s))) = mark_lost (insert s A) st"
  by (auto simp: mark_lost_def)

lemma prune_loop_marks:
  "seg h b p xs l q \<Longrightarrow> beyond_init st xs \<Longrightarrow>
     prune_loop h st p None = prune_loop h (mark_lost (snd ` set xs) st) q None"
proof (induction xs arbitrary: b p st)
  case Nil
  then show ?case by (simp add: mark_lost_def)
next
  case (Cons x xs)
  obtain a s where x: "x = (a, s)" by fastforce
  then obtain n where n: "p = Some a" "h a = Some n" "data n = s" "seg h (Some a) (succ n) xs l q"
    using Cons.prems(1) by auto
  have st: "state (st s) \<noteq> MYSQL_STMT_INIT_DONE" "beyond_init (st(s := lost (st s))) xs"
    using Cons.prems(2) x by (auto simp: beyond_init_def)
  have "prune_loop h st p None = prune_loop h (st(s := lost (st s))) (succ n) None"
    using n st by (simp add: prune_loop.simps [of h st "Some a"])
  also have "\<dots> = prune_loop h (mark_lost (snd ` set xs) (st(s := lost (st s)))) q None"
    by (rule Cons.IH [OF n(4) st(2)])
  finally show ?case by (simp add: x mark_lost_insert)
qed

text \<open>
  The first statement that has only been initialised ends the loop: \<^verbatim>\<open>list_add\<close> overwrites its link to
  the next statement, which the loop follows.
\<close>

lemma prune_loop_stops:
  assumes "h e = Some n" "state (st (data n)) = MYSQL_STMT_INIT_DONE"
  shows "\<exists>h'. prune_loop h st (Some e) None = Some (h', st, Some e) \<and> dlist h' (Some e) [(e, data n)] \<and>
    (\<forall>x. x \<noteq> e \<longrightarrow> h' x = h x)"
  using assms
  by (auto simp: prune_loop.simps list_add_def set_prev_def set_succ_def dlist_def)

section \<open>Properties\<close>

text \<open>
  C18: putting a node in front of a list and taking a node out of a list have the effect of these operations on
  the list of its elements, and keep the links of both directions.
\<close>
theorem list_add_delete:
  assumes "dlist h root (xs @ (a, d) # ys)" "h b = Some n" "b \<notin> fst ` set (xs @ (a, d) # ys)"
  shows "(\<exists>h'. list_add h root b = Some (h', b) \<and> dlist h' (Some b) ((b, data n) # xs @ (a, d) # ys)) \<and>
    (\<exists>h' root'. list_delete h root a = Some (h', root') \<and> dlist h' root' (xs @ ys))"
  using list_add_front [OF assms] list_delete_mid [OF assms(1)] by blast

text \<open>
  C19: on a list that is linked properly the loops of \<^verbatim>\<open>list.c\<close> come to an end: \<^verbatim>\<open>list_reverse\<close> reverses it in place,
  \<^verbatim>\<open>list_length\<close> counts its elements (in 32 bits), \<^verbatim>\<open>list_walk\<close> calls the action for the data in order up to the
  first error, and \<^verbatim>\<open>list_free\<close> releases each node, and its data if asked, once.
\<close>
theorem list_loops_end:
  assumes "dlist h root xs"
  shows "(\<exists>h' p. list_reverse h root = Some (h', p) \<and> dlist h' p (rev xs)) \<and>
    list_length h root = Some (length xs mod 2 ^ 32) \<and>
    list_walk action h root s = Some (walk action (map snd xs) s) \<and>
    list_free h root free_data = Some (h |` (- fst ` set xs), if free_data then map snd xs else [])"
proof -
  obtain l where l: "distinct (map fst xs)" "seg h None root xs l None" using assms by (auto simp: dlist_def)
  show ?thesis
    using list_reverse_spec [OF assms] length_loop_spec [OF l(2), of 0] list_walk_spec [OF l(2)]
      list_free_spec [OF l(2,1)]
    by (simp add: list_length_def wrap32_def)
qed

text \<open>
  When a connection is lost, \<^verbatim>\<open>mysql_prune_stmt_list\<close> marks the statements up to the first one that has
  only been initialised, and keeps that one; those behind it are neither marked nor kept in the list of the
  connection, against what the comment of the function says.
\<close>
theorem prune_stops_early:
  assumes "dlist h element (xs @ (a, s) # ys)" "beyond_init st xs" "state (st s) = MYSQL_STMT_INIT_DONE"
    and "s \<notin> snd ` set xs"
  shows "\<exists>h'. mysql_prune_stmt_list h st element = Some (h', mark_lost (snd ` set xs) st, Some a) \<and>
    dlist h' (Some a) [(a, s)]"
proof -
  obtain l m n where xs: "seg h None element xs m (Some a)" and n: "h a = Some n" "data n = s"
    using assms(1) by (auto simp: dlist_def seg_append)
  have "mysql_prune_stmt_list h st element = prune_loop h (mark_lost (snd ` set xs) st) (Some a) None"
    using prune_loop_marks [OF xs assms(2)] by (simp add: mysql_prune_stmt_list_def)
  moreover have "state (mark_lost (snd ` set xs) st (data n)) = MYSQL_STMT_INIT_DONE"
    using n assms(3) by (simp add: mark_lost_def)
  ultimately show ?thesis using prune_loop_stops [of h a n "mark_lost (snd ` set xs) st"] n by auto
qed

text \<open>Three nodes at the addresses 1, 2 and 3.\<close>

definition demo_list :: "'a \<Rightarrow> 'a \<Rightarrow> 'a \<Rightarrow> 'a store" where
  "demo_list x y z = [1 \<mapsto> \<lparr>prev = None, succ = Some 2, data = x\<rparr>, 2 \<mapsto> \<lparr>prev = Some 1, succ = Some 3, data = y\<rparr>,
     3 \<mapsto> \<lparr>prev = Some 2, succ = None, data = z\<rparr>, 4 \<mapsto> \<lparr>prev = None, succ = None, data = x\<rparr>]"

lemma demo_dlist: "dlist (demo_list x y z) (Some 1) [(1, x), (2, y), (3, z)]"
  by (simp add: dlist_def demo_list_def)

theorem list_add_delete_witness:
  "(\<exists>h'. list_add (demo_list 7 8 9) (Some 1) 4 = Some (h', 4) \<and> dlist h' (Some 4) [(4, 7::nat), (1, 7), (2, 8), (3, 9)]) \<and>
   (\<exists>h' r. list_delete (demo_list 7 8 9) (Some 1) 2 = Some (h', r) \<and> dlist h' r [(1, 7::nat), (3, 9)])"
  using list_add_delete [of "demo_list 7 8 9" "Some 1" "[(1, 7)]" 2 8 "[(3, 9)]" 4 "\<lparr>prev = None, succ = None, data = 7\<rparr>"]
    demo_dlist [of "7::nat" 8 9] by (simp add: demo_list_def)

theorem list_loops_end_witness:
  "list_length (demo_list 7 8 (9::nat)) (Some 1) = Some 3 \<and>
   (\<exists>h' p. list_reverse (demo_list 7 8 (9::nat)) (Some 1) = Some (h', p) \<and> dlist h' p [(3, 9), (2, 8), (1, 7)])"
  using list_loops_end [OF demo_dlist [of "7::nat" 8 9], of "\<lambda>d s. (s + d, 0)" 0 True] by simp

theorem prune_stops_early_witness:
  "\<exists>st st' h'. (\<forall>s. attached (st s)) \<and>
     mysql_prune_stmt_list (demo_list 10 11 12) st (Some 1) = Some (h', st', Some 2) \<and>
     dlist h' (Some 2) [(2, 11)] \<and> \<not> attached (st' 10) \<and> attached (st' 12)"
proof -
  let ?st = "(\<lambda>s. \<lparr>state = (if s = 11 then MYSQL_STMT_INIT_DONE else MYSQL_STMT_PREPARE_DONE), attached = True,
     stmt_errno = 0\<rparr>) :: stmts"
  have "\<exists>h'. mysql_prune_stmt_list (demo_list 10 11 12) ?st (Some 1) = Some (h', mark_lost {10} ?st, Some 2) \<and>
     dlist h' (Some 2) [(2, 11)]"
    using prune_stops_early [of "demo_list 10 11 12" "Some 1" "[(1, 10)]" 2 11 "[(3, 12)]" ?st]
      demo_dlist [of "10::nat" 11 12] by (simp add: beyond_init_def)
  moreover have "\<not> attached (mark_lost {10} ?st 10)" "attached (mark_lost {10} ?st 12)"
    by (simp_all add: mark_lost_def lost_def)
  ultimately show ?thesis by (intro exI [of _ ?st] exI [of _ "mark_lost {10} ?st"]) auto
qed

end
