(* ===== verification/Qsort.thy ===== *)
theory Qsort
  imports Prelude "HOL-Library.Multiset"
begin

text \<open>
  The quicksort of the library (\<^verbatim>\<open>MySQL/mf_qsort.c\<close>).  An array is the list of its elements; a pointer into it is the
  index of an element; the size of an element in bytes, \<open>sz\<close>, counts only where the code casts a distance to
  \<^verbatim>\<open>int\<close>.  The call-back of the comparison is an argument; of its result only the sign is used.
\<close>

section \<open>The code\<close>

type_synonym 'a compare = "'a \<Rightarrow> 'a \<Rightarrow> int"

definition THRESHOLD_FOR_INSERT_SORT :: nat where "THRESHOLD_FOR_INSERT_SORT = 10"
definition STACK_SIZE :: nat where "STACK_SIZE = 64"

definition swap_at :: "nat \<Rightarrow> nat \<Rightarrow> 'a list \<Rightarrow> 'a list option" where
  "swap_at a b xs = (if a < length xs \<and> b < length xs then Some (xs[a := xs ! b, b := xs ! a]) else None)"

definition cmp_at :: "'a compare \<Rightarrow> 'a list \<Rightarrow> nat \<Rightarrow> nat \<Rightarrow> int option" where
  "cmp_at cmp xs a b = do { x \<leftarrow> rd xs a; y \<leftarrow> rd xs b; Some (cmp x y) }"

definition median :: "'a compare \<Rightarrow> nat \<Rightarrow> nat \<Rightarrow> nat \<Rightarrow> 'a list \<Rightarrow> 'a list option" where
  "median cmp low mid high xs = do {
     c \<leftarrow> cmp_at cmp xs high low;
     xs \<leftarrow> (if c < 0 then swap_at high low xs else Some xs);
     c \<leftarrow> cmp_at cmp xs mid low;
     if c < 0 then swap_at mid low xs
     else do {
       c \<leftarrow> cmp_at cmp xs high mid;
       if c < 0 then swap_at mid high xs else Some xs } }"

text \<open>The insertion sort of a small range.\<close>

fun sift :: "'a compare \<Rightarrow> nat \<Rightarrow> nat \<Rightarrow> 'a list \<Rightarrow> 'a list option" where
  "sift cmp low 0 xs = Some xs"
| "sift cmp low (Suc p) xs =
     (if low < Suc p then do {
        c \<leftarrow> cmp_at cmp xs p (Suc p);
        if 0 < c then do { xs \<leftarrow> swap_at (Suc p) p xs; sift cmp low p xs } else Some xs }
      else Some xs)"

function insert_sort :: "'a compare \<Rightarrow> nat \<Rightarrow> nat \<Rightarrow> nat \<Rightarrow> 'a list \<Rightarrow> 'a list option" where
  "insert_sort cmp low low_ptr high xs =
     (if low_ptr \<le> high then do { xs \<leftarrow> sift cmp low low_ptr xs; insert_sort cmp low (low_ptr + 1) high xs }
      else Some xs)"
  by pat_completeness auto
termination by (relation "measure (\<lambda>(_, _, low_ptr, high, _). Suc high - low_ptr)") auto

text \<open>The two inner loops of the partition; \<^const>\<open>None\<close> when they leave the array.\<close>

function scan_up :: "'a compare \<Rightarrow> 'a \<Rightarrow> 'a list \<Rightarrow> nat \<Rightarrow> nat option" where
  "scan_up cmp pivot xs low_ptr =
     (if low_ptr < length xs then
        (if cmp (xs ! low_ptr) pivot < 0 then scan_up cmp pivot xs (low_ptr + 1) else Some low_ptr)
      else None)"
  by pat_completeness auto
termination by (relation "measure (\<lambda>(_, _, xs, low_ptr). length xs - low_ptr)") auto

fun scan_down :: "'a compare \<Rightarrow> 'a \<Rightarrow> 'a list \<Rightarrow> nat \<Rightarrow> nat option" where
  "scan_down cmp pivot xs 0 = do { x \<leftarrow> rd xs 0; if cmp pivot x < 0 then None else Some 0 }"
| "scan_down cmp pivot xs (Suc p) = do {
     x \<leftarrow> rd xs (Suc p);
     if cmp pivot x < 0 then scan_down cmp pivot xs p else Some (Suc p) }"

declare insert_sort.simps [simp del] and scan_up.simps [simp del]

lemma scan_up_ge: "scan_up cmp pivot xs p = Some q \<Longrightarrow> p \<le> q"
proof (induction cmp pivot xs p rule: scan_up.induct)
  case (1 cmp pivot xs p)
  then show ?case by (subst (asm) scan_up.simps) (auto split: if_splits)
qed

lemma scan_down_le: "scan_down cmp pivot xs p = Some q \<Longrightarrow> q \<le> p"
  by (induction cmp pivot xs p rule: scan_down.induct) (fastforce split: if_splits)+

text \<open>The partition: the two pointers at its end (the second may lie before the array) and the array.\<close>

function partition_loop :: "'a compare \<Rightarrow> 'a \<Rightarrow> nat \<Rightarrow> nat \<Rightarrow> 'a list \<Rightarrow> (nat \<times> int \<times> 'a list) option" where
  "partition_loop cmp pivot low_ptr high_ptr xs =
     (case scan_up cmp pivot xs low_ptr of
        None \<Rightarrow> None
      | Some low_ptr \<Rightarrow>
          (case scan_down cmp pivot xs high_ptr of
             None \<Rightarrow> None
           | Some high_ptr \<Rightarrow>
               if low_ptr < high_ptr then
                 (case swap_at low_ptr high_ptr xs of
                    None \<Rightarrow> None
                  | Some xs \<Rightarrow>
                      if low_ptr + 1 \<le> high_ptr - 1 then partition_loop cmp pivot (low_ptr + 1) (high_ptr - 1) xs
                      else Some (low_ptr + 1, int high_ptr - 1, xs))
               else if low_ptr = high_ptr then Some (low_ptr + 1, int high_ptr - 1, xs)
               else Some (low_ptr, int high_ptr, xs)))"
  by pat_completeness auto
termination
  by (relation "measure (\<lambda>(_, _, low_ptr, high_ptr, _). high_ptr - low_ptr)") (auto dest!: scan_up_ge scan_down_le)

declare partition_loop.simps [simp del]

text \<open>The choice of the pivot: the pointers for the partition, and the element that is moved to the middle.\<close>

definition choose_pivot :: "'a compare \<Rightarrow> nat \<Rightarrow> nat \<Rightarrow> 'a list \<Rightarrow> (nat \<times> nat \<times> nat \<times> 'a list) option" where
  "choose_pivot cmp low high xs =
     (let count = high - low + 1; mid = low + count div 2
      in if 40 < count then do {
           let step = count div 8;
           xs \<leftarrow> median cmp low (low + step) (low + step * 2) xs;
           xs \<leftarrow> median cmp (mid - step) mid (mid + step) xs;
           xs \<leftarrow> median cmp (high - 2 * step) (high - step) high xs;
           xs \<leftarrow> median cmp (low + step) mid (high - step) xs;
           Some (low, high, mid, xs) }
         else do {
           xs \<leftarrow> median cmp low mid high xs;
           Some (low + 1, high - 1, mid, xs) })"

text \<open>
  The ranges that are left after a partition, the first one to be sorted next; the distances in bytes are cast to
  \<^verbatim>\<open>int\<close>.  \<^const>\<open>None\<close> when the stack, with its
  unused first entry, overflows.  (A range whose end lies before the array is never taken when the size of an
  element is at most 2 GB.)
\<close>

definition pending :: "int \<Rightarrow> nat \<Rightarrow> nat \<Rightarrow> nat \<Rightarrow> int \<Rightarrow> (nat \<times> nat) list \<Rightarrow> (nat \<times> nat) list option" where
  "pending sz low high low_ptr high_ptr stk =
     (let left = to_int ((high_ptr - int low) * sz); right = to_int ((int high - int low_ptr) * sz)
      in if left \<le> 0 then
           if right \<le> 0 then Some stk else Some ((low_ptr, high) # stk)
         else if right \<le> 0 then Some ((low, nat high_ptr) # stk)
         else if length stk + 1 \<ge> STACK_SIZE then None
         else if int high - int low_ptr < high_ptr - int low then Some ((low_ptr, high) # (low, nat high_ptr) # stk)
         else Some ((low, nat high_ptr) # (low_ptr, high) # stk))"

text \<open>The ranges still to be sorted are those on the stack and, before them, the current one.\<close>

partial_function (option) qsort_loop :: "'a compare \<Rightarrow> int \<Rightarrow> (nat \<times> nat) list \<Rightarrow> 'a list \<Rightarrow> 'a list option" where
  "qsort_loop cmp sz rs xs =
     (case rs of
        [] \<Rightarrow> Some xs
      | (low, high) # stk \<Rightarrow>
          if high - low + 1 < THRESHOLD_FOR_INSERT_SORT then do {
            xs \<leftarrow> insert_sort cmp low (low + 1) high xs;
            qsort_loop cmp sz stk xs }
          else do {
            (low_ptr, high_ptr, mid, xs) \<leftarrow> choose_pivot cmp low high xs;
            pivot \<leftarrow> rd xs mid;
            (low_ptr, high_ptr, xs) \<leftarrow> partition_loop cmp pivot low_ptr high_ptr xs;
            rs \<leftarrow> pending sz low high low_ptr high_ptr stk;
            qsort_loop cmp sz rs xs })"

declare qsort_loop.simps [code]

definition my_qsort :: "'a compare \<Rightarrow> int \<Rightarrow> 'a list \<Rightarrow> 'a list option" where
  "my_qsort cmp sz xs = (if length xs \<le> 1 then Some xs else qsort_loop cmp sz [(0, length xs - 1)] xs)"

text \<open>A call-back: the order of the names of files, by \<^verbatim>\<open>strcmp\<close>, which stops at a zero byte and at the end.\<close>

fun strcmp :: "byte list \<Rightarrow> byte list \<Rightarrow> int" where
  "strcmp [] [] = 0"
| "strcmp [] (c # t) = - int (unat c)"
| "strcmp (b # s) [] = int (unat b)"
| "strcmp (b # s) (c # t) = (if b \<noteq> c then int (unat b) - int (unat c) else if b = 0 then 0 else strcmp s t)"

text \<open>The files of a directory, with their names, are sorted with this call-back.\<close>

definition comp_names :: "byte list \<times> 's \<Rightarrow> byte list \<times> 's \<Rightarrow> int" where
  "comp_names a b = strcmp (fst a) (fst b)"

section \<open>Changes within a range\<close>

definition within :: "nat \<Rightarrow> nat \<Rightarrow> 'a list \<Rightarrow> 'a list \<Rightarrow> bool" where
  "within low high xs ys \<longleftrightarrow> mset ys = mset xs \<and> (\<forall>k. k < low \<or> high < k \<longrightarrow> ys ! k = xs ! k) \<and>
     (\<forall>k \<in> {low..high}. \<exists>j \<in> {low..high}. ys ! k = xs ! j)"

lemma within_refl: "within low high xs xs"
  by (auto simp: within_def)

lemma within_trans:
  assumes "within low high xs ys" "within low high ys zs"
  shows "within low high xs zs"
proof -
  have "\<exists>j \<in> {low..high}. zs ! k = xs ! j" if k: "k \<in> {low..high}" for k
  proof -
    obtain i where "i \<in> {low..high}" "zs ! k = ys ! i" using assms(2) k unfolding within_def by blast
    moreover have "\<exists>j \<in> {low..high}. ys ! i = xs ! j" using assms(1) \<open>i \<in> {low..high}\<close> unfolding within_def by blast
    ultimately show ?thesis by simp
  qed
  moreover have "mset zs = mset xs" "\<forall>k. k < low \<or> high < k \<longrightarrow> zs ! k = xs ! k"
    using assms by (simp_all add: within_def)
  ultimately show ?thesis unfolding within_def by blast
qed

lemma within_length: "within low high xs ys \<Longrightarrow> length ys = length xs"
  unfolding within_def by (metis mset_eq_length)

lemma within_outside: "within low high xs ys \<Longrightarrow> k < low \<or> high < k \<Longrightarrow> ys ! k = xs ! k"
  by (auto simp: within_def)

lemma within_inside:
  assumes "within low high xs ys" "low \<le> k" "k \<le> high"
  obtains j where "low \<le> j" "j \<le> high" "ys ! k = xs ! j"
proof -
  have "\<exists>j \<in> {low..high}. ys ! k = xs ! j" using assms unfolding within_def by simp
  then show ?thesis using that by auto
qed

lemma within_wider:
  assumes "within low high xs ys" "low' \<le> low" "high \<le> high'"
  shows "within low' high' xs ys"
proof -
  have "\<exists>j \<in> {low'..high'}. ys ! k = xs ! j" if "k \<in> {low'..high'}" for k
  proof (cases "k \<in> {low..high}")
    case True
    then obtain j where "low \<le> j" "j \<le> high" "ys ! k = xs ! j" by (auto elim: within_inside [OF assms(1)])
    then show ?thesis using assms(2,3) by (intro bexI [of _ j]) auto
  next
    case False
    then show ?thesis using that within_outside [OF assms(1), of k] by (intro bexI [of _ k]) auto
  qed
  then show ?thesis using assms unfolding within_def by auto
qed

lemma swap_within:
  assumes "swap_at a b xs = Some ys" "a \<in> {low..high}" "b \<in> {low..high}"
  shows "within low high xs ys"
proof -
  have ys: "a < length xs" "b < length xs" "ys = xs[a := xs ! b, b := xs ! a]"
    using assms(1) by (simp_all add: swap_at_def split: if_splits)
  have "\<exists>j \<in> {low..high}. ys ! k = xs ! j" if "k \<in> {low..high}" for k
    using ys that assms(2,3) by (intro bexI [of _ "if k = a then b else if k = b then a else k"]) (auto simp: nth_list_update)
  moreover have "ys ! k = xs ! k" if "k < low \<or> high < k" for k using ys that assms(2,3) by auto
  ultimately show ?thesis using ys by (simp add: within_def mset_swap)
qed

lemma swap_some: "a < length xs \<Longrightarrow> b < length xs \<Longrightarrow> swap_at a b xs = Some (xs[a := xs ! b, b := xs ! a])"
  by (simp add: swap_at_def)

lemma cmp_at_some: "a < length xs \<Longrightarrow> b < length xs \<Longrightarrow> cmp_at cmp xs a b = Some (cmp (xs ! a) (xs ! b))"
  by (simp add: cmp_at_def)

section \<open>With a call-back that orders the elements\<close>

definition ordered :: "'a compare \<Rightarrow> nat \<Rightarrow> nat \<Rightarrow> 'a list \<Rightarrow> bool" where
  "ordered cmp low high xs \<longleftrightarrow> (\<forall>i j. low \<le> i \<longrightarrow> i < j \<longrightarrow> j \<le> high \<longrightarrow> cmp (xs ! i) (xs ! j) \<le> 0)"

text \<open>The same but for the element at \<open>p\<close>, which may be too small for its place.\<close>

definition floats :: "'a compare \<Rightarrow> nat \<Rightarrow> nat \<Rightarrow> nat \<Rightarrow> 'a list \<Rightarrow> bool" where
  "floats cmp low p high xs \<longleftrightarrow> (\<forall>i j. low \<le> i \<longrightarrow> i < j \<longrightarrow> j \<le> high \<longrightarrow> j \<noteq> p \<longrightarrow> cmp (xs ! i) (xs ! j) \<le> 0)"

definition parted :: "'a compare \<Rightarrow> 'a \<Rightarrow> nat \<Rightarrow> nat \<Rightarrow> nat \<Rightarrow> int \<Rightarrow> 'a list \<Rightarrow> bool" where
  "parted cmp pivot low high lp hp xs \<longleftrightarrow>
     (\<forall>k. low \<le> k \<longrightarrow> k < lp \<longrightarrow> cmp (xs ! k) pivot \<le> 0) \<and> (\<forall>k. hp < int k \<longrightarrow> k \<le> high \<longrightarrow> cmp pivot (xs ! k) \<le> 0)"

locale call_back =
  fixes cmp :: "'a compare"
  assumes cmp_sign: "cmp a b < 0 \<longleftrightarrow> 0 < cmp b a"
    and cmp_trans: "cmp a b \<le> 0 \<Longrightarrow> cmp b c \<le> 0 \<Longrightarrow> cmp a c \<le> 0"
begin

lemma cmp_refl: "cmp a a \<le> 0"
  using cmp_sign [of a a] by linarith

lemma cmp_total: "\<not> cmp a b \<le> 0 \<Longrightarrow> cmp b a \<le> 0"
  using cmp_sign [of b a] by linarith

lemma cmp_less: "cmp a b < 0 \<longleftrightarrow> \<not> cmp b a \<le> 0"
  using cmp_sign [of a b] by linarith

lemma median_orders:
  assumes "low < mid" "mid < high" "high < length xs" "l \<le> low" "high \<le> h"
  obtains ys where "median cmp low mid high xs = Some ys" "within l h xs ys"
    "cmp (ys ! low) (ys ! mid) \<le> 0" "cmp (ys ! mid) (ys ! high) \<le> 0"
proof -
  define xs1 where "xs1 = (if cmp (xs ! high) (xs ! low) < 0 then xs[high := xs ! low, low := xs ! high] else xs)"
  have 1: "within l h xs xs1" "length xs1 = length xs" "cmp (xs1 ! low) (xs1 ! high) \<le> 0"
    using swap_within [of high low xs xs1 l h] assms cmp_total cmp_less
    by (auto simp: xs1_def swap_some within_refl nth_list_update)
  let ?a = "xs1[mid := xs1 ! low, low := xs1 ! mid]" and ?b = "xs1[mid := xs1 ! high, high := xs1 ! mid]"
  have wa: "within l h xs ?a"
    by (rule within_trans [OF 1(1) swap_within [of mid low]]) (use assms 1(2) in \<open>simp_all add: swap_some\<close>)
  have wb: "within l h xs ?b"
    by (rule within_trans [OF 1(1) swap_within [of mid high]]) (use assms 1(2) in \<open>simp_all add: swap_some\<close>)
  have m: "median cmp low mid high xs = Some (if cmp (xs1 ! mid) (xs1 ! low) < 0 then ?a
      else if cmp (xs1 ! high) (xs1 ! mid) < 0 then ?b else xs1)"
    using assms 1(2) by (simp add: median_def cmp_at_some swap_some xs1_def)
  consider "cmp (xs1 ! mid) (xs1 ! low) < 0" | "\<not> cmp (xs1 ! mid) (xs1 ! low) < 0" "cmp (xs1 ! high) (xs1 ! mid) < 0"
    | "\<not> cmp (xs1 ! mid) (xs1 ! low) < 0" "\<not> cmp (xs1 ! high) (xs1 ! mid) < 0" by blast
  then show ?thesis
  proof cases
    case 1
    show ?thesis using that [OF m] 1 wa \<open>length xs1 = length xs\<close> \<open>cmp (xs1 ! low) (xs1 ! high) \<le> 0\<close> assms by simp
  next
    case 2
    show ?thesis using that [OF m] 2 wb 1(2,3) assms cmp_less cmp_total [of "xs1 ! mid" "xs1 ! high"] by simp
  next
    case 3
    show ?thesis using that [OF m] 3 1 assms cmp_less by simp
  qed
qed

lemma sift_sorts:
  "low \<le> p \<Longrightarrow> p \<le> q \<Longrightarrow> q < length xs \<Longrightarrow> floats cmp low p q xs \<Longrightarrow>
     \<exists>ys. sift cmp low p xs = Some ys \<and> within low q xs ys \<and> ordered cmp low q ys"
proof (induction p arbitrary: xs)
  case 0
  then show ?case by (auto simp: floats_def ordered_def within_refl)
next
  case (Suc p)
  show ?case
  proof (cases "low < Suc p \<and> 0 < cmp (xs ! p) (xs ! Suc p)")
    case False
    have "cmp (xs ! i) (xs ! Suc p) \<le> 0" if i: "low \<le> i" "i < Suc p" for i
    proof (cases "i = p")
      case True
      then show ?thesis using False i by simp
    next
      case i': False
      then have "cmp (xs ! i) (xs ! p) \<le> 0" using i Suc.prems by (auto simp: floats_def)
      moreover have "cmp (xs ! p) (xs ! Suc p) \<le> 0" using False i by simp
      ultimately show ?thesis by (rule cmp_trans)
    qed
    then have "ordered cmp low q xs" using Suc.prems(4) unfolding ordered_def floats_def by metis
    then show ?thesis using False Suc.prems(1-3) by (auto simp: cmp_at_some within_refl)
  next
    case True
    then have lp: "low \<le> p" by simp
    define ys where "ys = xs[Suc p := xs ! p, p := xs ! Suc p]"
    have ys: "ys ! p = xs ! Suc p" "ys ! Suc p = xs ! p" "\<And>k. k \<noteq> p \<Longrightarrow> k \<noteq> Suc p \<Longrightarrow> ys ! k = xs ! k" "length ys = length xs"
      using Suc.prems by (simp_all add: ys_def)
    have s: "swap_at (Suc p) p xs = Some ys" using Suc.prems by (simp add: swap_some ys_def)
    have "cmp (ys ! i) (ys ! j) \<le> 0" if "low \<le> i" "i < j" "j \<le> q" "j \<noteq> p" for i j
    proof -
      have f: "cmp (xs ! i') (xs ! j') \<le> 0" if "low \<le> i'" "i' < j'" "j' \<le> q" "j' \<noteq> Suc p" for i' j'
        using that Suc.prems(4) by (simp add: floats_def)
      have lt: "cmp (xs ! Suc p) (xs ! p) \<le> 0" using True cmp_sign [of "xs ! Suc p" "xs ! p"] by simp
      consider "j = Suc p" "i = p" | "j = Suc p" "i < p" | "Suc p < j" "i = p" | "Suc p < j" "i = Suc p"
        | "j \<noteq> Suc p" "i \<noteq> p" "i \<noteq> Suc p" using \<open>i < j\<close> \<open>j \<noteq> p\<close> by fastforce
      then show ?thesis
        by cases (use that ys lt lp f [of i p] f [of p j] f [of "Suc p" j] f [of i j] Suc.prems(2) in auto)
    qed
    then have "floats cmp low p q ys" by (simp add: floats_def)
    moreover have "low \<le> p" "p \<le> q" "q < length ys" using True Suc.prems ys(4) by simp_all
    ultimately obtain zs where z: "sift cmp low p ys = Some zs" "within low q ys zs" "ordered cmp low q zs"
      using Suc.IH by blast
    have "within low q xs ys" by (rule swap_within [OF s]) (use True Suc.prems in auto)
    then have "within low q xs zs" using z(2) by (rule within_trans)
    then show ?thesis using True z(1,3) s Suc.prems by (auto simp: cmp_at_some)
  qed
qed

lemma insert_sort_sorts:
  "low < lp \<Longrightarrow> lp \<le> Suc high \<Longrightarrow> high < length xs \<Longrightarrow> ordered cmp low (lp - 1) xs \<Longrightarrow>
     \<exists>ys. insert_sort cmp low lp high xs = Some ys \<and> within low high xs ys \<and> ordered cmp low high ys"
proof (induction "Suc high - lp" arbitrary: lp xs)
  case 0
  then have "lp = Suc high" by simp
  then show ?case using 0 by (auto simp: insert_sort.simps within_refl)
next
  case (Suc n)
  have "floats cmp low lp lp xs"
    using Suc.prems(4) by (auto simp: ordered_def floats_def)
  moreover have "lp < length xs" "low \<le> lp" using Suc.prems Suc.hyps(2) by linarith+
  ultimately obtain ys where y: "sift cmp low lp xs = Some ys" "within low lp xs ys" "ordered cmp low lp ys"
    using sift_sorts [of low lp lp xs] by auto
  have "\<exists>zs. insert_sort cmp low (Suc lp) high ys = Some zs \<and> within low high ys zs \<and> ordered cmp low high zs"
    by (rule Suc.hyps(1)) (use Suc.hyps(2) Suc.prems y(3) within_length [OF y(2)] in auto)
  then obtain zs where z: "insert_sort cmp low (Suc lp) high ys = Some zs" "within low high ys zs" "ordered cmp low high zs"
    by blast
  have "within low high xs ys" by (rule within_wider [OF y(2)]) (use Suc.hyps(2) in auto)
  then have "within low high xs zs" using z(2) by (rule within_trans)
  moreover have "lp \<le> high" using Suc.hyps(2) by linarith
  ultimately show ?case using y(1) z by (simp add: insert_sort.simps [of cmp low lp])
qed

section \<open>The partition\<close>

lemma scan_up_stops:
  "lp \<le> k \<Longrightarrow> k < length xs \<Longrightarrow> cmp pivot (xs ! k) \<le> 0 \<Longrightarrow>
     \<exists>q. scan_up cmp pivot xs lp = Some q \<and> lp \<le> q \<and> q \<le> k \<and> cmp pivot (xs ! q) \<le> 0 \<and>
       (\<forall>i. lp \<le> i \<longrightarrow> i < q \<longrightarrow> cmp (xs ! i) pivot \<le> 0)"
proof (induction "k - lp" arbitrary: lp)
  case 0
  then show ?case using cmp_less [of "xs ! lp" pivot] by (intro exI [of _ lp]) (auto simp: scan_up.simps)
next
  case (Suc n)
  show ?case
  proof (cases "cmp (xs ! lp) pivot < 0")
    case True
    then have "scan_up cmp pivot xs lp = scan_up cmp pivot xs (Suc lp)"
      using Suc by (subst scan_up.simps) simp
    moreover obtain q where "scan_up cmp pivot xs (Suc lp) = Some q" "Suc lp \<le> q" "q \<le> k" "cmp pivot (xs ! q) \<le> 0"
      "\<forall>i. Suc lp \<le> i \<longrightarrow> i < q \<longrightarrow> cmp (xs ! i) pivot \<le> 0"
    proof -
      have "n = k - Suc lp" "Suc lp \<le> k" using Suc.hyps(2) by simp_all
      then show ?thesis using Suc.hyps(1) [of "Suc lp"] Suc.prems(2,3) that by blast
    qed
    ultimately show ?thesis using True by (intro exI [of _ q]) (auto simp: Suc_le_eq nat_less_le)
  next
    case False
    then show ?thesis using Suc.prems cmp_less [of "xs ! lp" pivot] by (intro exI [of _ lp]) (auto simp: scan_up.simps)
  qed
qed

lemma scan_down_stops:
  "k \<le> hp \<Longrightarrow> hp < length xs \<Longrightarrow> cmp (xs ! k) pivot \<le> 0 \<Longrightarrow>
     \<exists>q. scan_down cmp pivot xs hp = Some q \<and> k \<le> q \<and> q \<le> hp \<and> cmp (xs ! q) pivot \<le> 0 \<and>
       (\<forall>i. q < i \<longrightarrow> i \<le> hp \<longrightarrow> cmp pivot (xs ! i) \<le> 0)"
proof (induction hp)
  case 0
  then show ?case using cmp_less [of pivot "xs ! 0"] by auto
next
  case (Suc hp)
  show ?case
  proof (cases "cmp pivot (xs ! Suc hp) < 0")
    case True
    then have "k \<noteq> Suc hp" using Suc.prems(3) cmp_less by auto
    then obtain q where "scan_down cmp pivot xs hp = Some q" "k \<le> q" "q \<le> hp" "cmp (xs ! q) pivot \<le> 0"
      "\<forall>i. q < i \<longrightarrow> i \<le> hp \<longrightarrow> cmp pivot (xs ! i) \<le> 0"
      using Suc by auto
    then show ?thesis using True Suc.prems by (auto simp: le_Suc_eq)
  next
    case False
    then show ?thesis using Suc.prems cmp_less [of pivot "xs ! Suc hp"] by auto
  qed
qed

lemma partition_splits:
  assumes "low \<le> lp" "hp \<le> high" "high < length xs" "parted cmp pivot low high lp (int hp) xs"
    and "lp \<le> k" "k \<le> high" "cmp pivot (xs ! k) \<le> 0" "hp < high \<or> k < high"
    and "k' \<le> hp" "low \<le> k'" "cmp (xs ! k') pivot \<le> 0" "low < lp \<or> low < k'"
  shows "\<exists>lp' hp' ys. partition_loop cmp pivot lp hp xs = Some (lp', hp', ys) \<and> within low high xs ys \<and>
    hp' < int lp' \<and> low < lp' \<and> lp' \<le> Suc high \<and> hp' < int high \<and> int low - 1 \<le> hp' \<and> parted cmp pivot low high lp' hp' ys"
  using assms
proof (induction "hp - lp" arbitrary: lp hp xs k k' rule: less_induct)
  case less
  note A = less.prems
  obtain q where q: "scan_up cmp pivot xs lp = Some q" "lp \<le> q" "q \<le> k" "cmp pivot (xs ! q) \<le> 0"
    "\<forall>i. lp \<le> i \<longrightarrow> i < q \<longrightarrow> cmp (xs ! i) pivot \<le> 0"
    using scan_up_stops [of lp k xs pivot] A by auto
  obtain r where r: "scan_down cmp pivot xs hp = Some r" "k' \<le> r" "r \<le> hp" "cmp (xs ! r) pivot \<le> 0"
    "\<forall>i. r < i \<longrightarrow> i \<le> hp \<longrightarrow> cmp pivot (xs ! i) \<le> 0"
    using scan_down_stops [of k' hp xs pivot] A by auto
  have left: "cmp (xs ! i) pivot \<le> 0" if "low \<le> i" "i < q" for i
    using that q(5) A(4) unfolding parted_def by (cases "i < lp") auto
  have right: "cmp pivot (xs ! i) \<le> 0" if "r < i" "i \<le> high" for i
    using that r(5) A(4) unfolding parted_def by (cases "i \<le> hp") auto
  have n: "q < length xs" "r < length xs" "q \<le> high" "r \<le> high" "low \<le> q" "low \<le> r" using q r A by auto
  consider "q < r" | "q = r" | "r < q" by linarith
  then show ?case
  proof cases
    case 1
    define ys where "ys = xs[q := xs ! r, r := xs ! q]"
    have s: "swap_at q r xs = Some ys" using n by (simp add: swap_some ys_def)
    have w: "within low high xs ys" by (rule swap_within [OF s]) (use n in auto)
    have ys: "ys ! q = xs ! r" "ys ! r = xs ! q" "\<And>i. i \<noteq> q \<Longrightarrow> i \<noteq> r \<Longrightarrow> ys ! i = xs ! i" "length ys = length xs"
      using n 1 by (simp_all add: ys_def)
    have "cmp (ys ! i) pivot \<le> 0" if "low \<le> i" "i < q + 1" for i
      using that left [of i] ys 1 r(4) by (cases "i = q") auto
    moreover have "cmp pivot (ys ! i) \<le> 0" if "int r - 1 < int i" "i \<le> high" for i
      using that right [of i] ys 1 q(4) by (cases "i = r") auto
    ultimately have p: "parted cmp pivot low high (q + 1) (int r - 1) ys" by (simp add: parted_def)
    have step: "partition_loop cmp pivot lp hp xs =
        (if q + 1 \<le> r - 1 then partition_loop cmp pivot (q + 1) (r - 1) ys else Some (q + 1, int r - 1, ys))"
      using q(1) r(1) s 1 by (subst partition_loop.simps) simp
    show ?thesis
    proof (cases "q + 1 \<le> r - 1")
      case True
      have "\<exists>lp' hp' zs. partition_loop cmp pivot (q + 1) (r - 1) ys = Some (lp', hp', zs) \<and> within low high ys zs \<and>
          hp' < int lp' \<and> low < lp' \<and> lp' \<le> Suc high \<and> hp' < int high \<and> int low - 1 \<le> hp' \<and> parted cmp pivot low high lp' hp' zs"
      proof (rule less.hyps)
        show "parted cmp pivot low high (q + 1) (int (r - 1)) ys" using p 1 by (simp add: of_nat_diff)
        show "cmp pivot (ys ! r) \<le> 0" "cmp (ys ! q) pivot \<le> 0" using ys q(4) r(4) by simp_all
      qed (use True n ys q(2) r(3) A in auto)
      then show ?thesis unfolding step using True within_trans [OF w] by auto
    next
      case False
      then show ?thesis unfolding step using w p n 1 by auto
    qed
  next
    case 2
    have "cmp (xs ! i) pivot \<le> 0" if "low \<le> i" "i < q + 1" for i
      using that left [of i] r(4) 2 by (cases "i = q") auto
    moreover have "cmp pivot (xs ! i) \<le> 0" if "int r - 1 < int i" "i \<le> high" for i
      using that right [of i] q(4) 2 by (cases "i = r") auto
    ultimately have "parted cmp pivot low high (q + 1) (int r - 1) xs" by (simp add: parted_def)
    moreover have "partition_loop cmp pivot lp hp xs = Some (q + 1, int r - 1, xs)"
      using q(1) r(1) 2 by (subst partition_loop.simps) simp
    ultimately show ?thesis using n 2 by (simp add: within_refl)
  next
    case 3
    have "parted cmp pivot low high q (int r) xs" using left right by (simp add: parted_def)
    moreover have "partition_loop cmp pivot lp hp xs = Some (q, int r, xs)"
      using q(1) r(1) 3 by (subst partition_loop.simps) simp
    moreover have "low < q" "r < high" using A(8,12) q(2,3) r(2,3) 3 by linarith+
    ultimately show ?thesis using n 3 by (simp add: within_refl)
  qed
qed

lemma pivot_and_partition:
  assumes "10 \<le> high - low + 1" "high < length xs"
  shows "\<exists>lp hp mid ys lp' hp' zs. choose_pivot cmp low high xs = Some (lp, hp, mid, ys) \<and> mid < length ys \<and>
    partition_loop cmp (ys ! mid) lp hp ys = Some (lp', hp', zs) \<and> within low high xs zs \<and>
    hp' < int lp' \<and> low < lp' \<and> lp' \<le> Suc high \<and> hp' < int high \<and> int low - 1 \<le> hp' \<and>
    parted cmp (ys ! mid) low high lp' hp' zs"
proof -
  define count where "count = high - low + 1"
  define mid where "mid = low + count div 2"
  have mid: "low < mid" "mid < high" using assms(1) by (simp_all add: mid_def count_def)
  show ?thesis
  proof (cases "40 < count")
    case True
    define st where "st = count div 8"
    have st: "0 < st" "8 * st \<le> count" using True by (simp_all add: st_def)
    have h: "high = low + count - 1" using True by (simp add: count_def)
    have m2: "2 * mid \<le> 2 * low + count" "2 * low + count \<le> 2 * mid + 1" by (simp_all add: mid_def)
    obtain x1 where 1: "median cmp low (low + st) (low + st * 2) xs = Some x1" "within low high xs x1"
      by (rule median_orders [of low "low + st" "low + st * 2" xs low high]) (use st h assms(2) in auto)
    obtain x2 where 2: "median cmp (mid - st) mid (mid + st) x1 = Some x2" "within low high x1 x2"
      by (rule median_orders [of "mid - st" mid "mid + st" x1 low high])
        (use st h m2 assms(2) within_length [OF 1(2)] in linarith)+
    obtain x3 where 3: "median cmp (high - 2 * st) (high - st) high x2 = Some x3" "within low high x2 x3"
      by (rule median_orders [of "high - 2 * st" "high - st" high x2 low high])
        (use st h assms(2) within_length [OF 1(2)] within_length [OF 2(2)] in linarith)+
    obtain x4 where 4: "median cmp (low + st) mid (high - st) x3 = Some x4" "within low high x3 x4"
      by (rule median_orders [of "low + st" mid "high - st" x3 low high])
        (use st h m2 assms(2) within_length [OF 1(2)] within_length [OF 2(2)] within_length [OF 3(2)] in linarith)+
    have w: "within low high xs x4" using 1(2) 2(2) 3(2) 4(2) within_trans by blast
    have c: "choose_pivot cmp low high xs = Some (low, high, mid, x4)"
      using True 1(1) 2(1) 3(1) 4(1)
      unfolding choose_pivot_def Let_def count_def [symmetric] mid_def [symmetric] st_def [symmetric] by simp
    have "\<exists>lp' hp' zs. partition_loop cmp (x4 ! mid) low high x4 = Some (lp', hp', zs) \<and> within low high x4 zs \<and>
        hp' < int lp' \<and> low < lp' \<and> lp' \<le> Suc high \<and> hp' < int high \<and> int low - 1 \<le> hp' \<and>
        parted cmp (x4 ! mid) low high lp' hp' zs"
      by (rule partition_splits [where k = mid and k' = mid])
        (use mid assms(2) within_length [OF w] cmp_refl in \<open>auto simp: parted_def\<close>)
    then show ?thesis using c mid assms(2) within_length [OF w] within_trans [OF w] by auto
  next
    case False
    obtain ys where y: "median cmp low mid high xs = Some ys" "within low high xs ys"
      "cmp (ys ! low) (ys ! mid) \<le> 0" "cmp (ys ! mid) (ys ! high) \<le> 0"
      by (rule median_orders [of low mid high xs low high]) (use mid assms(2) in auto)
    have c: "choose_pivot cmp low high xs = Some (low + 1, high - 1, mid, ys)"
      using False y(1) unfolding choose_pivot_def Let_def count_def [symmetric] mid_def [symmetric] by simp
    have p: "parted cmp (ys ! mid) low high (low + 1) (int (high - 1)) ys"
    proof -
      have "k = low" if "low \<le> k" "k < low + 1" for k using that by simp
      moreover have "k = high" if "int (high - 1) < int k" "k \<le> high" for k using that by simp
      ultimately show ?thesis using y(3,4) unfolding parted_def by blast
    qed
    have "\<exists>lp' hp' zs. partition_loop cmp (ys ! mid) (low + 1) (high - 1) ys = Some (lp', hp', zs) \<and> within low high ys zs \<and>
        hp' < int lp' \<and> low < lp' \<and> lp' \<le> Suc high \<and> hp' < int high \<and> int low - 1 \<le> hp' \<and>
        parted cmp (ys ! mid) low high lp' hp' zs"
      by (rule partition_splits [OF _ _ _ p, where k = high and k' = low])
        (use mid assms(2) within_length [OF y(2)] y(3,4) in auto)
    then show ?thesis using c mid assms(2) within_length [OF y(2)] within_trans [OF y(2)] by auto
  qed
qed

end

section \<open>The ranges that are left\<close>

fun apart :: "nat \<Rightarrow> (nat \<times> nat) list \<Rightarrow> bool" where
  "apart n [] \<longleftrightarrow> True"
| "apart n ((l, h) # rs) \<longleftrightarrow> l < h \<and> h < n \<and> (\<forall>(a, b) \<in> set rs. b < l \<or> h < a) \<and> apart n rs"

text \<open>The larger a range the lower it lies on the stack, which bounds the stack.\<close>

fun shallow :: "nat \<Rightarrow> (nat \<times> nat) list \<Rightarrow> bool" where
  "shallow n [] \<longleftrightarrow> True"
| "shallow n ((l, h) # rs) \<longleftrightarrow> (h - l + 1) * 2 ^ length rs \<le> n \<and> shallow n rs"

definition work :: "(nat \<times> nat) list \<Rightarrow> nat" where
  "work rs = sum_list (map (\<lambda>(l, h). h - l) rs)"

definition covers :: "(nat \<times> nat) list \<Rightarrow> nat \<Rightarrow> nat \<Rightarrow> bool" where
  "covers rs i j \<longleftrightarrow> (\<exists>(l, h) \<in> set rs. l \<le> i \<and> j \<le> h)"

lemma to_int_sign:
  assumes "\<bar>d\<bar> \<le> int n" "int n * sz < 2147483648" "0 < sz"
  shows "to_int (d * sz) \<le> 0 \<longleftrightarrow> d \<le> 0"
proof -
  have "\<bar>d * sz\<bar> \<le> int n * sz" using assms(1,3) by (simp add: abs_mult mult_right_mono)
  then have "to_int (d * sz) = d * sz" using assms(2) unfolding abs_le_iff by (intro to_int_id) linarith+
  then show ?thesis using assms(3) by (simp add: mult_le_0_iff)
qed

lemma apart_outside: "apart n ((l, h) # rs) \<Longrightarrow> covers rs i j \<Longrightarrow> l \<le> j \<Longrightarrow> i \<le> h \<Longrightarrow> i \<le> j \<Longrightarrow> False"
  by (fastforce simp: covers_def)

lemma pending_ranges:
  assumes ap: "apart n ((low, high) # stk)" and sh: "shallow n ((low, high) # stk)"
    and lp: "hp < int lp" "low < lp" "lp \<le> Suc high" and hp: "hp < int high" "int low - 1 \<le> hp"
    and sz: "int n * sz < 2147483648" "0 < sz"
  obtains rs where "pending sz low high lp hp stk = Some (rs @ stk)" "apart n (rs @ stk)" "shallow n (rs @ stk)"
    "work (rs @ stk) < work ((low, high) # stk)"
    "\<forall>i j. low \<le> i \<and> i < j \<and> int j \<le> hp \<longrightarrow> covers rs i j"
    "\<forall>i j. lp \<le> i \<and> i < j \<and> j \<le> high \<longrightarrow> covers rs i j"
proof -
  have r: "low < high" "high < n" "\<forall>(a, b) \<in> set stk. b < low \<or> high < a" "apart n stk" using ap by simp_all
  have d: "(high - low + 1) * 2 ^ length stk \<le> n" "shallow n stk" using sh by simp_all
  have s1: "to_int ((hp - int low) * sz) \<le> 0 \<longleftrightarrow> hp \<le> int low"
    using to_int_sign [OF _ sz, of "hp - int low"] hp r by simp
  have s2: "to_int ((int high - int lp) * sz) \<le> 0 \<longleftrightarrow> high \<le> lp"
    using to_int_sign [OF _ sz, of "int high - int lp"] lp r by simp
  have room: "\<not> length stk + 1 \<ge> STACK_SIZE"
  proof
    assume "length stk + 1 \<ge> STACK_SIZE"
    then have "(2 :: nat) ^ 63 \<le> 2 ^ length stk" by (intro power_increasing) (simp_all add: STACK_SIZE_def)
    also have "\<dots> \<le> (high - low + 1) * 2 ^ length stk" by simp
    also have "\<dots> \<le> n" by (rule d(1))
    finally have "int (2 ^ 63) \<le> int n" by (simp only: zle_int)
    then have "2 ^ 63 \<le> int n" by simp
    moreover have "int n * 1 \<le> int n * sz" using sz(2) by (intro mult_left_mono) simp_all
    ultimately show False using sz(1) by simp
  qed
  have fits: "s * 2 ^ (length stk + k) \<le> n" if "s * 2 ^ k \<le> high - low + 1" for s k
    using mult_right_mono [OF that, of "2 ^ length stk"] d(1) by (simp add: power_add ac_simps)
  consider "hp \<le> int low" "high \<le> lp" | "hp \<le> int low" "lp < high" | "int low < hp" "high \<le> lp"
    | "int low < hp" "lp < high" "int high - int lp < hp - int low" | "int low < hp" "lp < high" "hp - int low \<le> int high - int lp"
    by linarith
  then show ?thesis
  proof cases
    case 1
    have p: "pending sz low high lp hp stk = Some ([] @ stk)" using s1 s2 1 by (simp add: pending_def)
    show ?thesis by (rule that [OF p]) (use 1 r d in \<open>auto simp: work_def\<close>)
  next
    case 2
    have p: "pending sz low high lp hp stk = Some ([(lp, high)] @ stk)" using s1 s2 2 by (simp add: pending_def)
    show ?thesis
      by (rule that [OF p]) (use 2 lp r d fits [of "high - lp + 1" 0] in \<open>auto simp: work_def covers_def\<close>)
  next
    case 3
    have p: "pending sz low high lp hp stk = Some ([(low, nat hp)] @ stk)" using s1 s2 3 by (simp add: pending_def)
    show ?thesis
      by (rule that [OF p]) (use 3 hp r d fits [of "nat hp - low + 1" 0] in \<open>auto simp: work_def covers_def\<close>)
  next
    case 4
    have p: "pending sz low high lp hp stk = Some ([(lp, high), (low, nat hp)] @ stk)"
      using s1 s2 4 room by (simp add: pending_def)
    have "2 * (high - lp + 1) \<le> high - low + 1" using 4 lp hp r(1) by arith
    then show ?thesis
      by (intro that [OF p]) (use 4 lp hp r d fits [of "high - lp + 1" 1] fits [of "nat hp - low + 1" 0] in \<open>auto simp: work_def covers_def\<close>)
  next
    case 5
    have p: "pending sz low high lp hp stk = Some ([(low, nat hp), (lp, high)] @ stk)"
      using s1 s2 5 room by (simp add: pending_def)
    define a where "a = nat hp"
    have "hp = int a" using 5 by (simp add: a_def)
    then have "2 * (a - low + 1) \<le> high - low + 1" using 5 lp hp r(1) by arith
    then have "2 * (nat hp - low + 1) \<le> high - low + 1" by (simp only: a_def)
    then show ?thesis
      by (intro that [OF p]) (use 5 lp hp r d fits [of "high - lp + 1" 0] fits [of "nat hp - low + 1" 1] in \<open>auto simp: work_def covers_def\<close>)
  qed
qed

section \<open>The whole sort\<close>

definition settled :: "'a compare \<Rightarrow> (nat \<times> nat) list \<Rightarrow> 'a list \<Rightarrow> bool" where
  "settled cmp rs xs \<longleftrightarrow> (\<forall>i j. i < j \<longrightarrow> j < length xs \<longrightarrow> covers rs i j \<or> cmp (xs ! i) (xs ! j) \<le> 0)"

lemma covers_append: "covers (rs @ ss) i j \<longleftrightarrow> covers rs i j \<or> covers ss i j"
  by (auto simp: covers_def)

lemma settled_within:
  assumes s: "settled cmp ((l, h) # stk) xs" and w: "within l h xs ys" and ap: "apart (length xs) ((l, h) # stk)"
    and inner: "\<And>i j. l \<le> i \<Longrightarrow> i < j \<Longrightarrow> j \<le> h \<Longrightarrow> covers rs i j \<or> cmp (ys ! i) (ys ! j) \<le> 0"
  shows "settled cmp (rs @ stk) ys"
  unfolding settled_def covers_append
proof (intro allI impI)
  fix i j assume ij: "i < j" "j < length ys"
  have old: "covers stk i' j' \<or> l \<le> i' \<and> j' \<le> h \<or> cmp (xs ! i') (xs ! j') \<le> 0" if "i' < j'" "j' < length xs" for i' j'
    using s that by (auto simp: settled_def covers_def)
  have len: "length ys = length xs" by (rule within_length [OF w])
  have h: "h < length xs" using ap by simp
  consider "l \<le> i" "j \<le> h" | "j < l" | "h < i" | "i < l" "h < j" | "i < l" "l \<le> j" "j \<le> h" | "l \<le> i" "i \<le> h" "h < j"
    using ij(1) by linarith
  then show "(covers rs i j \<or> covers stk i j) \<or> cmp (ys ! i) (ys ! j) \<le> 0"
  proof cases
    case 1
    then show ?thesis using inner ij(1) by blast
  next
    case 5
    obtain j' where j': "l \<le> j'" "j' \<le> h" "ys ! j = xs ! j'" by (rule within_inside [OF w 5(2,3)])
    have "\<not> covers stk i j'" using apart_outside [OF ap, of i j'] 5 j' by auto
    then show ?thesis using old [of i j'] 5 j' h within_outside [OF w, of i] by auto
  next
    case 6
    obtain i' where i': "l \<le> i'" "i' \<le> h" "ys ! i = xs ! i'" by (rule within_inside [OF w 6(1,2)])
    have "\<not> covers stk i' j" using apart_outside [OF ap, of i' j] 6 i' by auto
    then show ?thesis using old [of i' j] 6 i' ij len within_outside [OF w, of j] by auto
  qed (use old [of i j] ij len within_outside [OF w, of i] within_outside [OF w, of j] in auto)
qed

context call_back
begin

lemma loop_sorts:
  "apart (length xs) rs \<Longrightarrow> shallow (length xs) rs \<Longrightarrow> settled cmp rs xs \<Longrightarrow> int (length xs) * sz < 2147483648 \<Longrightarrow> 0 < sz \<Longrightarrow>
     \<exists>ys. qsort_loop cmp sz rs xs = Some ys \<and> mset ys = mset xs \<and> settled cmp [] ys"
proof (induction "work rs" arbitrary: rs xs rule: less_induct)
  case less
  show ?case
  proof (cases rs)
    case Nil
    then show ?thesis using less.prems(3) by (simp add: qsort_loop.simps)
  next
    case (Cons r stk)
    obtain low high where r: "r = (low, high)" by (cases r)
    note ap = less.prems(1) [unfolded Cons r] and se = less.prems(3) [unfolded Cons r]
    have lh: "low < high" "high < length xs" using ap by simp_all
    show ?thesis
    proof (cases "high - low + 1 < THRESHOLD_FOR_INSERT_SORT")
      case True
      have "ordered cmp low (low + 1 - 1) xs" by (simp add: ordered_def)
      then obtain ys where y: "insert_sort cmp low (low + 1) high xs = Some ys" "within low high xs ys" "ordered cmp low high ys"
        using insert_sort_sorts [of low "low + 1" high xs] lh by auto
      have "settled cmp ([] @ stk) ys"
        by (rule settled_within [OF se y(2) ap]) (use y(3) in \<open>simp add: ordered_def\<close>)
      moreover have "work stk < work ((low, high) # stk)" using lh(1) by (simp add: work_def)
      ultimately obtain zs where "qsort_loop cmp sz stk ys = Some zs" "mset zs = mset ys" "settled cmp [] zs"
        using less.hyps [of stk ys] less.prems within_length [OF y(2)] by (auto simp: Cons r)
      then show ?thesis
        using y(1,2) True by (simp add: Cons r within_def qsort_loop.simps [of cmp sz "(low, high) # stk"])
    next
      case False
      then have "10 \<le> high - low + 1" by (simp add: THRESHOLD_FOR_INSERT_SORT_def)
      from pivot_and_partition [OF this lh(2)]
      obtain lp hp mid ys lp' hp' zs where c: "choose_pivot cmp low high xs = Some (lp, hp, mid, ys)" "mid < length ys"
        "partition_loop cmp (ys ! mid) lp hp ys = Some (lp', hp', zs)" "within low high xs zs"
        "hp' < int lp'" "low < lp'" "lp' \<le> Suc high" "hp' < int high" "int low - 1 \<le> hp'"
        "parted cmp (ys ! mid) low high lp' hp' zs" by blast
      have sh: "shallow (length xs) ((low, high) # stk)" using less.prems(2) by (simp add: Cons r)
      obtain new where n: "pending sz low high lp' hp' stk = Some (new @ stk)" "apart (length xs) (new @ stk)"
        "shallow (length xs) (new @ stk)" "work (new @ stk) < work ((low, high) # stk)"
        "\<forall>i j. low \<le> i \<and> i < j \<and> int j \<le> hp' \<longrightarrow> covers new i j"
        "\<forall>i j. lp' \<le> i \<and> i < j \<and> j \<le> high \<longrightarrow> covers new i j"
        by (rule pending_ranges [OF ap sh c(5-9) less.prems(4,5)])
      have "settled cmp (new @ stk) zs"
      proof (rule settled_within [OF se c(4) ap])
        fix i j assume ij: "low \<le> i" "i < j" "j \<le> high"
        consider "int j \<le> hp'" | "lp' \<le> i" | "hp' < int j" "i < lp'" by linarith
        then show "covers new i j \<or> cmp (zs ! i) (zs ! j) \<le> 0"
        proof cases
          case 3
          then show ?thesis using c(10) ij cmp_trans unfolding parted_def by blast
        qed (use n(5,6) ij in blast)+
      qed
      then obtain ws where "qsort_loop cmp sz (new @ stk) zs = Some ws" "mset ws = mset zs" "settled cmp [] ws"
        using less.hyps [of "new @ stk" zs] n(2-4) less.prems within_length [OF c(4)] by (auto simp: Cons r)
      then show ?thesis
        using c(1-4) n(1) False by (simp add: Cons r within_def qsort_loop.simps [of cmp sz "(low, high) # stk"])
    qed
  qed
qed

lemma sorts:
  assumes "int (length xs) * sz < 2147483648" "0 < sz"
  obtains ys where "my_qsort cmp sz xs = Some ys" "mset ys = mset xs" "sorted_wrt (\<lambda>a b. cmp a b \<le> 0) ys"
proof (cases "length xs \<le> 1")
  case True
  then show ?thesis by (intro that [of xs]) (auto simp: my_qsort_def sorted_wrt_iff_nth_less)
next
  case False
  then have "\<exists>ys. qsort_loop cmp sz [(0, length xs - 1)] xs = Some ys \<and> mset ys = mset xs \<and> settled cmp [] ys"
    by (intro loop_sorts) (use assms in \<open>auto simp: settled_def covers_def\<close>)
  then show ?thesis
    using that False by (auto simp: my_qsort_def settled_def covers_def sorted_wrt_iff_nth_less)
qed

end

section \<open>The order of file names\<close>

lemma strcmp_sym: "strcmp t s = - strcmp s t"
  by (induction s t rule: strcmp.induct) auto

lemma strcmp_trans: "strcmp s t \<le> 0 \<Longrightarrow> strcmp t u \<le> 0 \<Longrightarrow> strcmp s u \<le> 0"
proof (induction s t arbitrary: u rule: strcmp.induct)
  case (1 u)
  then show ?case by simp
next
  case (2 c t)
  then show ?case by (cases u) auto
next
  case (3 b s)
  then show ?case by (cases u) (auto simp: uint_0_iff)
next
  case (4 b s c t)
  show ?case
  proof (cases u)
    case Nil
    then show ?thesis using 4 by (auto simp: unat_eq_0 split: if_splits)
  next
    case (Cons d w)
    consider "b = c" "c = d" | "b = c" "c \<noteq> d" | "b \<noteq> c" "c = d" | "b \<noteq> c" "c \<noteq> d" by blast
    then show ?thesis
    proof cases
      case unequal: 4
      then have "b < c" "c < d"
        using 4(2,3) Cons by (simp_all add: word_le_def [symmetric] order.strict_iff_order)
      then have "b < d" by simp
      then show ?thesis using Cons by (simp add: word_le_def [symmetric] order.strict_iff_order)
    qed (use 4 Cons in \<open>auto split: if_splits\<close>)
  qed
qed

interpretation names: call_back "comp_names :: byte list \<times> 's \<Rightarrow> _"
proof
  show "comp_names a b < 0 \<longleftrightarrow> 0 < comp_names b a" for a b :: "byte list \<times> 's"
    using strcmp_sym [of "fst a" "fst b"] by (simp add: comp_names_def)
  show "comp_names a b \<le> 0 \<Longrightarrow> comp_names b c \<le> 0 \<Longrightarrow> comp_names a c \<le> 0" for a b c :: "byte list \<times> 's"
    unfolding comp_names_def by (rule strcmp_trans)
qed

text \<open>The files of a directory, of 16 bytes each, come in the order of their names.\<close>

lemma directory_sorted:
  assumes "length files < 134217728"
  shows "\<exists>ys. my_qsort comp_names 16 files = Some ys \<and> mset ys = mset files \<and> sorted_wrt (\<lambda>a b. strcmp (fst a) (fst b) \<le> 0) ys"
  by (rule names.sorts [of files 16]) (use assms in \<open>auto simp: comp_names_def\<close>)

section \<open>Properties\<close>

text \<open>C20: \<^verbatim>\<open>my_qsort\<close> sorts: with a call-back that orders the elements it returns, without an access outside the
  array or its stack of ranges, and leaves the same elements in order, as long as the array has less than 2 GB.\<close>

theorem my_qsort_sorts:
  assumes "\<forall>a b. cmp a b < 0 \<longleftrightarrow> 0 < cmp b a" "\<forall>a b c. cmp a b \<le> 0 \<longrightarrow> cmp b c \<le> 0 \<longrightarrow> cmp a c \<le> 0"
    and "int (length xs) * sz < 2147483648" "0 < sz"
  shows "\<exists>ys. my_qsort cmp sz xs = Some ys \<and> mset ys = mset xs \<and> sorted_wrt (\<lambda>a b. cmp a b \<le> 0) ys"
proof -
  have "call_back cmp" using assms(1,2) by (simp add: call_back_def)
  then show ?thesis by (rule call_back.sorts [OF _ assms(3,4)]) blast
qed

theorem my_qsort_sorts_witness:
  "\<exists>ys. my_qsort (\<lambda>a b. a - b) 8 [3, 1, 2 :: int] = Some ys \<and> mset ys = mset [3, 1, 2] \<and> sorted_wrt (\<lambda>a b. a - b \<le> 0) ys"
  by (rule my_qsort_sorts) simp_all

text \<open>The bound is needed: the size of a part of the array is cut to an \<^verbatim>\<open>int\<close>, and a part for which the result is
  negative is taken for empty.  These twelve elements of 256 MB each (3 GB in all) are left out of order.\<close>

lemma my_qsort_skips:
  "my_qsort (\<lambda>a b. a - b) 268435456 [9, 8, 7, 6, 5, 4, 10, 3, 2, 1, 0, 11 :: int] = Some [9, 8, 7, 6, 5, 4, 0, 3, 2, 1, 10, 11]"
  by code_simp

end
