(* ===== verification/Net.thy ===== *)
theory Net
  imports Wire DynArray
begin

text \<open>
  The packet layer of the client protocol (\<^verbatim>\<open>MySQL/net_serv.cc\<close>, compiled for the client: no alarms,
  no server code), without compression.  The socket (\<^verbatim>\<open>violite.h\<close>) is a script: the results of the
  calls to come, the bytes that the peer sends and those it has received.  The packet buffer is the
  list of its bytes; a write outside it makes the result \<^const>\<open>None\<close>.  Memory for a larger buffer
  comes from an allocator, an argument.
\<close>

section \<open>The socket\<close>

text \<open>
  \<open>Bytes n\<close>: up to \<open>n\<close> bytes are transferred.  \<open>Stop zero again intr timeout\<close>: the call returns 0 or
  -1, with an \<^verbatim>\<open>errno\<close> for which \<^verbatim>\<open>vio_should_retry\<close> holds (\<open>again\<close>), which is \<^verbatim>\<open>EINTR\<close> (\<open>intr\<close>) or
  \<^verbatim>\<open>ETIMEDOUT\<close> (\<open>timeout\<close>).  Behind the end of the script every call fails.
\<close>

datatype vio_result =
  Bytes nat
| Stop (zero: bool) (again: bool) (intr: bool) (timeout: bool)

record VIO =
  script :: "vio_result list"
  inp :: "byte list"
  outp :: "byte list"

definition next_result :: "VIO \<Rightarrow> vio_result \<times> VIO" where
  "next_result v = (case script v of [] \<Rightarrow> (Stop False False False False, v) | r # rs \<Rightarrow> (r, v\<lparr>script := rs\<rparr>))"

text \<open>At most \<open>n\<close> bytes, not more than the peer has sent; none is the end of the stream.\<close>

definition vio_read :: "VIO \<Rightarrow> nat \<Rightarrow> (byte list + vio_result) \<times> VIO" where
  "vio_read v n =
     (case next_result v of
        (Bytes k, v) \<Rightarrow>
          let m = min (min k n) (length (inp v))
          in if m = 0 then (Inr (Stop True False False False), v)
             else (Inl (take m (inp v)), v\<lparr>inp := drop m (inp v)\<rparr>)
      | (r, v) \<Rightarrow> (Inr r, v))"

definition vio_write :: "VIO \<Rightarrow> byte list \<Rightarrow> (nat + vio_result) \<times> VIO" where
  "vio_write v p =
     (case next_result v of
        (Bytes k, v) \<Rightarrow>
          let m = min k (length p)
          in if m = 0 then (Inr (Stop True False False False), v)
             else (Inl m, v\<lparr>outp := outp v @ take m p\<rparr>)
      | (r, v) \<Rightarrow> (Inr r, v))"

section \<open>The state\<close>

definition NET_HEADER_SIZE :: nat where "NET_HEADER_SIZE = 4"
definition COMP_HEADER_SIZE :: nat where "COMP_HEADER_SIZE = 3"
definition IO_SIZE :: nat where "IO_SIZE = 4096"
definition MAX_PACKET_LENGTH :: nat where "MAX_PACKET_LENGTH = 256 * 256 * 256 - 1"

definition ER_OUT_OF_RESOURCES :: nat where "ER_OUT_OF_RESOURCES = 1041"
definition ER_NET_PACKET_TOO_LARGE :: nat where "ER_NET_PACKET_TOO_LARGE = 1153"
definition ER_NET_FCNTL_ERROR :: nat where "ER_NET_FCNTL_ERROR = 1155"
definition ER_NET_READ_ERROR :: nat where "ER_NET_READ_ERROR = 1158"
definition ER_NET_READ_INTERRUPTED :: nat where "ER_NET_READ_INTERRUPTED = 1159"
definition ER_NET_ERROR_ON_WRITE :: nat where "ER_NET_ERROR_ON_WRITE = 1160"
definition ER_NET_WRITE_INTERRUPTED :: nat where "ER_NET_WRITE_INTERRUPTED = 1161"

record NET =
  vio :: VIO
  buff :: "byte list"
  write_pos :: nat
  read_pos :: nat
  where_b :: nat
  max_packet :: nat
  max_packet_size :: nat
  pkt_nr :: u32
  compress_pkt_nr :: u32
  retry_limit :: nat
  net_error :: nat
  last_errno :: nat

text \<open>\<^verbatim>\<open>memcpy\<close> into the buffer.\<close>

definition put_bytes :: "byte list \<Rightarrow> nat \<Rightarrow> byte list \<Rightarrow> byte list option" where
  "put_bytes b pos bs =
     (if pos + length bs \<le> length b then Some (take pos b @ bs @ drop (pos + length bs) b) else None)"

definition my_net_init :: "byte alloc \<Rightarrow> VIO \<Rightarrow> nat \<Rightarrow> nat \<Rightarrow> NET option" where
  "my_net_init alloc v net_buffer_length max_allowed_packet =
     (case alloc (net_buffer_length + NET_HEADER_SIZE + COMP_HEADER_SIZE) of
        None \<Rightarrow> None
      | Some b \<Rightarrow> Some \<lparr>vio = v, buff = b, write_pos = 0, read_pos = 0, where_b = 0,
          max_packet = net_buffer_length, max_packet_size = max net_buffer_length max_allowed_packet,
          pkt_nr = 0, compress_pkt_nr = 0, retry_limit = 1, net_error = 0, last_errno = 0\<rparr>)"

text \<open>The flag is the C result: true when the packet is too large or memory is short.\<close>

definition net_realloc :: "byte alloc \<Rightarrow> NET \<Rightarrow> nat \<Rightarrow> NET \<times> bool" where
  "net_realloc alloc net len =
     (if max_packet_size net \<le> len then
        (net\<lparr>net_error := 1, last_errno := ER_NET_PACKET_TOO_LARGE\<rparr>, True)
      else
        let pkt_length = (len + IO_SIZE - 1) div IO_SIZE * IO_SIZE
        in case my_realloc alloc (Some (buff net)) (pkt_length + NET_HEADER_SIZE + COMP_HEADER_SIZE + 1) of
             None \<Rightarrow> (net\<lparr>net_error := 1, last_errno := ER_OUT_OF_RESOURCES\<rparr>, True)
           | Some b \<Rightarrow> (net\<lparr>buff := b, write_pos := 0, max_packet := pkt_length\<rparr>, False))"

section \<open>Retries\<close>

text \<open>
  The loop \<^verbatim>\<open>while (vio_blocking(net->vio, TRUE, &old_mode) < 0)\<close>: a result \<open>Bytes\<close> stands for
  success.  The flag tells whether the socket could be set to blocking mode.
\<close>

fun set_blocking :: "nat \<Rightarrow> vio_result list \<Rightarrow> nat \<Rightarrow> vio_result list \<times> bool" where
  "set_blocking limit [] retry_count = ([], False)"
| "set_blocking limit (Bytes n # rs) retry_count = (rs, True)"
| "set_blocking limit (Stop z a i t # rs) retry_count =
     (if a \<and> retry_count < limit then set_blocking limit rs (retry_count + 1) else (rs, False))"

datatype retry = Again (in_use: bool) (tries: nat) | Fcntl_failed | Give_up

text \<open>What the read and the write loop do when a call transfers nothing.\<close>

definition on_stop :: "NET \<Rightarrow> bool \<Rightarrow> nat \<Rightarrow> vio_result \<Rightarrow> NET \<times> retry" where
  "on_stop net alarmed retry_count r =
     (if (again r \<or> zero r) \<and> \<not> alarmed then
        case set_blocking (retry_limit net) (script (vio net)) retry_count of
          (rs, ok) \<Rightarrow> (net\<lparr>vio := (vio net)\<lparr>script := rs\<rparr>\<rparr>, if ok then Again True 0 else Fcntl_failed)
      else if alarmed \<and> again r \<and> retry_count < retry_limit net then (net, Again alarmed (retry_count + 1))
      else if intr r then (net, Again alarmed (if alarmed \<and> again r then retry_count + 1 else retry_count))
      else (net, Give_up))"

lemma set_blocking_shorter: "length (fst (set_blocking limit rs n)) \<le> length rs"
  by (induction limit rs n rule: set_blocking.induct) (auto simp: le_SucI)

lemma on_stop_shorter:
  "length (script (vio (fst (on_stop net alarmed n r)))) \<le> length (script (vio net))"
  using set_blocking_shorter [of "retry_limit net" "script (vio net)" n]
  by (auto simp: on_stop_def split: prod.split)

lemma vio_read_shorter:
  "vio_read v n = (Inl bs, v') \<Longrightarrow> length (script v') < length (script v)"
  "vio_read v n = (Inr r, v') \<Longrightarrow> script v = [] \<and> r = Stop False False False False \<or> length (script v') < length (script v)"
  by (auto simp: vio_read_def next_result_def Let_def split: list.splits vio_result.splits if_splits)

lemma vio_write_shorter:
  "vio_write v p = (Inl k, v') \<Longrightarrow> length (script v') < length (script v)"
  "vio_write v p = (Inr r, v') \<Longrightarrow> script v = [] \<and> r = Stop False False False False \<or> length (script v') < length (script v)"
  by (auto simp: vio_write_def next_result_def Let_def split: list.splits vio_result.splits if_splits)

lemma on_stop_dead: "on_stop net alarmed n (Stop False False False t) = (net, Give_up)"
  by (simp add: on_stop_def)

lemma again_shorter:
  assumes "script v = [] \<and> r = Stop False False False False \<or> length (script v') < length (script v)"
    and "on_stop (net\<lparr>vio := v'\<rparr>) alarmed n r = (net', Again alarmed' n')"
  shows "length (script (vio net')) < length (script v)"
  using assms on_stop_shorter [of "net\<lparr>vio := v'\<rparr>" alarmed n r] by (auto simp: on_stop_dead)

section \<open>Writing\<close>

text \<open>The loop of \<^verbatim>\<open>net_real_write\<close> over the bytes that are left; the flag is true on failure.\<close>

function write_loop :: "NET \<Rightarrow> bool \<Rightarrow> nat \<Rightarrow> byte list \<Rightarrow> NET \<times> bool" where
  "write_loop net alarmed retry_count p =
     (if p = [] then (net, False)
      else case vio_write (vio net) p of
        (Inl n, v) \<Rightarrow> write_loop (net\<lparr>vio := v\<rparr>) alarmed retry_count (drop n p)
      | (Inr r, v) \<Rightarrow>
          (case on_stop (net\<lparr>vio := v\<rparr>) alarmed retry_count r of
             (net', Again alarmed' n) \<Rightarrow> write_loop net' alarmed' n p
           | (net', Fcntl_failed) \<Rightarrow> (net'\<lparr>net_error := 2, last_errno := ER_NET_PACKET_TOO_LARGE\<rparr>, True)
           | (net', Give_up) \<Rightarrow>
               (net'\<lparr>net_error := 2,
                  last_errno := (if again r then ER_NET_WRITE_INTERRUPTED else ER_NET_ERROR_ON_WRITE)\<rparr>, True)))"
  by pat_completeness auto
termination
proof (relation "measure (\<lambda>(net, alarmed, n, p). length (script (vio net)))", goal_cases)
  case (2 net alarmed retry_count p x v n)
  then show ?case using vio_write_shorter(1) [of "vio net" p n v] by simp
next
  case 3
  then show ?case by (auto intro: again_shorter [OF vio_write_shorter(2) [OF sym] sym])
qed simp

declare write_loop.simps [simp del]

definition net_real_write :: "NET \<Rightarrow> byte list \<Rightarrow> NET \<times> bool" where
  "net_real_write net packet = (if net_error net = 2 then (net, True) else write_loop net False 0 packet)"

text \<open>\<^verbatim>\<open>net_write_buff\<close> without compression; \<^const>\<open>None\<close> for a write outside the buffer.\<close>

definition append_buff :: "NET \<Rightarrow> byte list \<Rightarrow> NET option" where
  "append_buff net p = do { b \<leftarrow> put_bytes (buff net) (write_pos net) p;
                            Some (net\<lparr>buff := b, write_pos := write_pos net + length p\<rparr>) }"

definition net_write_buff :: "NET \<Rightarrow> byte list \<Rightarrow> (NET \<times> bool) option" where
  "net_write_buff net packet =
     (let left_length = max_packet net - write_pos net
      in if left_length < length packet then
           (if write_pos net \<noteq> 0 then do {
              b \<leftarrow> put_bytes (buff net) (write_pos net) (take left_length packet);
              case net_real_write (net\<lparr>buff := b\<rparr>) (take (write_pos net + left_length) b) of
                (net, True) \<Rightarrow> Some (net, True)
              | (net, False) \<Rightarrow>
                  let net = net\<lparr>write_pos := 0\<rparr>; packet = drop left_length packet
                  in if max_packet net < length packet then Some (net_real_write net packet)
                     else do { net \<leftarrow> append_buff net packet; Some (net, False) } }
            else if max_packet net < length packet then Some (net_real_write net packet)
            else do { net \<leftarrow> append_buff net packet; Some (net, False) })
         else do { net \<leftarrow> append_buff net packet; Some (net, False) })"

definition net_flush :: "NET \<Rightarrow> NET \<times> bool" where
  "net_flush net =
     (if write_pos net \<noteq> 0 then
        case net_real_write net (take (write_pos net) (buff net)) of (net, error) \<Rightarrow> (net\<lparr>write_pos := 0\<rparr>, error)
      else (net, False))"

text \<open>Calls in sequence, up to the first one that fails (\<^verbatim>\<open>||\<close>).\<close>

fun write_all :: "NET \<Rightarrow> byte list list \<Rightarrow> (NET \<times> bool) option" where
  "write_all net [] = Some (net, False)"
| "write_all net (p # ps) =
     do { (net, error) \<leftarrow> net_write_buff net p; if error then Some (net, True) else write_all net ps }"

definition packet_header :: "nat \<Rightarrow> u32 \<Rightarrow> byte list" where
  "packet_header len nr = int3store (of_nat len) @ [ucast nr]"

function my_net_write :: "NET \<Rightarrow> byte list \<Rightarrow> (NET \<times> bool) option" where
  "my_net_write net packet =
     (if MAX_PACKET_LENGTH \<le> length packet then do {
        let nr = pkt_nr net;
        (net, error) \<leftarrow> write_all (net\<lparr>pkt_nr := nr + 1\<rparr>)
           [packet_header MAX_PACKET_LENGTH nr, take MAX_PACKET_LENGTH packet];
        if error then Some (net, True) else my_net_write net (drop MAX_PACKET_LENGTH packet) }
      else
        let nr = pkt_nr net
        in write_all (net\<lparr>pkt_nr := nr + 1\<rparr>) [packet_header (length packet) nr, packet])"
  by pat_completeness auto
termination
  by (relation "measure (\<lambda>(net, p). length p)") (auto simp: MAX_PACKET_LENGTH_def)

declare my_net_write.simps [simp del]

text \<open>
  The loop of \<^verbatim>\<open>net_write_command\<close>: \<open>hd1\<close> is what goes behind the header of the next packet (the
  command byte at first), \<open>header\<close> what follows it and \<open>len\<close> the length of the next piece of the packet.
\<close>

function command_loop ::
  "NET \<Rightarrow> byte list \<Rightarrow> byte list \<Rightarrow> byte list \<Rightarrow> nat \<Rightarrow> nat \<Rightarrow> (NET \<times> bool \<times> byte list \<times> nat) option" where
  "command_loop net hd1 header packet len length1 =
     do {
       let nr = pkt_nr net;
       (net, error) \<leftarrow> write_all (net\<lparr>pkt_nr := nr + 1\<rparr>)
          [packet_header MAX_PACKET_LENGTH nr @ hd1, header, take len packet];
       if error then Some (net, True, packet, length1)
       else
         let packet = drop len packet; length1 = length1 - MAX_PACKET_LENGTH
         in if MAX_PACKET_LENGTH \<le> length1 then command_loop net [] [] packet MAX_PACKET_LENGTH length1
            else Some (net, False, packet, length1) }"
  by pat_completeness auto
termination
  by (relation "measure (\<lambda>(net, hd1, header, packet, len, length1). length1)") (auto simp: MAX_PACKET_LENGTH_def)

declare command_loop.simps [simp del]

definition net_write_command :: "NET \<Rightarrow> byte \<Rightarrow> byte list \<Rightarrow> byte list \<Rightarrow> (NET \<times> bool) option" where
  "net_write_command net command header packet =
     (let length1 = length packet + 1 + length header
      in do {
        (net, error, hd1, header, packet, length1) \<leftarrow>
          (if MAX_PACKET_LENGTH \<le> length1 then do {
             (net, error, packet, length1) \<leftarrow>
                command_loop net [command] header packet (MAX_PACKET_LENGTH - 1 - length header) length1;
             Some (net, error, [], [], packet, length1) }
           else Some (net, False, [command], header, packet, length1));
        if error then Some (net, True)
        else do {
          let nr = pkt_nr net;
          (net, error) \<leftarrow> write_all (net\<lparr>pkt_nr := nr + 1\<rparr>)
             ([packet_header length1 nr @ hd1] @ (if header \<noteq> [] then [header] else []) @ [packet]);
          if error then Some (net, True) else Some (net_flush net) } })"

section \<open>Reading\<close>

text \<open>The loop over \<open>remain\<close> bytes to the position \<open>pos\<close>; the last flag tells that they have come.\<close>

function read_loop ::
  "NET \<Rightarrow> bool \<Rightarrow> nat \<Rightarrow> nat \<Rightarrow> nat \<Rightarrow> (NET \<times> bool \<times> nat \<times> bool) option" where
  "read_loop net alarmed retry_count pos remain =
     (if remain = 0 then Some (net, alarmed, retry_count, True)
      else case vio_read (vio net) remain of
        (Inl bs, v) \<Rightarrow> do {
          b \<leftarrow> put_bytes (buff net) pos bs;
          read_loop (net\<lparr>vio := v, buff := b\<rparr>) alarmed retry_count (pos + length bs) (remain - length bs) }
      | (Inr r, v) \<Rightarrow>
          (case on_stop (net\<lparr>vio := v\<rparr>) alarmed retry_count r of
             (net', Again alarmed' n) \<Rightarrow> read_loop net' alarmed' n pos remain
           | (net', Fcntl_failed) \<Rightarrow>
               Some (net'\<lparr>net_error := 2, last_errno := ER_NET_FCNTL_ERROR\<rparr>, alarmed, retry_count, False)
           | (net', Give_up) \<Rightarrow>
               Some (net'\<lparr>net_error := 2,
                 last_errno := (if again r \<or> timeout r then ER_NET_READ_INTERRUPTED else ER_NET_READ_ERROR)\<rparr>,
                 alarmed, retry_count, False)))"
  by pat_completeness auto
termination
proof (relation "measure (\<lambda>(net, alarmed, n, pos, remain). length (script (vio net)))", goal_cases)
  case (2 net alarmed retry_count pos remain x v bs b)
  then show ?case using vio_read_shorter(1) [of "vio net" remain bs v] by simp
next
  case 3
  then show ?case by (auto intro: again_shorter [OF vio_read_shorter(2) [OF sym] sym])
qed simp

declare read_loop.simps [simp del]

text \<open>
  The second round of the loop of \<^verbatim>\<open>my_real_read\<close>, for the contents of the packet; the inner result is
  its length, \<^const>\<open>None\<close> for \<^verbatim>\<open>packet_error\<close>.
\<close>

definition read_body :: "byte alloc \<Rightarrow> NET \<Rightarrow> bool \<Rightarrow> nat \<Rightarrow> nat \<Rightarrow> (NET \<times> nat option) option" where
  "read_body alloc net alarmed retry_count len =
     (if len = 0 then Some (net, Some 0)
      else
        let helping = len + where_b net;
            (net, failed) = (if max_packet net \<le> helping then net_realloc alloc net helping else (net, False))
        in if failed then Some (net, None)
           else do {
             (net, alarmed, n, ok) \<leftarrow> read_loop net alarmed retry_count (where_b net) len;
             Some (net, if ok then Some len else None) })"

text \<open>One packet to the position \<^const>\<open>where_b\<close>.\<close>

definition my_real_read :: "byte alloc \<Rightarrow> NET \<Rightarrow> (NET \<times> nat option) option" where
  "my_real_read alloc net = do {
     (net, alarmed, n, ok) \<leftarrow> read_loop net False 0 (where_b net) NET_HEADER_SIZE;
     if \<not> ok then Some (net, None)
     else do {
       nr \<leftarrow> rd (buff net) (where_b net + 3);
       if nr \<noteq> ucast (pkt_nr net) then Some (net, None)
       else do {
         let net = net\<lparr>compress_pkt_nr := pkt_nr net + 1, pkt_nr := pkt_nr net + 1\<rparr>;
         len \<leftarrow> uint3korr (drop (where_b net) (buff net));
         read_body alloc net alarmed n (unat len) } } }"

lemma read_loop_script:
  "read_loop net alarmed n pos remain = Some (net', alarmed', n', ok) \<Longrightarrow>
     length (script (vio net')) \<le> length (script (vio net))
     \<and> (ok \<and> remain \<noteq> 0 \<longrightarrow> length (script (vio net')) < length (script (vio net)))"
proof (induction net alarmed n pos remain rule: read_loop.induct)
  case (1 net alarmed n pos remain)
  show ?case
  proof (cases "remain = 0")
    case False
    obtain r v where rd: "vio_read (vio net) remain = (r, v)" by fastforce
    show ?thesis
    proof (cases r)
      case (Inl bs)
      then obtain b where "put_bytes (buff net) pos bs = Some b"
        "read_loop (net\<lparr>vio := v, buff := b\<rparr>) alarmed n (pos + length bs) (remain - length bs)
           = Some (net', alarmed', n', ok)"
        using 1(3) False rd by (auto simp: read_loop.simps [of net])
      then show ?thesis
        using 1(1) [OF False rd [symmetric] Inl] vio_read_shorter(1) [of "vio net" remain bs v] rd Inl by auto
    next
      case (Inr x)
      obtain net1 y where st: "on_stop (net\<lparr>vio := v\<rparr>) alarmed n x = (net1, y)" by fastforce
      have le: "length (script (vio net1)) \<le> length (script v)"
        using on_stop_shorter [of "net\<lparr>vio := v\<rparr>" alarmed n x] st by simp
      have sv: "length (script v) \<le> length (script (vio net))"
        using vio_read_shorter(2) [of "vio net" remain x v] rd Inr
        by (auto simp: vio_read_def next_result_def split: list.splits vio_result.splits)
      show ?thesis
      proof (cases y)
        case (Again alarmed1 n1)
        then have "length (script (vio net1)) < length (script (vio net))"
          using again_shorter [OF vio_read_shorter(2)] rd Inr st by blast
        then show ?thesis
          using 1(2) [OF False rd [symmetric] Inr st [symmetric] Again] 1(3) False rd Inr st Again
          by (auto simp: read_loop.simps [of net])
      qed (use 1(3) False rd Inr st le sv in \<open>auto simp: read_loop.simps [of net]\<close>)
    qed
  qed (use 1(3) in \<open>simp add: read_loop.simps\<close>)
qed

lemma net_realloc_script: "vio (fst (net_realloc alloc net n)) = vio net"
  by (simp add: net_realloc_def Let_def split: option.split)

lemma read_body_script:
  assumes "read_body alloc net alarmed n len = Some (net', r)"
  shows "length (script (vio net')) \<le> length (script (vio net))"
proof (cases "len = 0")
  case False
  obtain net1 failed where 1: "(if max_packet net \<le> len + where_b net then net_realloc alloc net (len + where_b net)
      else (net, False)) = (net1, failed)" by fastforce
  then have "vio net1 = vio net"
    using net_realloc_script [of alloc net "len + where_b net"] by (auto split: if_splits)
  then show ?thesis
    using assms False 1 unfolding read_body_def Let_def
    by (auto split: if_splits dest!: read_loop_script)
qed (use assms in \<open>simp add: read_body_def\<close>)

lemma my_real_read_script:
  assumes "my_real_read alloc net = Some (net', Some len)"
  shows "length (script (vio net')) < length (script (vio net))"
proof -
  obtain net1 alarmed n ok where 1: "read_loop net False 0 (where_b net) NET_HEADER_SIZE = Some (net1, alarmed, n, ok)"
    using assms by (auto simp: my_real_read_def)
  then have "ok" using assms by (cases ok) (simp_all add: my_real_read_def)
  then have "length (script (vio net1)) < length (script (vio net))"
    using read_loop_script [OF 1] by (simp add: NET_HEADER_SIZE_def)
  moreover have "length (script (vio net')) \<le> length (script (vio net1))"
    using assms 1 \<open>ok\<close> by (auto simp: my_real_read_def Let_def split: if_splits dest!: read_body_script)
  ultimately show ?thesis by simp
qed

text \<open>
  The loop over the packets of maximal length, of which one has been read; \<open>total_length\<close> is the length so
  far.
\<close>

function read_more :: "byte alloc \<Rightarrow> NET \<Rightarrow> nat \<Rightarrow> (NET \<times> nat option) option" where
  "read_more alloc net total_length =
     do {
       let net = net\<lparr>where_b := where_b net + MAX_PACKET_LENGTH\<rparr>;
       let total_length = total_length + MAX_PACKET_LENGTH;
       (net, len) \<leftarrow> my_real_read alloc net;
       if len = Some MAX_PACKET_LENGTH then read_more alloc net total_length
       else Some (net, map_option ((+) total_length) len) }"
  by pat_completeness auto
termination
  by (relation "measure (\<lambda>(alloc, net, total_length). length (script (vio net)))")
    (auto dest: my_real_read_script)

declare read_more.simps [simp del]

definition my_net_read :: "byte alloc \<Rightarrow> NET \<Rightarrow> (NET \<times> nat option) option" where
  "my_net_read alloc net = do {
     let save_pos = where_b net;
     (net, len) \<leftarrow> my_real_read alloc net;
     (net, len) \<leftarrow>
       (if len = Some MAX_PACKET_LENGTH then do {
          (net, len) \<leftarrow> read_more alloc net 0; Some (net\<lparr>where_b := save_pos\<rparr>, len) }
        else Some (net, len));
     let net = net\<lparr>read_pos := where_b net\<rparr>;
     case len of
       None \<Rightarrow> Some (net, None)
     | Some n \<Rightarrow> do { b \<leftarrow> put_bytes (buff net) (read_pos net + n) [0]; Some (net\<lparr>buff := b\<rparr>, len) } }"

end
