(* ===== verification/NetRead.thy ===== *)
theory NetRead
  imports Net
begin

text \<open>
  What \<^verbatim>\<open>my_net_read\<close> of \<^verbatim>\<open>MySQL/net_serv.cc\<close> returns: the specification of a message on the wire
  (\<open>frames\<close>), the outcome of one read loop, of one packet and of a message of several packets, for
  every peer and every behaviour of the socket.
\<close>

section \<open>What a read does\<close>

definition steady :: "vio_result list \<Rightarrow> bool" where
  "steady rs \<longleftrightarrow> list_all (\<lambda>r. case r of Bytes k \<Rightarrow> 0 < k | _ \<Rightarrow> False) rs"

lemma steady_Cons: "steady (r # rs) \<longleftrightarrow> (\<exists>k > 0. r = Bytes k) \<and> steady rs"
  by (cases r) (auto simp: steady_def)

definition over :: "byte list \<Rightarrow> nat \<Rightarrow> byte list \<Rightarrow> byte list" where
  "over b pos bs = take pos b @ bs @ drop (pos + length bs) b"

lemma over_Nil [simp]: "over b pos [] = b"
  by (simp add: over_def)

lemma length_over [simp]: "pos + length bs \<le> length b \<Longrightarrow> length (over b pos bs) = length b"
  by (simp add: over_def)

lemma over_over:
  "pos + length xs \<le> length b \<Longrightarrow> over (over b pos xs) (pos + length xs) ys = over b pos (xs @ ys)"
  by (simp add: over_def add.assoc add.commute [of "length ys"])

lemma put_bytes_over: "pos + length bs \<le> length b \<Longrightarrow> put_bytes b pos bs = Some (over b pos bs)"
  by (simp add: put_bytes_def over_def)

lemma min_zero: "min (min k n) m = 0 \<longleftrightarrow> k = 0 \<or> n = 0 \<or> m = (0::nat)"
  by (auto simp: min_def)

lemma vio_read_Inl:
  assumes "vio_read v n = (Inl bs, v')"
  obtains k rs where "script v = Bytes k # rs" "bs \<noteq> []" "length bs \<le> n" "bs = take (length bs) (inp v)"
    "v' = v\<lparr>script := rs, inp := drop (length bs) (inp v)\<rparr>"
proof -
  obtain k rs where k: "script v = Bytes k # rs" "min (min k n) (length (inp v)) \<noteq> 0"
    "bs = take (min (min k n) (length (inp v))) (inp v)"
    "v' = v\<lparr>script := rs, inp := drop (min (min k n) (length (inp v))) (inp v)\<rparr>"
    using assms by (auto simp: vio_read_def next_result_def Let_def split: list.splits vio_result.splits if_splits)
  moreover from this have "length bs = min (min k n) (length (inp v))" by simp
  ultimately show ?thesis by (intro that [of k rs]) (auto simp: min_zero)
qed

lemma vio_read_Inr:
  assumes "vio_read v n = (Inr r, v')" "0 < n"
  shows "(\<exists>rs. v' = v\<lparr>script := rs\<rparr>) \<and> \<not> (steady (script v) \<and> script v \<noteq> [] \<and> inp v \<noteq> [])"
proof (cases "script v")
  case Nil
  then have "v' = v\<lparr>script := []\<rparr>" using assms by (simp add: vio_read_def next_result_def)
  then show ?thesis using Nil by blast
next
  case (Cons x rs)
  then have "v' = v\<lparr>script := rs\<rparr>" "\<not> (steady (script v) \<and> inp v \<noteq> [])"
    using assms
    by (auto simp: vio_read_def next_result_def Let_def steady_Cons min_zero split: vio_result.splits if_splits)
  then show ?thesis by blast
qed

lemma on_stop_vio: "\<exists>rs. fst (on_stop net alarmed n r) = net\<lparr>vio := (vio net)\<lparr>script := rs\<rparr>\<rparr>"
  by (auto simp: on_stop_def split: prod.split) (metis NET.surjective NET.update_convs(1) VIO.surjective VIO.update_convs(1))+

text \<open>The outcome of a read loop: the bytes are in the buffer and off the input, or the error is set.\<close>

definition read_outcome :: "NET \<Rightarrow> nat \<Rightarrow> nat \<Rightarrow> NET \<Rightarrow> bool \<Rightarrow> bool" where
  "read_outcome net pos remain net' ok \<longleftrightarrow>
     (if ok then remain \<le> length (inp (vio net)) \<and>
        (\<exists>rs. net' = net\<lparr>vio := (vio net)\<lparr>script := rs, inp := drop remain (inp (vio net))\<rparr>,
                        buff := over (buff net) pos (take remain (inp (vio net)))\<rparr>)
      else \<exists>v b e. length b = length (buff net) \<and>
        net' = net\<lparr>vio := v, buff := b, net_error := 2, last_errno := e\<rparr>)
     \<and> (steady (script (vio net)) \<and> remain \<le> length (script (vio net)) \<and> remain \<le> length (inp (vio net)) \<longrightarrow>
        ok \<and> steady (script (vio net')) \<and> length (script (vio net)) \<le> length (script (vio net')) + remain)"

lemma read_outcome_0: "read_outcome net pos 0 net True"
  unfolding read_outcome_def by (simp add: exI [of _ "script (vio net)"])

lemma read_outcome_step:
  assumes rd: "vio_read (vio net) remain = (Inl bs, v)" and fit: "pos + remain \<le> length (buff net)"
    and out: "read_outcome (net\<lparr>vio := v, buff := over (buff net) pos bs\<rparr>) (pos + length bs) (remain - length bs) net' ok"
  shows "read_outcome net pos remain net' ok"
proof -
  obtain k rs where rs: "script (vio net) = Bytes k # rs" and ne: "bs \<noteq> []" and bs: "length bs \<le> remain"
    "bs = take (length bs) (inp (vio net))"
    and v: "v = (vio net)\<lparr>script := rs, inp := drop (length bs) (inp (vio net))\<rparr>"
    by (rule vio_read_Inl [OF rd])
  define i where "i = drop (length bs) (inp (vio net))"
  have inp: "inp (vio net) = bs @ i" using bs(2) by (metis append_take_drop_id i_def)
  have tk: "take remain (bs @ i) = bs @ take (remain - length bs) i" using bs(1) by simp
  have dr: "drop remain (bs @ i) = drop (remain - length bs) i" using bs(1) by simp
  have ov: "over (over (buff net) pos bs) (pos + length bs) (take (remain - length bs) i) =
      over (buff net) pos (bs @ take (remain - length bs) i)"
    using fit bs(1) by (intro over_over) simp
  have st: "steady rs \<and> length (script (vio net)) = Suc (length rs)" if "steady (script (vio net))"
    using that by (simp add: rs steady_Cons)
  have pos: "0 < length bs" using ne by simp
  note out' = out [unfolded read_outcome_def v i_def [symmetric]]
  have goal1: "if ok then remain \<le> length (bs @ i) \<and>
        (\<exists>rs. net' = net\<lparr>vio := (vio net)\<lparr>script := rs, inp := drop remain (bs @ i)\<rparr>,
                        buff := over (buff net) pos (take remain (bs @ i))\<rparr>)
      else \<exists>v b e. length b = length (buff net) \<and>
        net' = net\<lparr>vio := v, buff := b, net_error := 2, last_errno := e\<rparr>"
    using out' [THEN conjunct1] bs(1) fit unfolding tk dr by (cases ok) (auto simp: ov le_diff_conv)
  have goal2: "ok \<and> steady (script (vio net')) \<and> length (script (vio net)) \<le> length (script (vio net')) + remain"
    if "steady (script (vio net))" "remain \<le> length (script (vio net))" "remain \<le> length (bs @ i)"
  proof -
    have le: "remain - length bs \<le> length rs" using that(2) st [OF that(1)] pos by linarith
    have "ok \<and> steady (script (vio net')) \<and> length rs \<le> length (script (vio net')) + (remain - length bs)"
      using out' [THEN conjunct2] st [OF that(1)] that(3) le bs(1) by auto
    moreover from this have "length (script (vio net)) \<le> length (script (vio net')) + remain"
      using st [OF that(1)] pos bs(1) by linarith
    ultimately show ?thesis by blast
  qed
  show ?thesis using goal1 goal2 unfolding read_outcome_def inp by blast
qed

lemma read_outcome_idle:
  assumes "read_outcome (net\<lparr>vio := (vio net)\<lparr>script := rs\<rparr>\<rparr>) pos remain net' ok" "0 < remain"
    and "\<not> (steady (script (vio net)) \<and> script (vio net) \<noteq> [] \<and> inp (vio net) \<noteq> [])"
  shows "read_outcome net pos remain net' ok"
  using assms unfolding read_outcome_def by (cases ok) auto

lemma read_outcome_failed:
  assumes "net1 = net\<lparr>vio := (vio net)\<lparr>script := rs\<rparr>\<rparr>" "0 < remain"
    and "\<not> (steady (script (vio net)) \<and> script (vio net) \<noteq> [] \<and> inp (vio net) \<noteq> [])"
  shows "read_outcome net pos remain (net1\<lparr>net_error := 2, last_errno := e\<rparr>) False"
proof -
  have "\<exists>v b e'. length b = length (buff net) \<and> net1\<lparr>net_error := 2, last_errno := e\<rparr> =
    net\<lparr>vio := v, buff := b, net_error := 2, last_errno := e'\<rparr>"
    by (rule exI [of _ "(vio net)\<lparr>script := rs\<rparr>"], rule exI [of _ "buff net"], rule exI [of _ e])
      (simp add: assms(1))
  then show ?thesis using assms(2,3) unfolding read_outcome_def by auto
qed

lemma read_loop_outcome:
  "pos + remain \<le> length (buff net) \<Longrightarrow>
     \<exists>net' alarmed' n' ok. read_loop net alarmed n pos remain = Some (net', alarmed', n', ok)
       \<and> read_outcome net pos remain net' ok"
proof (induction net alarmed n pos remain rule: read_loop.induct)
  case (1 net alarmed n pos remain)
  show ?case
  proof (cases "remain = 0")
    case True
    then show ?thesis using read_outcome_0 by (auto simp: read_loop.simps)
  next
    case False
    obtain r v where rd: "vio_read (vio net) remain = (r, v)" by fastforce
    show ?thesis
    proof (cases r)
      case (Inl bs)
      have len: "length bs \<le> remain" by (rule vio_read_Inl [OF rd [unfolded Inl]])
      let ?b = "over (buff net) pos bs"
      have put: "put_bytes (buff net) pos bs = Some ?b"
        using 1(3) len by (intro put_bytes_over) simp
      have "pos + length bs + (remain - length bs) \<le> length (buff (net\<lparr>vio := v, buff := ?b\<rparr>))"
        using 1(3) len by simp
      from 1(1) [OF False rd [symmetric] Inl put this]
      obtain net' alarmed' n' ok where rec: "read_loop (net\<lparr>vio := v, buff := ?b\<rparr>) alarmed n (pos + length bs) (remain - length bs)
          = Some (net', alarmed', n', ok)"
        "read_outcome (net\<lparr>vio := v, buff := ?b\<rparr>) (pos + length bs) (remain - length bs) net' ok" by blast
      have "read_loop net alarmed n pos remain = Some (net', alarmed', n', ok)"
        using False rd Inl put rec(1) by (simp add: read_loop.simps [of net])
      moreover have "read_outcome net pos remain net' ok"
        using read_outcome_step [OF rd [unfolded Inl] 1(3) rec(2)] .
      ultimately show ?thesis by blast
    next
      case (Inr x)
      obtain net1 y where st: "on_stop (net\<lparr>vio := v\<rparr>) alarmed n x = (net1, y)" by fastforce
      obtain rs where v: "v = (vio net)\<lparr>script := rs\<rparr>"
        and idle: "\<not> (steady (script (vio net)) \<and> script (vio net) \<noteq> [] \<and> inp (vio net) \<noteq> [])"
        using vio_read_Inr [OF rd [unfolded Inr]] False by blast
      obtain rs1 where "net1 = net\<lparr>vio := v\<lparr>script := rs1\<rparr>\<rparr>"
        using on_stop_vio [of "net\<lparr>vio := v\<rparr>" alarmed n x] st by auto
      then have net1: "net1 = net\<lparr>vio := (vio net)\<lparr>script := rs1\<rparr>\<rparr>" by (simp add: v)
      show ?thesis
      proof (cases y)
        case (Again alarmed1 n1)
        have "pos + remain \<le> length (buff net1)" using 1(3) by (simp add: net1)
        from 1(2) [OF False rd [symmetric] Inr st [symmetric] Again this]
        obtain net' alarmed' n' ok where rec: "read_loop net1 alarmed1 n1 pos remain = Some (net', alarmed', n', ok)"
          "read_outcome net1 pos remain net' ok" by blast
        have "read_loop net alarmed n pos remain = Some (net', alarmed', n', ok)"
          using False rd Inr st Again rec(1) by (simp add: read_loop.simps [of net])
        then show ?thesis using read_outcome_idle [OF rec(2) [unfolded net1] _ idle] False by blast
      next
        case Fcntl_failed
        then show ?thesis using False rd Inr st read_outcome_failed [OF net1 _ idle]
          by (simp add: read_loop.simps [of net]) blast
      next
        case Give_up
        then show ?thesis using False rd Inr st read_outcome_failed [OF net1 _ idle]
          by (simp add: read_loop.simps [of net]) blast
      qed
    qed
  qed
qed

section \<open>Packets on the wire\<close>

text \<open>
  The protocol: a message is cut into packets of at most \<^const>\<open>MAX_PACKET_LENGTH\<close> bytes, the last of
  which is shorter, numbered from \<open>nr\<close> on.
\<close>

function frames :: "u32 \<Rightarrow> byte list \<Rightarrow> byte list" where
  "frames nr p =
     (if MAX_PACKET_LENGTH \<le> length p
      then packet_header MAX_PACKET_LENGTH nr @ take MAX_PACKET_LENGTH p @ frames (nr + 1) (drop MAX_PACKET_LENGTH p)
      else packet_header (length p) nr @ p)"
  by pat_completeness auto
termination
  by (relation "measure (\<lambda>(nr, p). length p)") (auto simp: MAX_PACKET_LENGTH_def)

declare frames.simps [simp del]

lemma length_packet_header [simp]: "length (packet_header len nr) = 4"
  by (simp add: packet_header_def)

lemma bit_byte_high [simp]: "8 \<le> n \<Longrightarrow> \<not> bit (b :: byte) n"
  using bit_imp_le_length [of b n] by auto

lemma join3_or:
  "ucast a + push_bit 8 (ucast b) + push_bit 16 (ucast c) =
     (ucast a OR push_bit 8 (ucast b) OR push_bit 16 (ucast c) :: u32)"
  for a b c :: byte
proof -
  have 1: "ucast a + push_bit 8 (ucast b) = (ucast a OR push_bit 8 (ucast b) :: u32)"
    by (rule or_eq_add [symmetric], rule bit_word_eqI) (auto simp: bit_simps)
  have 2: "(ucast a OR push_bit 8 (ucast b)) + push_bit 16 (ucast c) =
      ((ucast a OR push_bit 8 (ucast b)) OR push_bit 16 (ucast c) :: u32)"
    by (rule or_eq_add [symmetric], rule bit_word_eqI) (auto simp: bit_simps)
  show ?thesis by (simp only: 1 2 or.assoc)
qed

lemma int3store_join:
  "int3store (ucast (ucast a + push_bit 8 (ucast b) + push_bit 16 (ucast c) :: u32)) = [a, b, c]"
  for a b c :: byte
  unfolding int3store_def join3_or
  by (simp, intro conjI; rule bit_word_eqI) (auto simp: bit_simps)

lemma header_read:
  assumes "uint3korr (h @ rest) = Some v" "length h = 4" "h ! 3 = ucast nr"
  shows "h = packet_header (unat v) nr" "unat v \<le> MAX_PACKET_LENGTH"
proof -
  obtain a b c d where h: "h = [a, b, c, d]"
    using assms(2) by (auto simp: length_Suc_conv numeral_eq_Suc)
  have v: "v = ucast a + push_bit 8 (ucast b) + push_bit 16 (ucast c)"
    using assms(1) by (simp add: h uint3korr_def)
  have "(of_nat (unat v) :: u64) = ucast v" by simp
  then show "h = packet_header (unat v) nr"
    using assms(3) int3store_join [of a b c] by (simp add: h v packet_header_def)
  have "take_bit 24 v = v"
    unfolding v join3_or by (rule bit_word_eqI) (auto simp: bit_simps)
  then show "unat v \<le> MAX_PACKET_LENGTH"
    using unat_take_bit [of 24 v] by (simp add: MAX_PACKET_LENGTH_def)
qed

lemma header_written:
  assumes "len \<le> MAX_PACKET_LENGTH"
  shows "uint3korr (packet_header len nr @ rest) = Some (of_nat len)" "packet_header len nr ! 3 = ucast nr"
    "unat (of_nat len :: u32) = len"
proof -
  have "len < 2 ^ 24" "len < 2 ^ 64" using assms by (simp_all add: MAX_PACKET_LENGTH_def)
  then have "take_bit 24 len = len" "take_bit 64 len = len" by (simp_all only: take_bit_nat_eq_self)
  then have "(ucast (take_bit 24 (of_nat len :: u64)) :: u32) = of_nat len"
    by (simp add: take_bit_of_nat unsigned_of_nat MAX_PACKET_LENGTH_def)
  then show "uint3korr (packet_header len nr @ rest) = Some (of_nat len)"
    by (simp add: packet_header_def uint3korr_int3store)
  show "packet_header len nr ! 3 = ucast nr" by (simp add: packet_header_def int3store_def)
  show "unat (of_nat len :: u32) = len"
    using assms by (simp add: MAX_PACKET_LENGTH_def unat_of_nat)
qed

section \<open>Reading one packet\<close>

text \<open>The packet buffer has room for a header behind \<^const>\<open>max_packet\<close> bytes.\<close>

definition net_ok :: "NET \<Rightarrow> bool" where
  "net_ok net \<longleftrightarrow> max_packet net + NET_HEADER_SIZE + COMP_HEADER_SIZE \<le> length (buff net)"

text \<open>A peer and a network that deliver: at least \<open>n\<close> successful reads are to come.\<close>

definition supplied :: "NET \<Rightarrow> nat \<Rightarrow> bool" where
  "supplied net n \<longleftrightarrow> steady (script (vio net)) \<and> n \<le> length (script (vio net))"

text \<open>\<open>code\<close> is off the input, and its contents \<open>p\<close> are in the buffer.\<close>

definition received :: "NET \<Rightarrow> byte list \<Rightarrow> byte list \<Rightarrow> NET \<Rightarrow> bool" where
  "received net code p net' \<longleftrightarrow>
     inp (vio net) = code @ inp (vio net') \<and> where_b net + length p \<le> max_packet net' \<and>
     take (where_b net + length p) (buff net') = take (where_b net) (buff net) @ p"

definition kept :: "NET \<Rightarrow> NET \<Rightarrow> bool" where
  "kept net net' \<longleftrightarrow> net_ok net' \<and> where_b net' = where_b net \<and> max_packet_size net' = max_packet_size net"

lemma take_over: "pos + length bs \<le> length b \<Longrightarrow> take (pos + length bs) (over b pos bs) = take pos b @ bs"
  by (simp add: over_def)

lemma take_over_less: "n \<le> pos \<Longrightarrow> pos + length bs \<le> length b \<Longrightarrow> take n (over b pos bs) = take n b"
  by (simp add: over_def)

lemma drop_over: "pos + length bs \<le> length b \<Longrightarrow> drop pos (over b pos bs) = bs @ drop (pos + length bs) b"
  by (simp add: over_def)

lemma read_loop_ok:
  assumes "read_outcome net pos remain net' True" "pos + remain \<le> length (buff net)"
  obtains rs bs where "length bs = remain" "inp (vio net) = bs @ inp (vio net')"
    "net' = net\<lparr>vio := (vio net)\<lparr>script := rs, inp := inp (vio net')\<rparr>, buff := over (buff net) pos bs\<rparr>"
    "\<And>k. supplied net (remain + k) \<Longrightarrow> supplied net' k"
proof -
  obtain rs where len: "remain \<le> length (inp (vio net))"
    and net': "net' = net\<lparr>vio := (vio net)\<lparr>script := rs, inp := drop remain (inp (vio net))\<rparr>,
                        buff := over (buff net) pos (take remain (inp (vio net)))\<rparr>"
    using assms(1) by (auto simp: read_outcome_def)
  have i: "inp (vio net') = drop remain (inp (vio net))" by (simp add: net')
  show ?thesis
  proof (rule that [of "take remain (inp (vio net))" rs])
    show "supplied net' k" if "supplied net (remain + k)" for k
      using that len assms(1) by (auto simp: read_outcome_def supplied_def)
  qed (use len net' in \<open>simp_all add: i\<close>)
qed

lemma net_realloc_spec:
  assumes ok: "net_ok net" and al: "alloc_ok 1 alloc" and r: "net_realloc alloc net n = (net', failed)"
  shows "kept net net'" "vio net' = vio net" "pkt_nr net' = pkt_nr net"
    and "\<not> failed \<Longrightarrow> n \<le> max_packet net'"
    and "\<not> failed \<Longrightarrow> k \<le> n \<Longrightarrow> k \<le> length (buff net) \<Longrightarrow> take k (buff net') = take k (buff net)"
    and "\<forall>m. alloc m \<noteq> None \<Longrightarrow> n < max_packet_size net \<Longrightarrow> \<not> failed"
proof -
  define l where "l = (n + IO_SIZE - 1) div IO_SIZE * IO_SIZE"
  have l: "n \<le> l"
  proof -
    have "(n + 4095) mod 4096 < 4096" by simp
    then show ?thesis
      using div_mult_mod_eq [of "n + 4095" 4096] by (simp add: l_def IO_SIZE_def)
  qed
  note rr = r [unfolded net_realloc_def Let_def, folded l_def]
  have new: "length b = l + 8 \<and> (k \<le> n \<longrightarrow> k \<le> length (buff net) \<longrightarrow> take k b = take k (buff net))"
    if "my_realloc alloc (Some (buff net)) (l + NET_HEADER_SIZE + COMP_HEADER_SIZE + 1) = Some b" for b k
    using my_realloc_Some(1) [OF al, where old = "Some (buff net)" and n = "l + 8" and new = b]
      my_realloc_Some(2) [OF al, where old = "Some (buff net)" and n = "l + 8" and new = b and b = "buff net" and k = k]
      that l
    by (simp add: NET_HEADER_SIZE_def COMP_HEADER_SIZE_def add.commute [of 8 l])
  show "kept net net'" "vio net' = vio net" "pkt_nr net' = pkt_nr net" "\<not> failed \<Longrightarrow> n \<le> max_packet net'"
    using rr ok new l
    by (auto simp: kept_def net_ok_def NET_HEADER_SIZE_def COMP_HEADER_SIZE_def split: if_splits option.splits)
  show "\<not> failed \<Longrightarrow> k \<le> n \<Longrightarrow> k \<le> length (buff net) \<Longrightarrow> take k (buff net') = take k (buff net)"
    using rr new by (auto split: if_splits option.splits)
  show "\<forall>m. alloc m \<noteq> None \<Longrightarrow> n < max_packet_size net \<Longrightarrow> \<not> failed"
  proof -
    assume mem: "\<forall>m. alloc m \<noteq> None" and "n < max_packet_size net"
    moreover obtain b where "my_realloc alloc (Some (buff net)) (l + NET_HEADER_SIZE + COMP_HEADER_SIZE + 1) = Some b"
      using mem [rule_format, of "l + NET_HEADER_SIZE + COMP_HEADER_SIZE + 1"] by (auto simp: my_realloc_def)
    ultimately show "\<not> failed" using rr by simp
  qed
qed

lemma read_body_spec:
  assumes ok: "net_ok net" and al: "alloc_ok 1 alloc" and w: "where_b net \<le> max_packet net"
  shows "\<exists>net' r. read_body alloc net alarmed retry_count len = Some (net', r) \<and> kept net net'
    \<and> (r = None \<or> r = Some len \<and> pkt_nr net' = pkt_nr net \<and> (\<exists>p. length p = len \<and> received net p p net')
         \<and> (\<forall>k. supplied net (len + k) \<longrightarrow> supplied net' k))
    \<and> ((\<forall>m. alloc m \<noteq> None) \<and> len + where_b net < max_packet_size net \<and> supplied net len
         \<and> len \<le> length (inp (vio net)) \<longrightarrow> r \<noteq> None)"
proof (cases "len = 0")
  case True
  then show ?thesis using ok w by (simp add: read_body_def kept_def received_def)
next
  case False
  obtain net1 failed where grow: "(if max_packet net \<le> len + where_b net
      then net_realloc alloc net (len + where_b net) else (net, False)) = (net1, failed)" by fastforce
  have spec: "kept net net1" "vio net1 = vio net" "pkt_nr net1 = pkt_nr net"
    and fit: "\<not> failed \<Longrightarrow> len + where_b net \<le> max_packet net1"
    and same: "\<not> failed \<Longrightarrow> take (where_b net) (buff net1) = take (where_b net) (buff net)"
    and fine: "(\<forall>m. alloc m \<noteq> None) \<Longrightarrow> len + where_b net < max_packet_size net \<Longrightarrow> \<not> failed"
    using grow net_realloc_spec(1-4,6) [OF ok al, where n = "len + where_b net" and net' = net1 and failed = failed]
      net_realloc_spec(5) [OF ok al, where n = "len + where_b net" and net' = net1 and failed = failed and k = "where_b net"] ok w
    by (auto simp: kept_def net_ok_def split: if_splits)
  show ?thesis
  proof (cases failed)
    case True
    then show ?thesis using False grow spec fine by (auto simp: read_body_def)
  next
    case nf: False
    have w1: "where_b net1 = where_b net" and ok1: "net_ok net1" using spec by (simp_all add: kept_def)
    have room: "where_b net + len \<le> length (buff net1)"
      using fit [OF nf] ok1 by (simp add: net_ok_def)
    from read_loop_outcome [of "where_b net" len net1 alarmed retry_count]
    obtain net2 a2 n2 got where loop: "read_loop net1 alarmed retry_count (where_b net) len = Some (net2, a2, n2, got)"
      and out: "read_outcome net1 (where_b net) len net2 got"
      using room by auto
    have res: "read_body alloc net alarmed retry_count len = Some (net2, if got then Some len else None)"
      using False grow nf loop w1 by (simp add: read_body_def)
    show ?thesis
    proof (cases got)
      case True
      obtain rs p where p: "length p = len" "inp (vio net1) = p @ inp (vio net2)"
        and net2: "net2 = net1\<lparr>vio := (vio net1)\<lparr>script := rs, inp := inp (vio net2)\<rparr>,
                     buff := over (buff net1) (where_b net) p\<rparr>"
        and sup: "\<And>k. supplied net1 (len + k) \<Longrightarrow> supplied net2 k"
        using read_loop_ok [OF _ room] out True by metis
      have "kept net net2" using spec ok1 p room
        by (subst net2) (simp add: kept_def net_ok_def)
      moreover have "received net p p net2"
        using p spec fit [OF nf] same [OF nf] room take_over [of "where_b net" p "buff net1"]
        by (subst net2) (simp add: received_def add.commute)
      moreover have "pkt_nr net2 = pkt_nr net" by (subst net2) (simp add: spec)
      moreover have "supplied net (len + k) \<Longrightarrow> supplied net2 k" for k
        using sup [of k] spec(2) by (simp add: supplied_def)
      ultimately show ?thesis using res True p(1) by auto
    next
      case ng: False
      then have "kept net net2"
        using out spec ok1 by (auto simp: read_outcome_def kept_def net_ok_def)
      moreover have "\<not> (supplied net len \<and> len \<le> length (inp (vio net)))"
        using out ng spec(2) by (auto simp: read_outcome_def supplied_def)
      ultimately show ?thesis using res ng by auto
    qed
  qed
qed

text \<open>
  One packet: it never touches memory outside the buffer, and what it returns is the contents of the packet
  with the expected number at the start of the input.
\<close>

definition one_packet :: "u32 \<Rightarrow> byte list \<Rightarrow> byte list" where
  "one_packet nr p = packet_header (length p) nr @ p"

definition reads :: "NET \<Rightarrow> byte list \<Rightarrow> byte list \<Rightarrow> NET \<Rightarrow> bool" where
  "reads net code p net' \<longleftrightarrow> received net code p net' \<and>
     (\<forall>k. supplied net (length code + k) \<longrightarrow> supplied net' k)"

definition deliverable :: "byte alloc \<Rightarrow> NET \<Rightarrow> byte list \<Rightarrow> byte list \<Rightarrow> bool" where
  "deliverable alloc net code p \<longleftrightarrow> (\<forall>m. alloc m \<noteq> None) \<and> (\<exists>rest. inp (vio net) = code @ rest) \<and>
     supplied net (length code) \<and> where_b net + length p < max_packet_size net"

lemma my_real_read_spec:
  assumes ok: "net_ok net" and al: "alloc_ok 1 alloc" and w: "where_b net \<le> max_packet net"
  shows "\<exists>net' r. my_real_read alloc net = Some (net', r) \<and> kept net net'
    \<and> (\<forall>n. r = Some n \<longrightarrow> n \<le> MAX_PACKET_LENGTH \<and> pkt_nr net' = pkt_nr net + 1 \<and>
         (\<exists>p. n = length p \<and> reads net (one_packet (pkt_nr net) p) p net'))
    \<and> (\<forall>p. length p \<le> MAX_PACKET_LENGTH \<and> deliverable alloc net (one_packet (pkt_nr net) p) p \<longrightarrow> r = Some (length p))"
proof -
  let ?w = "where_b net"
  have room: "?w + 4 \<le> length (buff net)"
    using ok w by (simp add: net_ok_def NET_HEADER_SIZE_def COMP_HEADER_SIZE_def)
  from read_loop_outcome [OF room, of False 0]
  obtain net1 a n got where loop: "read_loop net False 0 ?w NET_HEADER_SIZE = Some (net1, a, n, got)"
    and out: "read_outcome net ?w 4 net1 got"
    by (auto simp: NET_HEADER_SIZE_def)
  show ?thesis
  proof (cases got)
    case False
    then have "kept net net1" using out ok by (auto simp: read_outcome_def kept_def net_ok_def)
    moreover have "\<not> deliverable alloc net (one_packet (pkt_nr net) p) p" for p
      using out False by (auto simp: read_outcome_def supplied_def deliverable_def one_packet_def)
    ultimately show ?thesis using loop False by (auto simp: my_real_read_def)
  next
    case True
    obtain rs h where h: "length h = 4" "inp (vio net) = h @ inp (vio net1)"
      and net1: "net1 = net\<lparr>vio := (vio net)\<lparr>script := rs, inp := inp (vio net1)\<rparr>,
                   buff := over (buff net) ?w h\<rparr>"
      and sup: "\<And>k. supplied net (4 + k) \<Longrightarrow> supplied net1 k"
      using read_loop_ok [OF _ room] out True by metis
    have b1: "buff net1 = over (buff net) ?w h" and w1: "where_b net1 = ?w" and nr1: "pkt_nr net1 = pkt_nr net"
      and mp1: "max_packet net1 = max_packet net" "max_packet_size net1 = max_packet_size net"
      by (subst net1, simp)+
    have drop: "drop ?w (buff net1) = h @ drop (?w + 4) (buff net)"
      using drop_over [of ?w h "buff net"] room h(1) b1 by simp
    have third: "rd (buff net1) (?w + 3) = Some (h ! 3)"
    proof -
      have "rd (drop ?w (buff net1)) 3 = Some (h ! 3)" using h(1) by (simp add: drop nth_append rd_def)
      then show ?thesis by (auto simp: rd_eq_Some_conv add.commute)
    qed
    obtain v where v: "uint3korr (drop ?w (buff net1)) = Some v"
      using h(1) drop by (auto simp: uint3korr_def rd_def)
    have hdr: "h = packet_header (length p) (pkt_nr net) \<and> inp (vio net1) = p @ rest"
      if "inp (vio net) = packet_header (length p) (pkt_nr net) @ p @ rest" for p rest
      using that h by simp
    show ?thesis
    proof (cases "h ! 3 = ucast (pkt_nr net)")
      case False
      have "my_real_read alloc net = Some (net1, None)"
        using loop True third False w1 nr1 by (simp add: my_real_read_def)
      moreover have "kept net net1" using ok room h(1) by (simp add: kept_def net_ok_def w1 b1 mp1)
      moreover have "\<not> deliverable alloc net (one_packet (pkt_nr net) p) p" for p
        using hdr [of p] False header_written(2) by (auto simp: deliverable_def one_packet_def packet_header_def int3store_def)
      ultimately show ?thesis by auto
    next
      case nr: True
      have head: "h = packet_header (unat v) (pkt_nr net)" and small: "unat v \<le> MAX_PACKET_LENGTH"
        using header_read [OF v [unfolded drop] h(1) nr] .
      define net2 where "net2 = net1\<lparr>compress_pkt_nr := pkt_nr net + 1, pkt_nr := pkt_nr net + 1\<rparr>"
      have n2: "net_ok net2" "where_b net2 = ?w" "max_packet net2 = max_packet net" "max_packet_size net2 = max_packet_size net"
        "pkt_nr net2 = pkt_nr net + 1" "vio net2 = vio net1" "buff net2 = buff net1"
        using ok room h(1) by (simp_all add: net2_def net_ok_def w1 b1 mp1)
      have run: "my_real_read alloc net = read_body alloc net2 a n (unat v)"
        using loop True third nr w1 nr1 v by (simp add: my_real_read_def net2_def Let_def)
      obtain net' r where body: "read_body alloc net2 a n (unat v) = Some (net', r)" "kept net2 net'"
        and got: "r = None \<or> r = Some (unat v) \<and> pkt_nr net' = pkt_nr net2 \<and>
           (\<exists>p. length p = unat v \<and> received net2 p p net') \<and>
           (\<forall>k. supplied net2 (unat v + k) \<longrightarrow> supplied net' k)"
        and fine: "(\<forall>m. alloc m \<noteq> None) \<and> unat v + where_b net2 < max_packet_size net2 \<and> supplied net2 (unat v)
           \<and> unat v \<le> length (inp (vio net2)) \<Longrightarrow> r \<noteq> None"
        using read_body_spec [OF n2(1) al, of a n "unat v"] n2 w by auto
      have "take ?w (buff net2) = take ?w (buff net)"
        using take_over_less [of ?w ?w h "buff net"] room h(1) n2 b1 by simp
      then have rec: "received net (packet_header (unat v) (pkt_nr net) @ p) p net'" if "received net2 p p net'" for p
        using that h n2 unfolding received_def head [symmetric] by simp
      have sup2: "supplied net2 k" if "supplied net (4 + k)" for k
        using sup [OF that] n2 by (simp add: supplied_def)
      have one: "n \<le> MAX_PACKET_LENGTH \<and> pkt_nr net' = pkt_nr net + 1 \<and>
         (\<exists>p. n = length p \<and> reads net (one_packet (pkt_nr net) p) p net')" if "r = Some n" for n
      proof -
        from that got obtain p where p: "n = unat v" "length p = n" "received net2 p p net'" by auto
        then have "received net (one_packet (pkt_nr net) p) p net'" using rec by (simp add: one_packet_def)
        moreover have "supplied net' k" if "supplied net (length (one_packet (pkt_nr net) p) + k)" for k
          using that got \<open>r = Some n\<close> sup2 [of "unat v + k"] p by (simp add: one_packet_def add.assoc)
        ultimately have "n = length p \<and> reads net (one_packet (pkt_nr net) p) p net'"
          using p by (simp add: reads_def)
        then show ?thesis using got that small n2(5) p(1) by auto
      qed
      have two: "r = Some (length p)"
        if len: "length p \<le> MAX_PACKET_LENGTH" and d: "deliverable alloc net (one_packet (pkt_nr net) p) p" for p
      proof -
        obtain rest where i: "inp (vio net) = packet_header (length p) (pkt_nr net) @ p @ rest"
          and s: "supplied net (4 + length p)"
          using d by (auto simp: deliverable_def one_packet_def)
        have "v = of_nat (length p)"
          using hdr [OF i] header_written(1) [OF len, of "pkt_nr net" "drop (?w + 4) (buff net)"] v drop by simp
        then have "unat v = length p" using header_written(3) [OF len] by simp
        then show ?thesis using fine got d sup2 [OF s] n2 hdr [OF i] by (auto simp: deliverable_def add.commute)
      qed
      have "kept net net'" using body(2) n2 by (simp add: kept_def)
      moreover have "my_real_read alloc net = Some (net', r)" using run body(1) by simp
      moreover have "\<forall>n. r = Some n \<longrightarrow> n \<le> MAX_PACKET_LENGTH \<and> pkt_nr net' = pkt_nr net + 1 \<and>
         (\<exists>p. n = length p \<and> reads net (one_packet (pkt_nr net) p) p net')" using one by blast
      moreover have "\<forall>p. length p \<le> MAX_PACKET_LENGTH \<and> deliverable alloc net (one_packet (pkt_nr net) p) p
         \<longrightarrow> r = Some (length p)" using two by blast
      ultimately show ?thesis by blast
    qed
  qed
qed

section \<open>Reading a message\<close>

text \<open>
  What \<^const>\<open>my_net_read\<close> returns, for any peer and any network: the message \<open>p\<close> whose frames were at the
  start of the input, or the error.
\<close>

lemma received_trans:
  assumes "received net c q net1" "received (net1\<lparr>where_b := where_b net + length q\<rparr>) d p net'"
  shows "received net (c @ d) (q @ p) net'"
  using assms by (simp add: received_def add.assoc)

lemma frames_more:
  "length q = MAX_PACKET_LENGTH \<Longrightarrow>
     frames nr (q @ p) = packet_header MAX_PACKET_LENGTH nr @ q @ frames (nr + 1) p"
  by (subst frames.simps) simp

lemma frames_less: "length p < MAX_PACKET_LENGTH \<Longrightarrow> frames nr p = packet_header (length p) nr @ p"
  by (subst frames.simps) simp

text \<open>
  \<open>net\<close> is the state before the reads, \<open>read_result\<close> states their outcome for the code of the message.
\<close>

lemma supplied_upd [simp]:
  "supplied (net\<lparr>where_b := w\<rparr>) k = supplied net k"
  "supplied (net\<lparr>buff := b\<rparr>) k = supplied net k"
  "supplied (net\<lparr>read_pos := w\<rparr>) k = supplied net k"
  by (simp_all add: supplied_def)

lemma packet_frames: "length p < MAX_PACKET_LENGTH \<Longrightarrow> one_packet nr p = frames nr p"
  by (simp add: one_packet_def frames_less)

lemma frames_split:
  assumes "MAX_PACKET_LENGTH \<le> length p"
  obtains q s where "p = q @ s" "length q = MAX_PACKET_LENGTH" "frames nr p = one_packet nr q @ frames (nr + 1) s"
proof (rule that)
  show "p = take MAX_PACKET_LENGTH p @ drop MAX_PACKET_LENGTH p" by simp
  show "length (take MAX_PACKET_LENGTH p) = MAX_PACKET_LENGTH" using assms by simp
  then show "frames nr p = one_packet nr (take MAX_PACKET_LENGTH p) @ frames (nr + 1) (drop MAX_PACKET_LENGTH p)"
    using assms by (subst frames.simps) (simp add: one_packet_def)
qed

lemma deliverable_first:
  assumes "deliverable alloc net (c @ d) (q @ s)"
  shows "deliverable alloc net c q"
  using assms by (auto simp: deliverable_def supplied_def)

lemma reads_trans:
  assumes "reads net c q net1" "reads (net1\<lparr>where_b := where_b net + length q\<rparr>) d p net'"
  shows "reads net (c @ d) (q @ p) net'"
  using assms received_trans by (auto simp: reads_def add.assoc)

text \<open>The first packet of a message that is to come is the one that has been read.\<close>

lemma deliverable_rest:
  assumes d: "deliverable alloc net (one_packet nr q @ c) (q @ s)" and r: "reads net (one_packet nr p) p net1"
    and len: "length p = length q" and k: "kept net net1"
  shows "p = q" "deliverable alloc (net1\<lparr>where_b := where_b net1 + length q\<rparr>) c s"
proof -
  obtain rest where "inp (vio net) = one_packet nr q @ c @ rest" using d by (auto simp: deliverable_def)
  then have same: "p = q \<and> inp (vio net1) = c @ rest"
    using r len by (auto simp: reads_def received_def one_packet_def)
  then show "p = q" by simp
  have "supplied net1 (length c)"
    using d r same by (auto simp: deliverable_def reads_def)
  then show "deliverable alloc (net1\<lparr>where_b := where_b net1 + length q\<rparr>) c s"
    using d k same by (auto simp: deliverable_def kept_def)
qed

text \<open>
  What follows from the outcome \<open>r1\<close> of one read for the whole message: it is the last packet, or a part is
  still to come.
\<close>

definition outcome :: "byte alloc \<Rightarrow> NET \<Rightarrow> NET \<Rightarrow> nat option \<Rightarrow> bool" where
  "outcome alloc net net1 r \<longleftrightarrow>
     (\<forall>n. r = Some n \<longrightarrow> n \<le> MAX_PACKET_LENGTH \<and> pkt_nr net1 = pkt_nr net + 1 \<and>
         (\<exists>p. n = length p \<and> reads net (one_packet (pkt_nr net) p) p net1))
     \<and> (\<forall>p. length p \<le> MAX_PACKET_LENGTH \<and> deliverable alloc net (one_packet (pkt_nr net) p) p \<longrightarrow> r = Some (length p))"

lemma outcome_deliverable:
  "outcome alloc net net1 r \<Longrightarrow> length p \<le> MAX_PACKET_LENGTH \<Longrightarrow>
     deliverable alloc net (one_packet (pkt_nr net) p) p \<Longrightarrow> r = Some (length p)"
  unfolding outcome_def by blast

lemma outcome_first:
  assumes out: "outcome alloc net net1 r" and d: "deliverable alloc net (frames (pkt_nr net) p) p"
  shows "if length p < MAX_PACKET_LENGTH then r = Some (length p) else r = Some MAX_PACKET_LENGTH"
proof (cases "length p < MAX_PACKET_LENGTH")
  case True
  then show ?thesis using outcome_deliverable [OF out, of p] d packet_frames [of p "pkt_nr net"] by simp
next
  case False
  then obtain q s where q: "p = q @ s" "length q = MAX_PACKET_LENGTH"
    "frames (pkt_nr net) p = one_packet (pkt_nr net) q @ frames (pkt_nr net + 1) s"
    using frames_split [of p "pkt_nr net"] by auto
  then have "deliverable alloc net (one_packet (pkt_nr net) q) q" using d deliverable_first by metis
  then show ?thesis using outcome_deliverable [OF out, of q] q(2) False by simp
qed

lemma outcome_first_Some:
  assumes "outcome alloc net net1 r" "deliverable alloc net (frames (pkt_nr net) p) p"
  shows "r \<noteq> None"
  using outcome_first [OF assms] by (simp split: if_splits)

lemma outcome_last:
  assumes out: "outcome alloc net net1 (Some n)" and less: "n \<noteq> MAX_PACKET_LENGTH"
  obtains p where "n = length p" "reads net (frames (pkt_nr net) p) p net1"
proof -
  obtain p where p: "n = length p" "reads net (one_packet (pkt_nr net) p) p net1" "n \<le> MAX_PACKET_LENGTH"
    using out by (auto simp: outcome_def)
  then have "one_packet (pkt_nr net) p = frames (pkt_nr net) p" using less by (intro packet_frames) auto
  then show ?thesis using that p by simp
qed

text \<open>After a packet of maximal length the next one is read to the place behind it.\<close>

lemma outcome_full:
  assumes out: "outcome alloc net net1 (Some MAX_PACKET_LENGTH)" and k: "kept net net1"
  obtains q where "length q = MAX_PACKET_LENGTH" "pkt_nr net1 = pkt_nr net + 1"
    "where_b net1 + MAX_PACKET_LENGTH \<le> max_packet net1"
    "\<And>p net'. reads (net1\<lparr>where_b := where_b net1 + MAX_PACKET_LENGTH\<rparr>) (frames (pkt_nr net + 1) p) p net' \<Longrightarrow>
       reads net (frames (pkt_nr net) (q @ p)) (q @ p) net'"
    "\<And>p. deliverable alloc net (frames (pkt_nr net) p) p \<Longrightarrow>
       \<exists>s. deliverable alloc (net1\<lparr>where_b := where_b net1 + MAX_PACKET_LENGTH\<rparr>) (frames (pkt_nr net + 1) s) s"
proof -
  let ?nr = "pkt_nr net" and ?net1 = "net1\<lparr>where_b := where_b net1 + MAX_PACKET_LENGTH\<rparr>"
  have "\<exists>p. MAX_PACKET_LENGTH = length p \<and> reads net (one_packet ?nr p) p net1" and nr: "pkt_nr net1 = ?nr + 1"
    using out by (simp_all add: outcome_def)
  then obtain q where q: "length q = MAX_PACKET_LENGTH" "reads net (one_packet ?nr q) q net1" by metis
  have w1: "where_b net1 = where_b net" using k by (simp add: kept_def)
  have fit: "where_b net1 + MAX_PACKET_LENGTH \<le> max_packet net1"
    using q w1 by (simp add: reads_def received_def)
  have joined: "reads net (frames ?nr (q @ p)) (q @ p) net'" if "reads ?net1 (frames (?nr + 1) p) p net'" for p net'
    using reads_trans [OF q(2), of "frames (?nr + 1) p" p net'] that q(1) w1
    by (simp add: frames_more one_packet_def)
  have rest: "\<exists>s. deliverable alloc ?net1 (frames (?nr + 1) s) s" if d: "deliverable alloc net (frames ?nr p) p" for p
  proof -
    have "\<not> length p < MAX_PACKET_LENGTH" using outcome_first [OF out d] by auto
    then obtain q' s where s: "p = q' @ s" "length q' = MAX_PACKET_LENGTH"
      "frames ?nr p = one_packet ?nr q' @ frames (?nr + 1) s"
      using frames_split [of p ?nr] by auto
    have "deliverable alloc (net1\<lparr>where_b := where_b net1 + length q'\<rparr>) (frames (?nr + 1) s) s"
      using deliverable_rest(2) [of alloc net ?nr q' "frames (?nr + 1) s" s q net1] d s q k by simp
    then show ?thesis using s(2) by auto
  qed
  show ?thesis using that [OF q(1) nr fit joined rest] .
qed

lemma my_real_read_outcome:
  assumes "net_ok net" "alloc_ok 1 alloc" "where_b net \<le> max_packet net"
  obtains net' r where "my_real_read alloc net = Some (net', r)" "kept net net'" "outcome alloc net net' r"
  using my_real_read_spec [OF assms] unfolding outcome_def by (elim exE conjE) blast

text \<open>The specification of a message: what was received, and that it is received.\<close>

definition message :: "byte alloc \<Rightarrow> NET \<Rightarrow> NET \<Rightarrow> nat \<Rightarrow> nat option \<Rightarrow> bool" where
  "message alloc net net' before r \<longleftrightarrow>
     (\<forall>n. r = Some n \<longrightarrow> (\<exists>p. n = before + length p \<and> reads net (frames (pkt_nr net) p) p net'))
     \<and> (\<forall>p. deliverable alloc net (frames (pkt_nr net) p) p \<longrightarrow> r \<noteq> None)"

lemma message_last:
  assumes out: "outcome alloc net net1 r" and "r \<noteq> Some MAX_PACKET_LENGTH"
  shows "message alloc net net1 before (map_option ((+) before) r)"
  unfolding message_def
proof (intro conjI allI impI)
  fix n assume "map_option ((+) before) r = Some n"
  then obtain m where "r = Some m" "n = before + m" by auto
  moreover from this obtain p where "m = length p" "reads net (frames (pkt_nr net) p) p net1"
    using outcome_last [of alloc net net1 m] assms by auto
  ultimately show "\<exists>p. n = before + length p \<and> reads net (frames (pkt_nr net) p) p net1" by auto
qed (use outcome_first_Some [OF out] in simp)

lemma message_more:
  assumes out: "outcome alloc net net1 (Some MAX_PACKET_LENGTH)" and k: "kept net net1"
    and m: "message alloc (net1\<lparr>where_b := where_b net1 + MAX_PACKET_LENGTH\<rparr>) net' (before + MAX_PACKET_LENGTH) r"
  shows "message alloc net net' before r"
proof -
  let ?net1 = "net1\<lparr>where_b := where_b net1 + MAX_PACKET_LENGTH\<rparr>"
  obtain q where q: "length q = MAX_PACKET_LENGTH" "pkt_nr net1 = pkt_nr net + 1"
    and joined: "\<And>p net'. reads ?net1 (frames (pkt_nr net + 1) p) p net' \<Longrightarrow>
       reads net (frames (pkt_nr net) (q @ p)) (q @ p) net'"
    and rest: "\<And>p. deliverable alloc net (frames (pkt_nr net) p) p \<Longrightarrow>
       \<exists>s. deliverable alloc ?net1 (frames (pkt_nr net + 1) s) s"
    using outcome_full [OF out k] by metis
  show ?thesis
    unfolding message_def
  proof (intro conjI allI impI)
    fix n assume "r = Some n"
    then obtain p where "n = before + MAX_PACKET_LENGTH + length p" "reads ?net1 (frames (pkt_nr net + 1) p) p net'"
      using m q(2) by (auto simp: message_def)
    then show "\<exists>p. n = before + length p \<and> reads net (frames (pkt_nr net) p) p net'"
      using joined q(1) by (intro exI [of _ "q @ p"]) simp
  next
    fix p assume "deliverable alloc net (frames (pkt_nr net) p) p"
    then show "r \<noteq> None" using rest m q(2) by (fastforce simp: message_def)
  qed
qed

lemma read_more_spec:
  "net_ok net \<Longrightarrow> alloc_ok 1 alloc \<Longrightarrow> where_b net + MAX_PACKET_LENGTH \<le> max_packet net \<Longrightarrow>
     \<exists>net' r. read_more alloc net t = Some (net', r) \<and> net_ok net' \<and>
       message alloc (net\<lparr>where_b := where_b net + MAX_PACKET_LENGTH\<rparr>) net' (t + MAX_PACKET_LENGTH) r"
proof (induction alloc net t rule: read_more.induct)
  case (1 alloc net t)
  let ?net = "net\<lparr>where_b := where_b net + MAX_PACKET_LENGTH\<rparr>"
  have "net_ok ?net" "where_b ?net \<le> max_packet ?net" using 1(2,4) by (simp_all add: net_ok_def)
  then obtain net1 r1 where run: "my_real_read alloc ?net = Some (net1, r1)" and k1: "kept ?net net1"
    and out: "outcome alloc ?net net1 r1"
    using my_real_read_outcome [OF _ 1(3)] by metis
  have ok1: "net_ok net1" using k1 by (simp add: kept_def)
  show ?case
  proof (cases "r1 = Some MAX_PACKET_LENGTH")
    case False
    have "read_more alloc net t = Some (net1, map_option ((+) (t + MAX_PACKET_LENGTH)) r1)"
      using run False by (simp add: read_more.simps [of alloc net])
    then show ?thesis using message_last [OF out False] ok1 by auto
  next
    case True
    have "where_b net1 + MAX_PACKET_LENGTH \<le> max_packet net1"
      using outcome_full [OF out [unfolded True] k1] by metis
    from 1(1) [OF refl refl run refl True ok1 1(3) this] obtain net' r
      where more: "read_more alloc net1 (t + MAX_PACKET_LENGTH) = Some (net', r)" "net_ok net'"
        "message alloc (net1\<lparr>where_b := where_b net1 + MAX_PACKET_LENGTH\<rparr>) net'
           (t + MAX_PACKET_LENGTH + MAX_PACKET_LENGTH) r"
      by auto
    have "read_more alloc net t = Some (net', r)"
      using run True more(1) by (simp add: read_more.simps [of alloc net])
    then show ?thesis using more message_more [OF out [unfolded True] k1 more(3)] by auto
  qed
qed

lemma put_NUL:
  assumes "net_ok net" "reads net0 c p net" "where_b net0 = where_b net"
  obtains b where "put_bytes (buff net) (where_b net + length p) [0] = Some b" "length b = length (buff net)"
    "take (where_b net + length p) b = take (where_b net + length p) (buff net)" "b ! (where_b net + length p) = 0"
proof -
  let ?k = "where_b net + length p"
  have "?k + length [0::byte] \<le> length (buff net)"
    using assms by (simp add: net_ok_def reads_def received_def NET_HEADER_SIZE_def)
  then have "put_bytes (buff net) ?k [0] = Some (over (buff net) ?k [0])"
    "take ?k (over (buff net) ?k [0]) = take ?k (buff net)" "length (over (buff net) ?k [0]) = length (buff net)"
    "over (buff net) ?k [0] ! ?k = 0"
    by (simp_all only: put_bytes_over take_over_less order_refl length_over) (simp add: over_def nth_append)
  then show ?thesis using that by blast
qed

lemma my_net_read_spec:
  assumes ok: "net_ok net" and al: "alloc_ok 1 alloc" and w: "where_b net \<le> max_packet net"
  obtains net' r where "my_net_read alloc net = Some (net', r)" "net_ok net'" "message alloc net net' 0 r"
    "\<And>n. r = Some n \<Longrightarrow> read_pos net' = where_b net \<and> buff net' ! (where_b net + n) = 0"
proof -
  obtain net1 r1 where run: "my_real_read alloc net = Some (net1, r1)" and k1: "kept net net1"
    and out: "outcome alloc net net1 r1"
    using my_real_read_outcome [OF ok al w] .
  have k1': "net_ok net1" "where_b net1 = where_b net" using k1 by (simp_all add: kept_def)
  have "\<exists>net2 r. (if r1 = Some MAX_PACKET_LENGTH then do {
          (net2, len) \<leftarrow> read_more alloc net1 0; Some (net2\<lparr>where_b := where_b net\<rparr>, len) }
        else Some (net1, r1)) = Some (net2, r) \<and> net_ok net2 \<and> where_b net2 = where_b net \<and> message alloc net net2 0 r"
  proof (cases "r1 = Some MAX_PACKET_LENGTH")
    case False
    have "map_option ((+) 0) r1 = r1" by (cases r1) simp_all
    then show ?thesis using message_last [OF out False, of 0] k1' False by simp
  next
    case True
    have "where_b net1 + MAX_PACKET_LENGTH \<le> max_packet net1"
      using outcome_full [OF out [unfolded True] k1] by metis
    from read_more_spec [OF k1'(1) al this, of 0] obtain net2 r
      where more: "read_more alloc net1 0 = Some (net2, r)" "net_ok net2"
        "message alloc (net1\<lparr>where_b := where_b net1 + MAX_PACKET_LENGTH\<rparr>) net2 (0 + MAX_PACKET_LENGTH) r"
      by auto
    have "message alloc net (net2\<lparr>where_b := where_b net\<rparr>) 0 r"
      using message_more [OF out [unfolded True] k1 more(3)]
      by (simp add: message_def reads_def received_def supplied_def)
    then show ?thesis using more True by (simp add: net_ok_def)
  qed
  then obtain net2 r where
    second: "(if r1 = Some MAX_PACKET_LENGTH then do {
          (net2, len) \<leftarrow> read_more alloc net1 0; Some (net2\<lparr>where_b := where_b net\<rparr>, len) }
        else Some (net1, r1)) = Some (net2, r)" "net_ok net2" "where_b net2 = where_b net"
    and m2: "message alloc net net2 0 r" by (elim exE conjE) (rule that)
  show ?thesis
  proof (cases r)
    case None
    let ?fin = "net2\<lparr>read_pos := where_b net2\<rparr>"
    have "my_net_read alloc net = Some (?fin, r)"
      using run second(1) None by (simp add: my_net_read_def)
    moreover have "message alloc net ?fin 0 r" using m2 None by (simp add: message_def)
    ultimately show ?thesis using that [of ?fin r] second(2) None by (simp add: net_ok_def)
  next
    case (Some n)
    then obtain p where p: "n = length p" "reads net (frames (pkt_nr net) p) p net2"
      using m2 by (auto simp: message_def)
    obtain b where b: "put_bytes (buff net2) (where_b net2 + length p) [0] = Some b" "length b = length (buff net2)"
      "take (where_b net2 + length p) b = take (where_b net2 + length p) (buff net2)" "b ! (where_b net2 + length p) = 0"
      using put_NUL [OF second(2) p(2)] second(3) by auto
    let ?fin = "net2\<lparr>read_pos := where_b net2, buff := b\<rparr>"
    have "my_net_read alloc net = Some (?fin, r)"
      using run second(1) Some p(1) b(1) by (simp add: my_net_read_def)
    moreover have "net_ok ?fin" using second(2) b(2) by (simp add: net_ok_def)
    moreover have "reads net (frames (pkt_nr net) p) p ?fin"
      using p(2) b(3) second(3) by (simp add: reads_def received_def)
    then have "message alloc net ?fin 0 r" using m2 Some p(1) by (auto simp: message_def)
    ultimately show ?thesis using that [of ?fin r] Some p(1) b(4) second(3) by simp
  qed
qed

text \<open>A message can be cut out of the input in one way only.\<close>

lemma frames_unique:
  "frames nr p @ r = frames nr q @ s \<Longrightarrow> p = q \<and> r = s"
proof (induction nr p arbitrary: q rule: frames.induct)
  case (1 nr p)
  have head: "take 4 (frames nr x @ y) = packet_header (min (length x) MAX_PACKET_LENGTH) nr" for x y
    by (subst frames.simps) simp
  define m where "m = min (length p) MAX_PACKET_LENGTH"
  define k where "k = min (length q) MAX_PACKET_LENGTH"
  have mk: "m \<le> MAX_PACKET_LENGTH" "k \<le> MAX_PACKET_LENGTH" by (simp_all add: m_def k_def)
  have "packet_header m nr = packet_header k nr"
    unfolding m_def k_def using head [of p r] head [of q s] 1(2) by metis
  then have "(of_nat m :: u32) = of_nat k"
    using header_written(1) [OF mk(1), of nr "[]"] header_written(1) [OF mk(2), of nr "[]"] by (metis option.inject)
  then have "m = k" using header_written(3) [OF mk(1)] header_written(3) [OF mk(2)] by metis
  then have len: "min (length p) MAX_PACKET_LENGTH = min (length q) MAX_PACKET_LENGTH"
    by (simp add: m_def k_def)
  show ?case
  proof (cases "MAX_PACKET_LENGTH \<le> length p")
    case True
    then have long: "MAX_PACKET_LENGTH \<le> length q" using len by simp
    obtain a b where p: "p = a @ b" "length a = MAX_PACKET_LENGTH" "frames nr p = one_packet nr a @ frames (nr + 1) b"
      by (rule frames_split [OF True])
    obtain c d where q: "q = c @ d" "length c = MAX_PACKET_LENGTH" "frames nr q = one_packet nr c @ frames (nr + 1) d"
      by (rule frames_split [OF long])
    have "one_packet nr a @ (frames (nr + 1) b @ r) = one_packet nr c @ (frames (nr + 1) d @ s)"
      using 1(2) p(3) q(3) by simp
    then have "a = c" "frames (nr + 1) b @ r = frames (nr + 1) d @ s"
      using p(2) q(2) by (simp_all add: one_packet_def)
    have "drop MAX_PACKET_LENGTH p = b" using p(1,2) by simp
    then have "b = d \<and> r = s"
      using 1(1) [OF True, of d] \<open>frames (nr + 1) b @ r = frames (nr + 1) d @ s\<close> by simp
    then show ?thesis using \<open>a = c\<close> p(1) q(1) by simp
  next
    case False
    then have less: "length p < MAX_PACKET_LENGTH" "length q < MAX_PACKET_LENGTH" and same: "length p = length q"
      using len by linarith+
    have "packet_header (length p) nr @ p @ r = packet_header (length p) nr @ q @ s"
      using 1(2) frames_less [OF less(1), of nr] frames_less [OF less(2), of nr] same by simp
    then show ?thesis using same by simp
  qed
qed

text \<open>A connection as \<^verbatim>\<open>my_net_init\<close> makes it is in the state that reads and writes start from.\<close>

lemma my_net_init_ok:
  assumes "my_net_init alloc v l m = Some net" "alloc_ok 1 alloc"
  shows "net_ok net" "where_b net = 0" "pkt_nr net = 0" "vio net = v" "max_packet_size net = max l m"
    "write_pos net = 0" "net_error net = 0" "max_packet net = l"
  using assms
  by (auto simp: my_net_init_def net_ok_def alloc_ok_def split: option.splits)

lemma read_delivers:
  assumes "net_ok net" "alloc_ok 1 alloc" "where_b net \<le> max_packet net" "\<forall>n. alloc n \<noteq> None"
    and "inp (vio net) = frames (pkt_nr net) p @ rest" "where_b net + length p < max_packet_size net"
    and "steady (script (vio net))" "length (frames (pkt_nr net) p) \<le> length (script (vio net))"
  shows "\<exists>net'. my_net_read alloc net = Some (net', Some (length p)) \<and>
    take (length p) (drop (read_pos net') (buff net')) = p \<and> inp (vio net') = rest"
proof -
  obtain net' r where run: "my_net_read alloc net = Some (net', r)" and m: "message alloc net net' 0 r"
    and pos: "\<And>n. r = Some n \<Longrightarrow> read_pos net' = where_b net"
    using my_net_read_spec [OF assms(1-3)] by metis
  have "deliverable alloc net (frames (pkt_nr net) p) p"
    using assms by (simp add: deliverable_def supplied_def)
  then have "r \<noteq> None" using m unfolding message_def by blast
  then obtain q where q: "r = Some (length q)" "reads net (frames (pkt_nr net) q) q net'"
    using m by (auto simp: message_def)
  then have "frames (pkt_nr net) q @ inp (vio net') = frames (pkt_nr net) p @ rest"
    using assms(5) by (simp add: reads_def received_def)
  then have "q = p" "inp (vio net') = rest" using frames_unique by blast+
  moreover have "take (length q) (drop (where_b net) (buff net')) = drop (where_b net) (take (where_b net + length q) (buff net'))"
    by (simp add: take_drop add.commute)
  moreover have "\<dots> = q"
    using q(2) assms(1,3) by (simp add: reads_def received_def net_ok_def)
  ultimately show ?thesis using run q(1) pos [OF q(1)] by auto
qed

text \<open>
  A peer that sends and a socket that delivers, seen through \<^const>\<open>my_net_read\<close> of a fresh connection:
  a decoder of messages.
\<close>

definition ample :: "byte alloc" where "ample n = Some (replicate n 0)"

lemma ample_ok: "alloc_ok 1 ample" "\<forall>n. ample n \<noteq> None"
  by (simp_all add: ample_def alloc_ok_def)

definition receive :: "byte list \<Rightarrow> (byte list \<times> byte list) option" where
  "receive i = do {
     net \<leftarrow> my_net_init ample \<lparr>script = replicate (length i) (Bytes 1), inp = i, outp = []\<rparr> 16 1024;
     (net, r) \<leftarrow> my_net_read ample net;
     case r of None \<Rightarrow> None
     | Some n \<Rightarrow> Some (take n (drop (read_pos net) (buff net)), inp (vio net)) }"

lemma receive_frames: "length p < 1024 \<Longrightarrow> receive (frames 0 p @ rest) = Some (p, rest)"
proof -
  assume len: "length p < 1024"
  let ?i = "frames 0 p @ rest"
  let ?v = "\<lparr>script = replicate (length ?i) (Bytes 1), inp = ?i, outp = []\<rparr>"
  obtain net where init: "my_net_init ample ?v 16 1024 = Some net" by (simp add: my_net_init_def ample_def)
  note ok = my_net_init_ok [OF init ample_ok(1)]
  have "steady (script (vio net))" by (simp add: ok steady_def list_all_iff)
  then obtain net' where "my_net_read ample net = Some (net', Some (length p))"
    "take (length p) (drop (read_pos net') (buff net')) = p" "inp (vio net') = rest"
    using read_delivers [OF ok(1) ample_ok(1) _ ample_ok(2), of p rest] len by (auto simp: ok)
  then show ?thesis using init by (simp add: receive_def)
qed

interpretation message: prefix_codec "frames 0" receive "\<lambda>p. length p < 1024"
  by unfold_locales (rule receive_frames)

end
