(* ===== verification/Rows.thy ===== *)
theory Rows
  imports NetRead
begin

text \<open>
  The rows of a result as \<^verbatim>\<open>MySQL/client.c\<close> takes them from a packet: the inner loops of
  \<^verbatim>\<open>cli_read_rows\<close> (copies the columns into memory of the row) and \<^verbatim>\<open>read_one_row\<close> (leaves them in the
  packet buffer), and \<^verbatim>\<open>cli_fetch_lengths\<close>.  A packet buffer is the list of the bytes from the start of the
  packet to the end of the allocated memory: behind the packet and its NUL it holds what earlier packets have
  left.  An access outside allocated memory makes a result \<^const>\<open>None\<close>; where a row is copied, the fault says
  whether it is a read or a write.
\<close>

section \<open>Copied rows\<close>

text \<open>The difference of two pointers, converted to \<^verbatim>\<open>ulong\<close>.\<close>

definition ptr_diff :: "nat \<Rightarrow> nat \<Rightarrow> nat" where
  "ptr_diff p q = unat (word_of_int (int p - int q) :: u64)"

text \<open>
  Accesses outside allocated memory: a read behind the packet buffer, a write outside the memory of the row, an
  access behind the array of the fields.
\<close>

datatype fault = Read_outside | Write_outside | Field_outside

text \<open>The longest value of each column, kept if the caller passes its fields.\<close>

definition note_max :: "nat list option \<Rightarrow> nat \<Rightarrow> nat \<Rightarrow> nat list option option" where
  "note_max ml field len =
     (case ml of None \<Rightarrow> Some None
      | Some l \<Rightarrow> do { m \<leftarrow> rd l field; Some (Some (if m < len then l[field := len] else l)) })"

text \<open>
  The loop over the fields of a row.  \<open>mem\<close> is the memory of the row, \<open>to\<close> and \<open>end_to\<close> are positions in it;
  a column is null or the position of its value.  The outer \<open>Inl\<close> is a fault, the inner one a malformed packet.
\<close>

type_synonym row_result = "fault + ((unit + nat option list \<times> byte list \<times> nat) \<times> nat list option)"

definition add_column :: "nat option \<Rightarrow> row_result \<Rightarrow> row_result" where
  "add_column c r = map_sum id (\<lambda>(r, ml). (map_sum id (apfst ((#) c)) r, ml)) r"

fun row_loop ::
  "byte list \<Rightarrow> nat \<Rightarrow> nat \<Rightarrow> nat list option \<Rightarrow> byte list \<Rightarrow> nat \<Rightarrow> nat \<Rightarrow> row_result" where
  "row_loop cp field 0 ml mem to end_to = Inr (Inr ([], mem, to), ml)"
| "row_loop cp field (Suc n) ml mem to end_to =
     (case net_field_length cp of
        None \<Rightarrow> Inl Read_outside
      | Some (len, cp) \<Rightarrow>
          if len = NULL_LENGTH then add_column None (row_loop cp (field + 1) n ml mem to end_to)
          else if ptr_diff end_to to < unat len then Inr (Inl (), ml)
          else if length cp < unat len then Inl Read_outside
          else (case put_bytes mem to (take (unat len) cp @ [0]) of
              None \<Rightarrow> Inl Write_outside
            | Some mem \<Rightarrow> (case note_max ml field (unat len) of
                  None \<Rightarrow> Inl Field_outside
                | Some ml \<Rightarrow>
                    add_column (Some to)
                      (row_loop (drop (unat len) cp) (field + 1) n ml mem (to + unat len + 1) end_to))))"

text \<open>A row in memory: the columns, the end of the last one, and the memory.\<close>

record ROW =
  cols :: "nat option list"
  row_end :: nat
  row_mem :: "byte list"

definition store_row ::
  "byte list \<Rightarrow> nat \<Rightarrow> nat \<Rightarrow> nat list option \<Rightarrow> byte list \<Rightarrow> fault + ((unit + ROW) \<times> nat list option)" where
  "store_row buf pkt_len nfields ml area =
     map_sum id (\<lambda>(r, ml). (map_sum id (\<lambda>(cs, m, e). \<lparr>cols = cs, row_end = e, row_mem = m\<rparr>) r, ml))
       (row_loop buf 0 nfields ml area 0 (pkt_len - 1))"

text \<open>A run that faults has no result.\<close>

definition no_fault :: "fault + 'a \<Rightarrow> 'a option" where
  "no_fault r = (case r of Inl _ \<Rightarrow> None | Inr x \<Rightarrow> Some x)"

text \<open>
  \<^verbatim>\<open>cli_fetch_lengths\<close>: the columns with the end pointer behind them; \<open>prev\<close> is the index and the start of the
  last column that is not null.
\<close>

fun fetch_lengths_loop :: "nat option list \<Rightarrow> nat \<Rightarrow> (nat \<times> nat) option \<Rightarrow> nat list \<Rightarrow> nat list" where
  "fetch_lengths_loop [] i prv to = to"
| "fetch_lengths_loop (None # cs) i prv to = fetch_lengths_loop cs (i + 1) prv (to[i := 0])"
| "fetch_lengths_loop (Some c # cs) i prv to =
     fetch_lengths_loop cs (i + 1) (Some (i, c))
       (case prv of None \<Rightarrow> to | Some (k, start) \<Rightarrow> to[k := c - start - 1])"

definition cli_fetch_lengths :: "nat list \<Rightarrow> ROW \<Rightarrow> nat list" where
  "cli_fetch_lengths to row = fetch_lengths_loop (cols row @ [Some (row_end row)]) 0 None to"

section \<open>Rows in the packet buffer\<close>

text \<open>
  The loop of \<^verbatim>\<open>read_one_row\<close>: \<open>pos\<close> is a position in the buffer, \<open>prv\<close> the end of the column before, which
  is terminated when the length of the next one has been read.
\<close>

fun one_row_loop ::
  "byte list \<Rightarrow> nat \<Rightarrow> nat \<Rightarrow> nat option \<Rightarrow> nat \<Rightarrow>
     (unit + nat option list \<times> nat list \<times> nat option \<times> byte list) option" where
  "one_row_loop buf pos end_pos prv 0 = Some (Inr ([], [], prv, buf))"
| "one_row_loop buf pos end_pos prv (Suc n) = do {
     (len, rest) \<leftarrow> net_field_length (drop pos buf);
     let pos = length buf - length rest;
     if len \<noteq> NULL_LENGTH \<and> ptr_diff end_pos pos < unat len then Some (Inl ())
     else do {
       let (col, l) = (if len = NULL_LENGTH then (None, 0) else (Some pos, unat len));
       buf \<leftarrow> (case prv of None \<Rightarrow> Some buf | Some q \<Rightarrow> put_bytes buf q [0]);
       r \<leftarrow> one_row_loop buf (pos + l) end_pos (Some (pos + l)) n;
       Some (map_sum id (\<lambda>(cs, ls, q, b). (col # cs, l # ls, q, b)) r) } }"

text \<open>The columns, their lengths, the end pointer, and the buffer.\<close>

definition one_row ::
  "byte list \<Rightarrow> nat \<Rightarrow> nat \<Rightarrow> (unit + nat option list \<times> nat list \<times> nat \<times> byte list) option" where
  "one_row buf pkt_len nfields = do {
     r \<leftarrow> one_row_loop buf 0 pkt_len None nfields;
     case r of
       Inl _ \<Rightarrow> Some (Inl ())
     | Inr (cs, ls, prv, buf) \<Rightarrow> do {
         q \<leftarrow> prv; buf \<leftarrow> put_bytes buf q [0]; Some (Inr (cs, ls, q + 1, buf)) } }"

section \<open>The rows that a server sends\<close>

definition encode_cell :: "byte list option \<Rightarrow> byte list" where
  "encode_cell c = (case c of None \<Rightarrow> [251] | Some s \<Rightarrow> net_store_length (of_nat (length s)) @ s)"

definition encode_row :: "byte list option list \<Rightarrow> byte list" where
  "encode_row r = concat (map encode_cell r)"

definition cell_ok :: "byte list option \<Rightarrow> bool" where
  "cell_ok c \<longleftrightarrow> (case c of None \<Rightarrow> True | Some s \<Rightarrow> length s < 4294967296)"

text \<open>What the memory of a row holds, and where.\<close>

definition cell_bytes :: "byte list option \<Rightarrow> byte list" where
  "cell_bytes c = (case c of None \<Rightarrow> [] | Some s \<Rightarrow> s @ [0])"

fun layout :: "byte list option list \<Rightarrow> nat \<Rightarrow> nat option list \<times> nat" where
  "layout [] to = ([], to)"
| "layout (c # r) to =
     (case layout r (to + length (cell_bytes c)) of
        (cs, e) \<Rightarrow> ((case c of None \<Rightarrow> None | Some s \<Rightarrow> Some to) # cs, e))"

definition cell_lens :: "byte list option list \<Rightarrow> nat list" where
  "cell_lens r = map (\<lambda>c. case c of None \<Rightarrow> 0 | Some s \<Rightarrow> length s) r"

text \<open>What the caller of \<^verbatim>\<open>mysql_fetch_row\<close> and \<^verbatim>\<open>mysql_fetch_lengths\<close> sees.\<close>

definition row_values :: "byte list \<Rightarrow> nat option list \<Rightarrow> nat list \<Rightarrow> byte list option list" where
  "row_values m cs ls = map2 (\<lambda>c l. map_option (\<lambda>p. take l (drop p m)) c) cs ls"

lemma net_field_length_null: "net_field_length (251 # rest) = Some (NULL_LENGTH, rest)"
  by (simp add: net_field_length_def)

lemma net_field_length_cell:
  "length s < 4294967296 \<Longrightarrow>
     net_field_length (encode_cell (Some s) @ rest) = Some (of_nat (length s), s @ rest)"
  using net_field_length_store_u32 [of "of_nat (length s)" "s @ rest"]
  by (simp add: encode_cell_def unat_of_nat)

lemma unat_u64_of_nat: "n < 18446744073709551616 \<Longrightarrow> unat (of_nat n :: u64) = n"
  by (simp add: unat_of_nat)

lemma len_not_null: "n < 4294967296 \<Longrightarrow> (of_nat n :: u64) \<noteq> NULL_LENGTH"
proof
  assume n: "n < 4294967296" "(of_nat n :: u64) = NULL_LENGTH"
  have "unat NULL_LENGTH = 2 ^ 64 - 1" by (simp add: NULL_LENGTH_def unsigned_minus_1_eq_mask mask_eq_exp_minus_1)
  then show False using n unat_u64_of_nat [of n] by simp
qed

lemma ptr_diff_le: "q \<le> p \<Longrightarrow> p - q < 18446744073709551616 \<Longrightarrow> ptr_diff p q = p - q"
proof -
  assume "q \<le> p" "p - q < 18446744073709551616"
  moreover have "int p - int q = int (p - q)" using \<open>q \<le> p\<close> by simp
  ultimately show ?thesis using unat_u64_of_nat [of "p - q"] by (simp only: ptr_diff_def of_int_of_nat_eq)
qed

lemma cell_simps [simp]:
  "cell_bytes None = []" "cell_bytes (Some s) = s @ [0]" "encode_cell None = [251]"
  "cell_ok None" "cell_ok (Some s) \<longleftrightarrow> length s < 4294967296"
  by (simp_all add: cell_bytes_def encode_cell_def cell_ok_def)

lemma encode_row_Cons: "encode_row (c # r) = encode_cell c @ encode_row r"
  by (simp add: encode_row_def)

lemma cells_fit: "length (concat (map cell_bytes r)) \<le> length (encode_row r)"
proof (induction r)
  case (Cons c r)
  have "length (cell_bytes c) \<le> length (encode_cell c)"
    using length_net_store_length by (simp add: cell_bytes_def encode_cell_def split: option.split)
  then show ?case using Cons by (simp add: encode_row_Cons)
qed simp

section \<open>Copied rows hold the values\<close>

fun maxes :: "nat list \<Rightarrow> nat \<Rightarrow> byte list option list \<Rightarrow> nat list" where
  "maxes l field [] = l"
| "maxes l field (None # r) = maxes l (field + 1) r"
| "maxes l field (Some s # r) = maxes (l[field := max (l ! field) (length s)]) (field + 1) r"

lemma note_max_Some:
  "field < length l \<Longrightarrow> note_max (Some l) field n = Some (Some (l[field := max (l ! field) n]))"
  by (auto simp: note_max_def max_def)

lemma row_loop_spec:
  "list_all cell_ok r \<Longrightarrow> to + length (concat (map cell_bytes r)) \<le> length m \<Longrightarrow> length m \<le> 4294967296 \<Longrightarrow>
     (case ml of None \<Rightarrow> True | Some l \<Rightarrow> field + length r \<le> length l) \<Longrightarrow>
     row_loop (encode_row r @ rest) field (length r) ml m to (length m - 1) =
       Inr (Inr (fst (layout r to), over m to (concat (map cell_bytes r)), snd (layout r to)),
            map_option (\<lambda>l. maxes l field r) ml)"
proof (induction r arbitrary: field ml m to)
  case Nil
  then show ?case by (cases ml) (simp_all add: encode_row_def)
next
  case (Cons c r)
  obtain cs e where lay: "layout r (to + length (cell_bytes c)) = (cs, e)" by fastforce
  show ?case
  proof (cases c)
    case None
    have "row_loop (encode_row r @ rest) (field + 1) (length r) ml m to (length m - 1) =
       Inr (Inr (cs, over m to (concat (map cell_bytes r)), e), map_option (\<lambda>l. maxes l (field + 1) r) ml)"
      using Cons.IH [where to = to and m = m and ml = ml and field = "field + 1"] Cons.prems lay None by (cases ml) auto
    then show ?thesis using lay None
      by (cases ml) (simp_all add: encode_row_Cons net_field_length_null add_column_def)
  next
    case (Some s)
    let ?m = "over m to (s @ [0])"
    have len: "length s < 4294967296" "to + length s + 1 \<le> length m"
      using Cons.prems Some by simp_all
    have "ptr_diff (length m - 1) to = length m - 1 - to"
      using len Cons.prems(3) by (intro ptr_diff_le) auto
    then have test: "\<not> ptr_diff (length m - 1) to < length s" using len by linarith
    have un: "unat (of_nat (length s) :: u64) = length s" using len by (intro unat_u64_of_nat) simp
    have put: "put_bytes m to (s @ [0]) = Some ?m" using len by (intro put_bytes_over) simp
    have lm: "length ?m = length m" using len by simp
    let ?ml = "map_option (\<lambda>l. l[field := max (l ! field) (length s)]) ml"
    have nm: "note_max ml field (length s) = Some ?ml"
      using Cons.prems(4) by (cases ml) (simp_all add: note_max_Some, simp add: note_max_def)
    have "row_loop (encode_row r @ rest) (field + 1) (length r) ?ml ?m (to + length s + 1) (length ?m - 1) =
       Inr (Inr (cs, over ?m (to + length s + 1) (concat (map cell_bytes r)), e),
         map_option (\<lambda>l. maxes l (field + 1) r) ?ml)"
      using Cons.IH [where to = "to + length s + 1" and m = ?m and ml = ?ml and field = "field + 1"] Cons.prems lay Some lm
      by (cases ml) (auto simp: add.assoc)
    moreover have "over ?m (to + length s + 1) (concat (map cell_bytes r)) =
        over m to (concat (map cell_bytes (c # r)))"
      using over_over [of to "s @ [0]" m "concat (map cell_bytes r)"] len Some by (simp add: add.assoc)
    moreover have "layout (c # r) to = (Some to # cs, e)" using lay Some by simp
    moreover have "net_field_length (encode_row (c # r) @ rest) = Some (of_nat (length s), s @ encode_row r @ rest)"
      using net_field_length_cell [OF len(1), of "encode_row r @ rest"] Some by (simp add: encode_row_Cons)
    ultimately show ?thesis
      using len_not_null [OF len(1)] test un put nm Some lm
      by (cases ml) (simp_all add: add_column_def del: layout.simps)
  qed
qed

lemma layout_length: "layout r to = (cs, e) \<Longrightarrow> length cs = length r \<and> e = to + length (concat (map cell_bytes r))"
  by (induction r arbitrary: to cs e) (simp, fastforce split: prod.splits)

lemma layout_lengths:
  "layout r to = (cs, e) \<Longrightarrow> i + length r \<le> length ls \<Longrightarrow>
     (case prv of None \<Rightarrow> True | Some (k, start) \<Rightarrow> k < i \<and> start < to) \<Longrightarrow>
     fetch_lengths_loop (cs @ [Some e]) i prv ls =
       take i (case prv of None \<Rightarrow> ls | Some (k, start) \<Rightarrow> ls[k := to - start - 1]) @ cell_lens r @ drop (i + length r) ls"
proof (induction r arbitrary: to cs e i prv ls)
  case Nil
  then show ?case
    by (auto simp: cell_lens_def split: option.splits) (metis append_take_drop_id drop_update_cancel)
next
  case (Cons c r)
  obtain ds where lay: "layout r (to + length (cell_bytes c)) = (ds, e)"
    "cs = (case c of None \<Rightarrow> None | Some s \<Rightarrow> Some to) # ds"
    using Cons.prems(1) by (auto split: prod.splits)
  show ?case
  proof (cases c)
    case None
    have "fetch_lengths_loop (cs @ [Some e]) i prv ls = fetch_lengths_loop (ds @ [Some e]) (i + 1) prv (ls[i := 0])"
      using lay None by simp
    also have "\<dots> = take (i + 1) (case prv of None \<Rightarrow> ls[i := 0] | Some (k, start) \<Rightarrow> (ls[i := 0])[k := to - start - 1])
       @ cell_lens r @ drop (i + 1 + length r) (ls[i := 0])"
      using Cons.IH [of to ds e "i + 1" "ls[i := 0]" prv] lay None Cons.prems(2,3) by (auto split: option.splits)
    also have "\<dots> = take i (case prv of None \<Rightarrow> ls | Some (k, start) \<Rightarrow> ls[k := to - start - 1]) @ 0 # cell_lens r
       @ drop (i + 1 + length r) ls"
      using Cons.prems(2,3) by (auto simp: take_Suc_conv_app_nth take_update_swap list_update_beyond split: option.splits)
    finally show ?thesis using None by (simp add: cell_lens_def)
  next
    case (Some s)
    let ?ls = "case prv of None \<Rightarrow> ls | Some (k, start) \<Rightarrow> ls[k := to - start - 1]"
    have len: "length ?ls = length ls" by (simp split: option.split)
    have tail: "drop (Suc (i + length r)) ?ls = drop (Suc (i + length r)) ls"
      using Cons.prems(3) by (auto split: option.splits)
    have "fetch_lengths_loop (cs @ [Some e]) i prv ls = fetch_lengths_loop (ds @ [Some e]) (i + 1) (Some (i, to)) ?ls"
      using lay Some by (simp split: option.splits)
    also have "\<dots> = take (i + 1) (?ls[i := length s]) @ cell_lens r @ drop (i + 1 + length r) ?ls"
      using Cons.IH [of "to + length s + 1" ds e "i + 1" ?ls "Some (i, to)"] lay Some Cons.prems(2) len by simp
    also have "take (i + 1) (?ls[i := length s]) = take i ?ls @ [length s]"
      using Cons.prems(2) len by (simp add: take_Suc_conv_app_nth)
    finally show ?thesis using Some tail by (simp add: cell_lens_def)
  qed
qed

lemma cell_lens_length [simp]: "length (cell_lens r) = length r"
  by (simp add: cell_lens_def)

lemma row_values_layout:
  "layout r (length pre) = (cs, e) \<Longrightarrow> row_values (pre @ concat (map cell_bytes r) @ post) cs (cell_lens r) = r"
proof (induction r arbitrary: pre cs e)
  case Nil
  then show ?case by (simp add: row_values_def)
next
  case (Cons c r)
  obtain ds where lay: "layout r (length (pre @ cell_bytes c)) = (ds, e)"
    "cs = (case c of None \<Rightarrow> None | Some s \<Rightarrow> Some (length pre)) # ds"
    using Cons.prems by (auto split: prod.splits)
  have "row_values ((pre @ cell_bytes c) @ concat (map cell_bytes r) @ post) ds (cell_lens r) = r"
    by (rule Cons.IH [OF lay(1)])
  then show ?case using lay(2) by (cases c) (auto simp: row_values_def cell_lens_def)
qed

section \<open>Rows in the packet hold the values\<close>

text \<open>The first byte of the code of a column is overwritten by the end of the column before.\<close>

definition nul_first :: "byte list \<Rightarrow> byte list" where
  "nul_first b = (case b of [] \<Rightarrow> [] | x # xs \<Rightarrow> 0 # xs)"

definition marked :: "nat option \<Rightarrow> byte list option \<Rightarrow> byte list" where
  "marked prv c = (if prv = None then encode_cell c else nul_first (encode_cell c))"

fun places :: "byte list option list \<Rightarrow> nat \<Rightarrow> nat option list" where
  "places [] pos = []"
| "places (None # r) pos = None # places r (pos + 1)"
| "places (Some s # r) pos =
     Some (pos + length (net_store_length (of_nat (length s)))) # places r (pos + length (encode_cell (Some s)))"

definition in_place :: "nat option \<Rightarrow> byte list option list \<Rightarrow> byte list" where
  "in_place prv r = (case r of [] \<Rightarrow> [] | c # r \<Rightarrow> marked prv c @ concat (map (nul_first \<circ> encode_cell) r))"

lemma length_nul_first [simp]: "length (nul_first b) = length b"
  by (simp add: nul_first_def split: list.split)

lemma length_marked [simp]: "length (marked prv c) = length (encode_cell c)"
  by (simp add: marked_def)

lemma encode_cell_ne [simp]: "encode_cell c \<noteq> []"
  using length_net_store_length by (auto simp: encode_cell_def split: option.splits) (metis list.size(3) zero_neq_one zero_neq_numeral)

lemma in_place_Cons: "in_place prv (c # r) = marked prv c @ in_place (Some q) r"
  by (cases r) (simp_all add: in_place_def marked_def)

lemma put_nul:
  "b \<noteq> [] \<Longrightarrow> put_bytes (pre @ b @ post) (length pre) [0] = Some (pre @ nul_first b @ post)"
  by (cases b) (simp_all add: put_bytes_def nul_first_def)

lemma one_row_loop_spec:
  "list_all cell_ok r \<Longrightarrow> end_pos = length pre + length (encode_row r) \<Longrightarrow> end_pos \<le> 4294967296 \<Longrightarrow>
     (case prv of None \<Rightarrow> True | Some q \<Rightarrow> q = length pre) \<Longrightarrow>
     one_row_loop (pre @ encode_row r @ post) (length pre) end_pos prv (length r) =
       Some (Inr (places r (length pre), cell_lens r, if r = [] then prv else Some end_pos, pre @ in_place prv r @ post))"
proof (induction r arbitrary: pre prv)
  case Nil
  then show ?case by (simp add: encode_row_def cell_lens_def in_place_def)
next
  case (Cons c r)
  let ?m = "marked prv c"
  have prv: "(case prv of None \<Rightarrow> Some (pre @ encode_row (c # r) @ post)
      | Some q \<Rightarrow> put_bytes (pre @ encode_row (c # r) @ post) q [0]) = Some ((pre @ ?m) @ encode_row r @ post)"
    using Cons.prems(4) put_nul [of "encode_cell c" pre "encode_row r @ post"]
    by (simp add: encode_row_Cons marked_def split: option.splits)
  have IH: "one_row_loop ((pre @ ?m) @ encode_row r @ post) (length pre + length (encode_cell c)) end_pos
      (Some (length pre + length (encode_cell c))) (length r) =
    Some (Inr (places r (length pre + length (encode_cell c)), cell_lens r, Some end_pos,
       (pre @ ?m) @ in_place (Some (length pre + length (encode_cell c))) r @ post))"
  proof (cases "r = []")
    case True
    then show ?thesis using Cons.prems by (simp add: encode_row_Cons in_place_def cell_lens_def encode_row_def)
  next
    case False
    then show ?thesis using Cons.IH [of "pre @ ?m" "Some (length (pre @ ?m))"] Cons.prems
      by (simp add: encode_row_Cons add.assoc)
  qed
  define B where "B = pre @ encode_row (c # r) @ post"
  define B' where "B' = (pre @ ?m) @ encode_row r @ post"
  note prv' = prv [folded B_def B'_def] and IH' = IH [folded B'_def]
  have fin: "pre @ in_place prv (c # r) @ post = (pre @ ?m) @ in_place (Some (length pre + length (encode_cell c))) r @ post"
    using in_place_Cons [of prv c r "length pre + length (encode_cell c)"] by simp
  have "one_row_loop B (length pre) end_pos prv (Suc (length r)) =
     Some (Inr (places (c # r) (length pre), cell_lens (c # r), Some end_pos, pre @ in_place prv (c # r) @ post))"
  proof (cases c)
    case None
    have "net_field_length (drop (length pre) B) = Some (NULL_LENGTH, encode_row r @ post)"
      using None by (simp add: B_def encode_row_Cons net_field_length_null)
    moreover have "length B - length (encode_row r @ post) = length pre + 1"
      using None by (simp add: B_def encode_row_Cons)
    ultimately show ?thesis using prv' IH' None unfolding fin by (simp add: cell_lens_def)
  next
    case (Some s)
    let ?h = "length (net_store_length (of_nat (length s)))"
    have len: "length s < 4294967296" using Cons.prems(1) Some by simp
    have code: "length (encode_cell c) = ?h + length s" using Some by (simp add: encode_cell_def)
    have next_len: "net_field_length (drop (length pre) B) = Some (of_nat (length s), s @ encode_row r @ post)"
      using net_field_length_cell [OF len, of "encode_row r @ post"] Some by (simp add: B_def encode_row_Cons)
    have un: "unat (of_nat (length s) :: u64) = length s" using len by (intro unat_u64_of_nat) simp
    have pos: "length B - length (s @ encode_row r @ post) = length pre + ?h"
      using code by (simp add: B_def encode_row_Cons)
    have "ptr_diff end_pos (length pre + ?h) = end_pos - (length pre + ?h)"
      using Cons.prems(2,3) code by (intro ptr_diff_le) (auto simp: encode_row_Cons)
    then have test: "\<not> ptr_diff end_pos (length pre + ?h) < length s"
      using Cons.prems(2) code by (simp add: encode_row_Cons)
    have at: "length pre + ?h + length s = length pre + length (encode_cell c)" using code by simp
    have "places (c # r) (length pre) = Some (length pre + ?h) # places r (length pre + length (encode_cell c))"
      using Some by simp
    moreover have "cell_lens (c # r) = length s # cell_lens r" using Some by (simp add: cell_lens_def)
    ultimately show ?thesis
      using prv' IH' len_not_null [OF len] test
      unfolding fin by (simp add: next_len pos un at del: length_append places.simps)
  qed
  then show ?case by (simp add: B_def)
qed

text \<open>Every value is followed by a NUL.\<close>

definition terminated :: "byte list \<Rightarrow> nat option list \<Rightarrow> nat list \<Rightarrow> bool" where
  "terminated m cs ls \<longleftrightarrow> list_all2 (\<lambda>c l. \<forall>p. c = Some p \<longrightarrow> p + l < length m \<and> m ! (p + l) = 0) cs ls"

lemma terminated_layout:
  "layout r (length pre) = (cs, e) \<Longrightarrow> terminated (pre @ concat (map cell_bytes r) @ post) cs (cell_lens r)"
proof (induction r arbitrary: pre cs e)
  case Nil
  then show ?case by (simp add: terminated_def cell_lens_def)
next
  case (Cons c r)
  obtain ds where lay: "layout r (length (pre @ cell_bytes c)) = (ds, e)"
    "cs = (case c of None \<Rightarrow> None | Some s \<Rightarrow> Some (length pre)) # ds"
    using Cons.prems by (auto split: prod.splits)
  have "terminated ((pre @ cell_bytes c) @ concat (map cell_bytes r) @ post) ds (cell_lens r)"
    by (rule Cons.IH [OF lay(1)])
  then show ?case using lay(2) by (cases c) (auto simp: terminated_def cell_lens_def nth_append)
qed

text \<open>The row holds the values \<open>r\<close>, for any array of lengths that the caller passes.\<close>

definition holds :: "ROW \<Rightarrow> byte list option list \<Rightarrow> bool" where
  "holds row r \<longleftrightarrow> length (cols row) = length r \<and>
     (\<forall>ls. length r \<le> length ls \<longrightarrow> take (length r) (cli_fetch_lengths ls row) = cell_lens r) \<and>
     row_values (row_mem row) (cols row) (cell_lens r) = r \<and> terminated (row_mem row) (cols row) (cell_lens r)"

text \<open>A row that the server sends is stored with its values, each of them terminated.\<close>

lemma store_row_spec:
  assumes r: "list_all cell_ok r" and len: "length area = length (encode_row r)" "length area \<le> 4294967296"
    and ml: "case ml of None \<Rightarrow> True | Some l \<Rightarrow> length r \<le> length l"
  obtains row where "store_row (encode_row r @ rest) (length (encode_row r)) (length r) ml area =
      Inr (Inr row, map_option (\<lambda>l. maxes l 0 r) ml)" "holds row r"
proof -
  obtain cs e where lay: "layout r 0 = (cs, e)" by fastforce
  let ?c = "concat (map cell_bytes r)"
  have fit: "length ?c \<le> length area" using cells_fit [of r] len by simp
  define row where "row = \<lparr>cols = cs, row_end = e, row_mem = over area 0 ?c\<rparr>"
  have "store_row (encode_row r @ rest) (length (encode_row r)) (length r) ml area =
      Inr (Inr row, map_option (\<lambda>l. maxes l 0 r) ml)"
    using row_loop_spec [OF r, where to = 0 and m = area and ml = ml and field = 0 and rest = rest] fit len ml lay
    by (cases ml) (simp_all add: store_row_def row_def)
  moreover have "take (length r) (cli_fetch_lengths ls row) = cell_lens r" if "length r \<le> length ls" for ls
    using layout_lengths [OF lay, of 0 ls None] that by (simp add: cli_fetch_lengths_def row_def)
  moreover have "row_values (row_mem row) (cols row) (cell_lens r) = r"
    using row_values_layout [of r "[]" cs e "drop (length ?c) area"] lay by (simp add: row_def over_def)
  moreover have "terminated (row_mem row) (cols row) (cell_lens r)"
    using terminated_layout [of r "[]" cs e "drop (length ?c) area"] lay by (simp add: row_def over_def)
  moreover have "length (cols row) = length r" using layout_length [OF lay] by (simp add: row_def)
  ultimately show ?thesis using that by (simp add: holds_def)
qed

lemma drop_marked: "drop (length (net_store_length (of_nat (length s)))) (marked prv (Some s)) = s"
proof -
  obtain x xs where "net_store_length (of_nat (length s)) = x # xs"
    using length_net_store_length [of "of_nat (length s)"] by (cases "net_store_length (of_nat (length s))") (auto split: if_splits)
  then show ?thesis by (simp add: marked_def encode_cell_def nul_first_def)
qed

lemma in_place_first: "\<exists>xs. in_place (Some q) r @ 0 # post = 0 # xs"
proof (cases r)
  case (Cons c cs)
  obtain x xs where "encode_cell c = x # xs" using encode_cell_ne [of c] by (cases "encode_cell c") auto
  then show ?thesis using Cons by (simp add: in_place_def marked_def nul_first_def)
qed (simp add: in_place_def)

lemma places_values:
  "row_values (pre @ in_place prv r @ 0 # post) (places r (length pre)) (cell_lens r) = r \<and>
   terminated (pre @ in_place prv r @ 0 # post) (places r (length pre)) (cell_lens r)"
proof (induction r arbitrary: pre prv)
  case Nil
  then show ?case by (simp add: row_values_def terminated_def cell_lens_def)
next
  case (Cons c r)
  let ?q = "length (pre @ marked prv c)"
  let ?b = "(pre @ marked prv c) @ in_place (Some ?q) r @ 0 # post"
  have b: "pre @ in_place prv (c # r) @ 0 # post = ?b" using in_place_Cons [of prv c r ?q] by simp
  note IH = Cons.IH [of "pre @ marked prv c" "Some ?q"]
  show ?case
  proof (cases c)
    case None
    then show ?thesis using IH unfolding b by (simp add: row_values_def terminated_def cell_lens_def)
  next
    case (Some s)
    let ?h = "length (net_store_length (of_nat (length s)))"
    obtain xs where xs: "in_place (Some ?q) r @ 0 # post = 0 # xs" using in_place_first by blast
    have code: "length (marked prv c) = ?h + length s" using Some by (simp add: encode_cell_def)
    have d: "drop (length pre + ?h) ?b = s @ 0 # xs"
      using drop_marked [of s prv] code Some xs by simp
    have l: "length ?b = length pre + ?h + length s + 1 + length xs"
      using code arg_cong [OF xs, of length] by simp
    have "?b ! (length pre + ?h + length s) = 0"
      using nth_drop [of "length pre + ?h" ?b "length s"] l unfolding d by simp
    moreover have "take (length s) (drop (length pre + ?h) ?b) = s" unfolding d by simp
    moreover have "length pre + ?h + length s < length ?b" using l by simp
    ultimately show ?thesis using IH Some code unfolding b
      by (simp add: row_values_def terminated_def cell_lens_def)
  qed
qed

lemma length_in_place: "length (in_place prv r) = length (encode_row r)"
proof (induction r arbitrary: prv)
  case (Cons c r)
  then show ?case using in_place_Cons [of prv c r 0] by (simp add: encode_row_Cons)
qed (simp add: in_place_def encode_row_def)

lemma one_row_spec:
  assumes "list_all cell_ok r" "r \<noteq> []" "length (encode_row r) \<le> 4294967296"
  shows "one_row (encode_row r @ x # post) (length (encode_row r)) (length r) =
    Some (Inr (places r 0, cell_lens r, length (encode_row r) + 1, in_place None r @ 0 # post))"
proof -
  have len: "length (in_place None r) = length (encode_row r)" by (rule length_in_place)
  have "put_bytes (in_place None r @ x # post) (length (encode_row r)) [0] = Some (in_place None r @ 0 # post)"
    using put_nul [of "[x]" "in_place None r" post] len by (simp add: nul_first_def)
  then show ?thesis
    using one_row_loop_spec [of r "length (encode_row r)" "[]" None "x # post"] assms
    by (simp add: one_row_def)
qed

section \<open>Malformed rows\<close>

lemma net_field_length_zero: "net_field_length (0 # rest) = Some (0, rest)"
  by (simp add: net_field_length_def)

lemma row_loop_overflow:
  "\<forall>c \<in> set r. \<exists>s. c = Some s \<and> length s < 251 \<Longrightarrow> to + length (encode_row r) = length m \<Longrightarrow> length m \<le> 4294967296 \<Longrightarrow>
     (case ml of None \<Rightarrow> True | Some l \<Rightarrow> field + length r \<le> length l) \<Longrightarrow>
     row_loop (encode_row r @ 0 # stale) field (Suc (length r + k)) ml m to (length m - 1) = Inl Write_outside"
proof (induction r arbitrary: field ml m to)
  case Nil
  have "NULL_LENGTH \<noteq> 0" by (simp add: NULL_LENGTH_def)
  then show ?case using Nil by (simp add: encode_row_def net_field_length_zero put_bytes_def)
next
  case (Cons c r)
  obtain s where s: "c = Some s" "length s < 251" using Cons.prems(1) by auto
  have "(of_nat (length s) :: u64) < 251" using s(2) by (simp add: word_less_nat_alt unat_of_nat)
  then have code: "length (encode_cell c) = length s + 1"
    using s length_net_store_length [of "of_nat (length s)"] by (simp add: encode_cell_def)
  have len: "length s < 4294967296" "to + length s + 1 \<le> length m"
    using s Cons.prems(2) code by (simp_all add: encode_row_Cons)
  have "ptr_diff (length m - 1) to = length m - 1 - to"
    using len Cons.prems(3) by (intro ptr_diff_le) auto
  then have test: "\<not> ptr_diff (length m - 1) to < length s" using len by linarith
  have un: "unat (of_nat (length s) :: u64) = length s" using len by (intro unat_u64_of_nat) simp
  have put: "put_bytes m to (s @ [0]) = Some (over m to (s @ [0]))" using len by (intro put_bytes_over) simp
  let ?ml = "map_option (\<lambda>l. l[field := max (l ! field) (length s)]) ml"
  have nm: "note_max ml field (length s) = Some ?ml"
    using Cons.prems(4) by (cases ml) (simp_all add: note_max_Some, simp add: note_max_def)
  have "row_loop (encode_row r @ 0 # stale) (field + 1) (Suc (length r + k)) ?ml (over m to (s @ [0]))
      (to + length s + 1) (length (over m to (s @ [0])) - 1) = Inl Write_outside"
    using Cons.prems code len by (intro Cons.IH) (simp_all add: encode_row_Cons split: option.splits)
  moreover have "net_field_length (encode_row (c # r) @ 0 # stale) = Some (of_nat (length s), s @ encode_row r @ 0 # stale)"
    using net_field_length_cell [OF len(1)] s by (simp add: encode_row_Cons)
  ultimately show ?case
    using len_not_null [OF len(1)] test un put len nm
    by (subst row_loop.simps(2)) (simp add: add_column_def del: row_loop.simps)
qed

text \<open>
  C12: a packet that holds fewer columns than the result has, all of them not null and shorter than 251 bytes,
  with memory of the length of the packet for the row, makes the loop of \<^verbatim>\<open>cli_read_rows\<close> write outside that
  memory, whatever lies behind the packet and its NUL: the strings in the packet and their NULs fill the memory up,
  which leaves \<open>to\<close> one byte behind \<open>end_to\<close>, the difference of the pointers becomes a huge number, the check of
  the next column, whose length is read from the NUL behind the packet, passes, and its NUL is written behind the
  memory.
\<close>
theorem store_row_overflow:
  assumes "\<forall>c \<in> set r. \<exists>s. c = Some s \<and> length s < 251"
    and "length area = length (encode_row r)" "length area \<le> 4294967296" "length r < nfields"
    and "case ml of None \<Rightarrow> True | Some l \<Rightarrow> length r \<le> length l"
  shows "store_row (encode_row r @ 0 # stale) (length (encode_row r)) nfields ml area = Inl Write_outside"
proof -
  obtain k where "nfields = Suc (length r + k)" using assms(4) less_iff_Suc_add by auto
  then show ?thesis
    using row_loop_overflow [OF assms(1), where to = 0 and m = area and stale = stale and field = 0 and k = k and ml = ml]
      assms(2,3,5)
    by (cases ml) (simp_all add: store_row_def del: row_loop.simps)
qed

theorem store_row_overflow_witness:
  "store_row [1, 65, 0] 2 2 (Some [0, 0]) [0, 0] = Inl Write_outside"
proof -
  have "encode_row [Some [65]] = [1, 65]" by (simp add: encode_row_def encode_cell_def net_store_length_def)
  then show ?thesis using store_row_overflow [of "[Some [65]]" "[0, 0]" 2 "Some [0, 0]" "[]"] by (simp add: numeral_2_eq_2)
qed

end
