(* ===== verification/Client.thy ===== *)
theory Client
  imports Rows
begin

text \<open>
  The text protocol of the client (\<^verbatim>\<open>MySQL/client.c\<close>): commands, their replies, the fields and rows of a
  result, and the state of the connection that keeps calls in order.  The packet layer is an argument: the
  operations of \<open>link\<close>, which \<^verbatim>\<open>net_serv.cc\<close> provides.  Modelled is a connection without automatic reconnection
  and without replication.  Memory for a row, for a result and for a file comes from an
  allocator, an argument; memory for names is there.  An access outside memory makes a result \<^const>\<open>None\<close>.
\<close>

section \<open>The packet layer, as the client uses it\<close>

text \<open>
  \<open>lk_read\<close>: \<^verbatim>\<open>my_net_read\<close>; \<open>lk_buf\<close>: the buffer from \<^verbatim>\<open>read_pos\<close> on, \<open>lk_put\<close> stores into it; \<open>lk_command\<close>:
  \<^verbatim>\<open>net_clear\<close> and \<^verbatim>\<open>net_write_command\<close>; \<open>lk_write\<close>: \<^verbatim>\<open>my_net_write\<close>; \<open>lk_flush\<close>: \<^verbatim>\<open>net_flush\<close>; \<open>lk_errno\<close>,
  \<open>lk_set_errno\<close>: \<^verbatim>\<open>last_errno\<close>; \<open>lk_infile\<close>: the call-backs for a local file that the program has set.
\<close>

text \<open>
  The call-backs: \<open>li_init\<close> gets the file name and gives the block behind \<^verbatim>\<open>li_ptr\<close> and whether it failed;
  \<open>li_read\<close> gives the bytes read, \<^const>\<open>None\<close> for a negative result; \<open>li_error\<close> the error number and text.
  The call of \<^verbatim>\<open>local_infile_end\<close>, which frees what is behind \<^verbatim>\<open>li_ptr\<close>, changes nothing of the connection.
\<close>

type_synonym infile_state = "byte list"

record local_infile =
  li_init :: "byte list \<Rightarrow> infile_state \<times> bool"
  li_read :: "infile_state \<Rightarrow> nat \<Rightarrow> infile_state \<times> byte list option"
  li_error :: "infile_state \<Rightarrow> nat \<times> byte list"

record 'n link =
  lk_read :: "'n \<Rightarrow> ('n \<times> nat option) option"
  lk_buf :: "'n \<Rightarrow> byte list"
  lk_put :: "'n \<Rightarrow> byte list \<Rightarrow> 'n"
  lk_command :: "'n \<Rightarrow> byte \<Rightarrow> byte list \<Rightarrow> byte list \<Rightarrow> ('n \<times> bool) option"
  lk_errno :: "'n \<Rightarrow> nat"
  lk_set_errno :: "'n \<Rightarrow> nat \<Rightarrow> 'n"
  lk_write :: "'n \<Rightarrow> byte list \<Rightarrow> ('n \<times> bool) option"
  lk_flush :: "'n \<Rightarrow> 'n \<times> bool"
  lk_max_packet :: "'n \<Rightarrow> nat"
  lk_infile :: local_infile

section \<open>Data\<close>

datatype mysql_status = MYSQL_STATUS_READY | MYSQL_STATUS_GET_RESULT | MYSQL_STATUS_USE_RESULT

record MYSQL_FIELD =
  f_name :: "byte list"
  f_org_name :: "byte list"
  f_table :: "byte list"
  f_org_table :: "byte list"
  f_db :: "byte list"
  f_catalog :: "byte list"
  f_def :: "byte list option"
  f_length :: nat
  f_max_length :: nat
  f_flags :: u32
  f_decimals :: nat
  f_charsetnr :: nat
  f_type :: nat

record 'n MYSQL =
  my_net :: 'n
  my_open :: bool
  my_status :: mysql_status
  my_server_status :: u32
  my_warning_count :: nat
  my_affected_rows :: u64
  my_insert_id :: u64
  my_fields :: "MYSQL_FIELD list option"
  my_field_count :: nat
  my_info :: "byte list option"
  my_sqlstate :: "byte list"
  my_error :: "byte list"
  my_protocol_41 :: bool
  my_transactions :: bool
  my_long_flag :: bool
  my_local_files :: bool
  my_fetch_owner :: "nat option"
  my_cancelled :: "nat set"

text \<open>
  A result: \<open>rs_rows\<close> is \<^const>\<open>None\<close> for an unbuffered one.  Its identity \<open>rs_id\<close> stands for the address of
  its flag \<^verbatim>\<open>unbuffered_fetch_cancelled\<close>; the flags that have been set are \<^const>\<open>my_cancelled\<close>.  \<open>rs_handle\<close>:
  the pointer to the connection is not null.
\<close>

record RES =
  rs_rows :: "ROW list option"
  rs_cursor :: "ROW list"
  rs_current :: "ROW option"
  rs_lengths :: "nat list"
  rs_fields :: "MYSQL_FIELD list"
  rs_field_count :: nat
  rs_row_count :: nat
  rs_eof :: bool
  rs_handle :: bool
  rs_id :: nat

definition CR_UNKNOWN_ERROR :: nat where "CR_UNKNOWN_ERROR = 2000"
definition CR_SERVER_GONE_ERROR :: nat where "CR_SERVER_GONE_ERROR = 2006"
definition CR_OUT_OF_MEMORY :: nat where "CR_OUT_OF_MEMORY = 2008"
definition CR_SERVER_LOST :: nat where "CR_SERVER_LOST = 2013"
definition CR_COMMANDS_OUT_OF_SYNC :: nat where "CR_COMMANDS_OUT_OF_SYNC = 2014"
definition CR_NET_PACKET_TOO_LARGE :: nat where "CR_NET_PACKET_TOO_LARGE = 2020"
definition CR_MALFORMED_PACKET :: nat where "CR_MALFORMED_PACKET = 2027"
definition CR_FETCH_CANCELED :: nat where "CR_FETCH_CANCELED = 2050"

definition SERVER_STATUS_IN_TRANS :: u32 where "SERVER_STATUS_IN_TRANS = 1"
definition SERVER_STATUS_AUTOCOMMIT :: u32 where "SERVER_STATUS_AUTOCOMMIT = 2"
definition SERVER_MORE_RESULTS_EXISTS :: u32 where "SERVER_MORE_RESULTS_EXISTS = 8"

definition unknown_sqlstate :: "byte list" where "unknown_sqlstate = [72, 89, 48, 48, 48]"

definition not_error_sqlstate :: "byte list" where "not_error_sqlstate = [48, 48, 48, 48, 48]"

definition more_results :: "'n MYSQL \<Rightarrow> bool" where
  "more_results m \<longleftrightarrow> my_server_status m AND SERVER_MORE_RESULTS_EXISTS \<noteq> 0"

section \<open>Errors and replies\<close>

definition client_errors :: "string list" where
  "client_errors =
  [''Unknown MySQL error'',
   ''Can't create UNIX socket (%d)'',
   ''Can't connect to local MySQL server through socket '%-.100s' (%d)'',
   ''Can't connect to MySQL server on '%-.100s' (%d)'',
   ''Can't create TCP/IP socket (%d)'',
   ''Unknown MySQL server host '%-.100s' (%d)'',
   ''MySQL server has gone away'',
   ''Protocol mismatch; server version = %d, client version = %d'',
   ''MySQL client ran out of memory'',
   ''Wrong host info'',
   ''Localhost via UNIX socket'',
   ''%-.100s via TCP/IP'',
   ''Error in server handshake'',
   ''Lost connection to MySQL server during query'',
   ''Commands out of sync; you can't run this command now'',
   ''Named pipe: %-.32s'',
   ''Can't wait for named pipe to host: %-.64s  pipe: %-.32s (%lu)'',
   ''Can't open named pipe to host: %-.64s  pipe: %-.32s (%lu)'',
   ''Can't set state of named pipe to host: %-.64s  pipe: %-.32s (%lu)'',
   ''Can't initialize character set %-.32s (path: %-.100s)'',
   ''Got packet bigger than 'max_allowed_packet' bytes'',
   ''Embedded server'',
   ''Error on SHOW SLAVE STATUS:'',
   ''Error on SHOW SLAVE HOSTS:'',
   ''Error connecting to slave:'',
   ''Error connecting to master:'',
   ''SSL connection error'',
   ''Malformed packet'',
   ''This client library is licensed only for use with MySQL servers having '%s' license'',
   ''Invalid use of null pointer'',
   ''Statement not prepared'',
   ''No data supplied for parameters in prepared statement'',
   ''Data truncated'',
   ''No parameters exist in the statement'',
   ''Invalid parameter number'',
   ''Can't send long data for non-string/non-binary data types (parameter: %d)'',
   ''Using unsupported buffer type: %d  (parameter: %d)'',
   ''Shared memory: %-.100s'',
   ''Can't open shared memory; client could not create request event (%lu)'',
   ''Can't open shared memory; no answer event received from server (%lu)'',
   ''Can't open shared memory; server could not allocate file mapping (%lu)'',
   ''Can't open shared memory; server could not get pointer to file mapping (%lu)'',
   ''Can't open shared memory; client could not allocate file mapping (%lu)'',
   ''Can't open shared memory; client could not get pointer to file mapping (%lu)'',
   ''Can't open shared memory; client could not create %s event (%lu)'',
   ''Can't open shared memory; no answer from server (%lu)'',
   ''Can't open shared memory; cannot send request event to server (%lu)'',
   ''Wrong or unknown protocol'',
   ''Invalid connection handle'',
   ''Connection using old (pre-4.1.1) authentication protocol refused (client option 'secure_auth' enabled)'',
   ''Row retrieval was canceled by mysql_stmt_close() call'',
   ''Attempt to read column without prior row fetch'',
   ''Prepared statement contains no metadata'',
   ''Attempt to read a row while there is no result set associated with the statement'',
   ''This feature is not implemented yet'',
   ''Lost connection to MySQL server at '%s', system error: %d'',
   ''Statement closed indirectly because of a preceeding %s() call'',
   ''The number of columns in the result set differs from the number of bound buffers. You must reset the statement, rebind the result set columns, and execute the statement again'',
   '''']"

definition ER :: "nat \<Rightarrow> byte list" where
  "ER e = map of_char (client_errors ! (e - 2000))"

definition set_mysql_error :: "'n link \<Rightarrow> 'n MYSQL \<Rightarrow> nat \<Rightarrow> 'n MYSQL" where
  "set_mysql_error lk m e =
     m\<lparr>my_net := lk_set_errno lk (my_net m) e, my_error := ER e, my_sqlstate := unknown_sqlstate\<rparr>"

definition net_clear_error :: "'n link \<Rightarrow> 'n MYSQL \<Rightarrow> 'n MYSQL" where
  "net_clear_error lk m = m\<lparr>my_net := lk_set_errno lk (my_net m) 0, my_error := [], my_sqlstate := not_error_sqlstate\<rparr>"

definition free_old_query :: "'n MYSQL \<Rightarrow> 'n MYSQL" where
  "free_old_query m = m\<lparr>my_fields := None, my_field_count := 0, my_warning_count := 0, my_info := None\<rparr>"

definition end_server :: "'n MYSQL \<Rightarrow> 'n MYSQL" where
  "end_server m = free_old_query (m\<lparr>my_open := False\<rparr>)"

text \<open>\<^verbatim>\<open>strmake\<close>: up to \<open>len\<close> bytes, or to the first NUL.\<close>

definition strmake :: "byte list \<Rightarrow> nat \<Rightarrow> byte list option" where
  "strmake src len =
     (let s = takeWhile (\<lambda>b. b \<noteq> 0) (take len src) in if length s < len \<and> length src \<le> length s then None else Some s)"

text \<open>An error packet of \<open>len\<close> bytes in \<open>buf\<close>.\<close>

definition error_packet :: "'n link \<Rightarrow> 'n MYSQL \<Rightarrow> byte list \<Rightarrow> nat \<Rightarrow> 'n MYSQL option" where
  "error_packet lk m buf len = do {
     m \<leftarrow> (if 3 < len then do {
            e \<leftarrow> uint2korr (drop 1 buf);
            c \<leftarrow> rd buf 3;
            (st, pos) \<leftarrow> (if my_protocol_41 m \<and> c = 35 then do { st \<leftarrow> strmake (drop 4 buf) 5; Some (st, 9) }
                         else Some (unknown_sqlstate, 3));
            txt \<leftarrow> strmake (drop pos buf) (min (len - 2) 511);
            Some (m\<lparr>my_net := lk_set_errno lk (my_net m) (unat e), my_sqlstate := st, my_error := txt\<rparr>) }
          else Some (set_mysql_error lk m CR_UNKNOWN_ERROR));
     Some (m\<lparr>my_server_status := my_server_status m AND NOT SERVER_MORE_RESULTS_EXISTS\<rparr>) }"

text \<open>The length of the packet, \<^const>\<open>None\<close> for \<^verbatim>\<open>packet_error\<close>.\<close>

definition cli_safe_read :: "'n link \<Rightarrow> 'n MYSQL \<Rightarrow> ('n MYSQL \<times> nat option) option" where
  "cli_safe_read lk m = do {
     (net, len) \<leftarrow> (if my_open m then lk_read lk (my_net m) else Some (my_net m, Some 0));
     let m = m\<lparr>my_net := net\<rparr>;
     if len = None \<or> len = Some 0 then
       Some (set_mysql_error lk (end_server m)
               (if lk_errno lk net = ER_NET_PACKET_TOO_LARGE then CR_NET_PACKET_TOO_LARGE else CR_SERVER_LOST), None)
     else do {
       b \<leftarrow> rd (lk_buf lk net) 0;
       if b = 255 then do { m \<leftarrow> error_packet lk m (lk_buf lk net) (the len); Some (m, None) }
       else Some (m, len) } }"

text \<open>The flag is true on failure; \<open>skip_check\<close>: the reply is not read.\<close>

definition cli_advanced_command ::
  "'n link \<Rightarrow> 'n MYSQL \<Rightarrow> byte \<Rightarrow> byte list \<Rightarrow> byte list \<Rightarrow> bool \<Rightarrow> ('n MYSQL \<times> bool) option" where
  "cli_advanced_command lk m command header arg skip_check =
     (if \<not> my_open m then
        Some (set_mysql_error lk (m\<lparr>my_server_status := my_server_status m AND NOT SERVER_STATUS_IN_TRANS\<rparr>)
                CR_SERVER_GONE_ERROR, True)
      else if my_status m \<noteq> MYSQL_STATUS_READY \<or> more_results m then
        Some (set_mysql_error lk m CR_COMMANDS_OUT_OF_SYNC, True)
      else do {
        let m = (net_clear_error lk m)\<lparr>my_info := None, my_affected_rows := NOT 0\<rparr>;
        (net, failed) \<leftarrow> lk_command lk (my_net m) command header arg;
        let m = m\<lparr>my_net := net\<rparr>;
        if failed then
          (if lk_errno lk net = ER_NET_PACKET_TOO_LARGE then Some (set_mysql_error lk m CR_NET_PACKET_TOO_LARGE, True)
           else Some (set_mysql_error lk ((end_server m)\<lparr>my_server_status := my_server_status m AND NOT SERVER_STATUS_IN_TRANS\<rparr>)
                        CR_SERVER_GONE_ERROR, True))
        else if skip_check then Some (m, False)
        else do { (m, len) \<leftarrow> cli_safe_read lk m; Some (m, len = None) } })"

section \<open>Rows and fields\<close>

text \<open>The status bytes of an end-of-data packet.\<close>

definition eof_status :: "'n link \<Rightarrow> 'n MYSQL \<Rightarrow> 'n MYSQL option" where
  "eof_status lk m = do {
     w \<leftarrow> uint2korr (drop 1 (lk_buf lk (my_net m)));
     s \<leftarrow> uint2korr (drop 3 (lk_buf lk (my_net m)));
     Some (m\<lparr>my_warning_count := unat w, my_server_status := ucast s\<rparr>) }"

partial_function (option) rows_loop ::
  "'n link \<Rightarrow> byte alloc \<Rightarrow> 'n MYSQL \<Rightarrow> nat \<Rightarrow> nat list option \<Rightarrow> nat \<Rightarrow> ROW list \<Rightarrow>
     ('n MYSQL \<times> nat list option \<times> ROW list option) option" where
  "rows_loop lk alloc m nfields ml pkt_len rows = do {
     c \<leftarrow> rd (lk_buf lk (my_net m)) 0;
     if c \<noteq> 254 \<or> 8 \<le> pkt_len then
       (case alloc pkt_len of
          None \<Rightarrow> Some (set_mysql_error lk m CR_OUT_OF_MEMORY, ml, None)
        | Some area \<Rightarrow> do {
            (r, ml) \<leftarrow> no_fault (store_row (lk_buf lk (my_net m)) pkt_len nfields ml area);
            case r of
              Inl _ \<Rightarrow> Some (set_mysql_error lk m CR_MALFORMED_PACKET, ml, None)
            | Inr row \<Rightarrow> do {
                (m, len) \<leftarrow> cli_safe_read lk m;
                case len of
                  None \<Rightarrow> Some (m, ml, None)
                | Some n \<Rightarrow> rows_loop lk alloc m nfields ml n (rows @ [row]) } })
     else do {
       m \<leftarrow> (if 1 < pkt_len then eof_status lk m else Some m);
       Some (m, ml, Some rows) } }"

definition sizeof_MYSQL_DATA :: nat where "sizeof_MYSQL_DATA = 96"

definition cli_read_rows ::
  "'n link \<Rightarrow> byte alloc \<Rightarrow> 'n MYSQL \<Rightarrow> nat list option \<Rightarrow> nat \<Rightarrow> ('n MYSQL \<times> nat list option \<times> ROW list option) option" where
  "cli_read_rows lk alloc m ml nfields = do {
     (m, len) \<leftarrow> cli_safe_read lk m;
     case len of
       None \<Rightarrow> Some (m, ml, None)
     | Some n \<Rightarrow>
         if alloc sizeof_MYSQL_DATA = None then Some (set_mysql_error lk m CR_OUT_OF_MEMORY, ml, None)
         else rows_loop lk alloc m nfields ml n [] }"

definition INTERNAL_NUM_FIELD :: "nat \<Rightarrow> nat \<Rightarrow> bool" where
  "INTERNAL_NUM_FIELD typ len \<longleftrightarrow> typ \<le> 9 \<and> (typ \<noteq> 7 \<or> len = 14 \<or> len = 8) \<or> typ = 13"

definition NUM_FLAG :: u32 where "NUM_FLAG = 32768"

text \<open>\<^verbatim>\<open>strmake_root\<close> of a column; for a null column the length is 0.\<close>

definition col_bytes :: "ROW \<Rightarrow> nat \<Rightarrow> nat \<Rightarrow> byte list option" where
  "col_bytes row i len = do {
     c \<leftarrow> rd (cols row) i;
     case c of
       None \<Rightarrow> Some []
     | Some p \<Rightarrow> if p + len \<le> length (row_mem row) then Some (take len (drop p (row_mem row))) else None }"

definition unpack_field :: "bool \<Rightarrow> ROW \<Rightarrow> MYSQL_FIELD option" where
  "unpack_field default_value row = do {
     let lengths = cli_fetch_lengths (replicate 9 0) row;
     catalog \<leftarrow> col_bytes row 0 (lengths ! 0);
     db \<leftarrow> col_bytes row 1 (lengths ! 1);
     table \<leftarrow> col_bytes row 2 (lengths ! 2);
     org_table \<leftarrow> col_bytes row 3 (lengths ! 3);
     name \<leftarrow> col_bytes row 4 (lengths ! 4);
     org_name \<leftarrow> col_bytes row 5 (lengths ! 5);
     c \<leftarrow> rd (cols row) 6;
     p \<leftarrow> c;
     let pos = drop p (row_mem row);
     charsetnr \<leftarrow> uint2korr pos;
     len \<leftarrow> uint4korr (drop 2 pos);
     typ \<leftarrow> rd pos 6;
     flags \<leftarrow> uint2korr (drop 7 pos);
     decimals \<leftarrow> rd pos 9;
     def \<leftarrow> (if default_value \<and> rd (cols row) 7 \<noteq> Some None
            then map_option Some (col_bytes row 7 (lengths ! 7)) else Some None);
     Some \<lparr>f_name = name, f_org_name = org_name, f_table = table, f_org_table = org_table, f_db = db,
           f_catalog = catalog, f_def = def, f_length = unat len, f_max_length = 0,
           f_flags = (if INTERNAL_NUM_FIELD (unat typ) (unat len) then ucast flags OR NUM_FLAG else ucast flags),
           f_decimals = unat decimals, f_charsetnr = unat charsetnr, f_type = unat typ\<rparr> }"

definition blank_field :: MYSQL_FIELD where
  "blank_field = \<lparr>f_name = [], f_org_name = [], f_table = [], f_org_table = [], f_db = [], f_catalog = [],
     f_def = None, f_length = 0, f_max_length = 0, f_flags = 0, f_decimals = 0, f_charsetnr = 0, f_type = 0\<rparr>"

text \<open>The format before 4.1: names are copied up to their NUL, and no column but the default may be null.\<close>

definition col_ptr :: "ROW \<Rightarrow> nat \<Rightarrow> byte list option" where
  "col_ptr row i = do { c \<leftarrow> rd (cols row) i; p \<leftarrow> c; Some (drop p (row_mem row)) }"

definition strdup_root :: "byte list \<Rightarrow> byte list option" where
  "strdup_root p = (if 0 \<in> set p then Some (takeWhile (\<lambda>b. b \<noteq> 0) p) else None)"

definition unpack_old_field :: "bool \<Rightarrow> bool \<Rightarrow> ROW \<Rightarrow> MYSQL_FIELD option" where
  "unpack_old_field long_flag default_value row = do {
     table \<leftarrow> col_ptr row 0 \<bind> strdup_root;
     name \<leftarrow> col_ptr row 1 \<bind> strdup_root;
     len \<leftarrow> col_ptr row 2 \<bind> uint3korr;
     typ \<leftarrow> col_ptr row 3 \<bind> (\<lambda>p. rd p 0);
     pos \<leftarrow> col_ptr row 4;
     (flags, decimals) \<leftarrow>
       (if long_flag then do { f \<leftarrow> uint2korr pos; d \<leftarrow> rd pos 2; Some (ucast f, d) }
        else do { f \<leftarrow> rd pos 0; d \<leftarrow> rd pos 1; Some (ucast f, d) });
     def \<leftarrow> (if default_value \<and> rd (cols row) 5 \<noteq> Some None
            then map_option Some (col_ptr row 5 \<bind> strdup_root) else Some None);
     Some \<lparr>f_name = name, f_org_name = [], f_table = table, f_org_table = table, f_db = [], f_catalog = [],
           f_def = def, f_length = unat len, f_max_length = 0,
           f_flags = (if INTERNAL_NUM_FIELD (unat typ) (unat len) then flags OR NUM_FLAG else flags),
           f_decimals = unat decimals, f_charsetnr = 0, f_type = unat typ\<rparr> }"

text \<open>The array for \<open>nfields\<close> fields is cleared; one field for each row is stored in it, without a check.\<close>

fun unpack_loop :: "(ROW \<Rightarrow> MYSQL_FIELD option) \<Rightarrow> ROW list \<Rightarrow> nat \<Rightarrow> MYSQL_FIELD list \<Rightarrow> MYSQL_FIELD list option" where
  "unpack_loop unpack [] i result = Some result"
| "unpack_loop unpack (row # rows) i result = do {
     f \<leftarrow> unpack row;
     if i < length result then unpack_loop unpack rows (i + 1) (result[i := f]) else None }"

definition unpack_fields :: "ROW list \<Rightarrow> nat \<Rightarrow> bool \<Rightarrow> bool \<Rightarrow> bool \<Rightarrow> MYSQL_FIELD list option" where
  "unpack_fields rows nfields default_value protocol_41 long_flag =
     unpack_loop (if protocol_41 then unpack_field default_value else unpack_old_field long_flag default_value)
       rows 0 (replicate nfields blank_field)"

section \<open>A local file\<close>

text \<open>
  \<^verbatim>\<open>handle_local_infile\<close> of \<^verbatim>\<open>libmysql.c\<close>: the server has asked for a file, which is sent in packets, with an
  empty packet at the end.  The flag of the loop is whether the last read failed, \<^const>\<open>None\<close> if the connection
  did; that of the whole is true on failure.
\<close>

partial_function (option) infile_loop ::
  "'n link \<Rightarrow> 'n MYSQL \<Rightarrow> infile_state \<Rightarrow> nat \<Rightarrow> ('n MYSQL \<times> infile_state \<times> bool option) option" where
  "infile_loop lk m li packet_length =
     (let (li, got) = li_read (lk_infile lk) li packet_length
      in case got of
           None \<Rightarrow> Some (m, li, Some True)
         | Some bs \<Rightarrow>
             if bs = [] then Some (m, li, Some False)
             else do {
               (net, failed) \<leftarrow> lk_write lk (my_net m) bs;
               let m = m\<lparr>my_net := net\<rparr>;
               if failed then Some (set_mysql_error lk m CR_SERVER_LOST, li, None)
               else infile_loop lk m li packet_length })"

definition infile_error :: "'n link \<Rightarrow> 'n MYSQL \<Rightarrow> infile_state \<Rightarrow> 'n MYSQL" where
  "infile_error lk m li =
     (let (e, txt) = li_error (lk_infile lk) li in m\<lparr>my_net := lk_set_errno lk (my_net m) e, my_error := txt\<rparr>)"

definition infile_packet_length :: "nat \<Rightarrow> nat" where
  "infile_packet_length n = wrap32 (unat ((of_nat n - 16 + 4095) div 4096 * 4096 :: u64))"

definition handle_local_infile :: "'n link \<Rightarrow> byte alloc \<Rightarrow> 'n MYSQL \<Rightarrow> byte list \<Rightarrow> ('n MYSQL \<times> bool) option" where
  "handle_local_infile lk alloc m net_filename =
     (let packet_length = infile_packet_length (lk_max_packet lk (my_net m))
      in if alloc packet_length = None then Some (set_mysql_error lk m CR_OUT_OF_MEMORY, True)
         else let (li, failed) = li_init (lk_infile lk) net_filename
         in if failed then do {
              (net, _) \<leftarrow> lk_write lk (my_net m) [];
              let (net, _) = lk_flush lk net;
              Some (infile_error lk (m\<lparr>my_net := net, my_sqlstate := unknown_sqlstate\<rparr>) li, True) }
            else do {
              (m, li, ended) \<leftarrow> infile_loop lk m li packet_length;
              case ended of
                None \<Rightarrow> Some (m, True)
              | Some read_failed \<Rightarrow> do {
                  (net, failed) \<leftarrow> lk_write lk (my_net m) [];
                  let (net, failed) = (if failed then (net, True) else lk_flush lk net);
                  let m = m\<lparr>my_net := net\<rparr>;
                  if failed then Some (set_mysql_error lk m CR_SERVER_LOST, True)
                  else if read_failed then Some (infile_error lk m li, True)
                  else Some (m, False) } })"

section \<open>Queries\<close>

text \<open>The information of a reply without rows, behind the field count.\<close>

definition ok_packet :: "'n MYSQL \<Rightarrow> byte list \<Rightarrow> byte list \<Rightarrow> nat \<Rightarrow> 'n MYSQL option" where
  "ok_packet m buf pos len = do {
     (affected, pos) \<leftarrow> net_field_length_ll pos;
     (ins, pos) \<leftarrow> net_field_length_ll pos;
     let m = m\<lparr>my_affected_rows := affected, my_insert_id := ins\<rparr>;
     (m, pos) \<leftarrow>
       (if my_protocol_41 m then do {
          s \<leftarrow> uint2korr pos; w \<leftarrow> uint2korr (drop 2 pos);
          Some (m\<lparr>my_server_status := ucast s, my_warning_count := unat w\<rparr>, drop 4 pos) }
        else if my_transactions m then do {
          s \<leftarrow> uint2korr pos;
          Some (m\<lparr>my_server_status := ucast s, my_warning_count := 0\<rparr>, drop 2 pos) }
        else Some (m, pos));
     if length buf - length pos < len then do {
       (n, pos) \<leftarrow> net_field_length pos;
       Some (if n \<noteq> 0 then m\<lparr>my_info := Some pos\<rparr> else m) }
     else Some m }"

text \<open>From the label \<^verbatim>\<open>get_info\<close> on; the flag is true on failure.\<close>

partial_function (option) get_info ::
  "'n link \<Rightarrow> byte alloc \<Rightarrow> 'n MYSQL \<Rightarrow> nat \<Rightarrow> ('n MYSQL \<times> bool) option" where
  "get_info lk alloc m len = do {
     let buf = lk_buf lk (my_net m);
     (field_count, pos) \<leftarrow> net_field_length buf;
     if field_count = 0 then do { m \<leftarrow> ok_packet m buf pos len; Some (m, False) }
     else if field_count = NULL_LENGTH then
       (if \<not> my_local_files m then Some (set_mysql_error lk m CR_MALFORMED_PACKET, True)
        else do {
          (m, error) \<leftarrow> handle_local_infile lk alloc m pos;
          (m, len) \<leftarrow> cli_safe_read lk m;
          case len of
            None \<Rightarrow> Some (m, True)
          | Some n \<Rightarrow> if error then Some (m, True) else get_info lk alloc m n })
     else do {
       let m = (if my_server_status m AND SERVER_STATUS_AUTOCOMMIT = 0
                then m\<lparr>my_server_status := my_server_status m OR SERVER_STATUS_IN_TRANS\<rparr> else m);
       (m, ml, rows) \<leftarrow> cli_read_rows lk alloc m None (if my_protocol_41 m then 7 else 5);
       case rows of
         None \<Rightarrow> Some (m, True)
       | Some rs \<Rightarrow> do {
           let n = unat (ucast field_count :: u32);
           fs \<leftarrow> unpack_fields rs n False (my_protocol_41 m) (my_long_flag m);
           Some (m\<lparr>my_fields := Some fs, my_status := MYSQL_STATUS_GET_RESULT, my_field_count := n\<rparr>, False) } } }"

definition cli_read_query_result :: "'n link \<Rightarrow> byte alloc \<Rightarrow> 'n MYSQL \<Rightarrow> ('n MYSQL \<times> bool) option" where
  "cli_read_query_result lk alloc m = do {
     (m, len) \<leftarrow> cli_safe_read lk m;
     case len of
       None \<Rightarrow> Some (m, True)
     | Some n \<Rightarrow> get_info lk alloc (free_old_query m) n }"

definition COM_QUERY :: byte where "COM_QUERY = 3"

definition mysql_send_query :: "'n link \<Rightarrow> 'n MYSQL \<Rightarrow> byte list \<Rightarrow> ('n MYSQL \<times> bool) option" where
  "mysql_send_query lk m query = cli_advanced_command lk m COM_QUERY [] query True"

definition mysql_real_query :: "'n link \<Rightarrow> byte alloc \<Rightarrow> 'n MYSQL \<Rightarrow> byte list \<Rightarrow> ('n MYSQL \<times> bool) option" where
  "mysql_real_query lk alloc m query = do {
     (m, failed) \<leftarrow> mysql_send_query lk m query;
     if failed then Some (m, True) else cli_read_query_result lk alloc m }"

text \<open>The next result of a command with several; -1 when there is none.\<close>

definition mysql_next_result :: "'n link \<Rightarrow> byte alloc \<Rightarrow> 'n MYSQL \<Rightarrow> ('n MYSQL \<times> int) option" where
  "mysql_next_result lk alloc m =
     (if my_status m \<noteq> MYSQL_STATUS_READY then Some (set_mysql_error lk m CR_COMMANDS_OUT_OF_SYNC, 1)
      else do {
        let m = (net_clear_error lk m)\<lparr>my_affected_rows := NOT 0\<rparr>;
        if more_results m then do { (m, failed) \<leftarrow> cli_read_query_result lk alloc m; Some (m, if failed then 1 else 0) }
        else Some (m, -1) })"

section \<open>Results\<close>

definition set_max_lengths :: "MYSQL_FIELD list \<Rightarrow> nat list option \<Rightarrow> MYSQL_FIELD list" where
  "set_max_lengths fs ml = (case ml of None \<Rightarrow> fs | Some l \<Rightarrow> map2 (\<lambda>f n. f\<lparr>f_max_length := n\<rparr>) fs l)"

text \<open>\<open>new_id\<close> is the address of the result.\<close>

definition mysql_store_result ::
  "'n link \<Rightarrow> byte alloc \<Rightarrow> nat \<Rightarrow> 'n MYSQL \<Rightarrow> ('n MYSQL \<times> RES option) option" where
  "mysql_store_result lk alloc new_id m =
     (case my_fields m of
        None \<Rightarrow> Some (m, None)
      | Some fs \<Rightarrow>
          if my_status m \<noteq> MYSQL_STATUS_GET_RESULT then Some (set_mysql_error lk m CR_COMMANDS_OUT_OF_SYNC, None)
          else do {
            let m = m\<lparr>my_status := MYSQL_STATUS_READY\<rparr>;
            if alloc (8 * my_field_count m) = None then Some (set_mysql_error lk m CR_OUT_OF_MEMORY, None)
            else do {
              (m, ml, rows) \<leftarrow> cli_read_rows lk alloc m (Some (map f_max_length fs)) (my_field_count m);
              case rows of
                None \<Rightarrow> Some (m\<lparr>my_fields := map_option (\<lambda>fs. set_max_lengths fs ml) (my_fields m)\<rparr>, None)
              | Some rs \<Rightarrow>
                  Some (m\<lparr>my_affected_rows := of_nat (length rs), my_fields := None, my_fetch_owner := None\<rparr>,
                    Some \<lparr>rs_rows = Some rs, rs_cursor = rs, rs_current = None, rs_lengths = replicate (my_field_count m) 0,
                      rs_fields = set_max_lengths fs ml, rs_field_count = my_field_count m, rs_row_count = length rs,
                      rs_eof = True, rs_handle = False, rs_id = new_id\<rparr>) } })"

definition cli_use_result :: "'n link \<Rightarrow> byte alloc \<Rightarrow> nat \<Rightarrow> 'n MYSQL \<Rightarrow> ('n MYSQL \<times> RES option) option" where
  "cli_use_result lk alloc new_id m =
     (case my_fields m of
        None \<Rightarrow> Some (m, None)
      | Some fs \<Rightarrow>
          if my_status m \<noteq> MYSQL_STATUS_GET_RESULT then Some (set_mysql_error lk m CR_COMMANDS_OUT_OF_SYNC, None)
          else if alloc (8 * my_field_count m) = None then Some (m, None)
          else Some (m\<lparr>my_fields := None, my_status := MYSQL_STATUS_USE_RESULT, my_fetch_owner := Some new_id\<rparr>,
                 Some \<lparr>rs_rows = None, rs_cursor = [], rs_current = None, rs_lengths = replicate (my_field_count m) 0,
                   rs_fields = fs, rs_field_count = my_field_count m, rs_row_count = 0, rs_eof = False,
                   rs_handle = True, rs_id = new_id\<rparr>))"

datatype fetched = Row ROW "nat list" | End_of_data | Fetch_error

text \<open>\<^verbatim>\<open>read_one_row\<close>: the row lies in the packet buffer.\<close>

definition read_one_row :: "'n link \<Rightarrow> 'n MYSQL \<Rightarrow> nat \<Rightarrow> ('n MYSQL \<times> fetched) option" where
  "read_one_row lk m nfields = do {
     (m, len) \<leftarrow> cli_safe_read lk m;
     case len of
       None \<Rightarrow> Some (m, Fetch_error)
     | Some pkt_len \<Rightarrow> do {
         let buf = lk_buf lk (my_net m);
         c \<leftarrow> rd buf 0;
         if pkt_len \<le> 8 \<and> c = 254 then do {
           m \<leftarrow> (if 1 < pkt_len then eof_status lk m else Some m);
           Some (m, End_of_data) }
         else do {
           r \<leftarrow> one_row buf pkt_len nfields;
           case r of
             Inl _ \<Rightarrow> Some (set_mysql_error lk m CR_UNKNOWN_ERROR, Fetch_error)
           | Inr (cs, ls, e, buf) \<Rightarrow>
               Some (m\<lparr>my_net := lk_put lk (my_net m) buf\<rparr>, Row \<lparr>cols = cs, row_end = e, row_mem = buf\<rparr> ls) } } }"

text \<open>What \<^verbatim>\<open>mysql_fetch_row\<close> does when the rows of an unbuffered result end.\<close>

definition end_fetch :: "'n MYSQL \<Rightarrow> RES \<Rightarrow> 'n MYSQL \<times> RES" where
  "end_fetch m res =
     (m\<lparr>my_status := MYSQL_STATUS_READY,
        my_fetch_owner := (if my_fetch_owner m = Some (rs_id res) then None else my_fetch_owner m)\<rparr>,
      res\<lparr>rs_eof := True, rs_handle := False\<rparr>)"

definition mysql_fetch_row :: "'n link \<Rightarrow> 'n MYSQL \<Rightarrow> RES \<Rightarrow> ('n MYSQL \<times> RES \<times> ROW option) option" where
  "mysql_fetch_row lk m res =
     (case rs_rows res of
        None \<Rightarrow>
          if rs_eof res then Some (m, res, None)
          else if my_status m \<noteq> MYSQL_STATUS_USE_RESULT then
            (case end_fetch (set_mysql_error lk m
               (if rs_id res \<in> my_cancelled m then CR_FETCH_CANCELED else CR_COMMANDS_OUT_OF_SYNC)) res of
               (m, res) \<Rightarrow> Some (m, res, None))
          else do {
            (m, f) \<leftarrow> read_one_row lk m (rs_field_count res);
            case f of
              Row row ls \<Rightarrow>
                Some (m, res\<lparr>rs_row_count := rs_row_count res + 1, rs_current := Some row, rs_lengths := ls\<rparr>, Some row)
            | _ \<Rightarrow> (case end_fetch m res of (m, res) \<Rightarrow> Some (m, res, None)) }
      | Some _ \<Rightarrow>
          (case rs_cursor res of
             [] \<Rightarrow> Some (m, res\<lparr>rs_current := None\<rparr>, None)
           | row # rows \<Rightarrow> Some (m, res\<lparr>rs_cursor := rows, rs_current := Some row\<rparr>, Some row)))"

definition mysql_fetch_lengths :: "RES \<Rightarrow> RES \<times> nat list option" where
  "mysql_fetch_lengths res =
     (case rs_current res of
        None \<Rightarrow> (res, None)
      | Some row \<Rightarrow>
          let ls = (if rs_rows res \<noteq> None then cli_fetch_lengths (rs_lengths res) row else rs_lengths res)
          in (res\<lparr>rs_lengths := ls\<rparr>, Some ls))"

definition mysql_data_seek :: "RES \<Rightarrow> nat \<Rightarrow> RES" where
  "mysql_data_seek res row =
     res\<lparr>rs_current := None, rs_cursor := (case rs_rows res of None \<Rightarrow> [] | Some rows \<Rightarrow> drop row rows)\<rparr>"

partial_function (option) flush_loop :: "'n link \<Rightarrow> 'n MYSQL \<Rightarrow> 'n MYSQL option" where
  "flush_loop lk m = do {
     (m, len) \<leftarrow> cli_safe_read lk m;
     case len of
       None \<Rightarrow> Some m
     | Some pkt_len \<Rightarrow> do {
         c \<leftarrow> rd (lk_buf lk (my_net m)) 0;
         if pkt_len \<le> 8 \<and> c = 254 then (if my_protocol_41 m then eof_status lk m else Some m)
         else flush_loop lk m } }"

definition cli_flush_use_result :: "'n link \<Rightarrow> 'n MYSQL \<Rightarrow> 'n MYSQL option" where
  "cli_flush_use_result lk m = flush_loop lk m"

text \<open>The release of the memory of the result is not modelled.\<close>

definition mysql_free_result :: "'n link \<Rightarrow> 'n MYSQL \<Rightarrow> RES \<Rightarrow> 'n MYSQL option" where
  "mysql_free_result lk m res =
     (if \<not> rs_handle res then Some m
      else do {
        let m = (if my_fetch_owner m = Some (rs_id res) then m\<lparr>my_fetch_owner := None\<rparr> else m);
        if my_status m = MYSQL_STATUS_USE_RESULT then do {
          m \<leftarrow> cli_flush_use_result lk m;
          let m = m\<lparr>my_status := MYSQL_STATUS_READY\<rparr>;
          Some (case my_fetch_owner m of None \<Rightarrow> m | Some i \<Rightarrow> m\<lparr>my_cancelled := insert i (my_cancelled m)\<rparr>) }
        else Some m })"

end
