(* ===== verification/ClientLink.thy ===== *)
theory ClientLink
  imports Client
begin

text \<open>
  What the client promises over any packet layer that delivers the packets of the server in order: the replies
  to commands, buffered and unbuffered results.  The packet layer is the locale \<open>packet_link\<close>.
\<close>

section \<open>Packets of the server\<close>

definition small_cell :: "byte list option \<Rightarrow> bool" where
  "small_cell c \<longleftrightarrow> (case c of None \<Rightarrow> True | Some s \<Rightarrow> length s < 16777216)"

definition row_ok :: "nat \<Rightarrow> byte list option list \<Rightarrow> bool" where
  "row_ok k r \<longleftrightarrow> length r = k \<and> list_all small_cell r \<and> length (encode_row r) \<le> 4294967296"

definition eof_packet :: "u16 \<Rightarrow> u16 \<Rightarrow> byte list" where
  "eof_packet w s = 254 # int2store (ucast w) @ int2store (ucast s)"

text \<open>A packet that is neither an error nor empty.\<close>

definition plain_packet :: "byte list \<Rightarrow> bool" where
  "plain_packet p \<longleftrightarrow> p \<noteq> [] \<and> hd p \<noteq> 255"

lemma hd_net_store_length: "unat x < 16777216 \<Longrightarrow> hd (net_store_length x) < 254"
  by (auto simp: net_store_length_def trunc_simps)

lemma hd_encode_cell: "small_cell c \<Longrightarrow> hd (encode_cell c) < 254"
proof (cases c)
  case (Some s)
  assume "small_cell c"
  then have "unat (of_nat (length s) :: u64) < 16777216" using Some by (simp add: small_cell_def unat_u64_of_nat)
  moreover have "net_store_length (of_nat (length s)) \<noteq> []"
    using length_net_store_length [of "of_nat (length s)"] by (auto split: if_splits)
  ultimately show ?thesis using Some hd_net_store_length by (simp add: encode_cell_def)
qed (simp add: word_less_nat_alt)

lemma row_ok_plain: "row_ok k r \<Longrightarrow> 0 < k \<Longrightarrow> encode_row r \<noteq> [] \<and> hd (encode_row r) < 254"
  using hd_encode_cell by (cases r) (auto simp: row_ok_def encode_row_Cons)

lemma plain_row: "row_ok k r \<Longrightarrow> 0 < k \<Longrightarrow> plain_packet (encode_row r)"
  using row_ok_plain [of k r] by (auto simp: plain_packet_def)

lemma plain_eof: "plain_packet (eof_packet w s)" "length (eof_packet w s) = 5"
  by (simp_all add: plain_packet_def eof_packet_def)

lemma row_ok_cells: "row_ok k r \<Longrightarrow> list_all cell_ok r"
  unfolding row_ok_def list_all_iff small_cell_def cell_ok_def by (fastforce split: option.splits)

lemma ucast_u16: "ucast (ucast w :: u32) = (w :: u16)"
  by (rule bit_word_eqI) (simp add: bit_simps)

lemma length_maxes [simp]: "length (maxes l i r) = length l"
  by (induction l i r rule: maxes.induct) simp_all

lemma holds_column:
  assumes "holds row r" "i < length r" "r ! i = Some v"
  obtains p rest where "rd (cols row) i = Some (Some p)" "drop p (row_mem row) = v @ rest"
    "p + length v \<le> length (row_mem row)"
proof -
  have len: "length (cols row) = length r" using assms(1) by (simp add: holds_def)
  have "row_values (row_mem row) (cols row) (cell_lens r) ! i = Some v" using assms by (simp add: holds_def)
  then have col: "map_option (\<lambda>p. take (cell_lens r ! i) (drop p (row_mem row))) (cols row ! i) = Some v"
    using assms(2) len by (simp add: row_values_def)
  then obtain p where p: "cols row ! i = Some p" "take (length v) (drop p (row_mem row)) = v"
    using assms(2,3) by (auto simp: cell_lens_def)
  have "p + length v < length (row_mem row)"
    using assms p(1) len by (auto simp: holds_def terminated_def list_all2_conv_all_nth cell_lens_def)
  moreover have "drop p (row_mem row) = v @ drop (length v) (drop p (row_mem row))"
    using p(2) by (metis append_take_drop_id)
  ultimately show ?thesis using that [of p] p(1) len assms(2) by auto
qed

lemma holds_lengths:
  "holds row r \<Longrightarrow> length r \<le> length ls \<Longrightarrow> i < length r \<Longrightarrow> cli_fetch_lengths ls row ! i = cell_lens r ! i"
  by (metis holds_def nth_take)

lemma holds_col_bytes:
  assumes "holds row r" "length r \<le> length ls" "i < length r" "r ! i = Some v"
  shows "col_bytes row i (cli_fetch_lengths ls row ! i) = Some v"
proof -
  obtain p rest where p: "rd (cols row) i = Some (Some p)" "drop p (row_mem row) = v @ rest"
    "p + length v \<le> length (row_mem row)"
    by (rule holds_column [OF assms(1,3,4)])
  have "cell_lens r ! i = length v" using assms(3,4) by (simp add: cell_lens_def)
  then show ?thesis using p holds_lengths [OF assms(1-3)] by (simp add: col_bytes_def)
qed

section \<open>Field descriptions\<close>

text \<open>The columns in which the server describes a field.\<close>

definition field_fixed :: "u16 \<Rightarrow> u32 \<Rightarrow> byte \<Rightarrow> u16 \<Rightarrow> byte \<Rightarrow> byte list" where
  "field_fixed charset len ftype flags decimals =
     int2store (ucast charset) @ int4store len @ [ftype] @ int2store (ucast flags) @ [decimals, 0, 0]"

lemma field_fixed_read:
  "uint2korr (field_fixed charset len ftype flags decimals @ rest) = Some charset"
  "uint4korr (drop 2 (field_fixed charset len ftype flags decimals @ rest)) = Some len"
  "rd (field_fixed charset len ftype flags decimals @ rest) 6 = Some ftype"
  "uint2korr (drop 7 (field_fixed charset len ftype flags decimals @ rest)) = Some flags"
  "rd (field_fixed charset len ftype flags decimals @ rest) 9 = Some decimals"
proof -
  have d: "drop 2 (int2store a @ xs) = xs" "drop 7 (int2store a @ int4store b @ ftype # xs) = xs" for a b xs
    by (simp_all add: int2store_def int4store_def)
  show "uint2korr (field_fixed charset len ftype flags decimals @ rest) = Some charset"
    "uint4korr (drop 2 (field_fixed charset len ftype flags decimals @ rest)) = Some len"
    "uint2korr (drop 7 (field_fixed charset len ftype flags decimals @ rest)) = Some flags"
    by (simp_all add: field_fixed_def d uint2korr_int2store uint4korr_int4store ucast_u16)
  show "rd (field_fixed charset len ftype flags decimals @ rest) 6 = Some ftype"
    "rd (field_fixed charset len ftype flags decimals @ rest) 9 = Some decimals"
    by (simp_all add: field_fixed_def int2store_def int4store_def)
qed

text \<open>A field description \<open>r\<close> of seven columns is read as the field \<open>f\<close>.\<close>

definition describes :: "byte list option list \<Rightarrow> MYSQL_FIELD \<Rightarrow> bool" where
  "describes r f \<longleftrightarrow> (\<exists>catalog db table org_table name org_name charset len ftype flags decimals.
     r = map Some [catalog, db, table, org_table, name, org_name, field_fixed charset len ftype flags decimals] \<and>
     f = \<lparr>f_name = name, f_org_name = org_name, f_table = table, f_org_table = org_table, f_db = db,
           f_catalog = catalog, f_def = None, f_length = unat len, f_max_length = 0,
           f_flags = (if INTERNAL_NUM_FIELD (unat ftype) (unat len) then ucast flags OR NUM_FLAG else ucast flags),
           f_decimals = unat decimals, f_charsetnr = unat charset, f_type = unat ftype\<rparr>)"

lemma unpack_field_spec:
  assumes "holds row r" "describes r f"
  shows "unpack_field False row = Some f"
proof -
  obtain catalog db table org_table name org_name charset len ftype flags decimals where
    r: "r = map Some [catalog, db, table, org_table, name, org_name, field_fixed charset len ftype flags decimals]"
    and f: "f = \<lparr>f_name = name, f_org_name = org_name, f_table = table, f_org_table = org_table, f_db = db,
           f_catalog = catalog, f_def = None, f_length = unat len, f_max_length = 0,
           f_flags = (if INTERNAL_NUM_FIELD (unat ftype) (unat len) then ucast flags OR NUM_FLAG else ucast flags),
           f_decimals = unat decimals, f_charsetnr = unat charset, f_type = unat ftype\<rparr>"
    using assms(2) unfolding describes_def by (elim exE conjE) (rule that)
  have col: "col_bytes row i (cli_fetch_lengths (replicate 9 0) row ! i) = r ! i" if "i < 7" for i
    using holds_col_bytes [OF assms(1), of "replicate 9 0" i "the (r ! i)"] that
    by (simp add: r nth_Cons' split: if_splits)
  obtain p rest where p: "rd (cols row) 6 = Some (Some p)"
    "drop p (row_mem row) = field_fixed charset len ftype flags decimals @ rest"
    by (rule holds_column [OF assms(1), of 6 "field_fixed charset len ftype flags decimals"]) (simp_all add: r that)
  define P where "P = drop p (row_mem row)"
  have P: "uint2korr P = Some charset" "uint4korr (drop 2 P) = Some len" "rd P 6 = Some ftype"
    "uint2korr (drop 7 P) = Some flags" "rd P 9 = Some decimals"
    unfolding P_def p(2) by (rule field_fixed_read)+
  show ?thesis
    using col [of 0] col [of 1] col [of 2] col [of 3] col [of 4] col [of 5] p(1) P
    by (simp add: unpack_field_def r f P_def del: drop_drop)
qed

lemma unpack_loop_spec:
  "list_all2 holds rows rs \<Longrightarrow> list_all2 describes rs fs \<Longrightarrow> i + length rows \<le> length result \<Longrightarrow>
     unpack_loop (unpack_field False) rows i result = Some (take i result @ fs @ drop (i + length rows) result)"
proof (induction rows arbitrary: rs fs i result)
  case Nil
  then show ?case by simp
next
  case (Cons row rows)
  obtain r rs' f fs' where rs: "rs = r # rs'" "fs = f # fs'" "holds row r" "describes r f"
    "list_all2 holds rows rs'" "list_all2 describes rs' fs'"
    using Cons.prems(1,2) by (auto simp: list_all2_Cons1)
  have "unpack_loop (unpack_field False) (row # rows) i result = unpack_loop (unpack_field False) rows (i + 1) (result[i := f])"
    using unpack_field_spec [OF rs(3,4)] Cons.prems(3) by simp
  also have "\<dots> = Some (take (i + 1) (result[i := f]) @ fs' @ drop (i + 1 + length rows) (result[i := f]))"
    using Cons.IH [OF rs(5,6)] Cons.prems(3) by simp
  finally show ?case using Cons.prems(3) rs(2) by (simp add: take_Suc_conv_app_nth)
qed

lemma unpack_fields_spec:
  assumes "list_all2 holds rows rs" "list_all2 describes rs fs"
  shows "unpack_fields rows (length fs) False True long_flag = Some fs"
  using unpack_loop_spec [OF assms, of 0 "replicate (length fs) blank_field"] assms
  by (simp add: unpack_fields_def list_all2_lengthD)

section \<open>Replies\<close>

text \<open>An error packet of the protocol 4.1: the code, the mark and the SQL state, and the text.\<close>

definition err_packet :: "u16 \<Rightarrow> byte list \<Rightarrow> byte list \<Rightarrow> byte list" where
  "err_packet e st msg = 255 # int2store (ucast e) @ 35 # st @ msg"

definition is_err :: "byte list \<Rightarrow> bool" where
  "is_err p \<longleftrightarrow> (\<exists>e st msg. p = err_packet e st msg \<and> length st = 5)"

text \<open>The end of the rows of the last result of a command.\<close>

definition is_eof :: "byte list \<Rightarrow> bool" where
  "is_eof p \<longleftrightarrow> (\<exists>w s. p = eof_packet w s \<and> s AND 8 = 0)"

definition ok_reply :: "u64 \<Rightarrow> u64 \<Rightarrow> u16 \<Rightarrow> u16 \<Rightarrow> byte list option \<Rightarrow> byte list" where
  "ok_reply affected ins s w info =
     0 # net_store_length affected @ net_store_length ins @ int2store (ucast s) @ int2store (ucast w) @
     (case info of None \<Rightarrow> [] | Some t \<Rightarrow> encode_cell (Some t))"

definition header_packet :: "nat \<Rightarrow> byte list" where
  "header_packet k = net_store_length (of_nat k)"

text \<open>
  The packets of a result of \<open>k\<close> columns behind the header: the field descriptions with their end, and the
  rows with theirs.
\<close>

definition rows_reply :: "nat \<Rightarrow> byte list list \<Rightarrow> bool" where
  "rows_reply k ps \<longleftrightarrow> (\<exists>rs e. ps = map encode_row rs @ [e] \<and> list_all (row_ok k) rs \<and> (is_eof e \<or> is_err e))"

definition query_reply :: "byte list list \<Rightarrow> bool" where
  "query_reply ps \<longleftrightarrow>
     (\<exists>a i s w info. ps = [ok_reply a i s w info] \<and> s AND 8 = 0 \<and> cell_ok info) \<or> (\<exists>p. ps = [p] \<and> is_err p) \<or>
     (\<exists>k fds fs w s qs. ps = header_packet k # map encode_row fds @ eof_packet w s # qs \<and> 0 < k \<and> k < 16777216 \<and>
        length fds = k \<and> list_all (row_ok 7) fds \<and> list_all2 describes fds fs \<and> s AND 8 = 0 \<and> rows_reply k qs)"

lemma strmake_NUL: "\<exists>s. strmake (a @ 0 # b) len = Some s"
proof -
  let ?s = "takeWhile (\<lambda>b. b \<noteq> 0) (take len (a @ 0 # b))"
  have "length (a @ 0 # b) \<le> length ?s \<Longrightarrow> False"
  proof -
    assume le: "length (a @ 0 # b) \<le> length ?s"
    moreover have "length ?s \<le> length (take len (a @ 0 # b))" by (rule length_takeWhile_le)
    ultimately have "take len (a @ 0 # b) = a @ 0 # b" by simp
    moreover have "length (takeWhile (\<lambda>b. b \<noteq> 0) (a @ 0 # b)) \<le> length a"
      by (induction a) (auto simp: takeWhile_append)
    ultimately show False using le by simp
  qed
  then show ?thesis by (auto simp: strmake_def Let_def)
qed

section \<open>What the calls leave alone\<close>

text \<open>Everything but the packet layer, the error, and what the status bytes of the server say.\<close>

definition touched :: "'n MYSQL \<Rightarrow> 'n MYSQL \<Rightarrow> bool" where
  "touched m m' \<longleftrightarrow> (\<exists>n st msg ss wc. m' = m\<lparr>my_net := n, my_sqlstate := st, my_error := msg, my_server_status := ss,
     my_warning_count := wc\<rparr>)"

lemma touched_fields:
  assumes "touched m m'"
  shows "my_open m' = my_open m" "my_status m' = my_status m" "my_fields m' = my_fields m"
    "my_field_count m' = my_field_count m" "my_protocol_41 m' = my_protocol_41 m"
    "my_fetch_owner m' = my_fetch_owner m" "my_cancelled m' = my_cancelled m"
  using assms by (auto simp: touched_def)

lemma touchedI: "touched m (m\<lparr>my_net := n, my_warning_count := wc, my_server_status := ss\<rparr>)"
  unfolding touched_def
  by (intro exI [of _ n] exI [of _ "my_sqlstate m"] exI [of _ "my_error m"] exI [of _ ss] exI [of _ wc]) simp

lemma touched_net: "touched m (m\<lparr>my_net := n\<rparr>)"
  unfolding touched_def
  by (intro exI [of _ n] exI [of _ "my_sqlstate m"] exI [of _ "my_error m"] exI [of _ "my_server_status m"]
      exI [of _ "my_warning_count m"]) simp

lemma touched_error:
  "touched m (m\<lparr>my_net := n, my_sqlstate := st, my_error := msg, my_server_status := ss\<rparr>)"
  unfolding touched_def
  by (intro exI [of _ n] exI [of _ st] exI [of _ msg] exI [of _ ss] exI [of _ "my_warning_count m"]) simp

lemma touched_trans:
  assumes "touched m m1" "touched m1 m2"
  shows "touched m m2"
proof -
  obtain n st msg ss wc where
    1: "m1 = m\<lparr>my_net := n, my_sqlstate := st, my_error := msg, my_server_status := ss, my_warning_count := wc\<rparr>"
    using assms(1) unfolding touched_def by (elim exE) (rule that)
  obtain n st msg ss wc where
    "m2 = m1\<lparr>my_net := n, my_sqlstate := st, my_error := msg, my_server_status := ss, my_warning_count := wc\<rparr>"
    using assms(2) unfolding touched_def by (elim exE) (rule that)
  then show ?thesis unfolding touched_def 1
    by (intro exI [of _ n] exI [of _ st] exI [of _ msg] exI [of _ ss] exI [of _ wc]) simp
qed

lemma quiet: "s AND 8 = 0 \<Longrightarrow> (ucast (s :: u16) :: u32) AND SERVER_MORE_RESULTS_EXISTS = 0"
proof -
  assume "s AND 8 = 0"
  then have "ucast (s AND 8) = (0 :: u32)" by simp
  then have "ucast s AND ucast (8 :: u16) = (0 :: u32)" by (simp only: unsigned_and_eq)
  then show ?thesis by (simp add: SERVER_MORE_RESULTS_EXISTS_def)
qed

lemma set_error_touched: "touched m (set_mysql_error lk m e)"
  unfolding touched_def set_mysql_error_def
  by (intro exI [of _ "lk_set_errno lk (my_net m) e"] exI [of _ unknown_sqlstate] exI [of _ "ER e"]
      exI [of _ "my_server_status m"] exI [of _ "my_warning_count m"]) simp

section \<open>The packet layer\<close>

text \<open>
  \<open>unread n ps\<close>: the packets \<open>ps\<close> are to come, and will come.  A packet is followed by a NUL and by what the
  buffer held before.
\<close>

locale packet_link =
  fixes lk :: "'n link"
    and unread :: "'n \<Rightarrow> byte list list \<Rightarrow> bool"
  assumes read_next: "unread n (p # ps) \<Longrightarrow>
      \<exists>n' stale. lk_read lk n = Some (n', Some (length p)) \<and> lk_buf lk n' = p @ 0 # stale \<and> unread n' ps"
    and unread_put: "unread n ps \<Longrightarrow> length b = length (lk_buf lk n) \<Longrightarrow> unread (lk_put lk n b) ps"
    and unread_errno: "unread n ps \<Longrightarrow> unread (lk_set_errno lk n e) ps"
    and buf_errno: "lk_buf lk (lk_set_errno lk n e) = lk_buf lk n"
begin

text \<open>The state of the connection when the packet \<open>p\<close> is in the buffer and \<open>ps\<close> are to come.\<close>

definition current :: "'n MYSQL \<Rightarrow> byte list \<Rightarrow> byte list list \<Rightarrow> bool" where
  "current m p ps \<longleftrightarrow> (\<exists>stale. lk_buf lk (my_net m) = p @ 0 # stale) \<and> unread (my_net m) ps"

lemma safe_read:
  assumes "my_open m" "unread (my_net m) (p # ps)" "plain_packet p"
  obtains n where "cli_safe_read lk m = Some (m\<lparr>my_net := n\<rparr>, Some (length p))" "current (m\<lparr>my_net := n\<rparr>) p ps"
proof -
  obtain n stale where n: "lk_read lk (my_net m) = Some (n, Some (length p))" "lk_buf lk n = p @ 0 # stale" "unread n ps"
    using read_next [OF assms(2)] by blast
  then have "cli_safe_read lk m = Some (m\<lparr>my_net := n\<rparr>, Some (length p))"
    using assms(1,3) by (cases p) (simp_all add: cli_safe_read_def plain_packet_def)
  then show ?thesis using that n by (auto simp: current_def)
qed

lemma eof_status_packet:
  assumes "current m (eof_packet w s) ps"
  shows "eof_status lk m = Some (m\<lparr>my_warning_count := unat w, my_server_status := ucast s\<rparr>)"
proof -
  obtain stale where buf: "lk_buf lk (my_net m) = 254 # int2store (ucast w) @ int2store (ucast s) @ 0 # stale"
    using assms by (auto simp: current_def eof_packet_def)
  have "drop 1 (lk_buf lk (my_net m)) = int2store (ucast w) @ int2store (ucast s) @ 0 # stale"
    "drop 3 (lk_buf lk (my_net m)) = int2store (ucast s) @ 0 # stale"
    unfolding buf by (simp, simp add: drop_Cons')
  then show ?thesis by (simp add: eof_status_def uint2korr_int2store ucast_u16)
qed

text \<open>A row of the reply is stored, and the next packet is read.\<close>

lemma rows_loop_row:
  assumes "current m (encode_row r) ps" "row_ok k r" "0 < k" "alloc_ok 1 alloc" "\<forall>n. alloc n \<noteq> None"
    and "case ml of None \<Rightarrow> True | Some l \<Rightarrow> k \<le> length l"
  obtains row where "holds row r"
    "rows_loop lk alloc m k ml (length (encode_row r)) acc =
       do { (m, len) \<leftarrow> cli_safe_read lk m;
            case len of None \<Rightarrow> Some (m, map_option (\<lambda>l. maxes l 0 r) ml, None)
            | Some n \<Rightarrow> rows_loop lk alloc m k (map_option (\<lambda>l. maxes l 0 r) ml) n (acc @ [row]) }"
proof -
  have r: "length r = k" "length (encode_row r) \<le> 4294967296" using assms(2) by (auto simp: row_ok_def)
  obtain stale where buf: "lk_buf lk (my_net m) = encode_row r @ 0 # stale"
    using assms(1) by (auto simp: current_def)
  obtain area where area: "alloc (length (encode_row r)) = Some area" "length area = length (encode_row r)"
    using assms(4) assms(5) [rule_format, of "length (encode_row r)"] by (auto simp: alloc_ok_def)
  obtain row where row: "store_row (encode_row r @ 0 # stale) (length (encode_row r)) (length r) ml area =
      Inr (Inr row, map_option (\<lambda>l. maxes l 0 r) ml)" "holds row r"
    using store_row_spec [OF row_ok_cells [OF assms(2)] area(2), of ml "0 # stale"] area(2) r assms(6) by auto
  have first: "encode_row r \<noteq> []" "hd (encode_row r) \<noteq> 254" using row_ok_plain [OF assms(2,3)] by auto
  show ?thesis
    by (rule that [OF row(2)])
      (use first area(1) row(1) r(1) buf in \<open>cases "encode_row r"; simp add: rows_loop.simps [of lk alloc m] no_fault_def\<close>)
qed

lemma rows_loop_ok:
  "my_open m \<Longrightarrow> current m p ps \<Longrightarrow> p # ps = map encode_row rs @ eof_packet w s # rest \<Longrightarrow>
   list_all (row_ok k) rs \<Longrightarrow> 0 < k \<Longrightarrow> alloc_ok 1 alloc \<Longrightarrow> \<forall>n. alloc n \<noteq> None \<Longrightarrow>
   (case ml of None \<Rightarrow> True | Some l \<Rightarrow> k \<le> length l) \<Longrightarrow>
   \<exists>n rows. rows_loop lk alloc m k ml (length p) acc =
       Some (m\<lparr>my_net := n, my_warning_count := unat w, my_server_status := ucast s\<rparr>,
             map_option (\<lambda>l. fold (\<lambda>r l. maxes l 0 r) rs l) ml, Some (acc @ rows)) \<and>
     list_all2 holds rows rs \<and> unread n rest"
proof (induction rs arbitrary: m p ps ml acc)
  case Nil
  then have p: "p = eof_packet w s" "ps = rest" by simp_all
  obtain stale where "lk_buf lk (my_net m) = eof_packet w s @ 0 # stale" "unread (my_net m) rest"
    using Nil(2) p by (auto simp: current_def)
  then have "rows_loop lk alloc m k ml (length p) acc =
     Some (m\<lparr>my_warning_count := unat w, my_server_status := ucast s\<rparr>, ml, Some (acc @ []))"
    using eof_status_packet [of m w s ps] Nil(2) p plain_eof(2) [of w s]
    by (simp add: rows_loop.simps [of lk alloc m] eof_packet_def [of w s])
  then show ?case using \<open>unread (my_net m) rest\<close>
    by (intro exI [of _ "my_net m"] exI [of _ "[]"]) (cases ml, simp_all)
next
  case (Cons r rs)
  then have p: "p = encode_row r" "ps = map encode_row rs @ eof_packet w s # rest" by simp_all
  have r: "row_ok k r" using Cons.prems(4) by simp
  let ?ml = "map_option (\<lambda>l. maxes l 0 r) ml"
  obtain row where row: "holds row r"
    "rows_loop lk alloc m k ml (length p) acc =
       do { (m, len) \<leftarrow> cli_safe_read lk m;
            case len of None \<Rightarrow> Some (m, ?ml, None) | Some n \<Rightarrow> rows_loop lk alloc m k ?ml n (acc @ [row]) }"
    unfolding p(1) by (rule rows_loop_row [OF Cons.prems(2) [unfolded p(1)] r Cons.prems(5-8), of acc])
  obtain q qs where q: "map encode_row rs @ eof_packet w s # rest = q # qs" "plain_packet q"
    using Cons.prems(4,5) plain_row plain_eof(1) by (cases rs) auto
  have un: "unread (my_net m) (q # qs)" using Cons.prems(2) p q by (auto simp: current_def)
  obtain n where n: "cli_safe_read lk m = Some (m\<lparr>my_net := n\<rparr>, Some (length q))" "current (m\<lparr>my_net := n\<rparr>) q qs"
    by (rule safe_read [OF Cons.prems(1) un q(2)])
  have mlok: "case ?ml of None \<Rightarrow> True | Some l \<Rightarrow> k \<le> length l" using Cons.prems(8) by (cases ml) simp_all
  have open1: "my_open (m\<lparr>my_net := n\<rparr>)" and rs: "list_all (row_ok k) rs" using Cons.prems by simp_all
  obtain n' rows where "rows_loop lk alloc (m\<lparr>my_net := n\<rparr>) k ?ml (length q) (acc @ [row]) =
       Some ((m\<lparr>my_net := n\<rparr>)\<lparr>my_net := n', my_warning_count := unat w, my_server_status := ucast s\<rparr>,
             map_option (\<lambda>l. fold (\<lambda>r l. maxes l 0 r) rs l) ?ml, Some ((acc @ [row]) @ rows))"
     "list_all2 holds rows rs" "unread n' rest"
    using Cons.IH [OF open1 n(2) q(1) [symmetric] rs Cons.prems(5-7) mlok, of "acc @ [row]"] by blast
  then show ?case using row n(1)
    by (intro exI [of _ n'] exI [of _ "row # rows"]) (simp add: option.map_comp comp_def)
qed

lemma read_rows_ok:
  assumes "my_open m" "unread (my_net m) (map encode_row rs @ eof_packet w s # rest)" "list_all (row_ok k) rs" "0 < k"
    and "alloc_ok 1 alloc" "\<forall>n. alloc n \<noteq> None" "case ml of None \<Rightarrow> True | Some l \<Rightarrow> k \<le> length l"
  obtains n rows where "cli_read_rows lk alloc m ml k =
       Some (m\<lparr>my_net := n, my_warning_count := unat w, my_server_status := ucast s\<rparr>,
             map_option (\<lambda>l. fold (\<lambda>r l. maxes l 0 r) rs l) ml, Some rows)"
     "list_all2 holds rows rs" "unread n rest"
proof -
  obtain q qs where q: "map encode_row rs @ eof_packet w s # rest = q # qs" "plain_packet q"
    using assms(3,4) plain_row plain_eof(1) by (cases rs) auto
  obtain n where n: "cli_safe_read lk m = Some (m\<lparr>my_net := n\<rparr>, Some (length q))" "current (m\<lparr>my_net := n\<rparr>) q qs"
    using safe_read [of m q qs] assms(1,2) q by auto
  obtain n' rows where "rows_loop lk alloc (m\<lparr>my_net := n\<rparr>) k ml (length q) [] =
       Some ((m\<lparr>my_net := n\<rparr>)\<lparr>my_net := n', my_warning_count := unat w, my_server_status := ucast s\<rparr>,
             map_option (\<lambda>l. fold (\<lambda>r l. maxes l 0 r) rs l) ml, Some ([] @ rows))"
     "list_all2 holds rows rs" "unread n' rest"
    using rows_loop_ok [OF _ n(2) q(1) [symmetric] assms(3-7), of "[]"] assms(1) by auto
  then show ?thesis using that [of n' rows] n(1) assms(6) by (simp add: cli_read_rows_def)
qed

lemma safe_read_err:
  assumes "my_open m" "unread (my_net m) (p # ps)" "is_err p"
  obtains m' where "cli_safe_read lk m = Some (m', None)" "touched m m'" "unread (my_net m') ps" "\<not> more_results m'"
proof -
  obtain e :: u16 and st msg where p: "p = 255 # int2store (ucast e) @ 35 # st @ msg" "length st = 5"
    using assms(3) unfolding is_err_def err_packet_def by (elim exE conjE) (rule that)
  obtain n stale where n: "lk_read lk (my_net m) = Some (n, Some (length p))" "lk_buf lk n = p @ 0 # stale" "unread n ps"
    using read_next [OF assms(2)] by blast
  let ?buf = "255 # int2store (ucast e) @ 35 # st @ msg @ 0 # stale"
  have buf: "lk_buf lk n = ?buf" by (simp add: n p)
  have d: "drop 1 ?buf = int2store (ucast e) @ 35 # st @ msg @ 0 # stale" "rd ?buf 3 = Some 35"
    "drop 4 ?buf = (st @ msg) @ 0 # stale" "drop 9 ?buf = msg @ 0 # stale" "drop 3 ?buf = (35 # st @ msg) @ 0 # stale"
    using p(2) by (simp_all add: int2store_def numeral_eq_Suc)
  obtain s1 where s1: "strmake ((st @ msg) @ 0 # stale) 5 = Some s1" using strmake_NUL by blast
  obtain s2 where s2: "strmake (msg @ 0 # stale) (min (length p - 2) 511) = Some s2" using strmake_NUL by blast
  obtain s3 where s3: "strmake ((35 # st @ msg) @ 0 # stale) (min (length p - 2) 511) = Some s3" using strmake_NUL by blast
  have len: "3 < length p" "length p \<noteq> 0" using p by simp_all
  have un: "unread (lk_set_errno lk n (unat e)) ps" using unread_errno [OF n(3)] .
  have pk: "error_packet lk (m\<lparr>my_net := n\<rparr>) ?buf (length p) =
    Some (m\<lparr>my_net := lk_set_errno lk n (unat e), my_sqlstate := (if my_protocol_41 m then s1 else unknown_sqlstate),
            my_error := (if my_protocol_41 m then s2 else s3),
            my_server_status := my_server_status m AND NOT SERVER_MORE_RESULTS_EXISTS\<rparr>)"
    unfolding error_packet_def d using len p(2) s1 s2 s3 by (simp add: uint2korr_int2store ucast_u16)
  have "cli_safe_read lk m = Some (m\<lparr>my_net := lk_set_errno lk n (unat e),
            my_sqlstate := (if my_protocol_41 m then s1 else unknown_sqlstate),
            my_error := (if my_protocol_41 m then s2 else s3),
            my_server_status := my_server_status m AND NOT SERVER_MORE_RESULTS_EXISTS\<rparr>, None)"
    using assms(1) n(1) len pk unfolding cli_safe_read_def by (simp add: buf)
  moreover have "(my_server_status m AND NOT SERVER_MORE_RESULTS_EXISTS) AND SERVER_MORE_RESULTS_EXISTS = 0"
    by (rule bit_word_eqI) (simp add: bit_simps)
  ultimately show ?thesis
    using un by (intro that) (auto simp: touched_error more_results_def)
qed

end

end
