(* ===== verification/ClientSync.thy ===== *)
theory ClientSync
  imports ClientLink
begin

text \<open>
  The calls of the client over a packet layer that delivers: a query and its reply, stored and unbuffered results,
  the release of a result, and the invariant of the connection that they keep.
\<close>

section \<open>Reading the rows of a reply\<close>

context packet_link begin

definition settled :: "'n MYSQL \<Rightarrow> 'n MYSQL \<Rightarrow> bool" where
  "settled m m' \<longleftrightarrow> touched m m' \<and> unread (my_net m') [] \<and> \<not> more_results m'"

lemma settled_trans: "touched m m1 \<Longrightarrow> settled m1 m2 \<Longrightarrow> settled m m2"
  unfolding settled_def using touched_trans by blast

lemma safe_read_settled:
  assumes "my_open m" "unread (my_net m) [e]" "is_err e"
  obtains m' where "cli_safe_read lk m = Some (m', None)" "settled m m'"
proof -
  obtain m' where "cli_safe_read lk m = Some (m', None)" "touched m m'" "unread (my_net m') []" "\<not> more_results m'"
    by (rule safe_read_err [OF assms])
  then show ?thesis using that unfolding settled_def by blast
qed

lemma rows_loop_err:
  "my_open m \<Longrightarrow> current m (encode_row r) (map encode_row rs @ [e]) \<Longrightarrow> is_err e \<Longrightarrow>
   list_all (row_ok k) (r # rs) \<Longrightarrow> 0 < k \<Longrightarrow> alloc_ok 1 alloc \<Longrightarrow> \<forall>n. alloc n \<noteq> None \<Longrightarrow>
   (case ml of None \<Rightarrow> True | Some l \<Rightarrow> k \<le> length l) \<Longrightarrow>
   \<exists>m' ml'. rows_loop lk alloc m k ml (length (encode_row r)) acc = Some (m', ml', None) \<and> settled m m'"
proof (induction rs arbitrary: m r ml acc)
  case Nil
  have ok: "row_ok k r" using Nil.prems(4) by simp
  obtain row where row:
    "rows_loop lk alloc m k ml (length (encode_row r)) acc =
       do { (m, len) \<leftarrow> cli_safe_read lk m;
            case len of None \<Rightarrow> Some (m, map_option (\<lambda>l. maxes l 0 r) ml, None)
            | Some n \<Rightarrow> rows_loop lk alloc m k (map_option (\<lambda>l. maxes l 0 r) ml) n (acc @ [row]) }"
    by (rule rows_loop_row [OF Nil.prems(2) ok Nil.prems(5-8), of acc])
  have un: "unread (my_net m) [e]" using Nil.prems(2) by (simp add: current_def)
  obtain m' where "cli_safe_read lk m = Some (m', None)" "settled m m'"
    by (rule safe_read_settled [OF Nil.prems(1) un Nil.prems(3)])
  then show ?case using row by simp
next
  case (Cons s rs)
  have ok: "row_ok k r" "row_ok k s" "list_all (row_ok k) (s # rs)" using Cons.prems(4) by simp_all
  let ?ml = "map_option (\<lambda>l. maxes l 0 r) ml"
  obtain row where row:
    "rows_loop lk alloc m k ml (length (encode_row r)) acc =
       do { (m, len) \<leftarrow> cli_safe_read lk m;
            case len of None \<Rightarrow> Some (m, ?ml, None)
            | Some n \<Rightarrow> rows_loop lk alloc m k ?ml n (acc @ [row]) }"
    by (rule rows_loop_row [OF Cons.prems(2) ok(1) Cons.prems(5-8), of acc])
  have un: "unread (my_net m) (encode_row s # map encode_row rs @ [e])" using Cons.prems(2) by (simp add: current_def)
  obtain n where n: "cli_safe_read lk m = Some (m\<lparr>my_net := n\<rparr>, Some (length (encode_row s)))"
    "current (m\<lparr>my_net := n\<rparr>) (encode_row s) (map encode_row rs @ [e])"
    by (rule safe_read [OF Cons.prems(1) un plain_row [OF ok(2) Cons.prems(5)]])
  have mlok: "case ?ml of None \<Rightarrow> True | Some l \<Rightarrow> k \<le> length l" using Cons.prems(8) by (cases ml) simp_all
  have open1: "my_open (m\<lparr>my_net := n\<rparr>)" using Cons.prems(1) by simp
  obtain m' ml' where "rows_loop lk alloc (m\<lparr>my_net := n\<rparr>) k ?ml (length (encode_row s)) (acc @ [row]) = Some (m', ml', None)"
    "settled (m\<lparr>my_net := n\<rparr>) m'"
    using Cons.IH [OF open1 n(2) Cons.prems(3) ok(3) Cons.prems(5-7) mlok, of "acc @ [row]"] by blast
  then show ?case using row n(1) settled_trans [OF touched_net] by (intro exI [of _ m'] exI [of _ ml']) auto
qed

lemma read_rows_err:
  assumes "my_open m" "unread (my_net m) (map encode_row rs @ [e])" "is_err e" "list_all (row_ok k) rs" "0 < k"
    and "alloc_ok 1 alloc" "\<forall>n. alloc n \<noteq> None" "case ml of None \<Rightarrow> True | Some l \<Rightarrow> k \<le> length l"
  obtains m' ml' where "cli_read_rows lk alloc m ml k = Some (m', ml', None)" "settled m m'"
proof (cases rs)
  case Nil
  then have "unread (my_net m) [e]" using assms(2) by simp
  then obtain m' where "cli_safe_read lk m = Some (m', None)" "settled m m'"
    by (rule safe_read_settled [OF assms(1) _ assms(3)])
  then show ?thesis using that by (simp add: cli_read_rows_def)
next
  case (Cons r rs')
  have ok: "row_ok k r" "list_all (row_ok k) (r # rs')" using assms(4) Cons by simp_all
  have un: "unread (my_net m) (encode_row r # map encode_row rs' @ [e])" using assms(2) Cons by simp
  obtain n where n: "cli_safe_read lk m = Some (m\<lparr>my_net := n\<rparr>, Some (length (encode_row r)))"
    "current (m\<lparr>my_net := n\<rparr>) (encode_row r) (map encode_row rs' @ [e])"
    by (rule safe_read [OF assms(1) un plain_row [OF ok(1) assms(5)]])
  have open1: "my_open (m\<lparr>my_net := n\<rparr>)" using assms(1) by simp
  obtain m' ml' where "rows_loop lk alloc (m\<lparr>my_net := n\<rparr>) k ml (length (encode_row r)) [] = Some (m', ml', None)"
    "settled (m\<lparr>my_net := n\<rparr>) m'"
    using rows_loop_err [OF open1 n(2) assms(3) ok(2) assms(5-8), of "[]"] by blast
  then show ?thesis using that n(1) settled_trans [OF touched_net] assms(7) by (auto simp: cli_read_rows_def)
qed

text \<open>Whatever ends the rows, reading them takes the whole reply.\<close>

lemma read_rows_reply:
  assumes "my_open m" "unread (my_net m) ps" "rows_reply k ps" "0 < k"
    and "alloc_ok 1 alloc" "\<forall>n. alloc n \<noteq> None" "case ml of None \<Rightarrow> True | Some l \<Rightarrow> k \<le> length l"
  obtains m' ml' r where "cli_read_rows lk alloc m ml k = Some (m', ml', r)" "settled m m'"
proof -
  obtain rs e where ps: "ps = map encode_row rs @ [e]" "list_all (row_ok k) rs" "is_eof e \<or> is_err e"
    using assms(3) by (auto simp: rows_reply_def)
  show ?thesis
  proof (cases "is_err e")
    case True
    obtain m' ml' where "cli_read_rows lk alloc m ml k = Some (m', ml', None)" "settled m m'"
      by (rule read_rows_err [OF assms(1) assms(2) [unfolded ps(1)] True ps(2) assms(4-7)])
    then show ?thesis by (rule that)
  next
    case False
    then obtain w s where e: "e = eof_packet w s" "s AND 8 = 0" using ps(3) by (auto simp: is_eof_def)
    have un: "unread (my_net m) (map encode_row rs @ eof_packet w s # [])" using assms(2) ps(1) e(1) by simp
    obtain n rows where r: "cli_read_rows lk alloc m ml k =
       Some (m\<lparr>my_net := n, my_warning_count := unat w, my_server_status := ucast s\<rparr>,
             map_option (\<lambda>l. fold (\<lambda>r l. maxes l 0 r) rs l) ml, Some rows)" "unread n []"
      by (rule read_rows_ok [OF assms(1) un ps(2) assms(4-7)])
    show ?thesis
      by (rule that [OF r(1)]) (simp add: settled_def touchedI r(2) more_results_def quiet [OF e(2)])
  qed
qed

end

end
