(* ===== verification/ClientCalls.thy ===== *)
theory ClientCalls
  imports ClientSync
begin

text \<open>
  The invariant of a connection and its results, and the calls of the client that keep it: a query and its reply,
  stored and unbuffered results, and the release of a result.
\<close>

section \<open>The invariant\<close>

text \<open>A result that reads no more packets, and the unbuffered one that has the reply \<open>ps\<close> to read.\<close>

definition finished :: "RES \<Rightarrow> bool" where
  "finished r \<longleftrightarrow> \<not> rs_handle r \<and> (rs_rows r = None \<longrightarrow> rs_eof r)"

definition open_result :: "RES \<Rightarrow> byte list list \<Rightarrow> bool" where
  "open_result r ps \<longleftrightarrow> rs_handle r \<and> rs_rows r = None \<and> \<not> rs_eof r \<and> 0 < rs_field_count r \<and>
     rows_reply (rs_field_count r) ps"

definition pending :: "RES list \<Rightarrow> RES list" where
  "pending results = filter (\<lambda>r. \<not> finished r) results"

text \<open>The status of the connection tells what of the reply is still to come, and who reads it.\<close>

definition consistent :: "'n MYSQL \<Rightarrow> RES list \<Rightarrow> byte list list \<Rightarrow> bool" where
  "consistent m results ps \<longleftrightarrow>
     (case my_status m of
        MYSQL_STATUS_READY \<Rightarrow> ps = [] \<and> pending results = []
      | MYSQL_STATUS_GET_RESULT \<Rightarrow> (\<exists>fs. my_fields m = Some fs \<and> length fs = my_field_count m) \<and>
          0 < my_field_count m \<and> rows_reply (my_field_count m) ps \<and> pending results = []
      | MYSQL_STATUS_USE_RESULT \<Rightarrow> \<exists>r. pending results = [r] \<and> open_result r ps)"

definition usable :: "'n MYSQL \<Rightarrow> bool" where
  "usable m \<longleftrightarrow> my_open m \<and> my_protocol_41 m \<and> \<not> more_results m"

definition in_sync :: "('n \<Rightarrow> byte list list \<Rightarrow> bool) \<Rightarrow> 'n MYSQL \<Rightarrow> RES list \<Rightarrow> bool" where
  "in_sync unread m results \<longleftrightarrow> usable m \<and> (\<exists>ps. unread (my_net m) ps \<and> consistent m results ps)"

lemma more_results_upd [simp]:
  "more_results (m\<lparr>my_net := n\<rparr>) = more_results m" "more_results (m\<lparr>my_fields := f\<rparr>) = more_results m"
  "more_results (m\<lparr>my_status := st\<rparr>) = more_results m" "more_results (m\<lparr>my_field_count := k\<rparr>) = more_results m"
  "more_results (m\<lparr>my_info := i\<rparr>) = more_results m" "more_results (m\<lparr>my_affected_rows := a\<rparr>) = more_results m"
  "more_results (m\<lparr>my_insert_id := a\<rparr>) = more_results m" "more_results (m\<lparr>my_fetch_owner := w\<rparr>) = more_results m"
  "more_results (m\<lparr>my_warning_count := v\<rparr>) = more_results m" "more_results (m\<lparr>my_sqlstate := q\<rparr>) = more_results m"
  "more_results (m\<lparr>my_error := q\<rparr>) = more_results m" "more_results (m\<lparr>my_cancelled := c\<rparr>) = more_results m"
  by (simp_all add: more_results_def)

lemma quiet_more [simp]: "s AND 8 = 0 \<Longrightarrow> \<not> more_results (m\<lparr>my_server_status := ucast (s :: u16)\<rparr>)"
  by (simp add: more_results_def quiet)

lemma ok_reply_plain: "plain_packet (ok_reply a i s w info)"
  by (simp add: plain_packet_def ok_reply_def)

lemma header_plain:
  assumes "0 < k" "k < 16777216"
  shows "plain_packet (header_packet k)"
proof -
  have "unat (of_nat k :: u64) = k" using assms by (intro unat_u64_of_nat) simp
  then have "hd (header_packet k) < 254" using assms by (simp add: header_packet_def hd_net_store_length)
  moreover have "header_packet k \<noteq> []"
    using length_net_store_length [of "of_nat k"] by (auto simp: header_packet_def split: if_splits)
  ultimately show ?thesis by (auto simp: plain_packet_def)
qed

lemma columns_read:
  assumes "0 < k" "k < 16777216"
  shows "net_field_length (header_packet k @ rest) = Some (of_nat k, rest)"
    "(of_nat k :: u64) \<noteq> 0" "(of_nat k :: u64) \<noteq> NULL_LENGTH" "unat (ucast (of_nat k :: u64) :: u32) = k"
proof -
  have un: "unat (of_nat k :: u64) = k" using assms by (intro unat_u64_of_nat) simp
  show "net_field_length (header_packet k @ rest) = Some (of_nat k, rest)"
    using net_field_length_store_u32 [of "of_nat k" rest] un assms by (simp add: header_packet_def)
  show "(of_nat k :: u64) \<noteq> 0" using un assms by auto
  show "(of_nat k :: u64) \<noteq> NULL_LENGTH" using assms by (intro len_not_null) simp
  show "unat (ucast (of_nat k :: u64) :: u32) = k"
    using assms un by (simp add: unsigned_ucast_eq take_bit_eq_mod)
qed

section \<open>The reply to a query\<close>

context packet_link begin

lemma first_packet:
  assumes "my_open m" "unread (my_net m) (p # ps)" "plain_packet p"
  obtains n stale where "cli_safe_read lk m = Some (m\<lparr>my_net := n\<rparr>, Some (length p))"
    "lk_buf lk n = p @ 0 # stale" "unread n ps"
proof -
  obtain n where "cli_safe_read lk m = Some (m\<lparr>my_net := n\<rparr>, Some (length p))" "current (m\<lparr>my_net := n\<rparr>) p ps"
    by (rule safe_read [OF assms])
  then show ?thesis using that by (auto simp: current_def)
qed

lemma query_ok:
  assumes "usable m" "my_status m = MYSQL_STATUS_READY" "unread (my_net m) [ok_reply a i s w info]"
    and "s AND 8 = 0" "cell_ok info"
  obtains m' where "cli_read_query_result lk alloc m = Some (m', False)" "usable m'" "my_status m' = MYSQL_STATUS_READY"
    "unread (my_net m') []" "my_affected_rows m' = a" "my_insert_id m' = i" "my_warning_count m' = unat w"
proof -
  let ?p = "ok_reply a i s w info"
  obtain n stale where n: "cli_safe_read lk m = Some (m\<lparr>my_net := n\<rparr>, Some (length ?p))"
    "lk_buf lk n = ?p @ 0 # stale" "unread n []"
    by (rule first_packet [OF _ assms(3) ok_reply_plain]) (use assms(1) in \<open>simp add: usable_def\<close>)
  let ?m = "free_old_query (m\<lparr>my_net := n\<rparr>)"
  let ?t = "(case info of None \<Rightarrow> [] | Some t \<Rightarrow> encode_cell (Some t)) @ 0 # stale"
  have buf: "lk_buf lk n = 0 # net_store_length a @ net_store_length i @ int2store (ucast s) @ int2store (ucast w) @ ?t"
    by (simp add: n(2) ok_reply_def)
  have len: "length (lk_buf lk n) - length ?t = length ?p - length (case info of None \<Rightarrow> [] | Some t \<Rightarrow> encode_cell (Some t))"
    unfolding n(2) by simp
  have info: "\<exists>v r. net_field_length ?t = Some (v, r)" if "info \<noteq> None"
    using that assms(5) by (cases info) (auto simp: net_field_length_cell simp del: cell_simps(3))
  let ?m' = "?m\<lparr>my_affected_rows := a, my_insert_id := i, my_server_status := ucast s, my_warning_count := unat w\<rparr>"
  have d: "drop 2 (int2store x @ xs) = xs" "drop 4 (int2store x @ int2store y @ xs) = xs" for x y xs
    by (simp_all add: int2store_def)
  have p41: "my_protocol_41 m" using assms(1) by (simp add: usable_def)
  obtain x where x: "ok_packet ?m (lk_buf lk n) (tl (lk_buf lk n)) (length ?p) = Some (?m'\<lparr>my_info := x\<rparr>)"
  proof (cases info)
    case None
    show ?thesis
      using p41 len None
      by (intro that [of None]) (simp add: ok_packet_def buf net_field_length_ll_store uint2korr_int2store ucast_u16 d free_old_query_def)
  next
    case (Some t)
    obtain v r where v: "net_field_length ?t = Some (v, r)" using info Some by auto
    show ?thesis
      using p41 v
      by (intro that [of "if length (lk_buf lk n) - length ?t < length ?p \<and> v \<noteq> 0 then Some r else None"])
        (simp add: ok_packet_def buf net_field_length_ll_store uint2korr_int2store ucast_u16 d free_old_query_def)
  qed
  have "get_info lk alloc ?m (length ?p) = Some (?m'\<lparr>my_info := x\<rparr>, False)"
    using x by (subst get_info.simps) (simp add: free_old_query_def buf net_field_length_zero Let_def)
  then have "cli_read_query_result lk alloc m = Some (?m'\<lparr>my_info := x\<rparr>, False)"
    using n(1) by (simp add: cli_read_query_result_def)
  then show ?thesis
    by (rule that) (use assms n(3) in \<open>simp_all add: usable_def free_old_query_def\<close>)
qed

lemma query_err:
  assumes "usable m" "my_status m = MYSQL_STATUS_READY" "unread (my_net m) [p]" "is_err p"
  obtains m' where "cli_read_query_result lk alloc m = Some (m', True)" "usable m'" "my_status m' = MYSQL_STATUS_READY"
    "unread (my_net m') []"
proof -
  have op: "my_open m" using assms(1) by (simp add: usable_def)
  obtain m' where m': "cli_safe_read lk m = Some (m', None)" "settled m m'"
    by (rule safe_read_settled [OF op assms(3,4)])
  have "cli_read_query_result lk alloc m = Some (m', True)" using m'(1) by (simp add: cli_read_query_result_def)
  then show ?thesis
    by (rule that) (use m'(2) assms in \<open>auto simp: settled_def usable_def touched_fields\<close>)
qed

text \<open>The reply that announces rows leaves the rows to be read.\<close>

lemma query_rows:
  assumes "usable m" "unread (my_net m) (header_packet k # map encode_row fds @ eof_packet w s # qs)" "s AND 8 = 0"
    and "0 < k" "k < 16777216" "length fds = k" "list_all (row_ok 7) fds" "list_all2 describes fds fs"
    and "alloc_ok 1 alloc" "\<forall>n. alloc n \<noteq> None"
  obtains m' where "cli_read_query_result lk alloc m = Some (m', False)" "usable m'"
    "my_status m' = MYSQL_STATUS_GET_RESULT" "my_fields m' = Some fs" "my_field_count m' = k" "unread (my_net m') qs"
proof -
  have op: "my_open m" using assms(1) by (simp add: usable_def)
  obtain n stale where n: "cli_safe_read lk m = Some (m\<lparr>my_net := n\<rparr>, Some (length (header_packet k)))"
    "lk_buf lk n = header_packet k @ 0 # stale" "unread n (map encode_row fds @ eof_packet w s # qs)"
    by (rule first_packet [OF op assms(2) header_plain [OF assms(4,5)]])
  define m1 where "m1 = free_old_query (m\<lparr>my_net := n\<rparr>)"
  define m2 where "m2 = (if my_server_status m1 AND SERVER_STATUS_AUTOCOMMIT = 0
                then m1\<lparr>my_server_status := my_server_status m1 OR SERVER_STATUS_IN_TRANS\<rparr> else m1)"
  have m2: "my_open m2" "my_net m2 = n" "my_protocol_41 m2" "my_net m1 = n"
    using assms(1) by (simp_all add: m2_def m1_def free_old_query_def usable_def)
  obtain n' rows where r: "cli_read_rows lk alloc m2 None 7 =
       Some (m2\<lparr>my_net := n', my_warning_count := unat w, my_server_status := ucast s\<rparr>, None, Some rows)"
     "list_all2 holds rows fds" "unread n' qs"
    using read_rows_ok [OF m2(1), of fds w s qs 7 alloc None] n(3) m2(2) assms(7,9,10) by auto
  have fs: "unpack_fields rows k False True (my_long_flag m2) = Some fs"
    using unpack_fields_spec [OF r(2) assms(8)] assms(6,8) list_all2_lengthD by metis
  let ?m' = "m2\<lparr>my_net := n', my_warning_count := unat w, my_server_status := ucast s,
     my_fields := Some fs, my_status := MYSQL_STATUS_GET_RESULT, my_field_count := k\<rparr>"
  have buf: "lk_buf lk (my_net m1) = header_packet k @ 0 # stale" using n(2) m2(4) by simp
  have "get_info lk alloc m1 (length (header_packet k)) = Some (?m', False)"
    using columns_read [OF assms(4,5)] r(1) fs m2(3)
    by (subst get_info.simps) (simp add: buf m2_def [symmetric] Let_def)
  then have "cli_read_query_result lk alloc m = Some (?m', False)"
    using n(1) by (simp add: cli_read_query_result_def m1_def)
  then show ?thesis
    by (rule that) (use m2 r(3) assms(3) in \<open>simp_all add: usable_def more_results_def quiet\<close>)
qed

lemma in_syncI:
  "usable m \<Longrightarrow> unread (my_net m) ps \<Longrightarrow> consistent m results ps \<Longrightarrow> in_sync unread m results"
  unfolding in_sync_def by blast

text \<open>Whatever the server replies, the connection is in step with it.\<close>

lemma query_in_sync:
  assumes "usable m" "my_status m = MYSQL_STATUS_READY" "unread (my_net m) ps" "query_reply ps"
    and "pending results = []" "alloc_ok 1 alloc" "\<forall>n. alloc n \<noteq> None"
  obtains m' f where "cli_read_query_result lk alloc m = Some (m', f)" "in_sync unread m' results"
  using assms(4) unfolding query_reply_def
proof (elim disjE exE conjE)
  fix a i s w info assume "ps = [ok_reply a i s w info]" "s AND 8 = 0" "cell_ok info"
  then obtain m' where "cli_read_query_result lk alloc m = Some (m', False)" "usable m'" "my_status m' = MYSQL_STATUS_READY"
    "unread (my_net m') []"
    using query_ok [OF assms(1,2)] assms(3) by metis
  then show ?thesis using that in_syncI assms(5) by (fastforce simp: consistent_def)
next
  fix p assume "ps = [p]" "is_err p"
  then obtain m' where "cli_read_query_result lk alloc m = Some (m', True)" "usable m'" "my_status m' = MYSQL_STATUS_READY"
    "unread (my_net m') []"
    using query_err [OF assms(1,2)] assms(3) by metis
  then show ?thesis using that in_syncI assms(5) by (fastforce simp: consistent_def)
next
  fix k fds fs w s qs
  assume ps: "ps = header_packet k # map encode_row fds @ eof_packet w s # qs" and k: "0 < k" "k < 16777216" "length fds = k"
    and fds: "list_all (row_ok 7) fds" "list_all2 describes fds fs" and s: "s AND 8 = 0" and qs: "rows_reply k qs"
  obtain m' where m': "cli_read_query_result lk alloc m = Some (m', False)" "usable m'"
    "my_status m' = MYSQL_STATUS_GET_RESULT" "my_fields m' = Some fs" "my_field_count m' = k" "unread (my_net m') qs"
    by (rule query_rows [OF assms(1) assms(3) [unfolded ps] s k fds assms(6,7)])
  have "length fs = k" using k(3) fds(2) list_all2_lengthD by metis
  then have "consistent m' results qs" using m' k qs assms(5) by (simp add: consistent_def)
  then show ?thesis using that m' in_syncI by blast
qed

section \<open>Results\<close>

lemma in_sync_error: "in_sync unread m results \<Longrightarrow> in_sync unread (set_mysql_error lk m e) results"
  using unread_errno
  by (cases "my_status m") (auto simp: in_sync_def usable_def consistent_def set_mysql_error_def)

lemma in_sync_settled:
  assumes "usable m" "settled m m'" "pending results = []" "my_status m = MYSQL_STATUS_READY"
  shows "in_sync unread m' results"
  using assms by (intro in_syncI [of m' "[]"]) (auto simp: settled_def usable_def consistent_def touched_fields)

lemma in_sync_same:
  "my_net m' = my_net m \<Longrightarrow> usable m' = usable m \<Longrightarrow> my_status m' = my_status m \<Longrightarrow> my_fields m' = my_fields m \<Longrightarrow>
   my_field_count m' = my_field_count m \<Longrightarrow> in_sync unread m' results = in_sync unread m results"
  by (cases "my_status m") (simp_all add: in_sync_def consistent_def)

lemma in_sync_cases:
  assumes "in_sync unread m results"
  obtains "usable m" "my_status m = MYSQL_STATUS_READY" "unread (my_net m) []" "pending results = []"
  | fs ps where "usable m" "my_status m = MYSQL_STATUS_GET_RESULT" "my_fields m = Some fs" "length fs = my_field_count m"
      "0 < my_field_count m" "unread (my_net m) ps" "rows_reply (my_field_count m) ps" "pending results = []"
  | r ps where "usable m" "my_status m = MYSQL_STATUS_USE_RESULT" "unread (my_net m) ps" "pending results = [r]" "open_result r ps"
  using assms by (cases "my_status m") (auto simp: in_sync_def consistent_def)

lemma store_in_sync:
  assumes sync: "in_sync unread m results" and al: "alloc_ok 1 alloc" "\<forall>n. alloc n \<noteq> None"
  obtains m' r where "mysql_store_result lk alloc new_id m = Some (m', r)"
    "in_sync unread m' (results @ (case r of None \<Rightarrow> [] | Some x \<Rightarrow> [x]))"
proof -
  consider "my_fields m = None" | fs where "my_fields m = Some fs" "my_status m \<noteq> MYSQL_STATUS_GET_RESULT"
    | fs where "my_fields m = Some fs" "my_status m = MYSQL_STATUS_GET_RESULT" by fastforce
  then show ?thesis
  proof cases
    case 1
    then show ?thesis using sync by (intro that [of m None]) (simp_all add: mysql_store_result_def)
  next
    case 2
    then show ?thesis using sync
      by (intro that [of "set_mysql_error lk m CR_COMMANDS_OUT_OF_SYNC" None]) (simp_all add: mysql_store_result_def in_sync_error)
  next
    case 3
    obtain ps where m: "usable m" "length fs = my_field_count m" "0 < my_field_count m" "unread (my_net m) ps"
      "rows_reply (my_field_count m) ps" "pending results = []"
      using sync 3 by (cases rule: in_sync_cases) auto
    let ?m = "m\<lparr>my_status := MYSQL_STATUS_READY\<rparr>"
    have ok: "my_open ?m" "unread (my_net ?m) ps" "usable ?m" using m by (simp_all add: usable_def)
    obtain m' ml' r where r: "cli_read_rows lk alloc ?m (Some (map f_max_length fs)) (my_field_count m) = Some (m', ml', r)"
      "settled ?m m'"
      using read_rows_reply [OF ok(1,2) m(5,3) al, of "Some (map f_max_length fs)"] m(2) by auto
    have sy: "in_sync unread m' results" using in_sync_settled [OF ok(3) r(2) m(6)] by simp
    obtain x where x: "alloc (8 * my_field_count m) = Some x" using al(2) by fastforce
    have t: "touched ?m m'" using r(2) by (simp add: settled_def)
    have fc: "my_field_count m' = my_field_count m" using touched_fields(4) [OF t] by simp
    show ?thesis
    proof (cases r)
      case None
      let ?m' = "m'\<lparr>my_fields := map_option (\<lambda>fs. set_max_lengths fs ml') (my_fields m')\<rparr>"
      have "mysql_store_result lk alloc new_id m = Some (?m', None)"
        using 3 r x None by (simp add: mysql_store_result_def Let_def)
      moreover have "in_sync unread ?m' results"
        using sy touched_fields(2) [OF t] by (auto simp: in_sync_def usable_def consistent_def)
      ultimately show ?thesis using that by fastforce
    next
      case (Some rows)
      let ?m' = "m'\<lparr>my_affected_rows := of_nat (length rows), my_fields := None, my_fetch_owner := None\<rparr>"
      let ?r = "\<lparr>rs_rows = Some rows, rs_cursor = rows, rs_current = None, rs_lengths = replicate (my_field_count m) 0,
                      rs_fields = set_max_lengths fs ml', rs_field_count = my_field_count m, rs_row_count = length rows,
                      rs_eof = True, rs_handle = False, rs_id = new_id\<rparr>"
      have "mysql_store_result lk alloc new_id m = Some (?m', Some ?r)"
        using 3 r x Some fc by (simp add: mysql_store_result_def Let_def)
      moreover have "in_sync unread ?m' (results @ [?r])"
        using sy touched_fields(2) [OF t] by (auto simp: in_sync_def usable_def consistent_def pending_def finished_def)
      ultimately show ?thesis using that by fastforce
    qed
  qed
qed

lemma use_in_sync:
  assumes sync: "in_sync unread m results" and al: "\<forall>n. alloc n \<noteq> None"
  obtains m' r where "cli_use_result lk alloc new_id m = Some (m', r)"
    "in_sync unread m' (results @ (case r of None \<Rightarrow> [] | Some x \<Rightarrow> [x]))"
proof -
  consider "my_fields m = None" | fs where "my_fields m = Some fs" "my_status m \<noteq> MYSQL_STATUS_GET_RESULT"
    | fs where "my_fields m = Some fs" "my_status m = MYSQL_STATUS_GET_RESULT" by fastforce
  then show ?thesis
  proof cases
    case 1
    then show ?thesis using sync by (intro that [of m None]) (simp_all add: cli_use_result_def)
  next
    case 2
    then show ?thesis using sync
      by (intro that [of "set_mysql_error lk m CR_COMMANDS_OUT_OF_SYNC" None]) (simp_all add: cli_use_result_def in_sync_error)
  next
    case 3
    obtain ps where m: "usable m" "length fs = my_field_count m" "0 < my_field_count m" "unread (my_net m) ps"
      "rows_reply (my_field_count m) ps" "pending results = []"
      using sync 3 by (cases rule: in_sync_cases) auto
    let ?m' = "m\<lparr>my_fields := None, my_status := MYSQL_STATUS_USE_RESULT, my_fetch_owner := Some new_id\<rparr>"
    let ?r = "\<lparr>rs_rows = None, rs_cursor = [], rs_current = None, rs_lengths = replicate (my_field_count m) 0,
                   rs_fields = fs, rs_field_count = my_field_count m, rs_row_count = 0, rs_eof = False,
                   rs_handle = True, rs_id = new_id\<rparr>"
    have "cli_use_result lk alloc new_id m = Some (?m', Some ?r)" using 3 al by (simp add: cli_use_result_def)
    moreover have "in_sync unread ?m' (results @ [?r])"
      using m by (auto simp: in_sync_def usable_def consistent_def pending_def finished_def open_result_def)
    ultimately show ?thesis using that by fastforce
  qed
qed

section \<open>Fetching and releasing\<close>

text \<open>The next row of an unbuffered result, its values, and what follows.\<close>

lemma read_row:
  assumes "usable m" "unread (my_net m) (encode_row r # ps)" "row_ok k r" "0 < k"
  obtains m' row where "read_one_row lk m k = Some (m', Row row (cell_lens r))" "touched m m'" "usable m'"
    "unread (my_net m') ps" "row_values (row_mem row) (cols row) (cell_lens r) = r"
proof -
  have op: "my_open m" using assms(1) by (simp add: usable_def)
  obtain n stale where n: "cli_safe_read lk m = Some (m\<lparr>my_net := n\<rparr>, Some (length (encode_row r)))"
    "lk_buf lk n = encode_row r @ 0 # stale" "unread n ps"
    by (rule first_packet [OF op assms(2) plain_row [OF assms(3,4)]])
  have r: "length r = k" "length (encode_row r) \<le> 4294967296" "r \<noteq> []" using assms(3,4) by (auto simp: row_ok_def)
  have first: "encode_row r \<noteq> []" "hd (encode_row r) \<noteq> 254" using row_ok_plain [OF assms(3,4)] by auto
  let ?b = "in_place None r @ 0 # stale"
  let ?row = "\<lparr>cols = places r 0, row_end = length (encode_row r) + 1, row_mem = ?b\<rparr>"
  let ?m' = "m\<lparr>my_net := lk_put lk n ?b\<rparr>"
  have one: "one_row (encode_row r @ 0 # stale) (length (encode_row r)) k =
    Some (Inr (places r 0, cell_lens r, length (encode_row r) + 1, ?b))"
    using one_row_spec [OF row_ok_cells [OF assms(3)] r(3,2)] r(1) by simp
  have "read_one_row lk m k = Some (?m', Row ?row (cell_lens r))"
    using n(1) one first by (cases "encode_row r") (simp_all add: read_one_row_def n(2) Let_def)
  moreover have "unread (lk_put lk n ?b) ps"
    using n(2,3) by (intro unread_put) (simp_all add: length_in_place)
  moreover have "row_values ?b (places r 0) (cell_lens r) = r"
    using places_values [of "[]" None r stale] by simp
  ultimately show ?thesis using that [of ?m' ?row] assms(1) by (simp add: touched_net usable_def)
qed

lemma read_end:
  assumes "usable m" "unread (my_net m) [e]" "is_eof e \<or> is_err e"
  obtains m' f where "read_one_row lk m k = Some (m', f)" "f \<in> {End_of_data, Fetch_error}" "settled m m'"
    "is_eof e \<Longrightarrow> f = End_of_data"
proof -
  have op: "my_open m" using assms(1) by (simp add: usable_def)
  have ne: "is_eof e \<Longrightarrow> \<not> is_err e" by (auto simp: is_eof_def is_err_def eof_packet_def err_packet_def)
  show ?thesis
  proof (cases "is_err e")
    case True
    obtain m' where "cli_safe_read lk m = Some (m', None)" "settled m m'"
      by (rule safe_read_settled [OF op assms(2) True])
    then show ?thesis using that [of m' Fetch_error] True ne by (auto simp: read_one_row_def)
  next
    case False
    then obtain w s where e: "e = eof_packet w s" "s AND 8 = 0" using assms(3) by (auto simp: is_eof_def)
    have un: "unread (my_net m) (eof_packet w s # [])" using assms(2) e(1) by simp
    obtain n where n: "cli_safe_read lk m = Some (m\<lparr>my_net := n\<rparr>, Some (length (eof_packet w s)))"
      "current (m\<lparr>my_net := n\<rparr>) (eof_packet w s) []"
      by (rule safe_read [OF op un plain_eof(1)])
    obtain stale where buf: "lk_buf lk n = eof_packet w s @ 0 # stale" "unread n []"
      using n(2) by (auto simp: current_def)
    let ?m' = "m\<lparr>my_net := n, my_warning_count := unat w, my_server_status := ucast s\<rparr>"
    have "read_one_row lk m k = Some (?m', End_of_data)"
      using n(1) eof_status_packet [OF n(2)] plain_eof(2) [of w s]
      by (simp add: read_one_row_def buf(1) eof_packet_def [of w s])
    moreover have "settled m ?m'" using buf(2) e(2) by (simp add: settled_def touchedI more_results_def quiet)
    ultimately show ?thesis using that by blast
  qed
qed

lemma pending_Cons: "pending (a @ r # b) = pending a @ (if finished r then [] else [r]) @ pending b"
  by (simp add: pending_def)

lemma in_sync_replace:
  assumes "in_sync unread m (a @ r # b)" "finished r" "finished r'"
  shows "in_sync unread m (a @ r' # b)"
  using assms by (cases "my_status m") (simp_all add: in_sync_def consistent_def pending_Cons)

text \<open>The unbuffered result that is being read.\<close>

lemma in_sync_pending:
  assumes "in_sync unread m (a @ r # b)" "\<not> finished r"
  obtains ps where "usable m" "my_status m = MYSQL_STATUS_USE_RESULT" "unread (my_net m) ps" "open_result r ps"
    "pending a = []" "pending b = []"
  using assms(1)
proof (cases rule: in_sync_cases)
  case (3 q ps)
  then have "pending a @ [r] @ pending b = [q]" using assms(2) by (simp add: pending_Cons)
  then have "pending a = [] \<and> pending b = [] \<and> r = q" by (cases "pending a") simp_all
  then show ?thesis using 3 that by blast
qed (use assms(2) in \<open>simp_all add: pending_Cons\<close>)

lemma fetch_in_sync:
  assumes sync: "in_sync unread m (a @ r # b)"
  obtains m' r' row where "mysql_fetch_row lk m r = Some (m', r', row)" "in_sync unread m' (a @ r' # b)"
proof -
  consider "rs_rows r \<noteq> None" | "rs_rows r = None" "rs_eof r" | "rs_rows r = None" "\<not> rs_eof r" by blast
  then show ?thesis
  proof cases
    case 1
    then obtain rows where rows: "rs_rows r = Some rows" by auto
    have fin: "finished r"
      using in_sync_pending [OF sync] rows by (auto simp: open_result_def)
    show ?thesis
    proof (cases "rs_cursor r")
      case Nil
      let ?r = "r\<lparr>rs_current := None\<rparr>"
      have "mysql_fetch_row lk m r = Some (m, ?r, None)" using rows Nil by (simp add: mysql_fetch_row_def)
      then show ?thesis using in_sync_replace [OF sync fin, of ?r] fin by (intro that) (simp_all add: finished_def)
    next
      case (Cons row rest)
      let ?r = "r\<lparr>rs_cursor := rest, rs_current := Some row\<rparr>"
      have "mysql_fetch_row lk m r = Some (m, ?r, Some row)" using rows Cons by (simp add: mysql_fetch_row_def)
      then show ?thesis using in_sync_replace [OF sync fin, of ?r] fin by (intro that) (simp_all add: finished_def)
    qed
  next
    case 2
    then show ?thesis using sync by (intro that [of m r None]) (simp_all add: mysql_fetch_row_def)
  next
    case 3
    then have unfin: "\<not> finished r" by (simp add: finished_def)
    obtain ps where m: "usable m" "my_status m = MYSQL_STATUS_USE_RESULT" "unread (my_net m) ps" "open_result r ps"
      "pending a = []" "pending b = []"
      by (rule in_sync_pending [OF sync unfin])
    obtain rs e where ps: "ps = map encode_row rs @ [e]" "list_all (row_ok (rs_field_count r)) rs" "is_eof e \<or> is_err e"
      "0 < rs_field_count r"
      using m(4) by (auto simp: open_result_def rows_reply_def)
    show ?thesis
    proof (cases rs)
      case Nil
      have un: "unread (my_net m) [e]" using m(3) ps(1) Nil by simp
      obtain m1 f where f: "read_one_row lk m (rs_field_count r) = Some (m1, f)" "f \<in> {End_of_data, Fetch_error}" "settled m m1"
        by (rule read_end [OF m(1) un ps(3)])
      obtain m' r' where e: "end_fetch m1 r = (m', r')" by fastforce
      have "mysql_fetch_row lk m r = Some (m', r', None)"
        using 3 m(2) f(1,2) e by (auto simp: mysql_fetch_row_def)
      moreover have "in_sync unread m' (a @ r' # b)"
        using e f(3) m(1,5,6)
        by (intro in_syncI [of m' "[]"])
          (auto simp: end_fetch_def settled_def usable_def consistent_def pending_Cons finished_def touched_fields)
      ultimately show ?thesis by (rule that)
    next
      case (Cons s rs')
      have un: "unread (my_net m) (encode_row s # map encode_row rs' @ [e])" using m(3) ps(1) Cons by simp
      have ok: "row_ok (rs_field_count r) s" "rows_reply (rs_field_count r) (map encode_row rs' @ [e])"
        using ps Cons by (auto simp: rows_reply_def)
      obtain m' row where row: "read_one_row lk m (rs_field_count r) = Some (m', Row row (cell_lens s))" "touched m m'" "usable m'"
        "unread (my_net m') (map encode_row rs' @ [e])"
        by (rule read_row [OF m(1) un ok(1) ps(4)])
      let ?r = "r\<lparr>rs_row_count := rs_row_count r + 1, rs_current := Some row, rs_lengths := cell_lens s\<rparr>"
      have "mysql_fetch_row lk m r = Some (m', ?r, Some row)"
        using 3 m(2) row(1) by (simp add: mysql_fetch_row_def)
      moreover have "in_sync unread m' (a @ ?r # b)"
        using row(3,4) m(2,4-6) ok(2) touched_fields(2) [OF row(2)]
        by (intro in_syncI) (auto simp: consistent_def pending_Cons finished_def open_result_def)
      ultimately show ?thesis by (rule that)
    qed
  qed
qed

lemma flush_ok:
  "my_open m \<Longrightarrow> my_protocol_41 m \<Longrightarrow> unread (my_net m) (map encode_row rs @ [e]) \<Longrightarrow> list_all (row_ok k) rs \<Longrightarrow> 0 < k \<Longrightarrow>
   is_eof e \<or> is_err e \<Longrightarrow> \<exists>m'. flush_loop lk m = Some m' \<and> settled m m'"
proof (induction rs arbitrary: m)
  case Nil
  show ?case
  proof (cases "is_err e")
    case True
    obtain m' where "cli_safe_read lk m = Some (m', None)" "settled m m'"
      by (rule safe_read_settled [OF Nil.prems(1) _ True]) (use Nil.prems(3) in simp)
    then show ?thesis by (simp add: flush_loop.simps [of lk m])
  next
    case False
    then obtain w s where e: "e = eof_packet w s" "s AND 8 = 0" using Nil.prems(6) by (auto simp: is_eof_def)
    have un: "unread (my_net m) (eof_packet w s # [])" using Nil.prems(3) e(1) by simp
    obtain n where n: "cli_safe_read lk m = Some (m\<lparr>my_net := n\<rparr>, Some (length (eof_packet w s)))"
      "current (m\<lparr>my_net := n\<rparr>) (eof_packet w s) []"
      by (rule safe_read [OF Nil.prems(1) un plain_eof(1)])
    obtain stale where buf: "lk_buf lk n = eof_packet w s @ 0 # stale" "unread n []"
      using n(2) by (auto simp: current_def)
    let ?m' = "m\<lparr>my_net := n, my_warning_count := unat w, my_server_status := ucast s\<rparr>"
    have "flush_loop lk m = Some ?m'"
      using n(1) eof_status_packet [OF n(2)] plain_eof(2) [of w s] Nil.prems(2)
      by (simp add: flush_loop.simps [of lk m] buf(1) eof_packet_def [of w s])
    moreover have "settled m ?m'" using buf(2) e(2) by (simp add: settled_def touchedI more_results_def quiet)
    ultimately show ?thesis by blast
  qed
next
  case (Cons r rs)
  have ok: "row_ok k r" "list_all (row_ok k) rs" using Cons.prems(4) by simp_all
  have un: "unread (my_net m) (encode_row r # map encode_row rs @ [e])" using Cons.prems(3) by simp
  obtain n stale where n: "cli_safe_read lk m = Some (m\<lparr>my_net := n\<rparr>, Some (length (encode_row r)))"
    "lk_buf lk n = encode_row r @ 0 # stale" "unread n (map encode_row rs @ [e])"
    by (rule first_packet [OF Cons.prems(1) un plain_row [OF ok(1) Cons.prems(5)]])
  have first: "encode_row r \<noteq> []" "hd (encode_row r) \<noteq> 254" using row_ok_plain [OF ok(1) Cons.prems(5)] by auto
  have "flush_loop lk m = flush_loop lk (m\<lparr>my_net := n\<rparr>)"
    using n(1,2) first by (cases "encode_row r") (simp_all add: flush_loop.simps [of lk m])
  moreover obtain m' where "flush_loop lk (m\<lparr>my_net := n\<rparr>) = Some m'" "settled (m\<lparr>my_net := n\<rparr>) m'"
    using Cons.IH [of "m\<lparr>my_net := n\<rparr>"] Cons.prems n(3) ok(2) by auto
  ultimately show ?case using settled_trans [OF touched_net] by auto
qed

lemma free_in_sync:
  assumes sync: "in_sync unread m (a @ r # b)"
  obtains m' where "mysql_free_result lk m r = Some m'" "in_sync unread m' (a @ b)"
proof (cases "rs_handle r")
  case False
  then have fin: "finished r"
    using in_sync_pending [OF sync] by (auto simp: open_result_def)
  have "in_sync unread m (a @ b)"
    using sync fin by (cases "my_status m") (simp_all add: in_sync_def consistent_def pending_Cons, simp_all add: pending_def)
  then show ?thesis using that False by (simp add: mysql_free_result_def)
next
  case True
  then have unfin: "\<not> finished r" by (simp add: finished_def)
  obtain ps where m: "usable m" "my_status m = MYSQL_STATUS_USE_RESULT" "unread (my_net m) ps" "open_result r ps"
    "pending a = []" "pending b = []"
    by (rule in_sync_pending [OF sync unfin])
  obtain rs e where ps: "ps = map encode_row rs @ [e]" "list_all (row_ok (rs_field_count r)) rs" "is_eof e \<or> is_err e"
    "0 < rs_field_count r"
    using m(4) by (auto simp: open_result_def rows_reply_def)
  define m1 where "m1 = (if my_fetch_owner m = Some (rs_id r) then m\<lparr>my_fetch_owner := None\<rparr> else m)"
  have m1: "my_open m1" "my_protocol_41 m1" "my_net m1 = my_net m" "my_status m1 = MYSQL_STATUS_USE_RESULT"
    using m(1,2) by (auto simp: m1_def usable_def)
  obtain m2 where m2: "flush_loop lk m1 = Some m2" "settled m1 m2"
    using flush_ok [OF m1(1,2) _ ps(2,4,3)] m(3) ps(1) m1(3) by auto
  define m' where "m' = (case my_fetch_owner m2 of None \<Rightarrow> m2\<lparr>my_status := MYSQL_STATUS_READY\<rparr>
    | Some i \<Rightarrow> m2\<lparr>my_status := MYSQL_STATUS_READY, my_cancelled := insert i (my_cancelled m2)\<rparr>)"
  have "mysql_free_result lk m r = Some m'"
    using True m2(1) m1(4)
    by (simp add: mysql_free_result_def cli_flush_use_result_def Let_def m'_def m1_def [symmetric] split: option.split)
  moreover have "in_sync unread m' (a @ b)"
  proof (rule in_syncI)
    have t: "touched m1 m2" using m2(2) by (simp add: settled_def)
    show "usable m'" using m2(2) m1(1,2) touched_fields(1,5) [OF t]
      by (auto simp: m'_def usable_def settled_def split: option.split)
    show "unread (my_net m') []" using m2(2) by (auto simp: m'_def settled_def split: option.split)
    show "consistent m' (a @ b) []" using m(5,6) by (auto simp: m'_def consistent_def pending_def split: option.split)
  qed
  ultimately show ?thesis by (rule that)
qed

end

end
