(* ===== verification/ClientRun.thy ===== *)
theory ClientRun
  imports ClientCalls
begin

text \<open>
  Programs over the client: the steps that its calls make, and that a server which answers every command keeps
  them in step; and the rows that a program fetches.
\<close>

section \<open>The rows that a program fetches\<close>

text \<open>\<open>n\<close> calls of \<^verbatim>\<open>mysql_fetch_row\<close> and \<^verbatim>\<open>mysql_fetch_lengths\<close>, and the values that they give.\<close>

fun fetch_rows ::
  "'n link \<Rightarrow> nat \<Rightarrow> 'n MYSQL \<Rightarrow> RES \<Rightarrow> ('n MYSQL \<times> RES \<times> byte list option list option list) option" where
  "fetch_rows lk 0 m res = Some (m, res, [])"
| "fetch_rows lk (Suc n) m res = do {
     (m, res, row) \<leftarrow> mysql_fetch_row lk m res;
     let (res, ls) = mysql_fetch_lengths res;
     (m, res, vs) \<leftarrow> fetch_rows lk n m res;
     Some (m, res, (case row of None \<Rightarrow> None | Some r \<Rightarrow> map_option (row_values (row_mem r) (cols r)) ls) # vs) }"

lemma length_fetch_lengths_loop [simp]: "length (fetch_lengths_loop cs i prv to) = length to"
  by (induction cs i prv to rule: fetch_lengths_loop.induct) (simp_all split: option.split)

lemma length_fetch_lengths [simp]: "length (cli_fetch_lengths to row) = length to"
  by (simp add: cli_fetch_lengths_def)

lemma holds_values:
  assumes "holds row r" "length ls = length r"
  shows "row_values (row_mem row) (cols row) (cli_fetch_lengths ls row) = r"
proof -
  have "cli_fetch_lengths ls row = cell_lens r"
    using assms by (simp add: holds_def) (metis length_fetch_lengths order_refl take_all)
  then show ?thesis using assms by (simp add: holds_def)
qed

text \<open>From a stored result, every row in turn, and no packet is read.\<close>

lemma fetch_stored:
  "rs_rows res \<noteq> None \<Longrightarrow> list_all2 holds (rs_cursor res) rs \<Longrightarrow> length (rs_lengths res) = k \<Longrightarrow>
   \<forall>r \<in> set rs. length r = k \<Longrightarrow> \<exists>res'. fetch_rows lk (Suc (length rs)) m res = Some (m, res', map Some rs @ [None])"
proof (induction rs arbitrary: res)
  case Nil
  then show ?case by (auto simp: mysql_fetch_row_def mysql_fetch_lengths_def)
next
  case (Cons r rs)
  obtain row rows where row: "rs_cursor res = row # rows" "holds row r" "list_all2 holds rows rs"
    using Cons.prems(2) by (auto simp: list_all2_Cons2)
  define res1 where "res1 = res\<lparr>rs_cursor := rows, rs_current := Some row,
     rs_lengths := cli_fetch_lengths (rs_lengths res) row\<rparr>"
  have "\<exists>res'. fetch_rows lk (Suc (length rs)) m res1 = Some (m, res', map Some rs @ [None])"
    by (rule Cons.IH) (use Cons.prems row(3) in \<open>simp_all add: res1_def\<close>)
  then obtain res' where rest: "fetch_rows lk (Suc (length rs)) m res1 = Some (m, res', map Some rs @ [None])" by blast
  have "mysql_fetch_row lk m res = Some (m, res\<lparr>rs_cursor := rows, rs_current := Some row\<rparr>, Some row)"
    using Cons.prems(1) row(1) by (auto simp: mysql_fetch_row_def)
  moreover have "mysql_fetch_lengths (res\<lparr>rs_cursor := rows, rs_current := Some row\<rparr>) =
    (res1, Some (cli_fetch_lengths (rs_lengths res) row))"
    using Cons.prems(1) by (simp add: mysql_fetch_lengths_def res1_def Let_def)
  moreover have "row_values (row_mem row) (cols row) (cli_fetch_lengths (rs_lengths res) row) = r"
    using holds_values [OF row(2)] Cons.prems(3,4) by simp
  ultimately show ?case using rest by (simp del: fetch_rows.simps add: fetch_rows.simps(2) [of lk "Suc (length rs)"])
qed

context packet_link begin

lemma store_rows:
  assumes "usable m" "my_status m = MYSQL_STATUS_GET_RESULT" "my_fields m = Some fs" "length fs = my_field_count m"
    and "0 < my_field_count m" "unread (my_net m) (map encode_row rs @ [eof_packet w s])" "s AND 8 = 0"
    and "list_all (row_ok (my_field_count m)) rs" "alloc_ok 1 alloc" "\<forall>n. alloc n \<noteq> None"
  obtains m1 res where "mysql_store_result lk alloc new_id m = Some (m1, Some res)" "my_status m1 = MYSQL_STATUS_READY"
    "usable m1" "unread (my_net m1) []" "rs_row_count res = length rs"
    "rs_fields res = set_max_lengths fs (Some (fold (\<lambda>r l. maxes l 0 r) rs (map f_max_length fs)))"
    "\<exists>res'. fetch_rows lk (Suc (length rs)) m1 res = Some (m1, res', map Some rs @ [None])"
proof -
  let ?m = "m\<lparr>my_status := MYSQL_STATUS_READY\<rparr>"
  have op: "my_open ?m" and un: "unread (my_net ?m) (map encode_row rs @ eof_packet w s # [])"
    using assms(1,6) by (simp_all add: usable_def)
  obtain n rows where r: "cli_read_rows lk alloc ?m (Some (map f_max_length fs)) (my_field_count m) =
       Some (?m\<lparr>my_net := n, my_warning_count := unat w, my_server_status := ucast s\<rparr>,
             map_option (\<lambda>l. fold (\<lambda>r l. maxes l 0 r) rs l) (Some (map f_max_length fs)), Some rows)"
     "list_all2 holds rows rs" "unread n []"
    by (rule read_rows_ok [OF op un assms(8,5,9,10), of "Some (map f_max_length fs)"]) (simp add: assms(4))
  let ?m1 = "?m\<lparr>my_net := n, my_warning_count := unat w, my_server_status := ucast s,
     my_affected_rows := of_nat (length rows), my_fields := None, my_fetch_owner := None\<rparr>"
  let ?fs = "set_max_lengths fs (Some (fold (\<lambda>r l. maxes l 0 r) rs (map f_max_length fs)))"
  let ?res = "\<lparr>rs_rows = Some rows, rs_cursor = rows, rs_current = None, rs_lengths = replicate (my_field_count m) 0,
     rs_fields = ?fs, rs_field_count = my_field_count m, rs_row_count = length rows,
     rs_eof = True, rs_handle = False, rs_id = new_id\<rparr>"
  have "alloc (8 * my_field_count m) \<noteq> None" using assms(10) by blast
  then have "mysql_store_result lk alloc new_id m = Some (?m1, Some ?res)"
    using assms(2,3) r(1) by (auto simp: mysql_store_result_def Let_def)
  moreover have "\<forall>r \<in> set rs. length r = my_field_count m" using assms(8) by (auto simp: list_all_iff row_ok_def)
  then have "\<exists>res'. fetch_rows lk (Suc (length rs)) ?m1 ?res = Some (?m1, res', map Some rs @ [None])"
    using fetch_stored [of ?res rs "my_field_count m" lk ?m1] r(2) by simp
  moreover have "length rows = length rs" using r(2) list_all2_lengthD by blast
  ultimately show ?thesis
    using that [of ?m1 ?res] r(3) assms(1,7) by (simp add: usable_def more_results_def quiet)
qed

lemma fetch_used:
  "usable m \<Longrightarrow> my_status m = MYSQL_STATUS_USE_RESULT \<Longrightarrow> rs_rows res = None \<Longrightarrow> \<not> rs_eof res \<Longrightarrow>
   0 < rs_field_count res \<Longrightarrow>
   unread (my_net m) (map encode_row rs @ [eof_packet w s]) \<Longrightarrow> s AND 8 = 0 \<Longrightarrow> list_all (row_ok (rs_field_count res)) rs \<Longrightarrow>
   \<exists>m' res'. fetch_rows lk (Suc (length rs)) m res = Some (m', res', map Some rs @ [None]) \<and> usable m' \<and>
     my_status m' = MYSQL_STATUS_READY \<and> unread (my_net m') []"
proof (induction rs arbitrary: m res)
  case Nil
  have e: "is_eof (eof_packet w s)" using Nil.prems(7) by (auto simp: is_eof_def)
  have un: "unread (my_net m) [eof_packet w s]" using Nil.prems(6) by simp
  obtain m1 f where f: "read_one_row lk m (rs_field_count res) = Some (m1, f)" "settled m m1" "f = End_of_data"
    using read_end [OF Nil.prems(1) un, of "rs_field_count res"] e by metis
  obtain m' res' where en: "end_fetch m1 res = (m', res')" by fastforce
  have "mysql_fetch_row lk m res = Some (m', res', None)"
    using Nil.prems(2,3,4) f(1,3) en by (simp add: mysql_fetch_row_def)
  moreover have "usable m'" "my_status m' = MYSQL_STATUS_READY" "unread (my_net m') []"
    using en f(2) Nil.prems(1) by (auto simp: end_fetch_def settled_def usable_def touched_fields)
  ultimately show ?case by (auto split: prod.split)
next
  case (Cons r rs)
  have ok: "row_ok (rs_field_count res) r" using Cons.prems(8) by simp
  have un: "unread (my_net m) (encode_row r # map encode_row rs @ [eof_packet w s])" using Cons.prems(6) by simp
  obtain m1 row where row: "read_one_row lk m (rs_field_count res) = Some (m1, Row row (cell_lens r))" "touched m m1" "usable m1"
    "unread (my_net m1) (map encode_row rs @ [eof_packet w s])" "row_values (row_mem row) (cols row) (cell_lens r) = r"
    by (rule read_row [OF Cons.prems(1) un ok Cons.prems(5)])
  define res1 where "res1 = res\<lparr>rs_row_count := rs_row_count res + 1, rs_current := Some row, rs_lengths := cell_lens r\<rparr>"
  have "\<exists>m' res'. fetch_rows lk (Suc (length rs)) m1 res1 = Some (m', res', map Some rs @ [None]) \<and> usable m' \<and>
     my_status m' = MYSQL_STATUS_READY \<and> unread (my_net m') []"
    by (rule Cons.IH) (use row(2,3,4) Cons.prems in \<open>simp_all add: res1_def touched_fields\<close>)
  then obtain m' res' where rest: "fetch_rows lk (Suc (length rs)) m1 res1 = Some (m', res', map Some rs @ [None])"
    "usable m'" "my_status m' = MYSQL_STATUS_READY" "unread (my_net m') []" by blast
  have "mysql_fetch_row lk m res = Some (m1, res1, Some row)"
    using Cons.prems(2-4) row(1) by (simp add: mysql_fetch_row_def res1_def)
  moreover have "mysql_fetch_lengths res1 = (res1, Some (cell_lens r))"
    using Cons.prems(3) by (simp add: mysql_fetch_lengths_def res1_def Let_def)
  ultimately have "fetch_rows lk (Suc (length (r # rs))) m res = Some (m', res', map Some (r # rs) @ [None])"
    using rest(1) row(5) by (simp del: fetch_rows.simps add: fetch_rows.simps(2) [of lk "Suc (length rs)"])
  then show ?case using rest by blast
qed

text \<open>The two ways to take a result give the same rows.\<close>

lemma store_or_use:
  assumes "usable m" "my_status m = MYSQL_STATUS_GET_RESULT" "my_fields m = Some fs" "length fs = my_field_count m"
    and "0 < my_field_count m" "unread (my_net m) (map encode_row rs @ [eof_packet w s])" "s AND 8 = 0"
    and "list_all (row_ok (my_field_count m)) rs" "alloc_ok 1 alloc" "\<forall>n. alloc n \<noteq> None"
    and take: "take_result \<in> {mysql_store_result lk alloc new_id, cli_use_result lk alloc new_id}"
  obtains m1 res m2 res2 where "take_result m = Some (m1, Some res)"
    "fetch_rows lk (Suc (length rs)) m1 res = Some (m2, res2, map Some rs @ [None])"
    "usable m2" "my_status m2 = MYSQL_STATUS_READY" "unread (my_net m2) []"
proof (cases "take_result = mysql_store_result lk alloc new_id")
  case True
  obtain m1 res where st: "mysql_store_result lk alloc new_id m = Some (m1, Some res)" "my_status m1 = MYSQL_STATUS_READY"
    "usable m1" "unread (my_net m1) []"
    "\<exists>res'. fetch_rows lk (Suc (length rs)) m1 res = Some (m1, res', map Some rs @ [None])"
    by (rule store_rows [OF assms(1-10)])
  then show ?thesis using that True by blast
next
  case False
  then have tk: "take_result = cli_use_result lk alloc new_id" using take by blast
  let ?m1 = "m\<lparr>my_fields := None, my_status := MYSQL_STATUS_USE_RESULT, my_fetch_owner := Some new_id\<rparr>"
  let ?res = "\<lparr>rs_rows = None, rs_cursor = [], rs_current = None, rs_lengths = replicate (my_field_count m) 0,
     rs_fields = fs, rs_field_count = my_field_count m, rs_row_count = 0, rs_eof = False,
     rs_handle = True, rs_id = new_id\<rparr>"
  have "take_result m = Some (?m1, Some ?res)" using assms(2,3,10) by (simp add: tk cli_use_result_def)
  moreover obtain m2 res2 where "fetch_rows lk (Suc (length rs)) ?m1 ?res = Some (m2, res2, map Some rs @ [None])"
    "usable m2" "my_status m2 = MYSQL_STATUS_READY" "unread (my_net m2) []"
    using fetch_used [of ?m1 ?res rs w s] assms(1,5-8) by (auto simp: usable_def)
  ultimately show ?thesis by (rule that)
qed

end

lemma net_clear_error_simps [simp]:
  "my_net (net_clear_error lk m) = lk_set_errno lk (my_net m) 0" "my_status (net_clear_error lk m) = my_status m"
  "my_open (net_clear_error lk m) = my_open m" "my_protocol_41 (net_clear_error lk m) = my_protocol_41 m"
  "my_server_status (net_clear_error lk m) = my_server_status m" "my_fields (net_clear_error lk m) = my_fields m"
  "my_field_count (net_clear_error lk m) = my_field_count m" "more_results (net_clear_error lk m) = more_results m"
  by (simp_all add: net_clear_error_def more_results_def)

section \<open>Steps\<close>

text \<open>
  The calls of a program that owns a connection and results, which are numbered in the order of their creation.
\<close>

datatype call =
  Query "byte list"
| Next_result
| Store_result nat
| Use_result nat
| Fetch_row nat
| Fetch_lengths nat
| Data_seek nat nat
| Free_result nat

inductive client_step :: "'n link \<Rightarrow> byte alloc \<Rightarrow> 'n MYSQL \<times> RES list \<Rightarrow> call \<Rightarrow> 'n MYSQL \<times> RES list \<Rightarrow> bool"
  for lk alloc where
  Query: "mysql_real_query lk alloc m q = Some (m', f) \<Longrightarrow> client_step lk alloc (m, results) (Query q) (m', results)"
| Next_result: "mysql_next_result lk alloc m = Some (m', f) \<Longrightarrow>
    client_step lk alloc (m, results) Next_result (m', results)"
| Store_result: "mysql_store_result lk alloc i m = Some (m', r) \<Longrightarrow>
    client_step lk alloc (m, results) (Store_result i) (m', results @ (case r of None \<Rightarrow> [] | Some x \<Rightarrow> [x]))"
| Use_result: "cli_use_result lk alloc i m = Some (m', r) \<Longrightarrow>
    client_step lk alloc (m, results) (Use_result i) (m', results @ (case r of None \<Rightarrow> [] | Some x \<Rightarrow> [x]))"
| Fetch_row: "mysql_fetch_row lk m r = Some (m', r', row) \<Longrightarrow>
    client_step lk alloc (m, a @ r # b) (Fetch_row (length a)) (m', a @ r' # b)"
| Fetch_lengths: "client_step lk alloc (m, a @ r # b) (Fetch_lengths (length a)) (m, a @ fst (mysql_fetch_lengths r) # b)"
| Data_seek: "client_step lk alloc (m, a @ r # b) (Data_seek (length a) k) (m, a @ mysql_data_seek r k # b)"
| Free_result: "mysql_free_result lk m r = Some m' \<Longrightarrow>
    client_step lk alloc (m, a @ r # b) (Free_result (length a)) (m', a @ b)"

text \<open>\<open>client_run\<close>: a program's calls in order.\<close>

inductive client_run :: "'n link \<Rightarrow> byte alloc \<Rightarrow> 'n MYSQL \<times> RES list \<Rightarrow> call list \<Rightarrow> 'n MYSQL \<times> RES list \<Rightarrow> bool"
  for lk alloc where
  Done: "client_run lk alloc s [] s"
| Call: "client_run lk alloc s cs s1 \<Longrightarrow> client_step lk alloc s1 c s2 \<Longrightarrow> client_run lk alloc s (cs @ [c]) s2"

text \<open>The calls that C allows: a result is there.  \<open>qmax\<close> bounds the length of a query.\<close>

definition allowed :: "nat \<Rightarrow> nat \<Rightarrow> call \<Rightarrow> bool" where
  "allowed qmax k c \<longleftrightarrow>
     (case c of Query q \<Rightarrow> length q \<le> qmax | Fetch_row i \<Rightarrow> i < k | Fetch_lengths i \<Rightarrow> i < k | Data_seek i n \<Rightarrow> i < k
      | Free_result i \<Rightarrow> i < k | _ \<Rightarrow> True)"

definition queries :: "call list \<Rightarrow> nat" where
  "queries cs = length (filter (\<lambda>c. case c of Query q \<Rightarrow> True | _ \<Rightarrow> False) cs)"

definition short_queries :: "nat \<Rightarrow> call list \<Rightarrow> bool" where
  "short_queries qmax cs \<longleftrightarrow> list_all (\<lambda>c. case c of Query q \<Rightarrow> length q \<le> qmax | _ \<Rightarrow> True) cs"

inductive_cases client_stepE: "client_step lk alloc s c s'"
inductive_cases client_queryE: "client_step lk alloc s (Query q) s'"

section \<open>A server that answers\<close>

text \<open>
  \<open>talks n ps rs\<close>: the packets \<open>ps\<close> are to come, and \<open>rs\<close> are the replies that the server will give to the
  commands to come, in order, the queries of which are at most \<open>qmax\<close> long.
\<close>

locale server_link =
  fixes lk :: "'n link"
    and talks :: "'n \<Rightarrow> byte list list \<Rightarrow> byte list list list \<Rightarrow> bool"
    and qmax :: nat
  assumes talks_read: "talks n (p # ps) rs \<Longrightarrow>
      \<exists>n' stale. lk_read lk n = Some (n', Some (length p)) \<and> lk_buf lk n' = p @ 0 # stale \<and> talks n' ps rs"
    and talks_put: "talks n ps rs \<Longrightarrow> length b = length (lk_buf lk n) \<Longrightarrow> talks (lk_put lk n b) ps rs"
    and talks_errno: "talks n ps rs \<Longrightarrow> talks (lk_set_errno lk n e) ps rs"
    and errno_buf: "lk_buf lk (lk_set_errno lk n e) = lk_buf lk n"
    and talks_command: "talks n [] (r # rs) \<Longrightarrow> length q \<le> qmax \<Longrightarrow>
      \<exists>n'. lk_command lk n COM_QUERY [] q = Some (n', False) \<and> talks n' r rs"

sublocale server_link \<subseteq> link: packet_link lk "\<lambda>n ps. talks n ps rs" for rs
  by unfold_locales (fact talks_read talks_put talks_errno errno_buf)+

text \<open>In step, with \<open>k\<close> commands that the server will answer.\<close>

definition served :: "('n \<Rightarrow> byte list list \<Rightarrow> byte list list list \<Rightarrow> bool) \<Rightarrow> nat \<Rightarrow> 'n MYSQL \<times> RES list \<Rightarrow> bool" where
  "served talks k s \<longleftrightarrow>
     (\<exists>rs. k \<le> length rs \<and> list_all query_reply rs \<and> in_sync (\<lambda>n ps. talks n ps rs) (fst s) (snd s))"

lemma served_less: "served talks k s \<Longrightarrow> j \<le> k \<Longrightarrow> served talks j s"
  using le_trans unfolding served_def by blast

lemma finished_lengths [simp]: "finished (fst (mysql_fetch_lengths r)) = finished r"
  "open_result (fst (mysql_fetch_lengths r)) ps = open_result r ps"
  by (auto simp: mysql_fetch_lengths_def finished_def open_result_def Let_def split: option.split)

lemma finished_seek [simp]: "finished (mysql_data_seek r k) = finished r"
  "open_result (mysql_data_seek r k) ps = open_result r ps"
  by (simp_all add: mysql_data_seek_def finished_def open_result_def)

lemma in_sync_like:
  assumes "in_sync unread m (a @ r # b)" "finished r' = finished r" "\<And>ps. open_result r' ps = open_result r ps"
  shows "in_sync unread m (a @ r' # b)"
proof -
  have p: "pending (a @ r # b) = pending a @ (if finished r then [] else [r]) @ pending b" for r
    by (simp add: pending_def)
  show ?thesis
    using assms by (cases "my_status m"; cases "pending a"; cases "pending b") (auto simp: in_sync_def consistent_def p)
qed

lemma at_index:
  assumes "i < length xs"
  obtains a r b where "xs = a @ r # b" "length a = i"
  using id_take_nth_drop [OF assms] assms by (intro that [of "take i xs"]) auto

context server_link begin

text \<open>A query is refused, or sent and answered.\<close>

lemma query_served:
  assumes sv: "served talks (Suc k) (m, results)" and q: "length q \<le> qmax"
    and al: "alloc_ok 1 alloc" "\<forall>n. alloc n \<noteq> None"
  obtains m' f where "mysql_real_query lk alloc m q = Some (m', f)" "served talks k (m', results)"
proof -
  obtain r rs where rs: "k \<le> length rs" "query_reply r" "list_all query_reply rs"
    and sync: "in_sync (\<lambda>n ps. talks n ps (r # rs)) m results"
    using sv unfolding served_def by (auto simp: Suc_le_length_iff)
  have us: "my_open m" "\<not> more_results m" using sync by (auto simp: in_sync_def usable_def)
  show ?thesis
  proof (cases "my_status m = MYSQL_STATUS_READY")
    case False
    let ?m = "set_mysql_error lk m CR_COMMANDS_OUT_OF_SYNC"
    have "mysql_real_query lk alloc m q = Some (?m, True)"
      using us False by (simp add: mysql_real_query_def mysql_send_query_def cli_advanced_command_def)
    moreover have "served talks k (?m, results)"
      using link.in_sync_error [OF sync] rs by (auto simp: served_def intro!: exI [of _ "r # rs"])
    ultimately show ?thesis by (rule that)
  next
    case True
    have un: "talks (my_net m) [] (r # rs)" "usable m" "pending results = []"
      using sync True by (auto simp: in_sync_def consistent_def)
    let ?m = "(net_clear_error lk m)\<lparr>my_info := None, my_affected_rows := NOT 0\<rparr>"
    obtain n where n: "lk_command lk (my_net ?m) COM_QUERY [] q = Some (n, False)" "talks n r rs"
      using talks_command [OF talks_errno [OF un(1)] q, of 0] by auto
    let ?m1 = "?m\<lparr>my_net := n\<rparr>"
    have sent: "mysql_send_query lk m q = Some (?m1, False)"
      using us True n(1) by (simp add: mysql_send_query_def cli_advanced_command_def)
    have "usable ?m1" using un(2) by (simp add: usable_def)
    then obtain m' f where m': "cli_read_query_result lk alloc ?m1 = Some (m', f)" "in_sync (\<lambda>n ps. talks n ps rs) m' results"
      using link.query_in_sync [where m = ?m1 and rs = rs and ps = r and results = results and alloc = alloc]
        True n(2) rs(2) un(3) al by auto
    show ?thesis
      by (rule that [of m' f]) (use sent m' rs in \<open>auto simp: mysql_real_query_def served_def intro!: exI [of _ rs]\<close>)
  qed
qed

lemma next_served:
  assumes sv: "served talks k (m, results)"
  obtains m' f where "mysql_next_result lk alloc m = Some (m', f)" "served talks k (m', results)"
proof -
  obtain rs where rs: "k \<le> length rs" "list_all query_reply rs" and sync: "in_sync (\<lambda>n ps. talks n ps rs) m results"
    using sv unfolding served_def by auto
  have us: "\<not> more_results m" using sync by (auto simp: in_sync_def usable_def)
  show ?thesis
  proof (cases "my_status m = MYSQL_STATUS_READY")
    case False
    then show ?thesis
      using link.in_sync_error [OF sync] rs
      by (intro that) (auto simp: mysql_next_result_def served_def intro!: exI [of _ rs])
  next
    case True
    let ?m = "(net_clear_error lk m)\<lparr>my_affected_rows := NOT 0\<rparr>"
    have "in_sync (\<lambda>n ps. talks n ps rs) ?m results"
      using sync True talks_errno by (auto simp: in_sync_def consistent_def usable_def)
    then show ?thesis
      using rs True us by (intro that [of ?m "-1"]) (auto simp: mysql_next_result_def served_def intro!: exI [of _ rs])
  qed
qed

text \<open>Every call that C allows is defined, and keeps the connection in step.\<close>

lemma step_served:
  assumes sv: "served talks (k + queries [c]) (m, results)" and ok: "allowed qmax (length results) c"
    and al: "alloc_ok 1 alloc" "\<forall>n. alloc n \<noteq> None"
  obtains s' where "client_step lk alloc (m, results) c s'" "served talks k s'"
proof -
  obtain rs where rs: "k + queries [c] \<le> length rs" "list_all query_reply rs"
    and sync: "in_sync (\<lambda>n ps. talks n ps rs) m results"
    using sv unfolding served_def by auto
  have sI: "served talks k (m', results')" if "in_sync (\<lambda>n ps. talks n ps rs) m' results'" for m' results'
    using that rs unfolding served_def by (intro exI [of _ rs]) simp
  show ?thesis
  proof (cases c)
    case (Query q)
    then have "served talks (Suc k) (m, results)" "length q \<le> qmax" using sv ok by (simp_all add: queries_def allowed_def)
    then obtain m' f where "mysql_real_query lk alloc m q = Some (m', f)" "served talks k (m', results)"
      using query_served [OF _ _ al] by metis
    then show ?thesis using that client_step.Query Query by metis
  next
    case Next_result
    then have "served talks k (m, results)" using sv by (simp add: queries_def)
    then obtain m' f where "mysql_next_result lk alloc m = Some (m', f)" "served talks k (m', results)"
      using next_served by metis
    then show ?thesis using that client_step.Next_result Next_result by metis
  next
    case (Store_result i)
    obtain m' r where "mysql_store_result lk alloc i m = Some (m', r)"
      "in_sync (\<lambda>n ps. talks n ps rs) m' (results @ (case r of None \<Rightarrow> [] | Some x \<Rightarrow> [x]))"
      by (rule link.store_in_sync [OF sync al])
    then show ?thesis using that client_step.Store_result sI Store_result by metis
  next
    case (Use_result i)
    obtain m' r where "cli_use_result lk alloc i m = Some (m', r)"
      "in_sync (\<lambda>n ps. talks n ps rs) m' (results @ (case r of None \<Rightarrow> [] | Some x \<Rightarrow> [x]))"
      by (rule link.use_in_sync [OF sync al(2)])
    then show ?thesis using that client_step.Use_result sI Use_result by metis
  next
    case (Fetch_row i)
    then have "i < length results" using ok by (simp add: allowed_def)
    then obtain a r b where r: "results = a @ r # b" "length a = i" by (rule at_index)
    obtain m' r' row where "mysql_fetch_row lk m r = Some (m', r', row)" "in_sync (\<lambda>n ps. talks n ps rs) m' (a @ r' # b)"
      by (rule link.fetch_in_sync [OF sync [unfolded r(1)]])
    then show ?thesis using that client_step.Fetch_row sI Fetch_row r by metis
  next
    case (Fetch_lengths i)
    then have "i < length results" using ok by (simp add: allowed_def)
    then obtain a r b where r: "results = a @ r # b" "length a = i" by (rule at_index)
    have "in_sync (\<lambda>n ps. talks n ps rs) m (a @ fst (mysql_fetch_lengths r) # b)"
      by (rule in_sync_like [OF sync [unfolded r(1)]]) simp_all
    then show ?thesis using that client_step.Fetch_lengths sI Fetch_lengths r by metis
  next
    case (Data_seek i n)
    then have "i < length results" using ok by (simp add: allowed_def)
    then obtain a r b where r: "results = a @ r # b" "length a = i" by (rule at_index)
    have "in_sync (\<lambda>n ps. talks n ps rs) m (a @ mysql_data_seek r n # b)"
      by (rule in_sync_like [OF sync [unfolded r(1)]]) simp_all
    then show ?thesis using that client_step.Data_seek sI Data_seek r by metis
  next
    case (Free_result i)
    then have "i < length results" using ok by (simp add: allowed_def)
    then obtain a r b where r: "results = a @ r # b" "length a = i" by (rule at_index)
    obtain m' where "mysql_free_result lk m r = Some m'" "in_sync (\<lambda>n ps. talks n ps rs) m' (a @ b)"
      by (rule link.free_in_sync [OF sync [unfolded r(1)]])
    then show ?thesis using that client_step.Free_result sI Free_result r by metis
  qed
qed

text \<open>What a step leads to is determined.\<close>

lemma client_step_unique:
  "client_step lk' alloc s c s1 \<Longrightarrow> client_step lk' alloc s c s2 \<Longrightarrow> s1 = s2"
  by (erule client_step.cases; erule client_step.cases) auto

lemma client_step_allowed:
  "client_step lk' alloc (m, results) c s1 \<Longrightarrow> short_queries qmax [c] \<Longrightarrow> allowed qmax (length results) c"
  by (erule client_step.cases) (auto simp: allowed_def short_queries_def)

lemma run_served:
  assumes "client_run lk alloc s cs s'" "served talks (k + queries cs) s" "short_queries qmax cs"
    and al: "alloc_ok 1 alloc" "\<forall>n. alloc n \<noteq> None"
  shows "served talks k s'"
  using assms(1-3)
proof (induction arbitrary: k rule: client_run.induct)
  case (Done s)
  then show ?case by (simp add: queries_def)
next
  case (Call s cs s1 c s2)
  have q: "queries (cs @ [c]) = queries cs + queries [c]" by (simp add: queries_def)
  have short: "short_queries qmax cs" "short_queries qmax [c]" using Call.prems(2) by (simp_all add: short_queries_def)
  obtain m results where s1: "s1 = (m, results)" by fastforce
  have sv: "served talks (k + queries [c]) (m, results)"
    unfolding s1 [symmetric] by (rule Call.IH) (use Call.prems(1) short(1) q in \<open>simp_all add: ac_simps\<close>)
  obtain s3 where "client_step lk alloc (m, results) c s3" "served talks k s3"
    by (rule step_served [OF sv client_step_allowed [OF Call.hyps(2) [unfolded s1] short(2)] al])
  then have "client_step lk alloc s1 c s3" "served talks k s3" unfolding s1 by blast+
  then show ?case using client_step_unique [OF Call.hyps(2)] by blast
qed

text \<open>From the query to the rows.\<close>

lemma query_fetch:
  assumes "usable m" "my_status m = MYSQL_STATUS_READY" "length q \<le> qmax" "alloc_ok 1 alloc" "\<forall>n. alloc n \<noteq> None"
    and t: "talks (my_net m) []
      ((header_packet k # map encode_row fds @ eof_packet w s # map encode_row rs @ [eof_packet w' s']) # replies)"
    and "s AND 8 = 0" "s' AND 8 = 0" "0 < k" "k < 16777216" "length fds = k" "list_all (row_ok 7) fds"
      "list_all2 describes fds fs" "list_all (row_ok k) rs"
    and take: "take_result \<in> {mysql_store_result lk alloc new_id, cli_use_result lk alloc new_id}"
  obtains m1 m2 res m3 res3 where "mysql_real_query lk alloc m q = Some (m1, False)" "my_fields m1 = Some fs"
    "take_result m1 = Some (m2, Some res)"
    "fetch_rows lk (Suc (length rs)) m2 res = Some (m3, res3, map Some rs @ [None])"
    "usable m3" "my_status m3 = MYSQL_STATUS_READY" "talks (my_net m3) [] replies"
proof -
  let ?m = "(net_clear_error lk m)\<lparr>my_info := None, my_affected_rows := NOT 0\<rparr>"
  let ?reply = "header_packet k # map encode_row fds @ eof_packet w s # map encode_row rs @ [eof_packet w' s']"
  obtain n where n: "lk_command lk (my_net ?m) COM_QUERY [] q = Some (n, False)" "talks n ?reply replies"
    using talks_command [OF talks_errno [OF t] assms(3), of 0] by auto
  let ?m1 = "?m\<lparr>my_net := n\<rparr>"
  have sent: "mysql_send_query lk m q = Some (?m1, False)"
    using assms(1,2) n(1) by (simp add: mysql_send_query_def cli_advanced_command_def usable_def)
  have us: "usable ?m1" and un: "talks (my_net ?m1) ?reply replies" using assms(1) n(2) by (simp_all add: usable_def)
  obtain m1 where m1: "cli_read_query_result lk alloc ?m1 = Some (m1, False)" "usable m1"
    "my_status m1 = MYSQL_STATUS_GET_RESULT" "my_fields m1 = Some fs" "my_field_count m1 = k"
    "talks (my_net m1) (map encode_row rs @ [eof_packet w' s']) replies"
    by (rule link.query_rows [OF us un assms(7,9-13,4,5)])
  have fs: "length fs = my_field_count m1" using m1(5) assms(11,13) list_all2_lengthD by metis
  obtain m2 res m3 res3 where r: "take_result m1 = Some (m2, Some res)"
    "fetch_rows lk (Suc (length rs)) m2 res = Some (m3, res3, map Some rs @ [None])"
    "usable m3" "my_status m3 = MYSQL_STATUS_READY" "talks (my_net m3) [] replies"
    by (rule link.store_or_use [OF m1(2,3,4) fs _ m1(6) assms(8) _ assms(4,5) take]) (use m1(5) assms(9,14) in simp_all)
  have "mysql_real_query lk alloc m q = Some (m1, False)" using sent m1(1) by (simp add: mysql_real_query_def)
  then show ?thesis using r m1(4) by (intro that)
qed

end

end
