(* ===== verification/NetWrite.thy ===== *)
theory NetWrite
  imports NetRead
begin

text \<open>
  What \<^verbatim>\<open>my_net_write\<close>, \<^verbatim>\<open>net_write_command\<close> and \<^verbatim>\<open>net_flush\<close> of \<^verbatim>\<open>MySQL/net_serv.cc\<close> send, and the
  properties of the packet layer as a whole.
\<close>

section \<open>Writing a message\<close>

text \<open>What has been sent or waits in the buffer, and the invariant of the writer.\<close>

definition sent :: "NET \<Rightarrow> byte list" where
  "sent net = outp (vio net) @ take (write_pos net) (buff net)"

definition write_ok :: "NET \<Rightarrow> bool" where
  "write_ok net \<longleftrightarrow> write_pos net \<le> max_packet net \<and> max_packet net \<le> length (buff net)"

text \<open>The socket takes what is in the buffer and \<open>n\<close> more bytes.\<close>

definition ready :: "NET \<Rightarrow> nat \<Rightarrow> bool" where
  "ready net n \<longleftrightarrow> net_error net \<noteq> 2 \<and> steady (script (vio net)) \<and> write_pos net + n \<le> length (script (vio net))"

text \<open>The outcome of \<^verbatim>\<open>net_real_write\<close>.\<close>

definition pushed :: "NET \<Rightarrow> byte list \<Rightarrow> NET \<Rightarrow> bool \<Rightarrow> bool" where
  "pushed net p net' failed \<longleftrightarrow>
     (\<exists>v e l. net' = net\<lparr>vio := v, net_error := e, last_errno := l\<rparr> \<and>
        (\<not> failed \<longrightarrow> outp v = outp (vio net) @ p \<and> e = net_error net) \<and> (\<exists>t. outp v = outp (vio net) @ t)) \<and>
     (steady (script (vio net)) \<and> length p \<le> length (script (vio net)) \<longrightarrow>
        \<not> failed \<and> steady (script (vio net')) \<and> length (script (vio net)) \<le> length (script (vio net')) + length p)"

lemma vio_write_Inl:
  assumes "vio_write v p = (Inl n, v')"
  obtains k rs where "script v = Bytes k # rs" "0 < n" "n \<le> length p"
    "v' = v\<lparr>script := rs, outp := outp v @ take n p\<rparr>"
proof -
  obtain k rs where k: "script v = Bytes k # rs" "min k (length p) \<noteq> 0" "n = min k (length p)"
    "v' = v\<lparr>script := rs, outp := outp v @ take n p\<rparr>"
    using assms by (auto simp: vio_write_def next_result_def Let_def split: list.splits vio_result.splits if_splits)
  then show ?thesis by (intro that [of k rs]) (auto simp: min_def split: if_splits)
qed

lemma vio_write_Inr:
  assumes "vio_write v p = (Inr r, v')" "p \<noteq> []"
  shows "\<exists>rs. v' = v\<lparr>script := rs\<rparr>" "\<not> (steady (script v) \<and> script v \<noteq> [])"
  using assms
  by (auto simp: vio_write_def next_result_def Let_def steady_Cons min_def
      split: vio_result.splits if_splits list.splits intro: exI [of _ "[]"])

lemma pushed_idle:
  assumes "pushed (net\<lparr>vio := (vio net)\<lparr>script := rs\<rparr>\<rparr>) p net' failed" "p \<noteq> []"
    and "\<not> (steady (script (vio net)) \<and> script (vio net) \<noteq> [])"
  shows "pushed net p net' failed"
  using assms unfolding pushed_def by auto

lemma pushed_failed:
  assumes "net1 = net\<lparr>vio := (vio net)\<lparr>script := rs\<rparr>\<rparr>" "p \<noteq> []"
    and "\<not> (steady (script (vio net)) \<and> script (vio net) \<noteq> [])"
  shows "pushed net p (net1\<lparr>net_error := e, last_errno := l\<rparr>) True"
proof -
  have "\<exists>v e' l'. net1\<lparr>net_error := e, last_errno := l\<rparr> = net\<lparr>vio := v, net_error := e', last_errno := l'\<rparr> \<and>
     (\<exists>t. outp v = outp (vio net) @ t)"
    by (rule exI [of _ "(vio net)\<lparr>script := rs\<rparr>"], rule exI [of _ e], rule exI [of _ l]) (simp add: assms(1))
  then show ?thesis using assms(2,3) unfolding pushed_def by auto
qed

lemma pushed_step:
  assumes w: "vio_write (vio net) p = (Inl n, v)" and rest: "pushed (net\<lparr>vio := v\<rparr>) (drop n p) net' failed"
  shows "pushed net p net' failed"
proof -
  obtain k rs where k: "script (vio net) = Bytes k # rs" "0 < n" "n \<le> length p"
    and v: "v = (vio net)\<lparr>script := rs, outp := outp (vio net) @ take n p\<rparr>"
    by (rule vio_write_Inl [OF w])
  obtain v' e l where net': "net' = net\<lparr>vio := v', net_error := e, last_errno := l\<rparr>"
    and ok: "\<not> failed \<longrightarrow> outp v' = outp (vio net) @ p \<and> e = net_error net"
    and pre: "\<exists>t. outp v' = outp (vio net) @ t"
    using rest by (auto simp: pushed_def v)
  have "\<not> failed \<and> steady (script (vio net')) \<and> length (script (vio net)) \<le> length (script (vio net')) + length p"
    if s: "steady (script (vio net))" "length p \<le> length (script (vio net))"
  proof -
    have "steady rs" "length (script (vio net)) = Suc (length rs)" using s by (auto simp: k(1) steady_Cons)
    moreover from this have "length (drop n p) \<le> length rs" using s(2) k(2) unfolding length_drop by linarith
    ultimately have "\<not> failed \<and> steady (script (vio net')) \<and> length rs \<le> length (script (vio net')) + length (drop n p)"
      using rest by (simp add: pushed_def v)
    moreover from this have "length (script (vio net)) \<le> length (script (vio net')) + length p"
      using \<open>length (script (vio net)) = Suc (length rs)\<close> k(2,3) unfolding length_drop by linarith
    ultimately show ?thesis by blast
  qed
  then show ?thesis using net' ok pre unfolding pushed_def by blast
qed

lemma write_loop_pushed: "pushed net p (fst (write_loop net alarmed n p)) (snd (write_loop net alarmed n p))"
proof (induction net alarmed n p rule: write_loop.induct)
  case (1 net alarmed n p)
  show ?case
  proof (cases "p = []")
    case True
    have "\<exists>v e l. net = net\<lparr>vio := v, net_error := e, last_errno := l\<rparr> \<and> outp v = outp (vio net) \<and> e = net_error net"
      by (rule exI [of _ "vio net"], rule exI [of _ "net_error net"], rule exI [of _ "last_errno net"]) simp
    then show ?thesis using True by (auto simp: write_loop.simps pushed_def)
  next
    case False
    obtain r v where w: "vio_write (vio net) p = (r, v)" by fastforce
    show ?thesis
    proof (cases r)
      case (Inl k)
      have "write_loop net alarmed n p = write_loop (net\<lparr>vio := v\<rparr>) alarmed n (drop k p)"
        using False w Inl by (simp add: write_loop.simps [of net])
      then show ?thesis using pushed_step [OF w [unfolded Inl]] 1(1) [OF False w [symmetric] Inl] by simp
    next
      case (Inr x)
      obtain net1 y where st: "on_stop (net\<lparr>vio := v\<rparr>) alarmed n x = (net1, y)" by fastforce
      obtain rs where v: "v = (vio net)\<lparr>script := rs\<rparr>"
        and idle: "\<not> (steady (script (vio net)) \<and> script (vio net) \<noteq> [])"
        using vio_write_Inr [OF w [unfolded Inr] False] by blast
      obtain rs1 where "net1 = net\<lparr>vio := v\<lparr>script := rs1\<rparr>\<rparr>"
        using on_stop_vio [of "net\<lparr>vio := v\<rparr>" alarmed n x] st by auto
      then have net1: "net1 = net\<lparr>vio := (vio net)\<lparr>script := rs1\<rparr>\<rparr>" by (simp add: v)
      show ?thesis
      proof (cases y)
        case (Again alarmed1 n1)
        have "write_loop net alarmed n p = write_loop net1 alarmed1 n1 p"
          using False w Inr st Again by (simp add: write_loop.simps [of net])
        then show ?thesis
          using pushed_idle [OF 1(2) [OF False w [symmetric] Inr st [symmetric] Again, unfolded net1] False idle]
          by (simp add: net1)
      qed (use False w Inr st pushed_failed [OF net1 False idle] in \<open>simp_all add: write_loop.simps [of net]\<close>)
    qed
  qed
qed

lemma net_real_write_spec:
  assumes "net_real_write net p = (net', failed)"
  shows "\<exists>v e l. net' = net\<lparr>vio := v, net_error := e, last_errno := l\<rparr> \<and>
    (\<not> failed \<longrightarrow> outp v = outp (vio net) @ p) \<and>
    (\<forall>k. ready (net\<lparr>write_pos := 0\<rparr>) (length p + k) \<longrightarrow> \<not> failed \<and> ready (net'\<lparr>write_pos := 0\<rparr>) k)"
proof (cases "net_error net = 2")
  case True
  then show ?thesis
    using assms by (intro exI [of _ "vio net"] exI [of _ "net_error net"] exI [of _ "last_errno net"])
      (simp add: net_real_write_def ready_def)
next
  case False
  then have *: "pushed net p net' failed"
    using assms write_loop_pushed [of net p False 0] by (simp add: net_real_write_def)
  obtain v e l where n: "net' = net\<lparr>vio := v, net_error := e, last_errno := l\<rparr>"
    and ok: "\<not> failed \<longrightarrow> outp v = outp (vio net) @ p \<and> e = net_error net"
    using * by (auto simp: pushed_def)
  have "\<not> failed \<and> ready (net'\<lparr>write_pos := 0\<rparr>) k" if "ready (net\<lparr>write_pos := 0\<rparr>) (length p + k)" for k
  proof -
    have "\<not> failed \<and> steady (script (vio net')) \<and> length (script (vio net)) \<le> length (script (vio net')) + length p"
      using * that by (simp add: pushed_def ready_def)
    then show ?thesis using ok n that by (auto simp: ready_def)
  qed
  then show ?thesis using n ok by blast
qed

text \<open>The contract of every writer: \<open>p\<close> is appended to what has been sent.\<close>

definition writes_nr :: "NET \<Rightarrow> byte list \<Rightarrow> NET \<Rightarrow> bool \<Rightarrow> bool" where
  "writes_nr net p net' failed \<longleftrightarrow> write_ok net' \<and>
     (\<not> failed \<longrightarrow> sent net' = sent net @ p) \<and>
     (\<forall>k. ready net (length p + k) \<longrightarrow> \<not> failed \<and> ready net' k)"

definition writes :: "NET \<Rightarrow> byte list \<Rightarrow> NET \<Rightarrow> bool \<Rightarrow> bool" where
  "writes net p net' failed \<longleftrightarrow> writes_nr net p net' failed \<and> pkt_nr net' = pkt_nr net"

lemma writes_nr_pkt [simp]:
  "sent (net\<lparr>pkt_nr := n\<rparr>) = sent net" "ready (net\<lparr>pkt_nr := n\<rparr>) k = ready net k"
  "write_ok (net\<lparr>pkt_nr := n\<rparr>) = write_ok net" "writes_nr (net\<lparr>pkt_nr := n\<rparr>) p net' f = writes_nr net p net' f"
  by (simp_all add: sent_def ready_def write_ok_def writes_nr_def)

lemma writes_Nil: "write_ok net \<Longrightarrow> writes net [] net False"
  by (simp add: writes_def writes_nr_def)

lemma writes_nr_trans:
  assumes "writes_nr net p net1 False" "writes_nr net1 q net2 failed"
  shows "writes_nr net (p @ q) net2 failed"
proof -
  have "\<not> failed \<and> ready net2 k" if "ready net (length (p @ q) + k)" for k
  proof -
    have "ready net (length p + (length q + k))" using that by (simp add: add.assoc)
    then have "ready net1 (length q + k)" using assms(1) unfolding writes_nr_def by blast
    then show ?thesis using assms(2) unfolding writes_nr_def by blast
  qed
  then show ?thesis using assms by (auto simp: writes_nr_def)
qed

lemma writes_nr_failed: "writes_nr net q net' True \<Longrightarrow> length q \<le> length p \<Longrightarrow> writes_nr net p net' True"
  unfolding writes_nr_def by (metis add.assoc le_add_diff_inverse)

lemma append_buff_spec:
  assumes "write_ok net" "write_pos net + length p \<le> max_packet net"
  shows "\<exists>net'. append_buff net p = Some net' \<and> writes net p net' False"
proof -
  let ?b = "over (buff net) (write_pos net) p"
  have room: "write_pos net + length p \<le> length (buff net)" using assms by (simp add: write_ok_def)
  then have "append_buff net p = Some (net\<lparr>buff := ?b, write_pos := write_pos net + length p\<rparr>)"
    by (simp add: append_buff_def put_bytes_over)
  then show ?thesis
    using assms room take_over [OF room] by (simp add: writes_def writes_nr_def write_ok_def sent_def ready_def)
qed

lemma flush_spec:
  assumes ok: "write_ok net" and r: "net_real_write net (take (write_pos net) (buff net)) = (net', failed)"
  shows "writes net [] (net'\<lparr>write_pos := 0\<rparr>) failed" "write_pos net' = write_pos net"
    "max_packet net' = max_packet net" "buff net' = buff net"
proof -
  let ?p = "take (write_pos net) (buff net)"
  have len: "length ?p = write_pos net" using ok by (simp add: write_ok_def)
  obtain v e l where n: "net' = net\<lparr>vio := v, net_error := e, last_errno := l\<rparr>"
    and out: "\<not> failed \<longrightarrow> outp v = outp (vio net) @ ?p"
    and k: "\<forall>k. ready (net\<lparr>write_pos := 0\<rparr>) (length ?p + k) \<longrightarrow> \<not> failed \<and> ready (net'\<lparr>write_pos := 0\<rparr>) k"
    using net_real_write_spec [OF r] by blast
  have "\<not> failed \<and> ready (net'\<lparr>write_pos := 0\<rparr>) j" if "ready net j" for j
    using k [rule_format, of j] that len by (simp add: ready_def)
  then show "writes net [] (net'\<lparr>write_pos := 0\<rparr>) failed"
    using ok out n by (auto simp: writes_def writes_nr_def write_ok_def sent_def)
  show "write_pos net' = write_pos net" "max_packet net' = max_packet net" "buff net' = buff net"
    unfolding n by simp_all
qed

lemma direct_spec:
  assumes ok: "write_ok net" and zero: "write_pos net = 0" and r: "net_real_write net p = (net', failed)"
  shows "writes net p net' failed"
proof -
  obtain v e l where n: "net' = net\<lparr>vio := v, net_error := e, last_errno := l\<rparr>"
    and out: "\<not> failed \<longrightarrow> outp v = outp (vio net) @ p"
    and k: "\<forall>k. ready (net\<lparr>write_pos := 0\<rparr>) (length p + k) \<longrightarrow> \<not> failed \<and> ready (net'\<lparr>write_pos := 0\<rparr>) k"
    using net_real_write_spec [OF r] by blast
  have "\<not> failed \<and> ready net' j" if "ready net (length p + j)" for j
    using k [rule_format, of j] that zero n by (simp add: ready_def)
  then show ?thesis using ok out n zero by (auto simp: writes_def writes_nr_def write_ok_def sent_def)
qed

lemma writes_trans:
  assumes "writes net p net1 False" "writes net1 q net2 failed"
  shows "writes net (p @ q) net2 failed"
  using assms writes_nr_trans [of net p net1 q net2 failed] by (simp add: writes_def)

text \<open>What \<^const>\<open>net_write_buff\<close> does with the bytes for an empty buffer.\<close>

lemma write_rest:
  assumes "write_ok net" "write_pos net = 0"
  shows "\<exists>net' failed. (if max_packet net < length p then Some (net_real_write net p)
      else do { net \<leftarrow> append_buff net p; Some (net, False) }) = Some (net', failed) \<and> writes net p net' failed"
proof (cases "max_packet net < length p")
  case True
  obtain net' failed where "net_real_write net p = (net', failed)" by fastforce
  then show ?thesis using direct_spec [OF assms] True by auto
next
  case False
  then show ?thesis using append_buff_spec [OF assms(1), of p] assms(2) by auto
qed

text \<open>The buffer is filled up and sent.\<close>

lemma fill_and_send:
  assumes ok: "write_ok net" and len: "write_pos net + length q = max_packet net"
    and b: "b = over (buff net) (write_pos net) q"
    and r: "net_real_write (net\<lparr>buff := b\<rparr>) (take (max_packet net) b) = (net', failed)"
  shows "writes net q (net'\<lparr>write_pos := 0\<rparr>) failed" "write_ok net'" "pkt_nr net' = pkt_nr net"
    "max_packet net' = max_packet net"
proof -
  have room: "write_pos net + length q \<le> length (buff net)" using ok len by (simp add: write_ok_def)
  have p: "take (max_packet net) b = take (write_pos net) (buff net) @ q"
    using take_over [OF room] len b by simp
  have lp: "length (take (max_packet net) b) = write_pos net + length q"
    using room by (simp add: p len b)
  obtain v e l where n: "net' = net\<lparr>buff := b\<rparr>\<lparr>vio := v, net_error := e, last_errno := l\<rparr>"
    and out: "\<not> failed \<longrightarrow> outp v = outp (vio net) @ take (write_pos net) (buff net) @ q"
    and k: "\<forall>k. ready (net\<lparr>buff := b\<rparr>\<lparr>write_pos := 0\<rparr>) (write_pos net + length q + k)
       \<longrightarrow> \<not> failed \<and> ready (net'\<lparr>write_pos := 0\<rparr>) k"
    using net_real_write_spec [OF r, unfolded lp] by (auto simp: p)
  have "\<not> failed \<and> ready (net'\<lparr>write_pos := 0\<rparr>) j" if "ready net (length q + j)" for j
    using k [rule_format, of j] that by (simp add: ready_def add.assoc)
  moreover have "length b = length (buff net)" using room by (simp add: b)
  ultimately show "writes net q (net'\<lparr>write_pos := 0\<rparr>) failed" "write_ok net'" "pkt_nr net' = pkt_nr net"
    "max_packet net' = max_packet net"
    using ok out n by (auto simp: writes_def writes_nr_def write_ok_def sent_def)
qed

lemma writes_failed: "writes net q net1 True \<Longrightarrow> write_ok net' \<Longrightarrow> pkt_nr net' = pkt_nr net
    \<Longrightarrow> length q \<le> length p \<Longrightarrow> writes net p net' True"
  unfolding writes_def writes_nr_def by (metis add.assoc le_add_diff_inverse)

lemma net_write_buff_spec:
  assumes ok: "write_ok net"
  shows "\<exists>net' failed. net_write_buff net p = Some (net', failed) \<and> writes net p net' failed"
proof -
  let ?left = "max_packet net - write_pos net"
  show ?thesis
  proof (cases "?left < length p \<and> write_pos net \<noteq> 0")
    case True
    let ?q = "take ?left p"
    have len: "write_pos net + length ?q = max_packet net" using ok True by (simp add: write_ok_def)
    define b where "b = over (buff net) (write_pos net) ?q"
    have put: "put_bytes (buff net) (write_pos net) ?q = Some b"
      unfolding b_def using len ok by (intro put_bytes_over) (simp add: write_ok_def)
    obtain net1 failed where r: "net_real_write (net\<lparr>buff := b\<rparr>) (take (max_packet net) b) = (net1, failed)" by fastforce
    note send = fill_and_send [OF ok len b_def r]
    have m: "write_pos net + ?left = max_packet net" using ok by (simp add: write_ok_def)
    show ?thesis
    proof (cases failed)
      case True
      then have "net_write_buff net p = Some (net1, True)"
        using \<open>?left < length p \<and> write_pos net \<noteq> 0\<close> put r m by (simp add: net_write_buff_def Let_def)
      then show ?thesis using writes_failed [of net ?q "net1\<lparr>write_pos := 0\<rparr>" net1 p] send True by auto
    next
      case False
      let ?net = "net1\<lparr>write_pos := 0\<rparr>"
      have "write_ok ?net" using send(1) by (simp add: writes_def writes_nr_def)
      then obtain net2 f where rest: "(if max_packet ?net < length (drop ?left p) then Some (net_real_write ?net (drop ?left p))
          else do { net \<leftarrow> append_buff ?net (drop ?left p); Some (net, False) }) = Some (net2, f)"
        "writes ?net (drop ?left p) net2 f"
        using write_rest [of ?net "drop ?left p"] by auto
      have "net_write_buff net p = Some (net2, f)"
        using True put r m False rest(1) by (simp add: net_write_buff_def Let_def)
      moreover have "writes net (?q @ drop ?left p) net2 f"
        using writes_trans [OF _ rest(2), of net ?q] send(1) False by simp
      ultimately show ?thesis by auto
    qed
  next
    case F: False
    show ?thesis
    proof (cases "?left < length p")
      case True
      then have "net_write_buff net p = (if max_packet net < length p then Some (net_real_write net p)
          else do { net \<leftarrow> append_buff net p; Some (net, False) })"
        using F by (simp add: net_write_buff_def Let_def)
      then show ?thesis using write_rest [OF ok, of p] F True by simp
    next
      case False
      then have "net_write_buff net p = do { net \<leftarrow> append_buff net p; Some (net, False) }"
        by (simp add: net_write_buff_def Let_def)
      moreover have "write_pos net + length p \<le> max_packet net" using False ok unfolding write_ok_def by linarith
      ultimately show ?thesis using append_buff_spec [OF ok, of p] by auto
    qed
  qed
qed

lemma write_all_spec:
  "write_ok net \<Longrightarrow> \<exists>net' failed. write_all net ps = Some (net', failed) \<and> writes net (concat ps) net' failed"
proof (induction ps arbitrary: net)
  case Nil
  then show ?case using writes_Nil by auto
next
  case (Cons p ps)
  obtain net1 f where 1: "net_write_buff net p = Some (net1, f)" "writes net p net1 f"
    using net_write_buff_spec [OF Cons.prems] by blast
  show ?case
  proof (cases f)
    case True
    then show ?thesis using 1 writes_failed [of net p net1 net1 "concat (p # ps)"] by (auto simp: writes_def writes_nr_def)
  next
    case False
    have "write_ok net1" using 1(2) by (simp add: writes_def writes_nr_def)
    then obtain net2 g where 2: "write_all net1 ps = Some (net2, g)" "writes net1 (concat ps) net2 g"
      using Cons.IH by blast
    then show ?thesis using 1 False writes_trans [of net p net1 "concat ps" net2 g] by auto
  qed
qed

lemma write_packet:
  assumes "write_ok net"
  obtains net' failed where "write_all (net\<lparr>pkt_nr := pkt_nr net + 1\<rparr>) ps = Some (net', failed)"
    "writes_nr net (concat ps) net' failed" "pkt_nr net' = pkt_nr net + 1"
proof -
  have "write_ok (net\<lparr>pkt_nr := pkt_nr net + 1\<rparr>)" using assms by simp
  then obtain net' failed where "write_all (net\<lparr>pkt_nr := pkt_nr net + 1\<rparr>) ps = Some (net', failed)"
    "writes (net\<lparr>pkt_nr := pkt_nr net + 1\<rparr>) (concat ps) net' failed"
    using write_all_spec by blast
  then show ?thesis using that by (simp add: writes_def)
qed

lemma my_net_write_spec:
  "write_ok net \<Longrightarrow> \<exists>net' failed. my_net_write net p = Some (net', failed) \<and>
     writes_nr net (frames (pkt_nr net) p) net' failed"
proof (induction net p rule: my_net_write.induct)
  case (1 net p)
  show ?case
  proof (cases "MAX_PACKET_LENGTH \<le> length p")
    case True
    let ?ps = "[packet_header MAX_PACKET_LENGTH (pkt_nr net), take MAX_PACKET_LENGTH p]"
    obtain net1 f where w: "write_all (net\<lparr>pkt_nr := pkt_nr net + 1\<rparr>) ?ps = Some (net1, f)"
      "writes_nr net (concat ?ps) net1 f" "pkt_nr net1 = pkt_nr net + 1"
      using write_packet [OF 1(2)] by blast
    have fr: "frames (pkt_nr net) p = concat ?ps @ frames (pkt_nr net1) (drop MAX_PACKET_LENGTH p)"
      using True w(3) by (subst frames.simps) simp
    show ?thesis
    proof (cases f)
      case f: True
      then have "my_net_write net p = Some (net1, True)"
        using True w(1) by (simp add: my_net_write.simps [of net] Let_def del: write_all.simps)
      then show ?thesis using writes_nr_failed [of net "concat ?ps" net1] w(2) f fr by auto
    next
      case False
      have "write_ok net1" using w(2) by (simp add: writes_nr_def)
      with 1(1) [OF True refl w(1) refl False] obtain net2 g
        where 2: "my_net_write net1 (drop MAX_PACKET_LENGTH p) = Some (net2, g)"
          "writes_nr net1 (frames (pkt_nr net1) (drop MAX_PACKET_LENGTH p)) net2 g"
        by auto
      have "my_net_write net p = Some (net2, g)"
        using True w(1) False 2(1) by (simp add: my_net_write.simps [of net] Let_def del: write_all.simps)
      then show ?thesis using writes_nr_trans [OF _ 2(2), of net "concat ?ps"] w(2) False fr by auto
    qed
  next
    case False
    obtain net1 f where w: "write_all (net\<lparr>pkt_nr := pkt_nr net + 1\<rparr>) [packet_header (length p) (pkt_nr net), p]
        = Some (net1, f)" "writes_nr net (concat [packet_header (length p) (pkt_nr net), p]) net1 f"
      using write_packet [OF 1(2)] by metis
    then show ?thesis using False by (simp add: my_net_write.simps [of net] frames_less Let_def del: write_all.simps)
  qed
qed

lemma net_flush_spec:
  assumes "write_ok net" "net_flush net = (net', failed)"
  shows "writes net [] net' failed \<and> (\<not> failed \<longrightarrow> outp (vio net') = sent net \<and> write_pos net' = 0)"
proof (cases "write_pos net = 0")
  case True
  then show ?thesis using assms writes_Nil by (auto simp: net_flush_def sent_def)
next
  case False
  obtain net1 where 1: "net_real_write net (take (write_pos net) (buff net)) = (net1, failed)"
    "net' = net1\<lparr>write_pos := 0\<rparr>"
    using assms(2) False by (auto simp: net_flush_def split: prod.splits)
  have "writes net [] net' failed" using flush_spec(1) [OF assms(1) 1(1)] 1(2) by simp
  then show ?thesis using 1(2) by (auto simp: writes_def writes_nr_def sent_def)
qed

lemma command_loop_spec:
  "write_ok net \<Longrightarrow> length hd1 + length header + len = MAX_PACKET_LENGTH \<Longrightarrow> len \<le> length packet \<Longrightarrow>
     length1 = length hd1 + length header + length packet \<Longrightarrow>
     \<exists>net' failed rest n code. command_loop net hd1 header packet len length1 = Some (net', failed, rest, n)
       \<and> writes_nr net code net' failed
       \<and> (if failed then code = frames (pkt_nr net) (hd1 @ header @ packet)
          else n = length rest \<and> n < MAX_PACKET_LENGTH \<and>
            frames (pkt_nr net) (hd1 @ header @ packet) = code @ frames (pkt_nr net') rest)"
proof (induction net hd1 header packet len length1 rule: command_loop.induct)
  case (1 net hd1 header packet len length1)
  let ?first = "hd1 @ header @ take len packet" and ?rest = "drop len packet"
  let ?ps = "[packet_header MAX_PACKET_LENGTH (pkt_nr net) @ hd1, header, take len packet]"
  have lf: "length ?first = MAX_PACKET_LENGTH" using 1(3,4) by simp
  have l1: "length1 - MAX_PACKET_LENGTH = length ?rest" using 1(3-5) by simp
  obtain net1 f where w: "write_all (net\<lparr>pkt_nr := pkt_nr net + 1\<rparr>) ?ps = Some (net1, f)"
    "writes_nr net (concat ?ps) net1 f" "pkt_nr net1 = pkt_nr net + 1"
    using write_packet [OF 1(2)] by blast
  have "frames (pkt_nr net) (?first @ ?rest) = packet_header MAX_PACKET_LENGTH (pkt_nr net) @ ?first @ frames (pkt_nr net + 1) ?rest"
    using lf by (rule frames_more)
  then have fr: "frames (pkt_nr net) (hd1 @ header @ packet) = concat ?ps @ frames (pkt_nr net1) ?rest"
    using w(3) by simp
  show ?case
  proof (cases f)
    case True
    then have "command_loop net hd1 header packet len length1 = Some (net1, True, packet, length1)"
      using w(1) by (simp add: command_loop.simps [of net] Let_def del: write_all.simps)
    moreover have "writes_nr net (frames (pkt_nr net) (hd1 @ header @ packet)) net1 True"
      using writes_nr_failed [of net "concat ?ps" net1] w(2) True fr by simp
    ultimately show ?thesis by auto
  next
    case f: False
    show ?thesis
    proof (cases "MAX_PACKET_LENGTH \<le> length ?rest")
      case True
      have ok1: "write_ok net1" using w(2) by (simp add: writes_nr_def)
      have pre: "length [] + length [] + MAX_PACKET_LENGTH = MAX_PACKET_LENGTH"
        "length1 - MAX_PACKET_LENGTH = length [] + length [] + length ?rest"
        using l1 by simp_all
      have "MAX_PACKET_LENGTH \<le> length1 - MAX_PACKET_LENGTH" using True l1 by simp
      from 1(1) [OF refl w(1) refl f refl refl this ok1 pre(1) True pre(2)]
      obtain net' failed rest n code where 2:
        "command_loop net1 [] [] ?rest MAX_PACKET_LENGTH (length1 - MAX_PACKET_LENGTH) = Some (net', failed, rest, n)"
        "writes_nr net1 code net' failed"
        "if failed then code = frames (pkt_nr net1) ([] @ [] @ ?rest)
            else n = length rest \<and> n < MAX_PACKET_LENGTH \<and> frames (pkt_nr net1) ([] @ [] @ ?rest) = code @ frames (pkt_nr net') rest"
        by (elim exE conjE) (rule that)
      have "command_loop net hd1 header packet len length1 = Some (net', failed, rest, n)"
        using w(1) f True l1 2(1) by (simp add: command_loop.simps [of net] Let_def del: write_all.simps)
      moreover have "writes_nr net (concat ?ps @ code) net' failed"
        using writes_nr_trans [OF _ 2(2), of net "concat ?ps"] w(2) f by simp
      moreover have "if failed then concat ?ps @ code = frames (pkt_nr net) (hd1 @ header @ packet)
          else n = length rest \<and> n < MAX_PACKET_LENGTH \<and>
            frames (pkt_nr net) (hd1 @ header @ packet) = (concat ?ps @ code) @ frames (pkt_nr net') rest"
        using 2(3) unfolding fr by (auto split: if_splits)
      ultimately show ?thesis by blast
    next
      case False
      have "command_loop net hd1 header packet len length1 = Some (net1, False, ?rest, length ?rest)"
        using w(1) f False l1 by (simp add: command_loop.simps [of net] Let_def del: write_all.simps)
      then show ?thesis using w(2) f False fr by auto
    qed
  qed
qed

lemma net_write_command_spec:
  assumes ok: "write_ok net" and h: "length header < MAX_PACKET_LENGTH"
  shows "\<exists>net' failed. net_write_command net command header packet = Some (net', failed) \<and>
     writes_nr net (frames (pkt_nr net) (command # header @ packet)) net' failed \<and>
     (\<not> failed \<longrightarrow> outp (vio net') = sent net @ frames (pkt_nr net) (command # header @ packet))"
proof -
  let ?code = "frames (pkt_nr net) (command # header @ packet)"
  let ?len = "length packet + 1 + length header"
  let ?start = "if MAX_PACKET_LENGTH \<le> ?len then do {
             (net, error, packet, length1) \<leftarrow>
                command_loop net [command] header packet (MAX_PACKET_LENGTH - 1 - length header) ?len;
             Some (net, error, [], [], packet, length1) }
           else Some (net, False, [command], header, packet, ?len)"
  obtain net1 f hd1 header1 packet1 n code where
    start: "?start = Some (net1, f, hd1, header1, packet1, n)" and w1: "writes_nr net code net1 f"
    and fail: "f \<Longrightarrow> code = ?code"
    and cont: "\<not> f \<Longrightarrow> n = length (hd1 @ header1 @ packet1) \<and> n < MAX_PACKET_LENGTH \<and>
       ?code = code @ frames (pkt_nr net1) (hd1 @ header1 @ packet1)"
  proof (cases "MAX_PACKET_LENGTH \<le> ?len")
    case True
    have pre: "length [command] + length header + (MAX_PACKET_LENGTH - 1 - length header) = MAX_PACKET_LENGTH"
      "MAX_PACKET_LENGTH - 1 - length header \<le> length packet" "?len = length [command] + length header + length packet"
      using h True by simp_all
    obtain net' failed rest n code where
      "command_loop net [command] header packet (MAX_PACKET_LENGTH - 1 - length header) ?len = Some (net', failed, rest, n)"
      "writes_nr net code net' failed"
      "if failed then code = frames (pkt_nr net) ([command] @ header @ packet)
          else n = length rest \<and> n < MAX_PACKET_LENGTH \<and>
            frames (pkt_nr net) ([command] @ header @ packet) = code @ frames (pkt_nr net') rest"
      using command_loop_spec [OF ok pre] by (elim exE conjE) (rule that)
    then show ?thesis using True by (intro that [of net' failed "[]" "[]" rest n code]) (auto split: if_splits)
  next
    case False
    then show ?thesis using ok
      by (intro that [of net False "[command]" header packet ?len "[]"]) (auto simp: writes_nr_def)
  qed
  show ?thesis
  proof (cases f)
    case True
    then have "net_write_command net command header packet = Some (net1, True)"
      unfolding net_write_command_def Let_def start by simp
    then show ?thesis using w1 fail True by auto
  next
    case False
    let ?ps = "[packet_header n (pkt_nr net1) @ hd1] @ (if header1 \<noteq> [] then [header1] else []) @ [packet1]"
    have ok1: "write_ok net1" using w1 by (simp add: writes_nr_def)
    obtain net2 g where 2: "write_all (net1\<lparr>pkt_nr := pkt_nr net1 + 1\<rparr>) ?ps = Some (net2, g)"
      "writes_nr net1 (concat ?ps) net2 g"
      using write_packet [OF ok1, of ?ps] by blast
    have "concat ?ps = frames (pkt_nr net1) (hd1 @ header1 @ packet1)"
      using cont [OF False] frames_less [of "hd1 @ header1 @ packet1" "pkt_nr net1"] by auto
    then have code: "?code = code @ concat ?ps" using cont [OF False] by simp
    have w2: "writes_nr net ?code net2 g" unfolding code using writes_nr_trans [OF _ 2(2), of net code] w1 False by simp
    obtain net3 e where fl: "net_flush net2 = (net3, e)" by fastforce
    have run: "net_write_command net command header packet =
       do { (net, error) \<leftarrow> write_all (net1\<lparr>pkt_nr := pkt_nr net1 + 1\<rparr>) ?ps;
            if error then Some (net, True) else Some (net_flush net) }"
      using False unfolding net_write_command_def Let_def start by (simp only: bind.bind_lunit prod.case if_False)
    have res: "net_write_command net command header packet = Some (if g then (net2, True) else net_flush net2)"
      unfolding run 2(1) by simp
    show ?thesis
    proof (cases g)
      case True
      then show ?thesis using res w2 by auto
    next
      case g: False
      have w3: "writes net2 [] net3 e" "\<not> e \<longrightarrow> outp (vio net3) = sent net2"
        using net_flush_spec [OF _ fl] w2 by (auto simp: writes_nr_def)
      have "writes_nr net (?code @ []) net3 e"
        using writes_nr_trans [of net ?code net2 "[]" net3 e] w2 w3(1) g by (simp add: writes_def)
      moreover have "sent net2 = sent net @ ?code" using w2 g by (simp add: writes_nr_def)
      ultimately show ?thesis using res g fl w3(2) by auto
    qed
  qed
qed

section \<open>Examples\<close>

text \<open>A connection with a small buffer whose peer has sent one packet and one byte more.\<close>

definition demo_net :: "byte list \<Rightarrow> NET" where
  "demo_net i = \<lparr>vio = \<lparr>script = replicate 8 (Bytes 2), inp = i, outp = []\<rparr>, buff = replicate 23 0,
     write_pos = 0, read_pos = 0, where_b = 0, max_packet = 16, max_packet_size = 1024, pkt_nr = 0,
     compress_pkt_nr = 0, retry_limit = 1, net_error = 0, last_errno = 0\<rparr>"

lemma demo_net_ok:
  "net_ok (demo_net i)" "where_b (demo_net i) \<le> max_packet (demo_net i)" "write_ok (demo_net i)"
  "sent (demo_net i) = []" "pkt_nr (demo_net i) = 0" "where_b (demo_net i) = 0" "max_packet_size (demo_net i) = 1024"
  "vio (demo_net i) = \<lparr>script = replicate 8 (Bytes 2), inp = i, outp = []\<rparr>"
  by (simp_all add: demo_net_def net_ok_def write_ok_def sent_def NET_HEADER_SIZE_def COMP_HEADER_SIZE_def)

lemma demo_frames: "frames 0 [65, 66, 67] = [3, 0, 0, 0, 65, 66, 67]"
  by (simp add: frames_less MAX_PACKET_LENGTH_def packet_header_def int3store_def drop_bit_eq_div)

lemma demo_ready: "steady (replicate 8 (Bytes 2))" "ready (demo_net i) 8"
  by (simp_all add: ready_def demo_net_def steady_def list_all_iff)

section \<open>Properties\<close>

text \<open>
  C5: whatever the peer sends and however the calls of the socket end, \<^verbatim>\<open>my_net_read\<close> returns, writes only
  inside its buffer, and what it returns is the message whose packets, numbered as expected, were on the
  input, behind it a NUL; the buffer keeps room for the next header.
\<close>
theorem my_net_read_sound:
  assumes "net_ok net" "alloc_ok 1 alloc" "where_b net \<le> max_packet net"
  shows "\<exists>net' r. my_net_read alloc net = Some (net', r) \<and> net_ok net' \<and>
    (\<forall>n. r = Some n \<longrightarrow>
       inp (vio net) = frames (pkt_nr net) (take n (drop (read_pos net') (buff net'))) @ inp (vio net') \<and>
       read_pos net' + n < length (buff net') \<and> buff net' ! (read_pos net' + n) = 0)"
proof -
  obtain net' r where run: "my_net_read alloc net = Some (net', r)" "net_ok net'" and m: "message alloc net net' 0 r"
    and pos: "\<And>n. r = Some n \<Longrightarrow> read_pos net' = where_b net \<and> buff net' ! (where_b net + n) = 0"
    using my_net_read_spec [OF assms] by metis
  have "inp (vio net) = frames (pkt_nr net) (take n (drop (read_pos net') (buff net'))) @ inp (vio net') \<and>
       read_pos net' + n < length (buff net') \<and> buff net' ! (read_pos net' + n) = 0" if r: "r = Some n" for n
  proof -
    obtain p where p: "n = length p" "reads net (frames (pkt_nr net) p) p net'" using m r by (auto simp: message_def)
    have room: "where_b net + length p \<le> max_packet net'" "max_packet net' + 7 \<le> length (buff net')"
      using p(2) run(2)
      by (simp_all add: reads_def received_def net_ok_def NET_HEADER_SIZE_def COMP_HEADER_SIZE_def)
    have "take (length p) (drop (where_b net) (buff net')) = drop (where_b net) (take (where_b net + length p) (buff net'))"
      by (simp add: take_drop add.commute)
    also have "\<dots> = p"
      using p(2) assms(1,3) by (simp add: reads_def received_def net_ok_def)
    finally show ?thesis using p pos [OF r] room by (simp add: reads_def received_def)
  qed
  then show ?thesis using run by blast
qed

theorem my_net_read_sound_witness:
  "\<exists>net' r. my_net_read ample (demo_net [3, 0, 0, 1]) = Some (net', r) \<and> net_ok net' \<and>
    (\<forall>n. r = Some n \<longrightarrow>
       [3, 0, 0, 1] = frames 0 (take n (drop (read_pos net') (buff net'))) @ inp (vio net') \<and>
       read_pos net' + n < length (buff net') \<and> buff net' ! (read_pos net' + n) = 0)"
  using my_net_read_sound [OF demo_net_ok(1) ample_ok(1) demo_net_ok(2), of "[3, 0, 0, 1]"]
  by (simp only: demo_net_ok VIO.select_convs)

text \<open>
  C6: a message that arrives is received: with a socket that delivers, memory, and a message below
  \<^verbatim>\<open>max_packet_size\<close>, \<^verbatim>\<open>my_net_read\<close> returns exactly the message at the start of the input and leaves the
  rest of the input, however the bytes are cut into reads and the message into packets.
\<close>
theorem my_net_read_delivers:
  assumes "net_ok net" "alloc_ok 1 alloc" "where_b net \<le> max_packet net" "\<forall>n. alloc n \<noteq> None"
    and "inp (vio net) = frames (pkt_nr net) p @ rest" "where_b net + length p < max_packet_size net"
    and "steady (script (vio net))" "length (frames (pkt_nr net) p) \<le> length (script (vio net))"
  shows "\<exists>net'. my_net_read alloc net = Some (net', Some (length p)) \<and>
    take (length p) (drop (read_pos net') (buff net')) = p \<and> inp (vio net') = rest"
  by (rule read_delivers [OF assms])

theorem my_net_read_delivers_witness:
  "\<exists>net'. my_net_read ample (demo_net [3, 0, 0, 0, 65, 66, 67, 9]) = Some (net', Some 3) \<and>
     take 3 (drop (read_pos net') (buff net')) = [65, 66, 67] \<and> inp (vio net') = [9]"
  using my_net_read_delivers [of "demo_net [3, 0, 0, 0, 65, 66, 67, 9]" ample "[65, 66, 67]" "[9]"]
  by (simp add: demo_net_ok ample_ok [simplified] demo_frames demo_ready [simplified] numeral_3_eq_3)

text \<open>
  C7: \<^verbatim>\<open>net_write_command\<close> never writes outside the packet buffer, and when it succeeds the peer has received,
  behind what was waiting, exactly the packets of the command byte, the header and the packet put together,
  although it copies them piece by piece; it succeeds on a socket that takes the bytes.
\<close>
theorem net_write_command_sends:
  assumes "write_ok net" "length header < MAX_PACKET_LENGTH"
  shows "\<exists>net' failed. net_write_command net command header packet = Some (net', failed) \<and>
    (if failed then \<not> ready net (length (frames (pkt_nr net) (command # header @ packet)))
     else outp (vio net') = sent net @ frames (pkt_nr net) (command # header @ packet))"
proof -
  obtain net' failed where n: "net_write_command net command header packet = Some (net', failed)"
     "writes_nr net (frames (pkt_nr net) (command # header @ packet)) net' failed"
     "\<not> failed \<longrightarrow> outp (vio net') = sent net @ frames (pkt_nr net) (command # header @ packet)"
    using net_write_command_spec [OF assms] by blast
  then have "ready net (length (frames (pkt_nr net) (command # header @ packet)) + 0) \<Longrightarrow> \<not> failed"
    unfolding writes_nr_def by blast
  then show ?thesis using n by auto
qed

theorem net_write_command_sends_witness:
  "\<exists>net'. net_write_command (demo_net []) 3 [] [65, 66] = Some (net', False) \<and>
     outp (vio net') = [3, 0, 0, 0, 3, 65, 66]"
proof -
  have "frames 0 [3, 65, 66] = [3, 0, 0, 0, 3, 65, 66]"
    by (simp add: frames_less MAX_PACKET_LENGTH_def packet_header_def int3store_def drop_bit_eq_div)
  moreover from this have "ready (demo_net []) (length (frames 0 [3, 65, 66]))"
    using demo_ready(2) by (simp add: ready_def demo_net_def)
  ultimately show ?thesis
    using net_write_command_sends [of "demo_net []" "[]" 3 "[65, 66]"] demo_net_ok(3) [of "[]"]
    by (auto simp: demo_net_ok(4,5) MAX_PACKET_LENGTH_def split: if_splits)
qed

text \<open>
  C8: what \<^verbatim>\<open>my_net_write\<close> and \<^verbatim>\<open>net_flush\<close> have sent, \<^verbatim>\<open>my_net_read\<close> at the other end of the connection
  reads: the message, without its packet headers, whatever its length, for the two ends' own buffers, cuts
  into writes and cuts into reads.
\<close>
theorem net_write_read:
  assumes w: "write_ok net" "sent net = []" "my_net_write net p = Some (net1, False)" "net_flush net1 = (net2, False)"
    and peer: "inp (vio peer) = outp (vio net2) @ rest" "pkt_nr peer = pkt_nr net"
    and r: "net_ok peer" "alloc_ok 1 alloc" "where_b peer \<le> max_packet peer" "\<forall>n. alloc n \<noteq> None"
      "where_b peer + length p < max_packet_size peer"
      "steady (script (vio peer))" "length (frames (pkt_nr net) p) \<le> length (script (vio peer))"
  shows "\<exists>peer'. my_net_read alloc peer = Some (peer', Some (length p)) \<and>
    take (length p) (drop (read_pos peer') (buff peer')) = p \<and> inp (vio peer') = rest"
proof -
  obtain net' failed where n: "my_net_write net p = Some (net', failed)" "writes_nr net (frames (pkt_nr net) p) net' failed"
    using my_net_write_spec [OF w(1)] by blast
  then have "write_ok net1" "sent net1 = frames (pkt_nr net) p"
    using w(2,3) by (auto simp: writes_nr_def)
  then have "outp (vio net2) = frames (pkt_nr net) p" using net_flush_spec [OF _ w(4)] by simp
  then show ?thesis using read_delivers [OF r(1-4), of p rest] peer r(5-7) by simp
qed

theorem net_write_read_witness:
  "\<exists>net1 net2 peer'. my_net_write (demo_net []) [65, 66, 67] = Some (net1, False) \<and> net_flush net1 = (net2, False) \<and>
     my_net_read ample (demo_net (outp (vio net2) @ [9])) = Some (peer', Some 3) \<and>
     take 3 (drop (read_pos peer') (buff peer')) = [65, 66, 67] \<and> inp (vio peer') = [9]"
proof -
  obtain net1 f where 1: "my_net_write (demo_net []) [65, 66, 67] = Some (net1, f)"
    "writes_nr (demo_net []) (frames 0 [65, 66, 67]) net1 f"
    using my_net_write_spec [OF demo_net_ok(3), of "[]" "[65, 66, 67]"] by (auto simp: demo_net_ok)
  have "ready (demo_net []) (length (frames 0 [65, 66, 67]) + 1)"
    using demo_ready(2) by (simp add: ready_def demo_net_def demo_frames)
  then have f: "\<not> f" "write_ok net1" "ready net1 1" using 1(2) unfolding writes_nr_def by blast+
  obtain net2 g where 2: "net_flush net1 = (net2, g)" by fastforce
  then have "\<not> g" using net_flush_spec [OF f(2) 2] f(3) by (auto simp: writes_def writes_nr_def)
  then have "\<exists>peer'. my_net_read ample (demo_net (outp (vio net2) @ [9])) = Some (peer', Some 3) \<and>
     take 3 (drop (read_pos peer') (buff peer')) = [65, 66, 67] \<and> inp (vio peer') = [9]"
    using net_write_read [of "demo_net []" "[65, 66, 67]" net1 net2 "demo_net (outp (vio net2) @ [9])" "[9]" ample]
      1(1) 2 f(1) by (simp add: demo_net_ok ample_ok [simplified] demo_frames demo_ready [simplified] numeral_3_eq_3)
  then show ?thesis using 1(1) 2 f(1) \<open>\<not> g\<close> by auto
qed

end
