(* ===== verification/ClientNet.thy ===== *)
theory ClientNet
  imports ClientRun NetWrite
begin

text \<open>
  The client over the packet layer of \<^verbatim>\<open>MySQL/net_serv.cc\<close>: a connection whose server answers, the interpretation
  of \<open>server_link\<close> on it, and the properties of the client from the socket to the rows of a result.
\<close>

section \<open>What writing leaves alone\<close>

definition same_end :: "NET \<Rightarrow> NET \<Rightarrow> bool" where
  "same_end net net' \<longleftrightarrow> inp (vio net') = inp (vio net) \<and> length (buff net') = length (buff net) \<and>
     where_b net' = where_b net \<and> max_packet net' = max_packet net \<and> max_packet_size net' = max_packet_size net \<and>
     pkt_nr net' = pkt_nr net"

lemma same_end_refl: "same_end net net"
  by (simp add: same_end_def)

lemma same_end_trans: "same_end a b \<Longrightarrow> same_end b c \<Longrightarrow> same_end a c"
  by (simp add: same_end_def)

lemma vio_write_inp: "vio_write v p = (r, v') \<Longrightarrow> inp v' = inp v"
  by (auto simp: vio_write_def next_result_def Let_def split: list.splits vio_result.splits if_splits)

lemma on_stop_end:
  assumes "on_stop net alarmed n r = (net', y)"
  shows "same_end net net'"
  using on_stop_vio [of net alarmed n r] assms by (auto simp: same_end_def)

lemma write_loop_end: "same_end net (fst (write_loop net alarmed n p))"
proof (induction net alarmed n p rule: write_loop.induct)
  case (1 net alarmed n p)
  show ?case
  proof (cases "p = []")
    case False
    obtain x v where w: "vio_write (vio net) p = (x, v)" by fastforce
    have v: "same_end net (net\<lparr>vio := v\<rparr>)" using vio_write_inp [OF w] by (simp add: same_end_def)
    show ?thesis
    proof (cases x)
      case (Inl k)
      then show ?thesis
        using 1(1) [OF False w [symmetric] Inl] False w same_end_trans [OF v] by (simp add: write_loop.simps [of net])
    next
      case (Inr r)
      obtain net1 y where st: "on_stop (net\<lparr>vio := v\<rparr>) alarmed n r = (net1, y)" by fastforce
      have n1: "same_end net net1" using same_end_trans [OF v on_stop_end [OF st]] .
      show ?thesis
      proof (cases y)
        case (Again a m)
        then show ?thesis
          using 1(2) [OF False w [symmetric] Inr st [symmetric] Again] False w Inr st same_end_trans [OF n1]
          by (simp add: write_loop.simps [of net])
      qed (use False w Inr st n1 in \<open>auto simp: write_loop.simps [of net] same_end_def\<close>)
    qed
  qed (simp add: write_loop.simps same_end_refl)
qed

lemma net_real_write_end: "net_real_write net p = (net', f) \<Longrightarrow> same_end net net'"
  using write_loop_end [of net False 0 p] by (auto simp: net_real_write_def same_end_refl split: if_splits)

lemma net_flush_end: "net_flush net = (net', f) \<Longrightarrow> same_end net net'"
  using net_real_write_end [of net "take (write_pos net) (buff net)"]
  by (auto simp: net_flush_def same_end_def split: if_splits prod.splits)

lemma append_buff_end: "append_buff net p = Some net' \<Longrightarrow> same_end net net'"
  by (auto simp: append_buff_def put_bytes_def same_end_def split: if_splits)

lemma net_write_buff_end:
  assumes "net_write_buff net p = Some (net', f)"
  shows "same_end net net'"
proof -
  let ?left = "max_packet net - write_pos net"
  have app: "same_end net1 net'" if "append_buff net1 q \<bind> (\<lambda>net. Some (net, False)) = Some (net', f)" for net1 q
    using that append_buff_end by (auto split: option.splits simp: Option.bind_eq_Some_conv)
  consider "length p \<le> ?left" | "?left < length p" "write_pos net = 0" | "?left < length p" "write_pos net \<noteq> 0" by linarith
  then show ?thesis
  proof cases
    case 1
    then show ?thesis
      using assms by (auto simp: net_write_buff_def Let_def Option.bind_eq_Some_conv dest: append_buff_end)
  next
    case 2
    then show ?thesis using assms app net_real_write_end
      by (auto simp: net_write_buff_def split: if_splits)
  next
    case 3
    then obtain b where b: "put_bytes (buff net) (write_pos net) (take ?left p) = Some b"
      using assms by (auto simp: net_write_buff_def Let_def Option.bind_eq_Some_conv)
    obtain net1 e where w: "net_real_write (net\<lparr>buff := b\<rparr>) (take (write_pos net + ?left) b) = (net1, e)" by fastforce
    have n1: "same_end net net1"
      using same_end_trans [OF _ net_real_write_end [OF w]] b by (auto simp: same_end_def put_bytes_def split: if_splits)
    then have n2: "same_end net (net1\<lparr>write_pos := 0\<rparr>)" by (simp add: same_end_def)
    show ?thesis
    proof (cases e)
      case True
      then show ?thesis using assms 3 b w n1 by (simp add: net_write_buff_def Let_def)
    next
      case False
      then show ?thesis
        using assms 3 b w app [of "net1\<lparr>write_pos := 0\<rparr>" "drop ?left p"] same_end_trans [OF n2]
          net_real_write_end [of "net1\<lparr>write_pos := 0\<rparr>" "drop ?left p"]
        by (auto simp: net_write_buff_def Let_def split: if_splits)
    qed
  qed
qed

lemma write_all_end: "write_all net ps = Some (net', f) \<Longrightarrow> same_end net net'"
proof (induction ps arbitrary: net)
  case (Cons p ps)
  obtain net1 e where 1: "net_write_buff net p = Some (net1, e)" using Cons.prems by (auto simp: Option.bind_eq_Some_conv)
  have "same_end net net1" by (rule net_write_buff_end [OF 1])
  then show ?case using Cons 1 same_end_trans by (cases e) auto
qed (simp add: same_end_refl)

text \<open>A command in one packet takes one packet number.\<close>

lemma net_write_command_end:
  assumes "net_write_command net command header packet = Some (net', f)" "length packet + 1 + length header < MAX_PACKET_LENGTH"
  shows "same_end (net\<lparr>pkt_nr := pkt_nr net + 1\<rparr>) net'"
proof -
  obtain net1 e where w: "write_all (net\<lparr>pkt_nr := pkt_nr net + 1\<rparr>)
      ([packet_header (length packet + 1 + length header) (pkt_nr net) @ [command]] @
       (if header \<noteq> [] then [header] else []) @ [packet]) = Some (net1, e)"
    using assms by (auto simp: net_write_command_def Let_def Option.bind_eq_Some_conv simp del: write_all.simps split: if_splits)
  have 1: "same_end (net\<lparr>pkt_nr := pkt_nr net + 1\<rparr>) net1" by (rule write_all_end [OF w])
  have "net' = net1 \<or> (\<exists>e. net_flush net1 = (net', e))"
    using assms w by (auto simp: net_write_command_def Let_def simp del: write_all.simps split: if_splits)
  then show ?thesis using 1 same_end_trans [OF 1] net_flush_end by blast
qed

section \<open>Reading one packet\<close>

lemma read_loop_error:
  assumes "read_loop net alarmed n pos remain = Some (net', a, m, True)" "pos + remain \<le> length (buff net)"
  shows "net_error net' = net_error net"
proof -
  have "read_outcome net pos remain net' True" using read_loop_outcome [OF assms(2), of alarmed n] assms(1) by auto
  then show ?thesis by (auto simp: read_outcome_def)
qed

lemma net_realloc_ok:
  assumes "net_realloc alloc net n = (net', False)"
  shows "net_error net' = net_error net" "where_b net' = where_b net"
  using assms by (auto simp: net_realloc_def Let_def split: if_splits option.splits)

lemma read_body_error:
  assumes "read_body alloc net alarmed n len = Some (net', Some m)" "net_ok net" "alloc_ok 1 alloc" "where_b net \<le> max_packet net"
  shows "net_error net' = net_error net"
proof (cases "len = 0")
  case False
  let ?grow = "if max_packet net \<le> len + where_b net then net_realloc alloc net (len + where_b net) else (net, False)"
  obtain net1 failed where grow: "?grow = (net1, failed)" by fastforce
  have nf: "\<not> failed" using assms(1) False grow by (auto simp: read_body_def)
  then have 1: "net_error net1 = net_error net" "where_b net1 = where_b net"
    using grow net_realloc_ok [of alloc net "len + where_b net" net1] by (auto split: if_splits)
  have "net_ok net1" "len + where_b net \<le> max_packet net1"
    using grow nf net_realloc_spec(1,4) [OF assms(2,3), of "len + where_b net" net1 failed] assms(2)
    by (auto simp: kept_def split: if_splits)
  then have room: "where_b net + len \<le> length (buff net1)" by (simp add: net_ok_def)
  obtain a k where "read_loop net1 alarmed n (where_b net) len = Some (net', a, k, True)"
    using assms(1) False grow nf 1(2) by (auto simp: read_body_def Let_def Option.bind_eq_Some_conv split: if_splits)
  then show ?thesis using read_loop_error room 1(1) by metis
qed (use assms in \<open>simp add: read_body_def\<close>)

lemma my_real_read_error:
  assumes "my_real_read alloc net = Some (net', Some m)" "net_ok net" "alloc_ok 1 alloc" "where_b net \<le> max_packet net"
  shows "net_error net' = net_error net"
proof -
  have room: "where_b net + NET_HEADER_SIZE \<le> length (buff net)" using assms(2,4) by (simp add: net_ok_def)
  obtain net1 a n ok where loop: "read_loop net False 0 (where_b net) NET_HEADER_SIZE = Some (net1, a, n, ok)"
    and out: "read_outcome net (where_b net) NET_HEADER_SIZE net1 ok"
    using read_loop_outcome [OF room, of False 0] by blast
  have ok: "ok" using assms(1) loop by (cases ok) (simp_all add: my_real_read_def)
  have e1: "net_error net1 = net_error net" using read_loop_error loop ok room by simp
  have n1: "net_ok net1" "where_b net1 \<le> max_packet net1"
    using out ok room assms(2,4) by (auto simp: read_outcome_def net_ok_def)
  let ?net1 = "net1\<lparr>compress_pkt_nr := pkt_nr net1 + 1, pkt_nr := pkt_nr net1 + 1\<rparr>"
  obtain len where "read_body alloc ?net1 a n len = Some (net', Some m)"
    using assms(1) loop ok by (auto simp: my_real_read_def Let_def Option.bind_eq_Some_conv split: if_splits)
  then have "net_error net' = net_error ?net1"
    by (rule read_body_error) (use n1 assms(3) in \<open>simp_all add: net_ok_def\<close>)
  then show ?thesis using e1 by simp
qed

lemma my_net_read_packet:
  assumes ok: "net_ok net" "where_b net = 0" and al: "alloc_ok 1 alloc" "\<forall>n. alloc n \<noteq> None"
    and i: "inp (vio net) = frames (pkt_nr net) p @ rest" and len: "length p < MAX_PACKET_LENGTH" "length p < max_packet_size net"
    and sup: "supplied net (length (frames (pkt_nr net) p) + k)"
  obtains net' stale where "my_net_read alloc net = Some (net', Some (length p))" "net_ok net'" "where_b net' = 0"
    "max_packet_size net' = max_packet_size net" "pkt_nr net' = pkt_nr net + 1" "inp (vio net') = rest"
    "supplied net' k" "net_error net' = net_error net" "drop (read_pos net') (buff net') = p @ 0 # stale"
proof -
  have w: "where_b net \<le> max_packet net" using ok by simp
  obtain net1 r where run: "my_real_read alloc net = Some (net1, r)" and k1: "kept net net1" and out: "outcome alloc net net1 r"
    using my_real_read_outcome [OF ok(1) al(1) w] .
  have d: "deliverable alloc net (frames (pkt_nr net) p) p"
    using al(2) i len(2) sup ok(2) by (auto simp: deliverable_def supplied_def)
  have r: "r = Some (length p)" using outcome_first [OF out d] len(1) by simp
  obtain q where q: "length p = length q" "reads net (one_packet (pkt_nr net) q) q net1" and nr: "pkt_nr net1 = pkt_nr net + 1"
    using out r by (auto simp: outcome_def)
  have code: "one_packet (pkt_nr net) q = frames (pkt_nr net) q" using q(1) len(1) by (intro packet_frames) simp
  have "frames (pkt_nr net) p @ rest = frames (pkt_nr net) q @ inp (vio net1)"
    using q(2) i code by (simp add: reads_def received_def)
  then have same: "p = q" "inp (vio net1) = rest" using frames_unique by blast+
  have take: "take (length p) (buff net1) = p" and room: "length p \<le> max_packet net1" and w1: "where_b net1 = 0"
    and ok1: "net_ok net1" and m1: "max_packet_size net1 = max_packet_size net"
    using q(2) same(1) ok(2) k1 by (auto simp: reads_def received_def kept_def)
  have sup1: "supplied net1 k" using q(2) same(1) code sup by (simp add: reads_def)
  have e1: "net_error net1 = net_error net" using my_real_read_error [OF run [unfolded r] ok(1) al(1) w] .
  define b where "b = p @ 0 # drop (length p + 1) (buff net1)"
  have put: "put_bytes (buff net1) (length p) [0] = Some b" and lb: "length b = length (buff net1)"
    using room ok1 take by (auto simp: put_bytes_def net_ok_def b_def NET_HEADER_SIZE_def)
  let ?net' = "net1\<lparr>read_pos := 0, buff := b\<rparr>"
  have "my_net_read alloc net = Some (?net', Some (length p))"
    using run r len(1) w1 put by (simp add: my_net_read_def)
  then show ?thesis
    by (rule that) (use ok1 w1 m1 nr same sup1 e1 lb in \<open>simp_all add: net_ok_def supplied_def b_def\<close>)
qed

section \<open>A connection\<close>

text \<open>
  \<^verbatim>\<open>net_clear\<close> before a command: \<open>readable\<close> holds what \<^verbatim>\<open>net_data_is_ready\<close> says before each read; behind its
  end nothing is ready.
\<close>

fun skip_input :: "NET \<Rightarrow> bool list \<Rightarrow> NET option" where
  "skip_input net (True # readable) =
     (case vio_read (vio net) (max_packet net) of
        (Inl bs, v) \<Rightarrow> do { b \<leftarrow> put_bytes (buff net) 0 bs; skip_input (net\<lparr>vio := v, buff := b\<rparr>) readable }
      | (Inr r, v) \<Rightarrow> Some (net\<lparr>vio := v, net_error := 2\<rparr>))"
| "skip_input net _ = Some net"

definition net_clear :: "NET \<Rightarrow> bool list \<Rightarrow> NET option" where
  "net_clear net readable = do {
     net \<leftarrow> skip_input net readable;
     Some (net\<lparr>pkt_nr := 0, compress_pkt_nr := 0, write_pos := 0\<rparr>) }"

text \<open>
  A connection with what the peer will do: for each command to come, what \<^verbatim>\<open>net_data_is_ready\<close> says before it,
  and the bytes that come in once it has been sent.
\<close>

record CONN =
  c_net :: NET
  c_later :: "(bool list \<times> byte list) list"

definition conn_command :: "CONN \<Rightarrow> byte \<Rightarrow> byte list \<Rightarrow> byte list \<Rightarrow> (CONN \<times> bool) option" where
  "conn_command c command header arg =
     (let (readable, bytes) = (case c_later c of [] \<Rightarrow> ([], []) | l # later \<Rightarrow> l)
      in do {
        net \<leftarrow> net_clear (c_net c) readable;
        (net, failed) \<leftarrow> net_write_command net command header arg;
        Some (\<lparr>c_net = net\<lparr>vio := (vio net)\<lparr>inp := inp (vio net) @ bytes\<rparr>\<rparr>, c_later = tl (c_later c)\<rparr>, failed) })"

definition conn_link :: "byte alloc \<Rightarrow> local_infile \<Rightarrow> CONN link" where
  "conn_link alloc infile =
     \<lparr>lk_read = (\<lambda>c. do { (net, len) \<leftarrow> my_net_read alloc (c_net c); Some (c\<lparr>c_net := net\<rparr>, len) }),
      lk_buf = (\<lambda>c. drop (read_pos (c_net c)) (buff (c_net c))),
      lk_put = (\<lambda>c b. c\<lparr>c_net := (c_net c)\<lparr>buff := take (read_pos (c_net c)) (buff (c_net c)) @ b\<rparr>\<rparr>),
      lk_command = conn_command,
      lk_errno = (\<lambda>c. last_errno (c_net c)),
      lk_set_errno = (\<lambda>c e. c\<lparr>c_net := (c_net c)\<lparr>last_errno := e\<rparr>\<rparr>),
      lk_write = (\<lambda>c p. do { (net, failed) \<leftarrow> my_net_write (c_net c) p; Some (c\<lparr>c_net := net\<rparr>, failed) }),
      lk_flush = (\<lambda>c. let (net, failed) = net_flush (c_net c) in (c\<lparr>c_net := net\<rparr>, failed)),
      lk_max_packet = (\<lambda>c. max_packet (c_net c)),
      lk_infile = infile\<rparr>"

text \<open>The bytes of packets in a row.\<close>

fun stream :: "u32 \<Rightarrow> byte list list \<Rightarrow> byte list" where
  "stream nr [] = []"
| "stream nr (p # ps) = frames nr p @ stream (nr + 1) ps"

text \<open>
  The server has sent the packets \<open>ps\<close>, numbered from the next one on, and will answer the commands to come with
  the replies \<open>rs\<close>; nothing comes unasked, packets are below both limits, memory is there, and the socket transfers at least a byte
  in each call, for queries of up to \<open>qmax\<close> bytes.
\<close>

definition effort :: "nat \<Rightarrow> byte list list \<Rightarrow> byte list list list \<Rightarrow> u32 \<Rightarrow> nat" where
  "effort qmax ps rs nr = length (stream nr ps) + sum_list (map (\<lambda>r. qmax + 5 + length (stream 1 r)) rs)"

definition fits :: "nat \<Rightarrow> byte list list \<Rightarrow> bool" where
  "fits limit ps \<longleftrightarrow> list_all (\<lambda>p. length p < MAX_PACKET_LENGTH \<and> length p < limit) ps"

definition conn_talks :: "byte alloc \<Rightarrow> nat \<Rightarrow> CONN \<Rightarrow> byte list list \<Rightarrow> byte list list list \<Rightarrow> bool" where
  "conn_talks alloc qmax c ps rs \<longleftrightarrow> alloc_ok 1 alloc \<and> (\<forall>n. alloc n \<noteq> None) \<and>
     net_ok (c_net c) \<and> where_b (c_net c) = 0 \<and> net_error (c_net c) \<noteq> 2 \<and> qmax + 1 < MAX_PACKET_LENGTH \<and>
     inp (vio (c_net c)) = stream (pkt_nr (c_net c)) ps \<and> c_later c = map (\<lambda>r. ([], stream 1 r)) rs \<and>
     fits (max_packet_size (c_net c)) ps \<and> list_all (fits (max_packet_size (c_net c))) rs \<and>
     supplied (c_net c) (effort qmax ps rs (pkt_nr (c_net c)))"

lemma conn_link_simps [simp]:
  "lk_read (conn_link alloc infile) c = do { (net, len) \<leftarrow> my_net_read alloc (c_net c); Some (c\<lparr>c_net := net\<rparr>, len) }"
  "lk_buf (conn_link alloc infile) c = drop (read_pos (c_net c)) (buff (c_net c))"
  "lk_put (conn_link alloc infile) c b = c\<lparr>c_net := (c_net c)\<lparr>buff := take (read_pos (c_net c)) (buff (c_net c)) @ b\<rparr>\<rparr>"
  "lk_command (conn_link alloc infile) = conn_command"
  "lk_set_errno (conn_link alloc infile) c e = c\<lparr>c_net := (c_net c)\<lparr>last_errno := e\<rparr>\<rparr>"
  by (simp_all add: conn_link_def)

lemma conn_read:
  assumes "conn_talks alloc qmax c (p # ps) rs"
  shows "\<exists>c' stale. lk_read (conn_link alloc infile) c = Some (c', Some (length p)) \<and>
    lk_buf (conn_link alloc infile) c' = p @ 0 # stale \<and> conn_talks alloc qmax c' ps rs"
proof -
  let ?net = "c_net c"
  have al: "alloc_ok 1 alloc" "\<forall>n. alloc n \<noteq> None" using assms(1) by (simp_all add: conn_talks_def)
  have t: "net_ok ?net" "where_b ?net = 0" "net_error ?net \<noteq> 2" "qmax + 1 < MAX_PACKET_LENGTH"
    "inp (vio ?net) = frames (pkt_nr ?net) p @ stream (pkt_nr ?net + 1) ps" "c_later c = map (\<lambda>r. ([], stream 1 r)) rs"
    "length p < MAX_PACKET_LENGTH" "length p < max_packet_size ?net"
    "fits (max_packet_size ?net) ps" "list_all (fits (max_packet_size ?net)) rs"
    "supplied ?net (length (frames (pkt_nr ?net) p) + effort qmax ps rs (pkt_nr ?net + 1))"
    using assms(1) by (simp_all add: conn_talks_def fits_def effort_def ac_simps)
  obtain net' stale where n: "my_net_read alloc ?net = Some (net', Some (length p))" "net_ok net'" "where_b net' = 0"
    "max_packet_size net' = max_packet_size ?net" "pkt_nr net' = pkt_nr ?net + 1"
    "inp (vio net') = stream (pkt_nr ?net + 1) ps" "supplied net' (effort qmax ps rs (pkt_nr ?net + 1))"
    "net_error net' = net_error ?net" "drop (read_pos net') (buff net') = p @ 0 # stale"
    by (rule my_net_read_packet [OF t(1,2) al t(5,7,8,11)])
  have "conn_talks alloc qmax (c\<lparr>c_net := net'\<rparr>) ps rs" using n t al by (simp add: conn_talks_def)
  then show ?thesis using n(1,9) by auto
qed

lemma conn_sends:
  assumes "conn_talks alloc qmax c [] (r # rs)" "length q \<le> qmax"
  shows "\<exists>c'. conn_command c COM_QUERY [] q = Some (c', False) \<and> conn_talks alloc qmax c' r rs"
proof -
  let ?net = "(c_net c)\<lparr>pkt_nr := 0, compress_pkt_nr := 0, write_pos := 0\<rparr>"
  have t: "net_ok (c_net c)" "where_b (c_net c) = 0" "net_error (c_net c) \<noteq> 2" "qmax + 1 < MAX_PACKET_LENGTH"
    "inp (vio (c_net c)) = []" "c_later c = ([], stream 1 r) # map (\<lambda>r. ([], stream 1 r)) rs"
    "fits (max_packet_size (c_net c)) r" "list_all (fits (max_packet_size (c_net c))) rs"
    "supplied (c_net c) (qmax + 5 + effort qmax r rs 1)"
    using assms(1) by (simp_all add: conn_talks_def effort_def ac_simps)
  have al: "alloc_ok 1 alloc" "\<forall>n. alloc n \<noteq> None" using assms(1) by (simp_all add: conn_talks_def)
  have w: "write_ok ?net" using t(1) by (simp add: write_ok_def net_ok_def)
  have small: "length q + 1 + length ([] :: byte list) < MAX_PACKET_LENGTH" using assms(2) t(4) by simp
  have fr: "length (frames 0 (COM_QUERY # [] @ q)) = length q + 5" using small by (simp add: frames_less)
  obtain net' failed where n: "net_write_command ?net COM_QUERY [] q = Some (net', failed)"
    "writes_nr ?net (frames 0 (COM_QUERY # [] @ q)) net' failed"
    using net_write_command_spec [OF w, of "[]" COM_QUERY q] by (auto simp: MAX_PACKET_LENGTH_def)
  have "ready ?net (length (frames 0 (COM_QUERY # [] @ q)) + effort qmax r rs 1)"
    using t(3,9) assms(2) unfolding fr by (simp add: ready_def supplied_def)
  then have f: "\<not> failed" "ready net' (effort qmax r rs 1)" using n(2) unfolding writes_nr_def by blast+
  have e: "same_end (?net\<lparr>pkt_nr := 1\<rparr>) net'" using net_write_command_end [OF n(1) small] by simp
  let ?c = "\<lparr>c_net = net'\<lparr>vio := (vio net')\<lparr>inp := inp (vio net') @ stream 1 r\<rparr>\<rparr>, c_later = map (\<lambda>r. ([], stream 1 r)) rs\<rparr>"
  have "conn_command c COM_QUERY [] q = Some (?c, False)"
    using n(1) f(1) t(6) by (simp add: conn_command_def net_clear_def)
  moreover have "conn_talks alloc qmax ?c r rs"
    using t e f(2) al by (simp add: conn_talks_def same_end_def net_ok_def ready_def supplied_def)
  ultimately show ?thesis by blast
qed

interpretation conn: server_link "conn_link alloc infile" "conn_talks alloc qmax" qmax
  for alloc :: "byte alloc" and infile and qmax
proof unfold_locales
  show "conn_talks alloc qmax n (p # ps) rs \<Longrightarrow>
      \<exists>n' stale. lk_read (conn_link alloc infile) n = Some (n', Some (length p)) \<and>
        lk_buf (conn_link alloc infile) n' = p @ 0 # stale \<and> conn_talks alloc qmax n' ps rs" for n p ps rs
    by (rule conn_read)
  show "conn_talks alloc qmax n ps rs \<Longrightarrow> length b = length (lk_buf (conn_link alloc infile) n) \<Longrightarrow>
      conn_talks alloc qmax (lk_put (conn_link alloc infile) n b) ps rs" for n ps rs b
    by (auto simp: conn_talks_def net_ok_def)
  show "conn_talks alloc qmax n ps rs \<Longrightarrow> conn_talks alloc qmax (lk_set_errno (conn_link alloc infile) n e) ps rs" for n ps rs e
    by (simp add: conn_talks_def net_ok_def supplied_def)
  show "lk_buf (conn_link alloc infile) (lk_set_errno (conn_link alloc infile) n e) = lk_buf (conn_link alloc infile) n" for n e
    by simp
  show "conn_talks alloc qmax n [] (r # rs) \<Longrightarrow> length q \<le> qmax \<Longrightarrow>
      \<exists>n'. lk_command (conn_link alloc infile) n COM_QUERY [] q = Some (n', False) \<and> conn_talks alloc qmax n' r rs" for n r rs q
    using conn_sends by simp
qed

lemma served_alloc:
  "served (conn_talks alloc qmax) k s \<Longrightarrow> alloc_ok 1 alloc \<and> (\<forall>n. alloc n \<noteq> None)"
  by (auto simp: served_def in_sync_def conn_talks_def)

section \<open>An example\<close>

text \<open>The server answers two queries, with a row of one column and with an error.\<close>

definition demo_field :: "byte list option list" where
  "demo_field = map Some [[100], [], [], [], [97], [], field_fixed 33 11 3 0 0]"

definition demo_reply :: "byte list list" where
  "demo_reply = header_packet 1 # map encode_row [demo_field] @ eof_packet 0 2 #
     map encode_row [[Some [65]]] @ [eof_packet 0 2]"

definition demo_replies :: "byte list list list" where
  "demo_replies = [demo_reply, [err_packet 1064 [52, 50, 48, 48, 48] [63]]]"

definition demo_conn :: CONN where
  "demo_conn = \<lparr>c_net = \<lparr>vio = \<lparr>script = replicate (effort 9 [] demo_replies 0) (Bytes 2), inp = [], outp = []\<rparr>,
       buff = replicate 23 0, write_pos = 0, read_pos = 0, where_b = 0, max_packet = 16, max_packet_size = 1024,
       pkt_nr = 0, compress_pkt_nr = 0, retry_limit = 1, net_error = 0, last_errno = 0\<rparr>,
     c_later = map (\<lambda>r. ([], stream 1 r)) demo_replies\<rparr>"

definition no_infile :: local_infile where
  "no_infile = \<lparr>li_init = (\<lambda>f. ([], True)), li_read = (\<lambda>li n. (li, None)), li_error = (\<lambda>li. (0, []))\<rparr>"

definition demo_mysql :: "CONN MYSQL" where
  "demo_mysql = \<lparr>my_net = demo_conn, my_open = True, my_status = MYSQL_STATUS_READY, my_server_status = 2,
     my_warning_count = 0, my_affected_rows = 0, my_insert_id = 0, my_fields = None, my_field_count = 0, my_info = None,
     my_sqlstate = [], my_error = [], my_protocol_41 = True, my_transactions = True, my_long_flag = True, my_local_files = False,
     my_fetch_owner = None, my_cancelled = {}\<rparr>"

definition demo_MYSQL_FIELD :: MYSQL_FIELD where
  "demo_MYSQL_FIELD = \<lparr>f_name = [97], f_org_name = [], f_table = [], f_org_table = [], f_db = [], f_catalog = [100],
     f_def = None, f_length = 11, f_max_length = 0, f_flags = NUM_FLAG, f_decimals = 0, f_charsetnr = 33, f_type = 3\<rparr>"

lemma demo_field_ok: "row_ok 7 demo_field" "describes demo_field demo_MYSQL_FIELD"
proof -
  have l: "length (field_fixed a b c d e) = 12" for a b c d e by (simp add: field_fixed_def)
  show "row_ok 7 demo_field"
    by (simp add: row_ok_def demo_field_def small_cell_def l encode_row_def encode_cell_def net_store_length_def)
  show "describes demo_field demo_MYSQL_FIELD"
    unfolding describes_def demo_field_def demo_MYSQL_FIELD_def INTERNAL_NUM_FIELD_def
    by (intro exI [of _ "[100]"] exI [of _ "[]"] exI [of _ "[97]"] exI [of _ "33 :: u16"] exI [of _ "11 :: u32"]
      exI [of _ "3 :: byte"] exI [of _ "0 :: u16"] exI [of _ "0 :: byte"] conjI refl) simp
qed

lemma demo_row_ok: "row_ok 1 [Some [65]]"
  by (simp add: row_ok_def small_cell_def encode_row_def encode_cell_def net_store_length_def)

lemma demo_fits: "list_all (fits 1024) demo_replies"
  by (simp add: demo_replies_def demo_reply_def fits_def demo_field_def header_packet_def eof_packet_def err_packet_def
      encode_row_def encode_cell_def net_store_length_def field_fixed_def MAX_PACKET_LENGTH_def)

lemma demo_talks: "conn_talks ample 9 demo_conn [] demo_replies"
  using demo_fits ample_ok
  by (simp add: conn_talks_def demo_conn_def net_ok_def NET_HEADER_SIZE_def COMP_HEADER_SIZE_def MAX_PACKET_LENGTH_def
      fits_def supplied_def steady_def list_all_iff)

lemma demo_usable: "usable demo_mysql" "my_status demo_mysql = MYSQL_STATUS_READY" "my_net demo_mysql = demo_conn"
  by (simp_all add: demo_mysql_def usable_def more_results_def SERVER_MORE_RESULTS_EXISTS_def)

lemma demo_query_reply: "list_all query_reply demo_replies"
proof -
  have e: "is_eof (eof_packet 0 2)" unfolding is_eof_def by (intro exI [of _ 0] exI [of _ 2]) simp
  let ?rows = "map encode_row [[Some [65]]] @ [eof_packet 0 2]"
  have rows: "rows_reply 1 ?rows"
    unfolding rows_reply_def using demo_row_ok
    by (intro exI [of _ "[[Some [65]]]"] exI [of _ "eof_packet 0 2"]) (simp add: e)
  have d: "list_all (row_ok 7) [demo_field]" "list_all2 describes [demo_field] [demo_MYSQL_FIELD]"
    using demo_field_ok by simp_all
  have "query_reply demo_reply"
    unfolding query_reply_def demo_reply_def
    by (rule disjI2, rule disjI2, intro exI [of _ 1] exI [of _ "[demo_field]"] exI [of _ "[demo_MYSQL_FIELD]"] exI [of _ 0]
        exI [of _ 2] exI [of _ ?rows] conjI refl d rows) simp_all
  moreover have "query_reply [err_packet 1064 [52, 50, 48, 48, 48] [63]]"
  proof -
    have "is_err (err_packet 1064 [52, 50, 48, 48, 48] [63])"
      unfolding is_err_def
      by (rule exI [of _ 1064], rule exI [of _ "[52, 50, 48, 48, 48]"], rule exI [of _ "[63]"]) simp
    then show ?thesis by (simp add: query_reply_def)
  qed
  ultimately show ?thesis by (simp add: demo_replies_def)
qed

lemma demo_served: "served (conn_talks ample 9) 2 (demo_mysql, [])"
  unfolding served_def
proof (intro exI conjI)
  show "2 \<le> length demo_replies" by (simp add: demo_replies_def)
  show "list_all query_reply demo_replies" by (rule demo_query_reply)
  show "in_sync (\<lambda>n ps. conn_talks ample 9 n ps demo_replies) (fst (demo_mysql, [])) (snd (demo_mysql, []))"
    using demo_talks demo_usable by (auto simp: in_sync_def consistent_def pending_def)
qed

section \<open>Properties\<close>

text \<open>
  C9: the connection stays in step with a conforming server.  The hypothesis \<open>served\<close> on the start: the server will
  answer each query with one reply of the protocol (an ok packet, an error, or one result whose rows have the
  announced columns and may break off with an error; no further result, no local file), nothing comes unasked, each
  packet is below both size limits, the socket transfers at least a byte in each call, and no allocation fails.
  Then whatever calls a program makes, in whatever order (a query while rows are to be read, a result that is
  released half way, a second attempt to take a result), after them the status says what is still to come: ready,
  and no byte of a reply is left on the socket; a result to take, and exactly its rows are; a result in use, and
  exactly the rest of its rows are, for the one result that reads them.  When memory is short this fails:
  \<^verbatim>\<open>mysql_store_result\<close> sets the status to ready before its allocation and leaves the rows on the socket.
\<close>
theorem client_in_sync:
  assumes "client_run (conn_link alloc infile) alloc s cs s'" "served (conn_talks alloc qmax) (k + queries cs) s"
    and "short_queries qmax cs"
  shows "served (conn_talks alloc qmax) k s'"
  using conn.run_served [OF assms] served_alloc [OF assms(2)] by blast

theorem client_in_sync_witness:
  "\<exists>s'. client_run (conn_link ample no_infile) ample (demo_mysql, []) [Query [115]] s' \<and>
     served (conn_talks ample 9) 1 s'"
proof -
  let ?lk = "conn_link ample no_infile"
  have q: "queries [Query [115]] = 1" by (simp add: queries_def)
  have "served (conn_talks ample 9) (1 + queries [Query [115]]) (demo_mysql, [])"
    using demo_served by (simp only: q one_add_one)
  then obtain s' where "client_step ?lk ample (demo_mysql, []) (Query [115]) s'"
    by (rule conn.step_served [OF _ _ ample_ok]) (simp add: allowed_def)
  then have run: "client_run ?lk ample (demo_mysql, []) [Query [115]] s'"
    using client_run.Call [OF client_run.Done] by fastforce
  have "served (conn_talks ample 9) 1 s'"
    by (rule client_in_sync [OF run]) (use demo_served in \<open>simp_all add: queries_def short_queries_def numeral_2_eq_2\<close>)
  then show ?thesis using run by blast
qed

text \<open>
  C10: with a server, a socket and an allocator as in C9 (\<open>served\<close>), in every state that a program can reach, every
  call that C allows it (a result that exists, a query that is not too long) returns: no access outside a packet or
  a row, no endless loop over packets.  A server that breaks the protocol can make the client access memory outside
  (\<open>store_row_overflow\<close>).
\<close>
theorem client_progress:
  assumes "client_run (conn_link alloc infile) alloc s cs (m, results)"
    and "served (conn_talks alloc qmax) (queries (cs @ [c])) s" "short_queries qmax cs" "allowed qmax (length results) c"
  shows "\<exists>s'. client_step (conn_link alloc infile) alloc (m, results) c s'"
proof -
  have al: "alloc_ok 1 alloc" "\<forall>n. alloc n \<noteq> None" using served_alloc [OF assms(2)] by blast+
  have "queries (cs @ [c]) = queries [c] + queries cs" by (simp add: queries_def)
  then have "served (conn_talks alloc qmax) (0 + queries [c]) (m, results)"
    using conn.run_served [OF assms(1) _ assms(3) al] assms(2) by simp
  then show ?thesis using conn.step_served [OF _ assms(4) al] by metis
qed

theorem client_progress_witness:
  "\<exists>s'. client_step (conn_link ample no_infile) ample (demo_mysql, []) (Query [115]) s'"
  using client_progress [OF client_run.Done, where alloc = ample and qmax = 9 and c = "Query [115]"
      and m = demo_mysql and results = "[]" and infile = no_infile] served_less [OF demo_served, of 1]
  by (simp add: queries_def short_queries_def allowed_def)

text \<open>
  C11: from the query to the rows.  A query whose reply is a result gives the fields that the server describes, and
  fetching, from the stored result as from the unbuffered one, gives exactly the rows that the server has sent, null
  values and all, then the end; after it the connection is ready for the next query.
\<close>
theorem query_gives_rows:
  assumes "usable m" "my_status m = MYSQL_STATUS_READY" "length q \<le> qmax"
    and "conn_talks alloc qmax (my_net m) []
      ((header_packet k # map encode_row fds @ eof_packet w s # map encode_row rs @ [eof_packet w' s']) # replies)"
    and "s AND 8 = 0" "s' AND 8 = 0" "0 < k" "k < 16777216" "length fds = k" "list_all (row_ok 7) fds"
      "list_all2 describes fds fs" "list_all (row_ok k) rs"
    and "take_result \<in> {mysql_store_result (conn_link alloc infile) alloc new_id, cli_use_result (conn_link alloc infile) alloc new_id}"
  shows "\<exists>m1 m2 res m3 res3. mysql_real_query (conn_link alloc infile) alloc m q = Some (m1, False) \<and> my_fields m1 = Some fs \<and>
    take_result m1 = Some (m2, Some res) \<and>
    fetch_rows (conn_link alloc infile) (Suc (length rs)) m2 res = Some (m3, res3, map Some rs @ [None]) \<and>
    usable m3 \<and> my_status m3 = MYSQL_STATUS_READY \<and> conn_talks alloc qmax (my_net m3) [] replies"
proof -
  have al: "alloc_ok 1 alloc" "\<forall>n. alloc n \<noteq> None" using assms(4) by (simp_all add: conn_talks_def)
  obtain m1 m2 res m3 res3 where "mysql_real_query (conn_link alloc infile) alloc m q = Some (m1, False)" "my_fields m1 = Some fs"
    "take_result m1 = Some (m2, Some res)"
    "fetch_rows (conn_link alloc infile) (Suc (length rs)) m2 res = Some (m3, res3, map Some rs @ [None])"
    "usable m3" "my_status m3 = MYSQL_STATUS_READY" "conn_talks alloc qmax (my_net m3) [] replies"
    by (rule conn.query_fetch [OF assms(1-3) al assms(4-13)])
  then show ?thesis by blast
qed

theorem query_gives_rows_witness:
  "\<exists>m1 m2 res m3 res3. mysql_real_query (conn_link ample no_infile) ample demo_mysql [115] = Some (m1, False) \<and>
    my_fields m1 = Some [demo_MYSQL_FIELD] \<and> cli_use_result (conn_link ample no_infile) ample 1 m1 = Some (m2, Some res) \<and>
    fetch_rows (conn_link ample no_infile) 2 m2 res = Some (m3, res3, [Some [Some [65]], None])"
proof -
  have "conn_talks ample 9 (my_net demo_mysql) []
    ((header_packet 1 # map encode_row [demo_field] @ eof_packet 0 2 # map encode_row [[Some [65]]] @ [eof_packet 0 2]) #
     [[err_packet 1064 [52, 50, 48, 48, 48] [63]]])"
    using demo_talks demo_usable(3) by (simp only: demo_replies_def demo_reply_def)
  then show ?thesis
    using query_gives_rows [OF demo_usable(1,2), of "[115]" 9 ample 1 "[demo_field]" 0 2 "[[Some [65]]]" 0 2 _
        "[demo_MYSQL_FIELD]" "cli_use_result (conn_link ample no_infile) ample 1" no_infile 1]
      demo_field_ok demo_row_ok
    by (simp del: fetch_rows.simps add: numeral_2_eq_2) blast
qed

end
