(* ===== verification/TimeVal.thy ===== *)
theory TimeVal
  imports Str2int
begin

text \<open>
  Dates and times (\<^verbatim>\<open>MySQL/my_time.c\<close>, \<^verbatim>\<open>mysql_time.h\<close>, \<^verbatim>\<open>my_time.h\<close>): checks, day numbers, conversion to and
  from numbers and text.  The table of the positions of the fields in a text is constant in this library, year
  first and without AM/PM; the branches for other orders, which never run, are left out.  A \<^verbatim>\<open>ulong\<close> has 64 bits;
  fields of the type \<^verbatim>\<open>uint\<close> are natural numbers, with the wrap-around written where it can happen.
\<close>

section \<open>The code\<close>

datatype timestamp_type =
  MYSQL_TIMESTAMP_NONE | MYSQL_TIMESTAMP_ERROR | MYSQL_TIMESTAMP_DATE | MYSQL_TIMESTAMP_DATETIME | MYSQL_TIMESTAMP_TIME

record MYSQL_TIME =
  t_year :: nat
  t_month :: nat
  t_day :: nat
  t_hour :: nat
  t_minute :: nat
  t_second :: nat
  t_second_part :: nat
  t_neg :: bool
  t_type :: timestamp_type

definition YY_PART_YEAR :: nat where "YY_PART_YEAR = 70"

definition TIME_FUZZY_DATE :: u64 where "TIME_FUZZY_DATE = 1"
definition TIME_DATETIME_ONLY :: u64 where "TIME_DATETIME_ONLY = 2"
definition TIME_NO_ZERO_IN_DATE :: u64 where "TIME_NO_ZERO_IN_DATE = 8388608"
definition TIME_NO_ZERO_DATE :: u64 where "TIME_NO_ZERO_DATE = 16777216"
definition TIME_INVALID_DATES :: u64 where "TIME_INVALID_DATES = 33554432"

definition MYSQL_TIME_WARN_TRUNCATED :: nat where "MYSQL_TIME_WARN_TRUNCATED = 1"
definition MYSQL_TIME_WARN_OUT_OF_RANGE :: nat where "MYSQL_TIME_WARN_OUT_OF_RANGE = 2"

definition TIME_MAX_HOUR :: nat where "TIME_MAX_HOUR = 838"
definition TIME_MAX_MINUTE :: nat where "TIME_MAX_MINUTE = 59"
definition TIME_MAX_SECOND :: nat where "TIME_MAX_SECOND = 59"

definition log_10_int :: "u64 list" where
  "log_10_int = [1, 10, 100, 1000, 10000, 100000, 1000000, 10000000, 100000000, 1000000000, 10000000000,
     100000000000, 1000000000000, 10000000000000, 100000000000000, 1000000000000000, 10000000000000000,
     100000000000000000, 1000000000000000000, 10000000000000000000]"

definition days_in_month :: "nat list" where
  "days_in_month = [31, 28, 31, 30, 31, 30, 31, 31, 30, 31, 30, 31, 0]"

definition calc_days_in_year :: "nat \<Rightarrow> nat" where
  "calc_days_in_year year = (if year mod 4 = 0 \<and> (year mod 100 \<noteq> 0 \<or> year mod 400 = 0 \<and> year \<noteq> 0) then 366 else 365)"

text \<open>The result of \<^verbatim>\<open>check_date\<close> and \<^verbatim>\<open>was_cut\<close>; \<^const>\<open>None\<close> for an access behind the table of the months.\<close>

definition check_date :: "MYSQL_TIME \<Rightarrow> bool \<Rightarrow> u64 \<Rightarrow> nat \<Rightarrow> (bool \<times> nat) option" where
  "check_date t not_zero_date flags was_cut =
     (if not_zero_date then
        if (flags AND TIME_NO_ZERO_IN_DATE \<noteq> 0 \<or> flags AND TIME_FUZZY_DATE = 0) \<and> (t_month t = 0 \<or> t_day t = 0)
        then Some (True, 2)
        else if flags AND TIME_INVALID_DATES = 0 \<and> t_month t \<noteq> 0 then do {
          d \<leftarrow> rd days_in_month (t_month t - 1);
          Some (if d < t_day t \<and> (t_month t \<noteq> 2 \<or> calc_days_in_year (t_year t) \<noteq> 366 \<or> t_day t \<noteq> 29)
                then (True, 2) else (False, was_cut)) }
        else Some (False, was_cut)
      else Some (flags AND TIME_NO_ZERO_DATE \<noteq> 0, was_cut))"

definition year_2000_handling :: "nat \<Rightarrow> nat" where
  "year_2000_handling year =
     (let year = wrap32 (year + 1900) in if year < 1900 + YY_PART_YEAR then wrap32 (year + 100) else year)"

text \<open>
  The arguments are converted to \<^verbatim>\<open>int\<close>, and the sum is computed in \<^verbatim>\<open>int\<close>: \<^const>\<open>None\<close> when it overflows, as it
  does for years from about 5,900,000 on.
\<close>

definition calc_daynr :: "nat \<Rightarrow> nat \<Rightarrow> nat \<Rightarrow> int option" where
  "calc_daynr year month day =
     (let y = to_int (int year)
      in if y = 0 \<and> month = 0 \<and> day = 0 then Some 0
         else do {
           days \<leftarrow> c_int (365 * y);
           m \<leftarrow> c_int (to_int (int month) - 1);
           m \<leftarrow> c_int (31 * m);
           days \<leftarrow> c_int (days + m);
           delsum \<leftarrow> c_int (days + to_int (int day));
           (y, delsum) \<leftarrow>
             (if month \<le> 2 then do { y \<leftarrow> c_int (y - 1); Some (y, delsum) }
              else do {
                m \<leftarrow> c_int (to_int (int month) * 4);
                m \<leftarrow> c_int (m + 23);
                Some (y, delsum - m sdiv 10) });
           temp \<leftarrow> c_int ((y sdiv 100 + 1) * 3);
           Some (delsum + y sdiv 4 - temp sdiv 4) })"

definition zero_time :: MYSQL_TIME where
  "zero_time = \<lparr>t_year = 0, t_month = 0, t_day = 0, t_hour = 0, t_minute = 0, t_second = 0, t_second_part = 0,
     t_neg = False, t_type = MYSQL_TIMESTAMP_DATE\<rparr>"

definition set_zero_time :: "timestamp_type \<Rightarrow> MYSQL_TIME" where
  "set_zero_time time_type = zero_time\<lparr>t_type := time_type\<rparr>"

text \<open>\<^verbatim>\<open>24*my_time->day\<close> and the sum are computed in an \<^verbatim>\<open>uint\<close>.  The result, the time and the warnings.\<close>

definition check_time_range :: "MYSQL_TIME \<Rightarrow> nat \<Rightarrow> bool \<times> MYSQL_TIME \<times> nat" where
  "check_time_range t warning =
     (if 60 \<le> t_minute t \<or> 60 \<le> t_second t then (True, t, warning)
      else
        let hour = wrap32 (t_hour t + 24 * t_day t)
        in if hour \<le> TIME_MAX_HOUR \<and>
              (hour \<noteq> TIME_MAX_HOUR \<or> t_minute t \<noteq> TIME_MAX_MINUTE \<or> t_second t \<noteq> TIME_MAX_SECOND \<or> t_second_part t = 0)
           then (False, t, warning)
           else (False, t\<lparr>t_day := 0, t_hour := TIME_MAX_HOUR, t_minute := TIME_MAX_MINUTE, t_second := TIME_MAX_SECOND,
                         t_second_part := 0\<rparr>, warning OR MYSQL_TIME_WARN_OUT_OF_RANGE))"

section \<open>Numbers\<close>

definition TIME_to_ulonglong_datetime :: "MYSQL_TIME \<Rightarrow> u64" where
  "TIME_to_ulonglong_datetime t =
     of_nat (t_year t * 10000 + t_month t * 100 + t_day t) * 1000000 +
     of_nat (t_hour t * 10000 + t_minute t * 100 + t_second t)"

definition TIME_to_ulonglong_date :: "MYSQL_TIME \<Rightarrow> u64" where
  "TIME_to_ulonglong_date t = of_nat (t_year t * 10000 + t_month t * 100 + t_day t)"

definition TIME_to_ulonglong_time :: "MYSQL_TIME \<Rightarrow> u64" where
  "TIME_to_ulonglong_time t = of_nat (t_hour t * 10000 + t_minute t * 100 + t_second t)"

definition TIME_to_ulonglong :: "MYSQL_TIME \<Rightarrow> u64" where
  "TIME_to_ulonglong t =
     (case t_type t of
        MYSQL_TIMESTAMP_DATETIME \<Rightarrow> TIME_to_ulonglong_datetime t
      | MYSQL_TIMESTAMP_DATE \<Rightarrow> TIME_to_ulonglong_date t
      | MYSQL_TIMESTAMP_TIME \<Rightarrow> TIME_to_ulonglong_time t
      | _ \<Rightarrow> 0)"

text \<open>The part of \<^verbatim>\<open>number_to_datetime\<close> before the label \<^verbatim>\<open>ok\<close>: the number in the long format and the type.\<close>

definition complete_number :: "int \<Rightarrow> (int \<times> timestamp_type) option" where
  "complete_number nr =
     (let dt = MYSQL_TIMESTAMP_DATETIME; d = MYSQL_TIMESTAMP_DATE; yy = int YY_PART_YEAR
      in if nr = 0 \<or> 10000101000000 \<le> nr then Some (nr, dt)
         else if nr < 101 then None
         else if nr \<le> (yy - 1) * 10000 + 1231 then Some ((nr + 20000000) * 1000000, d)
         else if nr < yy * 10000 + 101 then None
         else if nr \<le> 991231 then Some ((nr + 19000000) * 1000000, d)
         else if nr < 10000101 then None
         else if nr \<le> 99991231 then Some (nr * 1000000, d)
         else if nr < 101000000 then None
         else if nr \<le> (yy - 1) * 10000000000 + 1231235959 then Some (nr + 20000000000000, dt)
         else if nr < yy * 10000000000 + 101000000 then None
         else if nr \<le> 991231235959 then Some (nr + 19000000000000, dt)
         else Some (nr, dt))"

text \<open>Behind the label.\<close>

definition split_number :: "int \<Rightarrow> timestamp_type \<Rightarrow> MYSQL_TIME" where
  "split_number nr ty =
     (let part1 = nr sdiv 1000000; part2 = nr - part1 * 1000000
      in zero_time\<lparr>t_year := nat (part1 sdiv 10000),
           t_month := nat ((part1 smod 10000) sdiv 100), t_day := nat ((part1 smod 10000) smod 100),
           t_hour := nat (part2 sdiv 10000),
           t_minute := nat ((part2 smod 10000) sdiv 100), t_second := nat ((part2 smod 10000) smod 100),
           t_type := ty\<rparr>)"

text \<open>The result (-1 for an error), the time and \<^verbatim>\<open>was_cut\<close>.\<close>

definition number_to_datetime :: "int \<Rightarrow> u64 \<Rightarrow> (int \<times> MYSQL_TIME \<times> nat) option" where
  "number_to_datetime nr flags =
     (case complete_number nr of
        None \<Rightarrow> Some (-1, zero_time\<lparr>t_type := (if nr < 101000000 then MYSQL_TIMESTAMP_DATE else MYSQL_TIMESTAMP_DATETIME)\<rparr>, 1)
      | Some (nr, ty) \<Rightarrow>
          let t = split_number nr ty
          in if t_year t \<le> 9999 \<and> t_month t \<le> 12 \<and> t_day t \<le> 31 \<and> t_hour t \<le> 23 \<and> t_minute t \<le> 59 \<and> t_second t \<le> 59
             then do {
               (bad, was_cut) \<leftarrow> check_date t (nr \<noteq> 0) flags 0;
               Some (if \<not> bad then (nr, t, was_cut)
                     else if nr = 0 \<and> flags AND TIME_NO_ZERO_DATE \<noteq> 0 then (-1, t, was_cut)
                     else (-1, t, 1)) }
             else Some (-1, t, 1))"

section \<open>Text\<close>

text \<open>The formats \<^verbatim>\<open>%02u\<close> and \<^verbatim>\<open>%04u\<close>.\<close>

definition padded :: "nat \<Rightarrow> nat \<Rightarrow> byte list" where
  "padded w n = (let ds = map dec_char (if n = 0 then [0] else radix_digits 10 n) in replicate (w - length ds) 48 @ ds)"

definition my_time_to_str :: "MYSQL_TIME \<Rightarrow> byte list" where
  "my_time_to_str t =
     (if t_neg t then [45] else []) @ padded 2 (t_hour t) @ [58] @ padded 2 (t_minute t) @ [58] @ padded 2 (t_second t)"

definition my_date_to_str :: "MYSQL_TIME \<Rightarrow> byte list" where
  "my_date_to_str t = padded 4 (t_year t) @ [45] @ padded 2 (t_month t) @ [45] @ padded 2 (t_day t)"

definition my_datetime_to_str :: "MYSQL_TIME \<Rightarrow> byte list" where
  "my_datetime_to_str t =
     padded 4 (t_year t) @ [45] @ padded 2 (t_month t) @ [45] @ padded 2 (t_day t) @ [32] @
     padded 2 (t_hour t) @ [58] @ padded 2 (t_minute t) @ [58] @ padded 2 (t_second t)"

definition my_TIME_to_str :: "MYSQL_TIME \<Rightarrow> byte list" where
  "my_TIME_to_str t =
     (case t_type t of
        MYSQL_TIMESTAMP_DATETIME \<Rightarrow> my_datetime_to_str t
      | MYSQL_TIMESTAMP_DATE \<Rightarrow> my_date_to_str t
      | MYSQL_TIMESTAMP_TIME \<Rightarrow> my_time_to_str t
      | _ \<Rightarrow> [])"

definition my_isdigit :: "byte \<Rightarrow> bool" where
  "my_isdigit c \<longleftrightarrow> (ctype_latin1 ! (unat c + 1)) AND 4 \<noteq> 0"

definition my_ispunct :: "byte \<Rightarrow> bool" where
  "my_ispunct c \<longleftrightarrow> (ctype_latin1 ! (unat c + 1)) AND 16 \<noteq> 0"

text \<open>
  The digits of a field behind its first one: to the next character that is none, or for \<open>fl\<close> digits in all.  The
  value is an \<^verbatim>\<open>ulong\<close>.
\<close>

fun scan_number :: "bool \<Rightarrow> nat \<Rightarrow> u64 \<Rightarrow> byte list \<Rightarrow> u64 \<times> byte list" where
  "scan_number until_delim fl v [] = (v, [])"
| "scan_number until_delim fl v (c # s) =
     (if my_isdigit c \<and> (until_delim \<or> fl \<noteq> 1)
      then scan_number until_delim (if until_delim then fl else fl - 1) (v * 10 + ucast (c - 48)) s
      else (v, c # s))"

text \<open>Delimiters behind a field; \<^const>\<open>None\<close> for a space where none is allowed.\<close>

fun skip_delimiters :: "bool \<Rightarrow> byte list \<Rightarrow> bool \<Rightarrow> bool \<Rightarrow> (byte list \<times> bool \<times> bool) option" where
  "skip_delimiters allow [] found_delimiter found_space = Some ([], found_delimiter, found_space)"
| "skip_delimiters allow (c # s) found_delimiter found_space =
     (if my_ispunct c \<or> my_isspace c then
        (if my_isspace c \<and> \<not> allow then None
         else skip_delimiters allow s True (found_space \<or> my_isspace c))
      else Some (c # s, found_delimiter, found_space))"

text \<open>
  The loop over the fields: \<open>n\<close> may follow, \<open>i\<close> is the number of the next one and \<open>fl\<close> its length.  The result
  is the fields with their lengths, the position behind the last one, and the two flags; \<open>Inl\<close> when the text is
  no timestamp.
\<close>

fun scan_parts ::
  "bool \<Rightarrow> nat \<Rightarrow> nat \<Rightarrow> nat \<Rightarrow> byte list \<Rightarrow> byte list \<Rightarrow> bool \<Rightarrow> bool \<Rightarrow>
     unit + (nat \<times> nat) list \<times> byte list \<times> bool \<times> bool" where
  "scan_parts internal 0 i fl s last_pos fd fs = Inr ([], last_pos, fd, fs)"
| "scan_parts internal (Suc n) i fl [] last_pos fd fs = Inr ([], last_pos, fd, fs)"
| "scan_parts internal (Suc n) i fl (c # s) last_pos fd fs =
     (if \<not> my_isdigit c then Inr ([], last_pos, fd, fs)
      else
        let (v, s') = scan_number (\<not> internal \<and> i \<noteq> 6) fl (ucast (c - 48)) s;
            part = (unat v, length (c # s) - length s')
        in if 999999 < v then Inl ()
           else if s' = [] then Inr ([part], [], fd, fs)
           else if i = 2 \<and> hd s' = 84 then
             map_sum id (apfst ((#) part)) (scan_parts internal n (i + 1) 2 (tl s') s' fd fs)
           else if i = 5 then
             map_sum id (apfst ((#) part))
               (if hd s' = 46 then scan_parts internal n (i + 1) 6 (tl s') s' fd fs
                else scan_parts internal n (i + 1) 2 s' s' fd fs)
           else
             (case skip_delimiters (i = 2) s' fd fs of
                None \<Rightarrow> Inl ()
              | Some (s', fd, fs) \<Rightarrow> map_sum id (apfst ((#) part)) (scan_parts internal n (i + 1) 2 s' s' fd fs)))"

text \<open>The date, the length of its field \<open>i\<close>, and what the fields make of it.\<close>

definition date_part :: "(nat \<times> nat) list \<Rightarrow> nat \<Rightarrow> nat \<times> nat" where
  "date_part ps i = (if i < length ps then ps ! i else (0, 0))"

definition time_of_parts :: "(nat \<times> nat) list \<Rightarrow> nat \<Rightarrow> MYSQL_TIME" where
  "time_of_parts ps year_length =
     (let part = (\<lambda>i. fst (date_part ps i));
          frac_len = snd (date_part ps 6);
          frac = (if frac_len < 6 then wrap32 (part 6 * unat (log_10_int ! (6 - frac_len))) else part 6);
          year = (if year_length = 2 \<and> (\<exists>p \<in> set ps. fst p \<noteq> 0)
                  then part 0 + (if part 0 < YY_PART_YEAR then 2000 else 1900) else part 0)
      in \<lparr>t_year = year, t_month = part 1, t_day = part 2, t_hour = part 3, t_minute = part 4, t_second = part 5,
          t_second_part = frac, t_neg = False, t_type = MYSQL_TIMESTAMP_DATE\<rparr>)"

text \<open>
  The type, the time and \<^verbatim>\<open>was_cut\<close>.  (When all seven fields are there the code counts eight, which makes no
  difference.)
\<close>

definition finish_datetime ::
  "(nat \<times> nat) list \<Rightarrow> nat \<Rightarrow> byte list \<Rightarrow> u64 \<Rightarrow> (timestamp_type \<times> MYSQL_TIME \<times> nat) option" where
  "finish_datetime ps year_length rest flags =
     (let t = time_of_parts ps year_length;
          not_zero_date = (\<exists>p \<in> set ps. fst p \<noteq> 0);
          garbage = (\<exists>c \<in> set rest. \<not> my_isspace c)
      in if length ps < 3 \<or> 9999 < t_year t \<or> 12 < t_month t \<or> 31 < t_day t \<or> 23 < t_hour t \<or> 59 < t_minute t \<or>
            59 < t_second t
         then Some (MYSQL_TIMESTAMP_ERROR, zero_time, if not_zero_date \<or> garbage then 1 else 0)
         else do {
           (bad, was_cut) \<leftarrow> check_date t not_zero_date flags 0;
           let ty = (if length ps \<le> 3 then MYSQL_TIMESTAMP_DATE else MYSQL_TIMESTAMP_DATETIME);
           Some (if bad then (MYSQL_TIMESTAMP_ERROR, zero_time, was_cut)
                 else (ty, t\<lparr>t_type := ty\<rparr>, if garbage then 1 else was_cut)) })"

definition str_to_datetime ::
  "byte list \<Rightarrow> MYSQL_TIME \<Rightarrow> u64 \<Rightarrow> (timestamp_type \<times> MYSQL_TIME \<times> nat) option" where
  "str_to_datetime str l_time flags =
     (let str = dropWhile my_isspace str; none = Some (MYSQL_TIMESTAMP_NONE, l_time, 1)
      in if str = [] \<or> \<not> my_isdigit (hd str) then none
         else
           let first = takeWhile (\<lambda>c. my_isdigit c \<or> c = 84) str;
               digits = length first;
               pos = drop digits str;
               internal = (pos = [] \<or> hd pos = 46);
               len = (if digits = 4 \<or> digits = 8 \<or> 14 \<le> digits then 4 else 2)
           in case scan_parts internal 7 0 (if internal then len else 4) str [] False False of
                Inl _ \<Rightarrow> none
              | Inr (ps, rest, found_delimiter, found_space) \<Rightarrow>
                  if found_delimiter \<and> \<not> found_space \<and> flags AND TIME_DATETIME_ONLY \<noteq> 0 then none
                  else if \<not> internal \<and> snd (date_part ps 0) = 0 then none
                  else finish_datetime ps (if internal then len else snd (date_part ps 0)) rest flags)"

text \<open>\<^verbatim>\<open>str_to_time\<close>: the value of the digits at the start, which wraps around.\<close>

definition digits_value :: "byte list \<Rightarrow> u64" where
  "digits_value ds = foldl (\<lambda>v c. v * 10 + ucast (c - 48)) 0 ds"

text \<open>The loop over hours, minutes and seconds; \<open>n\<close> of them may come.\<close>

fun read_hms :: "nat \<Rightarrow> u64 list \<Rightarrow> byte list \<Rightarrow> u64 list \<times> byte list" where
  "read_hms 0 date s = (date, s)"
| "read_hms (Suc n) date s =
     (let date = date @ [digits_value (takeWhile my_isdigit s)]; s = dropWhile my_isdigit s
      in if n = 0 \<or> length s < 2 \<or> hd s \<noteq> 58 \<or> \<not> my_isdigit (s ! 1) then (date, s) else read_hms n date (tl s))"

text \<open>Days, hours, minutes and seconds, and the text behind them.\<close>

definition time_fields :: "byte list \<Rightarrow> u64 list \<times> byte list" where
  "time_fields s =
     (let value = digits_value (takeWhile my_isdigit s);
          end_of_days = dropWhile my_isdigit s;
          s = dropWhile my_isspace end_of_days;
          (date, s) =
            (if 1 < length s \<and> length s \<noteq> length end_of_days \<and> my_isdigit (hd s) then read_hms 3 [value] s
             else if 1 < length s \<and> hd s = 58 \<and> my_isdigit (s ! 1) then read_hms 2 [0, value] (tl s)
             else ([0, value div 10000, value div 100 mod 100, value mod 100], s))
      in (date @ replicate (4 - length date) 0, s))"

text \<open>The fraction: its value in microseconds, whether digits have been dropped, and the text behind it.\<close>

definition time_fraction :: "byte list \<Rightarrow> u64 \<times> bool \<times> byte list" where
  "time_fraction s =
     (if 2 \<le> length s \<and> hd s = 46 \<and> my_isdigit (s ! 1) then
        let ds = takeWhile my_isdigit (tl s);
            value = digits_value (take 6 ds)
        in (if length ds < 6 then value * log_10_int ! (6 - length ds) else value, 6 < length ds, dropWhile my_isdigit (tl s))
      else (0, False, s))"

definition has_exponent :: "byte list \<Rightarrow> bool" where
  "has_exponent s \<longleftrightarrow> 1 < length s \<and> (hd s = 101 \<or> hd s = 69) \<and>
     (my_isdigit (s ! 1) \<or> (s ! 1 = 45 \<or> s ! 1 = 43) \<and> 2 < length s \<and> my_isdigit (s ! 2))"

text \<open>The result (true for an error), the time and the warnings.\<close>

definition str_to_time :: "byte list \<Rightarrow> MYSQL_TIME \<Rightarrow> (bool \<times> MYSQL_TIME \<times> nat) option" where
  "str_to_time str l_time =
     (let s = dropWhile my_isspace str;
          neg = (s \<noteq> [] \<and> hd s = 45);
          s = (if neg then tl s else s);
          t = l_time\<lparr>t_neg := neg\<rparr>
      in if s = [] then Some (True, t, 0)
         else do {
           full \<leftarrow> (if 12 \<le> length s then str_to_datetime s t (TIME_FUZZY_DATE OR TIME_DATETIME_ONLY)
                   else Some (MYSQL_TIMESTAMP_NONE, t, 0));
           case full of (ty, t', was_cut) \<Rightarrow>
             if ty \<noteq> MYSQL_TIMESTAMP_NONE then
               Some (ty = MYSQL_TIMESTAMP_ERROR, t', if was_cut \<noteq> 0 then MYSQL_TIME_WARN_TRUNCATED else 0)
             else
               let (date, s) = time_fields s;
                   (frac, cut, s) = time_fraction s;
                   date = date @ [frac];
                   warning = (if cut then MYSQL_TIME_WARN_TRUNCATED else 0)
               in if has_exponent s \<or> (\<exists>v \<in> set date. 4294967295 < v) then Some (True, t', warning)
                  else
                    let t' = t'\<lparr>t_year := 0, t_month := 0, t_day := unat (date ! 0), t_hour := unat (date ! 1),
                        t_minute := unat (date ! 2), t_second := unat (date ! 3), t_second_part := unat (date ! 4),
                        t_type := MYSQL_TIMESTAMP_TIME\<rparr>;
                        (bad, t', warning) = check_time_range t' warning
                    in Some (bad, t', if \<not> bad \<and> (\<exists>c \<in> set s. \<not> my_isspace c)
                                      then warning OR MYSQL_TIME_WARN_TRUNCATED else warning) })"

end
