(* ===== verification/Calendar.thy ===== *)
theory Calendar
  imports TimeVal
begin

text \<open>
  What the conversions of dates and times promise (\<^verbatim>\<open>MySQL/my_time.c\<close>): \<^verbatim>\<open>calc_daynr\<close> counts the days of the Gregorian
  calendar, and the text of a date is read back as the date.
\<close>

section \<open>The calendar\<close>

text \<open>The days of a month, and the days up to a date, counted one year and one month after the other.\<close>

definition month_days :: "nat \<Rightarrow> nat \<Rightarrow> nat" where
  "month_days year month =
     days_in_month ! (month - 1) + (if month = 2 \<and> calc_days_in_year year = 366 then 1 else 0)"

definition days_until :: "nat \<Rightarrow> nat \<Rightarrow> nat \<Rightarrow> nat" where
  "days_until year month day =
     (\<Sum>y < year. calc_days_in_year y) + (\<Sum>m \<leftarrow> [1..<month]. month_days year m) + day"

definition leap_days :: "nat \<Rightarrow> int" where
  "leap_days y = int (y div 4) - int (y div 100) + int (y div 400)"

lemma leap_days_Suc: "leap_days (Suc x) = leap_days x + (if calc_days_in_year (Suc x) = 366 then 1 else 0)"
proof -
  have d: "Suc x div k = x div k + (if Suc x mod k = 0 then 1 else 0)" for k by (simp add: div_Suc)
  have m: "Suc x mod 400 = 0 \<Longrightarrow> Suc x mod 100 = 0" "Suc x mod 100 = 0 \<Longrightarrow> Suc x mod 4 = 0"
    unfolding mod_eq_0_iff_dvd by (auto intro: dvd_trans [of 100 400] dvd_trans [of 4 100])
  show ?thesis unfolding leap_days_def d [of 4] d [of 100] d [of 400] calc_days_in_year_def
    using m by (cases "Suc x mod 4 = 0"; cases "Suc x mod 100 = 0"; cases "Suc x mod 400 = 0") simp_all
qed

lemma days_in_year_cases: "int (calc_days_in_year y) = 365 + (if calc_days_in_year y = 366 then 1 else 0)"
  by (simp add: calc_days_in_year_def)

lemma years_days: "int (\<Sum>y < Suc year. calc_days_in_year y) = 365 * int (Suc year) + leap_days year"
proof (induction year)
  case 0
  then show ?case by (simp add: calc_days_in_year_def leap_days_def)
next
  case (Suc year)
  have "int (\<Sum>y < Suc (Suc year). calc_days_in_year y) =
      int (\<Sum>y < Suc year. calc_days_in_year y) + int (calc_days_in_year (Suc year))" by simp
  then show ?case unfolding Suc.IH days_in_year_cases [of "Suc year"] leap_days_Suc by simp
qed

lemma century: "((c + 1) * 3) div 4 = c - c div 4" for c :: int
proof (rule int_div_pos_eq)
  show "(c + 1) * 3 = 4 * (c - c div 4) + (3 - c mod 4)" using mult_div_mod_eq [of 4 c] by (simp add: algebra_simps)
qed (use pos_mod_bound [of 4 c] pos_mod_sign [of 4 c] in simp_all)

lemma sdiv_pos: "0 \<le> a \<Longrightarrow> 0 < b \<Longrightarrow> a sdiv b = a div (b :: int)"
  by (simp add: signed_divide_int_def sgn_if)

lemma months:
  assumes "1 \<le> m" "m \<le> 12"
  shows "int (\<Sum>j \<leftarrow> [1..<m]. month_days y j) =
    31 * (int m - 1) - (if m \<le> 2 then 0 else (int m * 4 + 23) div 10 - (if calc_days_in_year y = 366 then 1 else 0))"
proof -
  have "m \<in> {1, 2, 3, 4, 5, 6, 7, 8, 9, 10, 11, 12}" using assms by simp presburger
  then show ?thesis
    by (elim insertE emptyE) (simp_all add: month_days_def days_in_month_def upt_rec)
qed

text \<open>
  C15: for a year up to 5,000,000 (so for every year of four digits), a month from 1 to 12 and a day up to 1,000,000,
  the arithmetic of \<^verbatim>\<open>calc_daynr\<close> in \<^verbatim>\<open>int\<close> does not overflow, and it gives the number of days from the year 0 to the
  date, as counted one year and one month after the other by the lengths of the years and months of the Gregorian
  calendar.
\<close>

theorem calc_daynr_days:
  assumes m: "1 \<le> month" "month \<le> 12" and r: "year \<le> 5000000" "day \<le> 1000000"
  shows "calc_daynr year month day = Some (int (days_until year month day))"
proof -
  define p where "p = (if month \<le> 2 then year - 1 else year)"
  have c: "((int p div 100 + 1) * 3) div 4 = int (p div 100) - int (p div 400)"
    unfolding century by (simp add: zdiv_int zdiv_zmult2_eq [symmetric])
  have y: "(if month \<le> 2 then int year - 1 else int year) sdiv 4 - ((if month \<le> 2 then int year - 1 else int year) sdiv 100 + 1) * 3 sdiv 4
    = leap_days p"
  proof (cases "month \<le> 2 \<and> year = 0")
    case True
    then show ?thesis by (simp add: p_def leap_days_def signed_divide_int_def)
  next
    case False
    then have "(if month \<le> 2 then int year - 1 else int year) = int p" by (auto simp: p_def)
    moreover have "0 \<le> int p div 100" by simp
    ultimately show ?thesis using c by (simp add: leap_days_def sdiv_pos zdiv_int)
  qed
  have m10: "(int month * 4 + 23) sdiv 10 = (int month * 4 + 23) div 10" by (simp add: sdiv_pos)
  let ?y = "if month \<le> 2 then int year - 1 else int year"
  have "-1 \<le> ?y sdiv 100 \<and> ?y sdiv 100 \<le> 50000"
  proof (cases "month \<le> 2 \<and> year = 0")
    case False
    then have "0 \<le> ?y" by auto
    then show ?thesis using r by (auto simp: sdiv_pos)
  qed (simp add: signed_divide_int_def)
  then have temp: "c_int ((z sdiv 100 + 1) * 3) = Some ((z sdiv 100 + 1) * 3)" if "?y = z" for z
    using that by (auto simp: c_int_def)
  have days: "c_int (365 * int year) = Some (365 * int year)" "to_int (int year) = int year" "to_int (int day) = int day"
    "to_int (int month) = int month" "c_int (int month - 1) = Some (int month - 1)"
    "c_int (31 * (int month - 1)) = Some (31 * (int month - 1))"
    "c_int (365 * int year + 31 * (int month - 1)) = Some (365 * int year + 31 * (int month - 1))"
    "c_int (365 * int year + 31 * (int month - 1) + int day) = Some (365 * int year + 31 * (int month - 1) + int day)"
    "c_int (int month * 4) = Some (int month * 4)" "c_int (int month * 4 + 23) = Some (int month * 4 + 23)"
    "c_int (int year - 1) = Some (int year - 1)"
    using r m by (auto simp: c_int_def)
  have daynr: "calc_daynr year month day = Some (365 * int year + 31 * (int month - 1) + int day
    - (if month \<le> 2 then 0 else (int month * 4 + 23) div 10) + (leap_days p))"
  proof -
    have z: "\<not> (int year = 0 \<and> month = 0 \<and> day = 0)" using m by simp
    note run = calc_daynr_def Let_def days z if_True if_False Option.bind.simps prod.case
    show ?thesis
    proof (cases "month \<le> 2")
      case True
      then have t: "c_int (((int year - 1) sdiv 100 + 1) * 3) = Some (((int year - 1) sdiv 100 + 1) * 3)"
        by (intro temp) simp
      show ?thesis using y by (simp only: run True t) simp
    next
      case False
      then have t: "c_int ((int year sdiv 100 + 1) * 3) = Some ((int year sdiv 100 + 1) * 3)"
        by (intro temp) simp
      show ?thesis using y m10 by (simp only: run False t) simp
    qed
  qed
  have "int (days_until year month day) = int (\<Sum>y < year. calc_days_in_year y) +
      int (\<Sum>j \<leftarrow> [1..<month]. month_days year j) + int day"
    by (simp add: days_until_def)
  also have "int (\<Sum>y < year. calc_days_in_year y) = 365 * int year +
      (if year = 0 then 0 else leap_days (year - 1))"
    using years_days [of "year - 1"] by (cases year) simp_all
  finally show ?thesis
    unfolding daynr months [OF m] using leap_days_Suc [of "year - 1"] by (cases year) (auto simp: p_def calc_days_in_year_def leap_days_def)
qed

lemma calc_daynr_days_witness:
  "calc_daynr 2008 2 29 = Some (int (days_until 2008 2 29)) \<and> calc_daynr 9999 12 31 = Some (int (days_until 9999 12 31))"
  using calc_daynr_days [of 2 2008 29] calc_daynr_days [of 12 9999 31] by simp

text \<open>A year for which the sum overflows.\<close>

lemma calc_daynr_overflows: "5883517 \<le> year \<Longrightarrow> year < 2147483648 \<Longrightarrow> calc_daynr year month day = None"
  by (simp add: calc_daynr_def Let_def c_int_def)

section \<open>Digits\<close>

lemma class_codes:
  "map (\<lambda>t. t AND 4 \<noteq> 0) (tl ctype_latin1) = replicate 48 False @ replicate 10 True @ replicate 198 False"
  by (simp add: ctype_latin1_def replicate_numeral)

lemma my_isdigit_iff: "my_isdigit c \<longleftrightarrow> 48 \<le> unat c \<and> unat c \<le> 57"
proof -
  have l: "length ctype_latin1 = 257" by (simp add: ctype_latin1_def)
  have "my_isdigit c \<longleftrightarrow> map (\<lambda>t. t AND 4 \<noteq> 0) (tl ctype_latin1) ! unat c"
    using l unat_byte_less [of c] by (simp add: my_isdigit_def nth_tl)
  also have "\<dots> \<longleftrightarrow> 48 \<le> unat c \<and> unat c \<le> 57"
  proof -
    have "unat c - 58 < 198" using unat_byte_less [of c] by linarith
    then show ?thesis unfolding class_codes by (auto simp: nth_append)
  qed
  finally show ?thesis .
qed

lemma dec_char_class: "d < 10 \<Longrightarrow> my_isdigit (dec_char d)" "d < 10 \<Longrightarrow> \<not> my_isspace (dec_char d)"
  by (simp_all add: my_isdigit_iff my_isspace_iff unat_dec_char)

lemma dec_char_value: "d < 10 \<Longrightarrow> ucast (dec_char d - 48) = (of_nat d :: u64)"
  using digit_char [of d] ucast_digit [of d] by simp

lemma dec_value_radix: "dec_value ds = radix_value 10 ds"
  by (simp add: dec_value_def radix_value_def mult.commute)

text \<open>A padded number is a string of digits.\<close>

lemma padded_digits:
  assumes "0 < w"
  obtains ds where "padded w n = map dec_char ds" "list_all (\<lambda>d. d < 10) ds" "dec_value ds = n" "w \<le> length ds"
    "n < 10 ^ w \<Longrightarrow> length ds = w"
proof -
  define es where "es = (if n = 0 then [0] else radix_digits 10 n)"
  let ?ds = "replicate (w - length es) 0 @ es"
  have "dec_value es = n" by (simp add: es_def dec_value_radix radix_value_digits) (simp add: radix_value_def)
  moreover have "dec_value (replicate k 0 @ es) = dec_value es" for k by (induction k) simp_all
  moreover have "n < 10 ^ w \<Longrightarrow> length es \<le> w"
    using assms radix_digits_length [of 10 n "w - 1"] by (cases w) (auto simp: es_def)
  moreover have "padded w n = map dec_char ?ds" by (simp add: padded_def es_def Let_def dec_char_def)
  moreover have "list_all (\<lambda>d. d < 10) ?ds" using radix_digits_less [of 10] by (auto simp: es_def list_all_iff)
  ultimately show ?thesis by (intro that [of ?ds]) auto
qed

definition stops :: "byte list \<Rightarrow> bool" where
  "stops s \<longleftrightarrow> s = [] \<or> \<not> my_isdigit (hd s)"

lemma scan_number_digits:
  "list_all (\<lambda>d. d < 10) ds \<Longrightarrow> stops rest \<Longrightarrow>
     scan_number True fl v (map dec_char ds @ rest) = (v * 10 ^ length ds + of_nat (dec_value ds), rest)"
proof (induction ds arbitrary: v)
  case Nil
  then show ?case by (cases rest) (simp_all add: stops_def)
next
  case (Cons d ds)
  then show ?case using dec_char_class [of d] dec_char_value [of d] by (simp add: algebra_simps)
qed

lemma stops_while: "stops rest \<Longrightarrow> takeWhile my_isdigit rest = [] \<and> dropWhile my_isdigit rest = rest"
  by (cases rest) (simp_all add: stops_def)

lemma while_digits:
  "list_all (\<lambda>d. d < 10) ds \<Longrightarrow> stops rest \<Longrightarrow>
     takeWhile my_isdigit (map dec_char ds @ rest) = map dec_char ds \<and> dropWhile my_isdigit (map dec_char ds @ rest) = rest"
  by (induction ds) (simp_all add: dec_char_class stops_while)

text \<open>One field of a text with delimiters.\<close>

lemma scan_field_digits:
  assumes ds: "list_all (\<lambda>d. d < 10) ds" "ds \<noteq> []" and k: "dec_value ds mod 2 ^ 64 = k" "k \<le> 999999"
    and i: "i < 6" and rest: "stops rest" and w: "length ds = w"
  shows "scan_parts False (Suc n) i fl (map dec_char ds @ rest) last_pos fd fs =
    (if rest = [] then Inr ([(k, w)], [], fd, fs)
     else if i = 2 \<and> hd rest = 84 then
       map_sum id (apfst ((#) (k, w))) (scan_parts False n (i + 1) 2 (tl rest) rest fd fs)
     else if i = 5 then
       map_sum id (apfst ((#) (k, w)))
         (if hd rest = 46 then scan_parts False n (i + 1) 6 (tl rest) rest fd fs
          else scan_parts False n (i + 1) 2 rest rest fd fs)
     else (case skip_delimiters (i = 2) rest fd fs of
         None \<Rightarrow> Inl ()
       | Some (s', fd, fs) \<Rightarrow> map_sum id (apfst ((#) (k, w))) (scan_parts False n (i + 1) 2 s' s' fd fs)))"
proof -
  obtain e es where e: "ds = e # es" "e < 10" "list_all (\<lambda>d. d < 10) es" using ds by (cases ds) auto
  define K :: u64 where "K = of_nat (dec_value ds)"
  have val: "scan_number True fl (ucast (dec_char e - 48)) (map dec_char es @ rest) = (K, rest)"
    using scan_number_digits [OF e(3) rest] dec_char_value [OF e(2)] e(1) by (simp add: K_def)
  have small: "unat K = k" using k by (simp add: K_def unat_of_nat)
  then have "\<not> 999999 < K" using k(2) by (simp add: word_less_nat_alt)
  moreover have "Suc (length es) = w" using w e(1) by simp
  ultimately show ?thesis
    using val small i dec_char_class [OF e(2)] unfolding e(1)
    by (simp add: Let_def split: option.split)
qed

lemma scan_field:
  assumes w: "0 < w" "w \<le> 6" and k: "k < 10 ^ w" and i: "i < 6" and rest: "stops rest"
  shows "scan_parts False (Suc n) i fl (padded w k @ rest) last_pos fd fs =
    (if rest = [] then Inr ([(k, w)], [], fd, fs)
     else if i = 2 \<and> hd rest = 84 then
       map_sum id (apfst ((#) (k, w))) (scan_parts False n (i + 1) 2 (tl rest) rest fd fs)
     else if i = 5 then
       map_sum id (apfst ((#) (k, w)))
         (if hd rest = 46 then scan_parts False n (i + 1) 6 (tl rest) rest fd fs
          else scan_parts False n (i + 1) 2 rest rest fd fs)
     else (case skip_delimiters (i = 2) rest fd fs of
         None \<Rightarrow> Inl ()
       | Some (s', fd, fs) \<Rightarrow> map_sum id (apfst ((#) (k, w))) (scan_parts False n (i + 1) 2 s' s' fd fs)))"
proof -
  obtain ds where ds: "padded w k = map dec_char ds" "list_all (\<lambda>d. d < 10) ds" "dec_value ds = k" "length ds = w"
    using padded_digits [OF w(1)] k by metis
  have "k < 10 ^ 6" using k w(2) power_increasing [of w 6 "10 :: nat"] by linarith
  moreover have "ds \<noteq> []" using ds(4) w(1) by auto
  ultimately show ?thesis
    unfolding ds(1) using ds(2-4) i rest by (intro scan_field_digits) auto
qed

lemma delimiters: "my_ispunct 45" "my_ispunct 58" "my_ispunct 46" "my_isspace 32" "\<not> my_ispunct 32"
  "\<not> my_isspace 45" "\<not> my_isspace 58"
  "\<not> my_isdigit 45" "\<not> my_isdigit 58" "\<not> my_isdigit 32" "\<not> my_isdigit 46"
  by (simp_all add: my_ispunct_def my_isspace_iff my_isdigit_iff ctype_latin1_def)

lemma padded_hd:
  assumes "0 < w"
  obtains c s where "padded w k = c # s" "my_isdigit c" "\<not> my_ispunct c" "\<not> my_isspace c"
proof -
  obtain ds where ds: "padded w k = map dec_char ds" "list_all (\<lambda>d. d < 10) ds" "w \<le> length ds"
    using padded_digits [OF assms] by metis
  then obtain e es where e: "ds = e # es" "e < 10" using assms by (cases ds) auto
  have "e \<in> {0, 1, 2, 3, 4, 5, 6, 7, 8, 9}" using e(2) by auto
  then have "\<not> my_ispunct (dec_char e)"
    by (elim insertE emptyE) (simp_all add: my_ispunct_def dec_char_def ctype_latin1_def)
  then show ?thesis using that ds(1) e dec_char_class by simp
qed

lemma skip_one:
  assumes "0 < w" "c = 45 \<or> c = 58 \<or> c = 32 \<and> allow"
  shows "skip_delimiters allow (c # padded w k @ rest) fd fs = Some (padded w k @ rest, True, fs \<or> c = 32)"
proof -
  obtain d s where "padded w k = d # s" "\<not> my_ispunct d" "\<not> my_isspace d" by (rule padded_hd [OF assms(1)])
  then show ?thesis using assms(2) delimiters by auto
qed

section \<open>Dates and their texts\<close>

text \<open>A date of the calendar, and a time of the day, without a fraction.\<close>

definition real_date :: "MYSQL_TIME \<Rightarrow> bool" where
  "real_date t \<longleftrightarrow> t_year t \<le> 9999 \<and> 1 \<le> t_month t \<and> t_month t \<le> 12 \<and> 1 \<le> t_day t \<and>
     t_day t \<le> month_days (t_year t) (t_month t)"

definition day_time :: "MYSQL_TIME \<Rightarrow> bool" where
  "day_time t \<longleftrightarrow> t_hour t \<le> 23 \<and> t_minute t \<le> 59 \<and> t_second t \<le> 59 \<and> t_second_part t = 0 \<and> \<not> t_neg t"

definition real_datetime :: "MYSQL_TIME \<Rightarrow> bool" where
  "real_datetime t \<longleftrightarrow> real_date t \<and> day_time t \<and>
     (t_type t = MYSQL_TIMESTAMP_DATETIME \<or>
      t_type t = MYSQL_TIMESTAMP_DATE \<and> t_hour t = 0 \<and> t_minute t = 0 \<and> t_second t = 0)"

lemma month_days_le: "month \<in> {1..12} \<Longrightarrow> month_days year month \<le> 31"
proof -
  assume "month \<in> {1..12}"
  then have "month \<in> {1, 2, 3, 4, 5, 6, 7, 8, 9, 10, 11, 12}" by simp presburger
  then show ?thesis by (elim insertE emptyE) (simp_all add: month_days_def days_in_month_def)
qed

lemma real_date_day: "real_date t \<Longrightarrow> t_day t \<le> 31"
  using month_days_le [of "t_month t" "t_year t"] by (auto simp: real_date_def)

lemma check_real_date: "real_date t \<Longrightarrow> check_date t True flags was_cut = Some (False, was_cut)"
proof -
  assume t: "real_date t"
  then have "t_month t \<in> {1, 2, 3, 4, 5, 6, 7, 8, 9, 10, 11, 12}" unfolding real_date_def by simp presburger
  moreover have "t_day t \<le> month_days (t_year t) (t_month t)" "0 < t_day t" using t by (simp_all add: real_date_def)
  ultimately show "check_date t True flags was_cut = Some (False, was_cut)"
    by (elim insertE emptyE) (auto simp: check_date_def month_days_def days_in_month_def split: if_splits)
qed

lemma scan_delimited:
  assumes "0 < w" "w \<le> 6" "k < 10 ^ w" "i < 5" "0 < w'" "c = 45 \<or> c = 58 \<or> c = 32 \<and> i = 2"
    "j = i + 1"
  shows "scan_parts False (Suc n) i fl (padded w k @ c # padded w' k' @ rest) last_pos fd fs =
    map_sum id (apfst ((#) (k, w)))
      (scan_parts False n j 2 (padded w' k' @ rest) (padded w' k' @ rest) True (fs \<or> c = 32))"
proof -
  have "stops (c # s)" for s using assms(6) by (auto simp: stops_def delimiters)
  then show ?thesis
    using assms(4,6,7) by (auto simp: scan_field [OF assms(1-3)] skip_one [OF assms(5)] simp del: scan_parts.simps skip_delimiters.simps)
qed

lemma scan_final:
  assumes "0 < w" "w \<le> 6" "k < 10 ^ w" "i < 6"
  shows "scan_parts False (Suc n) i fl (padded w k) last_pos fd fs = Inr ([(k, w)], [], fd, fs)"
  using scan_field [of w k i "[]"] assms by (simp add: stops_def del: scan_parts.simps)

lemma scan_step:
  assumes "k < 10 ^ w" "c = 45 \<or> c = 58 \<or> c = 32 \<and> i = 2" "x = padded 2 k' @ rest" "0 < w" "w \<le> 6" "i < 5"
    "m = Suc n \<and> j = i + 1" "scan_parts False n j 2 x x True (fs \<or> c = 32) = Inr (ps, r)"
  shows "scan_parts False m i fl (padded w k @ c # x) last_pos fd fs = Inr ((k, w) # ps, r)"
proof -
  have "scan_parts False m i fl (padded w k @ c # x) last_pos fd fs =
      map_sum id (apfst ((#) (k, w))) (scan_parts False n j 2 x x True (fs \<or> c = 32))"
    unfolding assms(3) conjunct1 [OF assms(7)] by (rule scan_delimited) (use assms in simp_all)
  then show ?thesis by (simp add: assms(8))
qed

lemma scan_date:
  assumes "y < 10000" "m < 100" "d < 100"
  shows "scan_parts False 7 0 4 (padded 4 y @ 45 # padded 2 m @ 45 # padded 2 d) [] False False =
    Inr ([(y, 4), (m, 2), (d, 2)], [], True, False)"
proof -
  have 3: "scan_parts False 5 2 2 (padded 2 d) l True False = Inr ([(d, 2)], [], True, False)" for l
    using scan_final [of 2 d 2 4] assms(3) by simp
  have 2: "scan_parts False 6 1 2 (padded 2 m @ 45 # padded 2 d) l True False = Inr ([(m, 2), (d, 2)], [], True, False)" for l
    by (rule scan_step [where n = 5 and j = 2 and k' = d and rest = "[]"]) (use assms 3 in \<open>simp_all del: scan_parts.simps\<close>)
  show ?thesis
    by (rule scan_step [where n = 6 and j = 1 and k' = m]) (use assms 2 in \<open>simp_all del: scan_parts.simps\<close>)
qed

lemma scan_datetime:
  assumes "y < 10000" "m < 100" "d < 100" "h < 100" "n < 100" "s < 100"
  shows "scan_parts False 7 0 4
      (padded 4 y @ 45 # padded 2 m @ 45 # padded 2 d @ 32 # padded 2 h @ 58 # padded 2 n @ 58 # padded 2 s) [] False False =
    Inr ([(y, 4), (m, 2), (d, 2), (h, 2), (n, 2), (s, 2)], [], True, True)"
proof -
  let ?p6 = "padded 2 s" let ?p5 = "padded 2 n @ 58 # ?p6" let ?p4 = "padded 2 h @ 58 # ?p5" let ?p3 = "padded 2 d @ 32 # ?p4"
  let ?p2 = "padded 2 m @ 45 # ?p3"
  have 6: "scan_parts False 2 5 2 ?p6 l True True = Inr ([(s, 2)], [], True, True)" for l
    using scan_final [of 2 s 5 1] assms(6) by (simp add: numeral_2_eq_2)
  have 5: "scan_parts False 3 4 2 ?p5 l True True = Inr ([(n, 2), (s, 2)], [], True, True)" for l
    by (rule scan_step [where n = 2 and j = 5 and k' = s and rest = "[]"]) (use assms(5) 6 in \<open>simp_all del: scan_parts.simps\<close>)
  have 4: "scan_parts False 4 3 2 ?p4 l True True = Inr ([(h, 2), (n, 2), (s, 2)], [], True, True)" for l
    by (rule scan_step [where n = 3 and j = 4 and k' = n]) (use assms(4) 5 in \<open>simp_all del: scan_parts.simps\<close>)
  have 3: "scan_parts False 5 2 2 ?p3 l True False = Inr ([(d, 2), (h, 2), (n, 2), (s, 2)], [], True, True)" for l
    by (rule scan_step [where n = 4 and j = 3 and k' = h]) (use assms(3) 4 in \<open>simp_all del: scan_parts.simps\<close>)
  have 2: "scan_parts False 6 1 2 ?p2 l True False = Inr ([(m, 2), (d, 2), (h, 2), (n, 2), (s, 2)], [], True, True)" for l
    by (rule scan_step [where n = 5 and j = 2 and k' = d]) (use assms(2) 3 in \<open>simp_all del: scan_parts.simps\<close>)
  show ?thesis
    by (rule scan_step [where n = 6 and j = 1 and k' = m]) (use assms(1) 2 in \<open>simp_all del: scan_parts.simps\<close>)
qed

text \<open>A text that begins with a year of four digits and a hyphen is no number.\<close>

lemma starts_with_year:
  assumes "list_all (\<lambda>d. d < 10) ds" "ds \<noteq> []" "str = map dec_char ds @ 45 # s"
  shows "dropWhile my_isspace str = str" "my_isdigit (hd str)" "str \<noteq> []"
    "drop (length (takeWhile (\<lambda>c. my_isdigit c \<or> c = 84) str)) str = 45 # s"
proof -
  obtain e es where "ds = e # es" "e < 10" using assms by (cases ds) auto
  then show "dropWhile my_isspace str = str" "my_isdigit (hd str)" "str \<noteq> []"
    using dec_char_class assms(3) by simp_all
  have "takeWhile (\<lambda>c. my_isdigit c \<or> c = 84) (map dec_char ds @ 45 # s) = map dec_char ds"
    using assms(1) by (induction ds) (simp_all add: dec_char_class delimiters)
  then show "drop (length (takeWhile (\<lambda>c. my_isdigit c \<or> c = 84) str)) str = 45 # s"
    unfolding assms(3) by simp
qed

lemma delimited_text:
  assumes "list_all (\<lambda>d. d < 10) ds" "ds \<noteq> []" "str = map dec_char ds @ 45 # s"
  shows "str_to_datetime str l_time flags =
    (case scan_parts False 7 0 4 str [] False False of
       Inl _ \<Rightarrow> Some (MYSQL_TIMESTAMP_NONE, l_time, 1)
     | Inr (ps, rest, found_delimiter, found_space) \<Rightarrow>
         if found_delimiter \<and> \<not> found_space \<and> flags AND TIME_DATETIME_ONLY \<noteq> 0 then Some (MYSQL_TIMESTAMP_NONE, l_time, 1)
         else if snd (date_part ps 0) = 0 then Some (MYSQL_TIMESTAMP_NONE, l_time, 1)
         else finish_datetime ps (snd (date_part ps 0)) rest flags)"
  using starts_with_year [OF assms]
  by (simp add: str_to_datetime_def Let_def split: sum.split prod.split del: drop_eq_Nil)

lemma delimited_year:
  assumes "str = padded 4 y @ 45 # s"
  shows "str_to_datetime str l_time flags =
    (case scan_parts False 7 0 4 str [] False False of
       Inl _ \<Rightarrow> Some (MYSQL_TIMESTAMP_NONE, l_time, 1)
     | Inr (ps, rest, found_delimiter, found_space) \<Rightarrow>
         if found_delimiter \<and> \<not> found_space \<and> flags AND TIME_DATETIME_ONLY \<noteq> 0 then Some (MYSQL_TIMESTAMP_NONE, l_time, 1)
         else if snd (date_part ps 0) = 0 then Some (MYSQL_TIMESTAMP_NONE, l_time, 1)
         else finish_datetime ps (snd (date_part ps 0)) rest flags)"
proof -
  obtain ds where "padded 4 y = map dec_char ds" "list_all (\<lambda>d. d < 10) ds" "4 \<le> length ds" by (rule padded_digits [of 4 y]) auto
  then show ?thesis using assms by (intro delimited_text) auto
qed

lemma datetime_text:
  assumes t: "real_datetime t" and fl: "t_type t = MYSQL_TIMESTAMP_DATE \<Longrightarrow> flags AND TIME_DATETIME_ONLY = 0"
  shows "str_to_datetime (my_TIME_to_str t) l_time flags = Some (t_type t, t, 0)"
proof -
  have r: "t_year t < 10000" "t_month t < 100" "t_day t < 100" "t_hour t < 100" "t_minute t < 100" "t_second t < 100"
    "t_month t \<noteq> 0" "real_date t" "t_month t \<le> 12" "t_day t \<le> 31"
    "t_hour t \<le> 23" "t_minute t \<le> 59" "t_second t \<le> 59" "t_year t \<le> 9999" "t_second_part t = 0" "\<not> t_neg t"
    using t real_date_day [of t] by (auto simp: real_datetime_def real_date_def day_time_def)
  consider "t_type t = MYSQL_TIMESTAMP_DATETIME" | "t_type t = MYSQL_TIMESTAMP_DATE" "t_hour t = 0" "t_minute t = 0" "t_second t = 0"
    using t by (auto simp: real_datetime_def)
  then show ?thesis
  proof cases
    case 1
    let ?ps = "[(t_year t, 4), (t_month t, 2), (t_day t, 2), (t_hour t, 2), (t_minute t, 2), (t_second t, 2)]"
    have p: "time_of_parts ?ps 4 = t\<lparr>t_type := MYSQL_TIMESTAMP_DATE\<rparr>"
      using r(15,16) by (simp add: time_of_parts_def date_part_def)
    have "check_date (t\<lparr>t_type := MYSQL_TIMESTAMP_DATE\<rparr>) True flags 0 = Some (False, 0)"
      using r(8) by (intro check_real_date) (simp add: real_date_def)
    then have "finish_datetime ?ps 4 [] flags = Some (t_type t, t, 0)"
      using r 1 unfolding finish_datetime_def p Let_def by simp
    then show ?thesis
      using 1 scan_datetime [OF r(1-6)] delimited_year
      by (simp add: my_TIME_to_str_def my_datetime_to_str_def date_part_def)
  next
    case 2
    let ?ps = "[(t_year t, 4), (t_month t, 2), (t_day t, 2)]"
    have p: "time_of_parts ?ps 4 = t"
      using r(15,16) 2 by (simp add: time_of_parts_def date_part_def)
    have "finish_datetime ?ps 4 [] flags = Some (t_type t, t, 0)"
      using r 2 check_real_date [OF r(8), of flags 0] unfolding finish_datetime_def p Let_def by simp
    then show ?thesis
      using 2 scan_date [OF r(1-3)] delimited_year fl
      by (simp add: my_TIME_to_str_def my_date_to_str_def date_part_def)
  qed
qed

text \<open>C14: The text that \<^verbatim>\<open>my_TIME_to_str\<close> writes for a date or a date and time of the calendar is read by
  \<^verbatim>\<open>str_to_datetime\<close> as the same value, with its type and without a warning, whatever the flags (a date alone needs
  that \<^verbatim>\<open>TIME_DATETIME_ONLY\<close> is off).\<close>

theorem text_read_back:
  assumes t: "real_datetime t" and fl: "t_type t = MYSQL_TIMESTAMP_DATE \<Longrightarrow> flags AND TIME_DATETIME_ONLY = 0"
  shows "str_to_datetime (my_TIME_to_str t) l_time flags = Some (t_type t, t, 0)"
  using assms by (rule datetime_text)

definition leap_day :: MYSQL_TIME where
  "leap_day = zero_time\<lparr>t_year := 2008, t_month := 2, t_day := 29\<rparr>"

lemma leap_day_real: "real_date leap_day" "day_time leap_day"
  by (simp_all add: leap_day_def zero_time_def real_date_def day_time_def month_days_def days_in_month_def calc_days_in_year_def)

lemma text_read_back_witness:
  "real_datetime leap_day \<and> str_to_datetime (my_TIME_to_str leap_day) zero_time 0 = Some (MYSQL_TIMESTAMP_DATE, leap_day, 0)"
proof -
  have "real_datetime leap_day \<and> t_type leap_day = MYSQL_TIMESTAMP_DATE"
    using leap_day_real by (simp add: real_datetime_def leap_day_def zero_time_def)
  then show ?thesis using text_read_back [of leap_day 0 zero_time] by simp
qed

end
