(* ===== verification/TimeRead.thy ===== *)
theory TimeRead
  imports Calendar
begin

text \<open>
  What reading a time can give (\<^verbatim>\<open>MySQL/my_time.c\<close>): the ranges of the fields of a timestamp read from any text,
  the round trip through a number, and the values that slip through the tests because an intermediate result
  wraps around.
\<close>

section \<open>The fields of a text\<close>

lemma digit_cases:
  assumes "my_isdigit c"
  obtains d where "c = dec_char d" "d < 10"
proof (rule that)
  show "unat c - 48 < 10" using assms by (auto simp: my_isdigit_iff)
  then show "c = dec_char (unat c - 48)" using assms by (simp add: word_unat_eq_iff unat_dec_char my_isdigit_iff)
qed

text \<open>A field read by its length has a value that its digits can write.\<close>

lemma scan_number_bounded:
  "unat v < 10 ^ k \<Longrightarrow> 0 < fl \<Longrightarrow> k + fl \<le> 20 \<Longrightarrow> scan_number False fl v s = (v', s') \<Longrightarrow>
     \<exists>m < fl. length s = length s' + m \<and> unat v' < 10 ^ (k + m)"
proof (induction s arbitrary: fl v k)
  case (Cons c s)
  show ?case
  proof (cases "my_isdigit c \<and> fl \<noteq> 1")
    case False
    then show ?thesis using Cons.prems by auto
  next
    case True
    then obtain d where d: "c = dec_char d" "d < 10" using digit_cases by blast
    have k: "10 * 10 ^ k \<le> (10 ^ 19 :: nat)"
      using Cons.prems(2,3) True power_increasing [of "Suc k" 19 "10 :: nat"] by simp
    have less: "unat v * 10 + d < 10 ^ Suc k" using Cons.prems(1) d(2) by simp
    have "unat (v * 10 + of_nat d) = unat v * 10 + d"
    proof -
      have "v * 10 + of_nat d = of_nat (unat v * 10 + d)" by simp
      then show ?thesis using less k by (simp add: unat_of_nat del: of_nat_add)
    qed
    then have "unat (v * 10 + of_nat d) < 10 ^ Suc k" using less by simp
    moreover have "scan_number False (fl - 1) (v * 10 + of_nat d) s = (v', s')"
      using Cons.prems(4) True d dec_char_value by simp
    ultimately obtain m where "m < fl - 1" "length s = length s' + m" "unat v' < 10 ^ (Suc k + m)"
      using Cons.IH [of "v * 10 + of_nat d" "Suc k" "fl - 1"] True Cons.prems(2,3) by auto
    then show ?thesis by (intro exI [of _ "Suc m"]) auto
  qed
qed auto

definition writable :: "nat \<times> nat \<Rightarrow> bool" where
  "writable p \<longleftrightarrow> snd p \<le> 6 \<and> fst p < 10 ^ snd p"

lemma part_writable:
  assumes "my_isdigit c" "0 < fl" "fl \<le> 6" "scan_number False fl (ucast (c - 48)) s = (v, s')"
  shows "writable (unat v, length (c # s) - length s')"
proof -
  obtain d where d: "c = dec_char d" "d < 10" using digit_cases [OF assms(1)] .
  have "unat (ucast (c - 48) :: u64) < 10 ^ 1" using d by (simp add: dec_char_value unat_of_nat)
  from scan_number_bounded [OF this assms(2) _ assms(4)] assms(3)
  obtain m where "m < fl" "length s = length s' + m" "unat v < 10 ^ (1 + m)" by auto
  then show ?thesis using assms(3) by (simp add: writable_def)
qed

text \<open>One round of the loop.\<close>

lemma scan_parts_round:
  assumes parts: "scan_parts internal (Suc n) i fl s l fd fs = Inr (ps, r)"
  obtains (none) "ps = []"
  | (one) c s0 v s' where "s = c # s0" "my_isdigit c" "scan_number (\<not> internal \<and> i \<noteq> 6) fl (ucast (c - 48)) s0 = (v, s')"
      "ps = [(unat v, length s - length s')]"
  | (more) c s0 v s' ps' fl' x l' fd' fs' where "s = c # s0" "my_isdigit c"
      "scan_number (\<not> internal \<and> i \<noteq> 6) fl (ucast (c - 48)) s0 = (v, s')"
      "ps = (unat v, length s - length s') # ps'" "fl' = 2 \<or> fl' = 6"
      "scan_parts internal n (i + 1) fl' x l' fd' fs' = Inr (ps', r)"
proof (cases s)
  case Nil
  then show ?thesis using parts none by simp
next
  case (Cons c s0)
  obtain v s' where v: "scan_number (\<not> internal \<and> i \<noteq> 6) fl (ucast (c - 48)) s0 = (v, s')" by fastforce
  show ?thesis
  proof (cases "my_isdigit c")
    case False
    then show ?thesis using parts none Cons by simp
  next
    case True
    let ?part = "(unat v, length s - length s')"
    have again: thesis
      if m: "map_sum id (apfst ((#) ?part)) (scan_parts internal n (i + 1) fl' x l' fd' fs') = Inr (ps, r)" and fl: "fl' = 2 \<or> fl' = 6"
      for fl' x l' fd' fs'
    proof (cases "scan_parts internal n (i + 1) fl' x l' fd' fs'")
      case (Inr q)
      then obtain ps' where "scan_parts internal n (i + 1) fl' x l' fd' fs' = Inr (ps', r)" "ps = ?part # ps'"
        using m by (cases q) (auto simp: id_def)
      then show thesis using more [OF Cons True v] fl by blast
    qed (use m in simp)
    have single: thesis if "ps = [?part]" by (rule one [OF Cons True v that])
    show ?thesis
      using parts unfolding Cons scan_parts.simps
      by (simp only: True v not_True_eq_False if_False Let_def prod.case split: if_splits option.splits) (use again single Cons none in auto)
  qed
qed

lemma scan_parts_writable:
  "scan_parts internal n i fl s l fd fs = Inr (ps, r) \<Longrightarrow> i + n = 7 \<Longrightarrow> 0 < fl \<Longrightarrow> fl \<le> 6 \<Longrightarrow>
     6 - i < length ps \<Longrightarrow> writable (ps ! (6 - i)) \<and> length ps \<le> n"
proof (induction n arbitrary: i fl s l fd fs ps)
  case 0
  then show ?case by auto
next
  case (Suc n)
  from Suc.prems(1) show ?case
  proof (cases rule: scan_parts_round)
    case none
    then show ?thesis using Suc.prems by simp
  next
    case (one c s0 v s')
    then have "i = 6" using Suc.prems by simp
    then show ?thesis using one part_writable [of c fl s0 v s'] Suc.prems by simp
  next
    case (more c s0 v s' ps' fl' x l' fd' fs')
    show ?thesis
    proof (cases "i = 6")
      case True
      then have "n = 0" using Suc.prems(2) by simp
      then have "ps' = []" using more(6) by simp
      then show ?thesis using True more part_writable [of c fl s0 v s'] Suc.prems by simp
    next
      case False
      have "6 - i = Suc (6 - (i + 1))" using False Suc.prems(2) by simp
      then show ?thesis using Suc.IH [OF more(6)] more(4,5) Suc.prems by auto
    qed
  qed
qed

section \<open>Any text\<close>

definition date_ok :: "u64 \<Rightarrow> MYSQL_TIME \<Rightarrow> bool" where
  "date_ok flags t \<longleftrightarrow> t_year t \<le> 9999 \<and> t_month t \<le> 12 \<and> t_day t \<le> 31 \<and>
     (flags AND TIME_INVALID_DATES = 0 \<longrightarrow> t_month t \<noteq> 0 \<longrightarrow> t_day t \<le> month_days (t_year t) (t_month t))"

definition clock_ok :: "MYSQL_TIME \<Rightarrow> bool" where
  "clock_ok t \<longleftrightarrow> t_hour t \<le> 23 \<and> t_minute t \<le> 59 \<and> t_second t \<le> 59 \<and> t_second_part t \<le> 999999 \<and> \<not> t_neg t"

lemma fraction_bound:
  assumes "6 < length ps \<longrightarrow> writable (ps ! 6)"
  shows "t_second_part (time_of_parts ps yl) \<le> 999999"
proof -
  obtain v k where p: "date_part ps 6 = (v, k)" by fastforce
  then have v: "k \<le> 6" "v < 10 ^ k \<or> v = 0"
    using assms by (auto simp: date_part_def writable_def split: if_splits)
  then have "k \<in> {0, 1, 2, 3, 4, 5, 6}" by auto
  then show ?thesis using v(2) p unfolding time_of_parts_def Let_def
    by (elim insertE emptyE) (auto simp: log_10_int_def wrap32_def)
qed

lemma check_date_returns: "t_month t \<le> 12 \<Longrightarrow> \<exists>bad w. check_date t nz flags w0 = Some (bad, w)"
  by (auto simp: check_date_def days_in_month_def)

lemma check_date_good:
  assumes "check_date t True flags w0 = Some (False, w)" "t_month t \<le> 12"
  shows "flags AND TIME_INVALID_DATES = 0 \<Longrightarrow> t_month t \<noteq> 0 \<Longrightarrow> t_day t \<le> month_days (t_year t) (t_month t)"
proof -
  assume "flags AND TIME_INVALID_DATES = 0" "t_month t \<noteq> 0"
  moreover have "t_month t - 1 < length days_in_month" using assms(2) by (simp add: days_in_month_def)
  moreover have "days_in_month ! 1 = 28" by (simp add: days_in_month_def)
  ultimately show ?thesis using assms(1) by (auto simp: check_date_def month_days_def split: if_splits)
qed

lemma finish_in_range:
  assumes "6 < length ps \<longrightarrow> writable (ps ! 6)"
  obtains ty t w where "finish_datetime ps yl rest flags = Some (ty, t, w)"
    "ty = MYSQL_TIMESTAMP_ERROR \<and> t = zero_time \<or>
     (ty = MYSQL_TIMESTAMP_DATE \<or> ty = MYSQL_TIMESTAMP_DATETIME) \<and> t_type t = ty \<and> date_ok flags t \<and> clock_ok t"
proof -
  define t where "t = time_of_parts ps yl"
  define nz where "nz \<longleftrightarrow> (\<exists>p \<in> set ps. fst p \<noteq> 0)"
  have frac: "t_second_part t \<le> 999999" "\<not> t_neg t"
    unfolding t_def by (rule fraction_bound [OF assms]) (simp add: time_of_parts_def Let_def)
  have zero: "\<not> nz \<Longrightarrow> t_month t = 0"
    by (auto simp: t_def nz_def time_of_parts_def date_part_def Let_def split: if_splits)
  show ?thesis
  proof (cases "length ps < 3 \<or> 9999 < t_year t \<or> 12 < t_month t \<or> 31 < t_day t \<or> 23 < t_hour t \<or> 59 < t_minute t \<or>
            59 < t_second t")
    case True
    then show ?thesis using that unfolding finish_datetime_def t_def Let_def by simp
  next
    case False
    then obtain bad w where w: "check_date t nz flags 0 = Some (bad, w)" using check_date_returns [of t nz flags 0] by auto
    have good: "date_ok flags t \<and> clock_ok t" if "\<not> bad"
      using False frac w that zero check_date_good [of t flags 0 w] by (cases nz) (auto simp: date_ok_def clock_ok_def)
    note f = finish_datetime_def [of ps yl rest flags, folded t_def nz_def, unfolded Let_def]
    show ?thesis
    proof (cases bad)
      case True
      show ?thesis by (rule that [of MYSQL_TIMESTAMP_ERROR zero_time w]) (use True False w f in simp_all)
    next
      case False': False
      show ?thesis
        by (rule that) (use False False' w f good in \<open>auto simp: date_ok_def clock_ok_def split: if_splits\<close>)
    qed
  qed
qed

definition timestamp_result :: "u64 \<Rightarrow> MYSQL_TIME \<Rightarrow> timestamp_type \<times> MYSQL_TIME \<times> nat \<Rightarrow> bool" where
  "timestamp_result flags l_time r \<longleftrightarrow>
     (case r of (ty, t, w) \<Rightarrow>
        ty = MYSQL_TIMESTAMP_NONE \<and> t = l_time \<or> ty = MYSQL_TIMESTAMP_ERROR \<and> t = zero_time \<or>
        (ty = MYSQL_TIMESTAMP_DATE \<or> ty = MYSQL_TIMESTAMP_DATETIME) \<and> t_type t = ty \<and> date_ok flags t \<and> clock_ok t)"

lemma finish_result:
  assumes "6 < length ps \<longrightarrow> writable (ps ! 6)"
  obtains r where "finish_datetime ps yl rest flags = Some r" "timestamp_result flags l_time r"
proof -
  obtain ty t w where "finish_datetime ps yl rest flags = Some (ty, t, w)"
    "ty = MYSQL_TIMESTAMP_ERROR \<and> t = zero_time \<or>
     (ty = MYSQL_TIMESTAMP_DATE \<or> ty = MYSQL_TIMESTAMP_DATETIME) \<and> t_type t = ty \<and> date_ok flags t \<and> clock_ok t"
    by (rule finish_in_range [OF assms])
  then show ?thesis by (intro that [of "(ty, t, w)"]) (auto simp: timestamp_result_def)
qed

text \<open>C13: \<^verbatim>\<open>str_to_datetime\<close> returns for every text, without an access behind one of its tables.  It leaves the
  record alone when the text is no timestamp and sets it to zero when it reports an error; else the type is the one
  in the record and every field is in its range, the microseconds and the day of the month included.\<close>

theorem timestamp_in_range: "\<exists>r. str_to_datetime str l_time flags = Some r \<and> timestamp_result flags l_time r"
proof -
  define s where "s = dropWhile my_isspace str"
  define first where "first = takeWhile (\<lambda>c. my_isdigit c \<or> c = 84) s"
  define internal where "internal \<longleftrightarrow> drop (length first) s = [] \<or> hd (drop (length first) s) = 46"
  define len :: nat where "len = (if length first = 4 \<or> length first = 8 \<or> 14 \<le> length first then 4 else 2)"
  have none: "timestamp_result flags l_time (MYSQL_TIMESTAMP_NONE, l_time, 1)" by (simp add: timestamp_result_def)
  show ?thesis
  proof (cases "s = [] \<or> \<not> my_isdigit (hd s)")
    case True
    then show ?thesis using none unfolding str_to_datetime_def s_def [symmetric] Let_def by auto
  next
    case False
    show ?thesis
    proof (cases "scan_parts internal 7 0 (if internal then len else 4) s [] False False")
      case (Inl u)
      then show ?thesis
        using False none
        unfolding str_to_datetime_def s_def [symmetric] Let_def first_def [symmetric] internal_def [symmetric] len_def [symmetric]
        by simp
    next
      case (Inr q)
      obtain ps rest fd fs where q: "q = (ps, rest, fd, fs)" by (cases q) auto
      have "6 < length ps \<longrightarrow> writable (ps ! 6)"
        using scan_parts_writable [OF Inr [unfolded q]] by (simp add: len_def)
      then obtain r where "finish_datetime ps (if internal then len else snd (date_part ps 0)) rest flags = Some r"
        "timestamp_result flags l_time r" by (rule finish_result)
      then show ?thesis
        using False none Inr q
        unfolding str_to_datetime_def s_def [symmetric] Let_def first_def [symmetric] internal_def [symmetric] len_def [symmetric]
        by (cases r) simp
    qed
  qed
qed

section \<open>Numbers\<close>

lemma smod_int: "int a smod int r = int (a mod r)"
  using sdiv_mult_smod_eq [of "int a" "int r"] div_mult_mod_eq [of a r] unfolding sdiv_int
  by (metis add_left_cancel of_nat_add of_nat_mult)

lemma split_joined:
  assumes "y \<le> 9999" "m \<le> 12" "d \<le> 31" "h \<le> 23" "n \<le> 59" "s \<le> 59"
  shows "split_number (int ((y * 10000 + m * 100 + d) * 1000000 + (h * 10000 + n * 100 + s))) ty =
    zero_time\<lparr>t_year := y, t_month := m, t_day := d, t_hour := h, t_minute := n, t_second := s, t_type := ty\<rparr>"
proof -
  define D where "D = y * 10000 + m * 100 + d"
  define T where "T = h * 10000 + n * 100 + s"
  have "T < 1000000" using assms by (simp add: T_def)
  then have 1: "(D * 1000000 + T) div 1000000 = D" "D * 1000000 + T - D * 1000000 = T" by simp_all
  have "m * 100 + d < 10000" "n * 100 + s < 10000" using assms by simp_all
  then have 2: "D div 10000 = y" "D mod 10000 = m * 100 + d" "T div 10000 = h" "T mod 10000 = n * 100 + s"
    unfolding D_def T_def add.assoc by simp_all
  have 3: "(m * 100 + d) div 100 = m" "(m * 100 + d) mod 100 = d" "(n * 100 + s) div 100 = n" "(n * 100 + s) mod 100 = s"
    using assms by simp_all
  have 4: "int (D * 1000000 + T) sdiv 1000000 = int D" "int (D * 1000000 + T) - int D * 1000000 = int T"
    using sdiv_int [of "D * 1000000 + T" 1000000] 1 by simp_all
  have 5: "int k sdiv 10000 = int (k div 10000)" "int k smod 10000 = int (k mod 10000)" "int k sdiv 100 = int (k div 100)"
    "int k smod 100 = int (k mod 100)" for k
    using sdiv_int [of k 10000] smod_int [of k 10000] sdiv_int [of k 100] smod_int [of k 100] by simp_all
  show ?thesis
    unfolding D_def [symmetric] T_def [symmetric] split_number_def Let_def by (simp only: 2 3 4 5 nat_int)
qed

lemma wide_number: "1000 \<le> y \<Longrightarrow> 1 \<le> m \<Longrightarrow> 1 \<le> d \<Longrightarrow>
    10000101000000 \<le> int ((y * 10000 + m * 100 + d) * 1000000 + x)"
proof -
  assume "1000 \<le> y" "1 \<le> m" "1 \<le> d"
  then have "10000101 \<le> y * 10000 + m * 100 + d" by linarith
  then have "10000101 * 1000000 \<le> (y * 10000 + m * 100 + d) * 1000000" by (rule mult_le_mono1)
  then have "10000101000000 \<le> (y * 10000 + m * 100 + d) * 1000000 + x" by simp
  then show ?thesis using zle_int [of 10000101000000] by simp
qed

text \<open>\<^verbatim>\<open>number_to_datetime\<close> reads the number that \<^verbatim>\<open>TIME_to_ulonglong_datetime\<close> makes of a date and time of
  the calendar from the year 1000 on as the same value, without a warning and whatever the flags.\<close>

theorem number_read_back:
  assumes "real_date t" "day_time t" "1000 \<le> t_year t" "t_type t = MYSQL_TIMESTAMP_DATETIME"
  shows "number_to_datetime (uint (TIME_to_ulonglong_datetime t)) flags = Some (uint (TIME_to_ulonglong_datetime t), t, 0)"
proof -
  let ?n = "(t_year t * 10000 + t_month t * 100 + t_day t) * 1000000 + (t_hour t * 10000 + t_minute t * 100 + t_second t)"
  have b: "t_year t \<le> 9999" "t_month t \<le> 12" "t_day t \<le> 31" "t_hour t \<le> 23" "t_minute t \<le> 59" "t_second t \<le> 59"
    "1 \<le> t_month t" "1 \<le> t_day t" "t_second_part t = 0" "\<not> t_neg t"
    using assms real_date_day [of t] by (auto simp: real_date_def day_time_def)
  have small: "?n < 2 ^ 64" using b by simp
  have "TIME_to_ulonglong_datetime t = of_nat ?n" by (simp add: TIME_to_ulonglong_datetime_def)
  then have n: "uint (TIME_to_ulonglong_datetime t) = int ?n" using small by (simp add: uint_nat unat_of_nat del: of_nat_add of_nat_mult)
  have w: "10000101000000 \<le> int ?n" by (rule wide_number) (use b assms in simp_all)
  have c: "complete_number (int ?n) = Some (int ?n, MYSQL_TIMESTAMP_DATETIME)" "int ?n \<noteq> 0"
    using w by (auto simp: complete_number_def Let_def simp del: of_nat_add of_nat_mult)
  have t: "split_number (int ?n) MYSQL_TIMESTAMP_DATETIME = t"
    using b assms(4) by (simp only: split_joined [OF b(1-6)]) (simp add: zero_time_def)
  show ?thesis
    unfolding n number_to_datetime_def c(1) using b c(2) t check_real_date [OF assms(1), of flags 0]
    by (simp del: of_nat_add of_nat_mult)
qed

lemma number_read_back_witness:
  "number_to_datetime (uint (TIME_to_ulonglong_datetime (leap_day\<lparr>t_type := MYSQL_TIMESTAMP_DATETIME\<rparr>))) 0 =
     Some (uint (TIME_to_ulonglong_datetime (leap_day\<lparr>t_type := MYSQL_TIMESTAMP_DATETIME\<rparr>)),
       leap_day\<lparr>t_type := MYSQL_TIMESTAMP_DATETIME\<rparr>, 0)"
  by (rule number_read_back) (use leap_day_real in \<open>simp_all add: real_date_def day_time_def leap_day_def\<close>)

section \<open>Values that wrap around\<close>

text \<open>A time of 178956971 days passes the test for 838 hours, in the text and in the record.\<close>

lemma time_range_wraps:
  "check_time_range (zero_time\<lparr>t_day := 178956971\<rparr>) 0 = (False, zero_time\<lparr>t_day := 178956971\<rparr>, 0)"
  by (simp add: check_time_range_def wrap32_def zero_time_def TIME_MAX_HOUR_def)

lemma scan_long_year:
  assumes "list_all (\<lambda>d. d < 10) ds" "length ds = w" "0 < w" "dec_value ds mod 2 ^ 64 = y" "y \<le> 9999" "m < 100" "d < 100"
  shows "scan_parts False 7 0 4 (map dec_char ds @ 45 # padded 2 m @ 45 # padded 2 d) [] False False =
    Inr ([(y, w), (m, 2), (d, 2)], [], True, False)"
proof -
  have "ds \<noteq> []" using assms(2,3) by auto
  let ?x = "padded 2 m @ 45 # padded 2 d"
  have 3: "scan_parts False 5 2 2 (padded 2 d) l True False = Inr ([(d, 2)], [], True, False)" for l
    using scan_final [of 2 d 2 4] assms(7) by simp
  have 2: "scan_parts False 6 1 2 ?x l True False = Inr ([(m, 2), (d, 2)], [], True, False)" for l
    by (rule scan_step [where n = 5 and j = 2 and k' = d and rest = "[]"]) (use assms 3 in \<open>simp_all del: scan_parts.simps\<close>)
  have sk: "skip_delimiters False (45 # ?x) False False = Some (?x, True, False)" using skip_one [of 2 45] by simp
  have "scan_parts False (Suc 6) 0 4 (map dec_char ds @ 45 # ?x) [] False False =
      map_sum id (apfst ((#) (y, w))) (scan_parts False 6 1 2 ?x ?x True False)"
    using scan_field_digits [of ds y 0 "45 # ?x" w 6 4 "[]" False False] assms sk \<open>ds \<noteq> []\<close>
    by (simp add: stops_def delimiters del: scan_parts.simps skip_delimiters.simps)
  then show ?thesis using 2 by simp
qed

text \<open>C17: The year of a date is read modulo 2 to the 64: \<^verbatim>\<open>str_to_datetime\<close> takes a text whose year is out of all
  range for the date with the remainder as its year, without a warning.\<close>

theorem year_wraps:
  assumes "list_all (\<lambda>d. d < 10) ds" "2 < length ds" "dec_value ds mod 2 ^ 64 = t_year t" "real_date t"
    "t_hour t = 0" "t_minute t = 0" "t_second t = 0" "t_second_part t = 0" "\<not> t_neg t" "t_type t = MYSQL_TIMESTAMP_DATE"
  shows "str_to_datetime (map dec_char ds @ 45 # padded 2 (t_month t) @ 45 # padded 2 (t_day t)) l_time 0 =
    Some (MYSQL_TIMESTAMP_DATE, t, 0)"
proof -
  have r: "t_year t \<le> 9999" "t_month t < 100" "t_day t < 100" "t_month t \<noteq> 0" "t_month t \<le> 12" "t_day t \<le> 31"
    using assms(4) real_date_day [of t] by (auto simp: real_date_def)
  let ?ps = "[(t_year t, length ds), (t_month t, 2), (t_day t, 2)]"
  have p: "time_of_parts ?ps (length ds) = t"
    using assms by (simp add: time_of_parts_def date_part_def)
  have "finish_datetime ?ps (length ds) [] 0 = Some (MYSQL_TIMESTAMP_DATE, t, 0)"
    using r assms check_real_date [OF assms(4), of 0 0] unfolding finish_datetime_def p Let_def by simp
  moreover have "ds \<noteq> []" using assms(2) by auto
  ultimately show ?thesis
    using delimited_text [OF assms(1)] scan_long_year [OF assms(1) refl _ assms(3) r(1-3)] assms(2)
    by (simp add: date_part_def)
qed

lemma year_wraps_witness:
  "str_to_datetime (map dec_char [1, 8, 4, 4, 6, 7, 4, 4, 0, 7, 3, 7, 0, 9, 5, 5, 3, 6, 2, 4] @ 45 # padded 2 2 @ 45 # padded 2 29)
     zero_time 0 = Some (MYSQL_TIMESTAMP_DATE, leap_day, 0)"
proof -
  let ?ds = "[1, 8, 4, 4, 6, 7, 4, 4, 0, 7, 3, 7, 0, 9, 5, 5, 3, 6, 2, 4]"
  have "dec_value ?ds mod 2 ^ 64 = t_year leap_day" by (simp add: dec_value_def leap_day_def)
  then show ?thesis
    using year_wraps [of ?ds leap_day zero_time] leap_day_real by (simp add: leap_day_def zero_time_def)
qed

end
