(* ===== verification/DateRows.thy ===== *)
theory DateRows
  imports ClientNet TimeRead
begin

text \<open>
  Dates in the rows of a result: the value of a column of the type \<^verbatim>\<open>DATE\<close> or \<^verbatim>\<open>DATETIME\<close> comes as the text of the
  date, which the text protocol hands over and \<^verbatim>\<open>str_to_datetime\<close> reads.
\<close>

definition date_row :: "MYSQL_TIME \<Rightarrow> byte list option list" where
  "date_row t = [Some (my_TIME_to_str t)]"

lemma padded_length: "0 < w \<Longrightarrow> n < 10 ^ w \<Longrightarrow> length (padded w n) = w"
  using padded_digits [of w n] by (metis length_map)

lemma date_text_length:
  assumes "real_datetime t"
  shows "length (my_TIME_to_str t) \<le> 19"
proof -
  have "t_year t < 10 ^ 4" "t_month t < 10 ^ 2" "t_day t < 10 ^ 2" "t_hour t < 10 ^ 2" "t_minute t < 10 ^ 2" "t_second t < 10 ^ 2"
    using assms real_date_day [of t] by (auto simp: real_datetime_def real_date_def day_time_def)
  then show ?thesis
    using assms by (auto simp: real_datetime_def my_TIME_to_str_def my_date_to_str_def my_datetime_to_str_def padded_length)
qed

lemma date_row_ok: "real_datetime t \<Longrightarrow> ClientLink.row_ok 1 (date_row t)"
  using date_text_length [of t]
  by (simp add: ClientLink.row_ok_def date_row_def small_cell_def encode_row_def encode_cell_def net_store_length_def)

text \<open>What a program makes of the value of the first column.\<close>

definition read_date :: "byte list option list \<Rightarrow> (timestamp_type \<times> MYSQL_TIME \<times> nat) option" where
  "read_date r = str_to_datetime (the (hd r)) zero_time 0"

lemma read_date_rows:
  "list_all real_datetime ts \<Longrightarrow> map read_date (map date_row ts) = map (\<lambda>t. Some (t_type t, t, 0)) ts"
  by (induction ts) (simp_all add: read_date_def date_row_def datetime_text)

section \<open>An example\<close>

definition date_reply :: "byte list list" where
  "date_reply = header_packet 1 # map encode_row [demo_field] @ eof_packet 0 2 # map encode_row (map date_row [leap_day]) @ [eof_packet 0 2]"

definition date_mysql :: "CONN MYSQL" where
  "date_mysql = demo_mysql\<lparr>my_net :=
     \<lparr>c_net = (c_net demo_conn)\<lparr>vio := \<lparr>script = replicate (effort 9 [] [date_reply] 0) (Bytes 2), inp = [], outp = []\<rparr>\<rparr>,
      c_later = [([], stream 1 date_reply)]\<rparr>\<rparr>"

lemma leap_day_datetime: "real_datetime leap_day"
  using leap_day_real by (simp add: real_datetime_def leap_day_def zero_time_def)

lemma date_fits: "fits 1024 date_reply"
  using date_text_length [OF leap_day_datetime]
  by (simp add: date_reply_def fits_def demo_field_def header_packet_def eof_packet_def date_row_def
      encode_row_def encode_cell_def net_store_length_def field_fixed_def MAX_PACKET_LENGTH_def)

lemma date_talks: "conn_talks ample 9 (my_net date_mysql) [] [date_reply]"
  using date_fits ample_ok
  by (simp add: conn_talks_def date_mysql_def demo_conn_def net_ok_def NET_HEADER_SIZE_def COMP_HEADER_SIZE_def MAX_PACKET_LENGTH_def
      fits_def supplied_def steady_def list_all_iff)

lemma date_usable: "usable date_mysql" "my_status date_mysql = MYSQL_STATUS_READY"
  using demo_usable by (simp_all add: date_mysql_def usable_def)

end
