(* ===== verification/LocalFile.thy ===== *)
theory LocalFile
  imports ClientNet
begin

text \<open>
  What \<^verbatim>\<open>handle_local_infile\<close> (\<^verbatim>\<open>MySQL/libmysql.c\<close>) sends over the packet layer when the server asks for a file.
\<close>

section \<open>The file as its call-backs give it\<close>

text \<open>Reads of at most \<open>n\<close> bytes, from the state \<open>li\<close> on, give the blocks \<open>bs\<close> and then the end.\<close>

primrec gives_blocks :: "local_infile \<Rightarrow> nat \<Rightarrow> infile_state \<Rightarrow> byte list list \<Rightarrow> bool" where
  "gives_blocks cb n li [] \<longleftrightarrow> snd (li_read cb li n) = Some []"
| "gives_blocks cb n li (b # bs) \<longleftrightarrow>
     snd (li_read cb li n) = Some b \<and> b \<noteq> [] \<and> length b < MAX_PACKET_LENGTH \<and> gives_blocks cb n (fst (li_read cb li n)) bs"

section \<open>The packets\<close>

lemma stream_append: "stream nr (ps @ qs) = stream nr ps @ stream (nr + of_nat (length ps)) qs"
  by (induction ps arbitrary: nr) (simp_all add: add.assoc)

lemma one_write:
  assumes "write_ok net" "length p < MAX_PACKET_LENGTH" "ready net (length (frames (pkt_nr net) p) + k)"
  obtains net' where "my_net_write net p = Some (net', False)" "write_ok net'" "ready net' k"
    "sent net' = sent net @ frames (pkt_nr net) p" "pkt_nr net' = pkt_nr net + 1"
proof -
  obtain net1 f where w: "write_all (net\<lparr>pkt_nr := pkt_nr net + 1\<rparr>) [packet_header (length p) (pkt_nr net), p] = Some (net1, f)"
    "writes_nr net (concat [packet_header (length p) (pkt_nr net), p]) net1 f" "pkt_nr net1 = pkt_nr net + 1"
    using write_packet [OF assms(1)] by metis
  have fr: "writes_nr net (frames (pkt_nr net) p) net1 f" using w(2) frames_less [OF assms(2)] by simp
  then have f: "\<not> f" "ready net1 k" using assms(3) unfolding writes_nr_def by blast+
  then have "my_net_write net p = Some (net1, False)"
    using w(1) assms(2) by (simp add: my_net_write.simps [of net] Let_def del: write_all.simps)
  then show ?thesis using that fr f w(3) by (simp add: writes_nr_def)
qed

lemma conn_link_write [simp]:
  "lk_write (conn_link alloc infile) c p = do { (net, failed) \<leftarrow> my_net_write (c_net c) p; Some (c\<lparr>c_net := net\<rparr>, failed) }"
  "lk_flush (conn_link alloc infile) c = (let (net, failed) = net_flush (c_net c) in (c\<lparr>c_net := net\<rparr>, failed))"
  "lk_max_packet (conn_link alloc infile) c = max_packet (c_net c)" "lk_infile (conn_link alloc infile) = infile"
  by (simp_all add: conn_link_def)

lemma infile_loop_sends:
  assumes "gives_blocks cb n li bs" "write_ok (c_net (my_net m))"
    and "ready (c_net (my_net m)) (length (stream (pkt_nr (c_net (my_net m))) bs) + k)"
  shows "\<exists>net li'. infile_loop (conn_link alloc cb) m li n = Some (m\<lparr>my_net := (my_net m)\<lparr>c_net := net\<rparr>\<rparr>, li', Some False) \<and>
     write_ok net \<and> ready net k \<and> sent net = sent (c_net (my_net m)) @ stream (pkt_nr (c_net (my_net m))) bs \<and>
     pkt_nr net = pkt_nr (c_net (my_net m)) + of_nat (length bs)"
  using assms
proof (induction bs arbitrary: li m)
  case Nil
  obtain li' where r: "li_read cb li n = (li', Some [])" using Nil.prems(1) by (cases "li_read cb li n") auto
  have "infile_loop (conn_link alloc cb) m li n = Some (m, li', Some False)"
    by (subst infile_loop.simps) (simp add: r)
  then show ?case using Nil.prems by (intro exI [of _ "c_net (my_net m)"] exI [of _ li']) simp
next
  case (Cons b bs)
  let ?net = "c_net (my_net m)"
  obtain li1 where r: "li_read cb li n = (li1, Some b)" "b \<noteq> []" "length b < MAX_PACKET_LENGTH" "gives_blocks cb n li1 bs"
    using Cons.prems(1) by (cases "li_read cb li n") auto
  have rdy: "ready ?net (length (frames (pkt_nr ?net) b) + (length (stream (pkt_nr ?net + 1) bs) + k))"
    using Cons.prems(3) by (simp add: ac_simps)
  obtain net1 where n1: "my_net_write ?net b = Some (net1, False)" "write_ok net1"
    "ready net1 (length (stream (pkt_nr ?net + 1) bs) + k)" "sent net1 = sent ?net @ frames (pkt_nr ?net) b"
    "pkt_nr net1 = pkt_nr ?net + 1"
    by (rule one_write [OF Cons.prems(2) r(3) rdy])
  let ?m = "m\<lparr>my_net := (my_net m)\<lparr>c_net := net1\<rparr>\<rparr>"
  have step: "infile_loop (conn_link alloc cb) m li n = infile_loop (conn_link alloc cb) ?m li1 n"
    using r(2) n1(1) by (subst infile_loop.simps) (simp add: r(1))
  obtain net li' where rest: "infile_loop (conn_link alloc cb) ?m li1 n = Some (?m\<lparr>my_net := (my_net ?m)\<lparr>c_net := net\<rparr>\<rparr>, li', Some False)"
    "write_ok net" "ready net k" "sent net = sent net1 @ stream (pkt_nr net1) bs" "pkt_nr net = pkt_nr net1 + of_nat (length bs)"
    using Cons.IH [of li1 ?m] r(4) n1(2,3,5) by auto
  then show ?case
    using step n1(4,5) by (intro exI [of _ net] exI [of _ li']) (simp add: ac_simps)
qed

section \<open>Properties\<close>

text \<open>
  C21: a file that the server asks for arrives whole.  With memory for the read buffer, call-backs that open the file
  and give it in blocks (read by read, each below the maximal length of a packet) and then its end, and a socket that
  transfers at least a byte in each call, \<^verbatim>\<open>handle_local_infile\<close> returns without failure.  What the server has
  received behind what was waiting to be sent is one packet for each block, numbered in order, and the empty packet
  that marks the end.
\<close>
theorem local_infile_sends:
  assumes "li_init cb name = (li, False)" "\<forall>n. alloc n \<noteq> None"
    and "gives_blocks cb (infile_packet_length (max_packet (c_net (my_net m)))) li bs"
    and "write_ok (c_net (my_net m))"
    and "ready (c_net (my_net m)) (length (stream (pkt_nr (c_net (my_net m))) (bs @ [[]])))"
  shows "\<exists>m'. handle_local_infile (conn_link alloc cb) alloc m name = Some (m', False) \<and>
    outp (vio (c_net (my_net m'))) = sent (c_net (my_net m)) @ stream (pkt_nr (c_net (my_net m))) (bs @ [[]])"
proof -
  let ?net = "c_net (my_net m)"
  let ?n = "infile_packet_length (max_packet ?net)"
  have len: "length (stream (pkt_nr ?net) (bs @ [[]])) =
      length (stream (pkt_nr ?net) bs) + length (frames (pkt_nr ?net + of_nat (length bs)) [])"
    by (simp add: stream_append)
  obtain net li' where loop: "infile_loop (conn_link alloc cb) m li ?n =
      Some (m\<lparr>my_net := (my_net m)\<lparr>c_net := net\<rparr>\<rparr>, li', Some False)"
    "write_ok net" "ready net (length (frames (pkt_nr net) []) + 0)" "sent net = sent ?net @ stream (pkt_nr ?net) bs"
    "pkt_nr net = pkt_nr ?net + of_nat (length bs)"
    using infile_loop_sends [OF assms(3,4) assms(5) [unfolded len], of alloc] by auto
  obtain net1 where 1: "my_net_write net [] = Some (net1, False)" "write_ok net1" "ready net1 0"
    "sent net1 = sent net @ frames (pkt_nr net) []"
    by (rule one_write [OF loop(2) _ loop(3)]) (simp add: MAX_PACKET_LENGTH_def)
  obtain net2 f where 2: "net_flush net1 = (net2, f)" by fastforce
  then have f: "\<not> f" "outp (vio net2) = sent net1"
    using net_flush_spec [OF 1(2) 2] 1(3) by (auto simp: writes_def writes_nr_def)
  let ?m' = "m\<lparr>my_net := (my_net m)\<lparr>c_net := net2\<rparr>\<rparr>"
  have "alloc ?n \<noteq> None" using assms(2) by blast
  then have "handle_local_infile (conn_link alloc cb) alloc m name = Some (?m', False)"
    unfolding handle_local_infile_def Let_def
    using assms(1) loop(1) 1(1) 2 f(1) by simp
  moreover have "outp (vio (c_net (my_net ?m'))) = sent ?net @ stream (pkt_nr ?net) (bs @ [[]])"
    using f(2) 1(4) loop(4,5) by (simp add: stream_append)
  ultimately show ?thesis by blast
qed

text \<open>The file \<open>AB\<close>, in one block: the state counts the reads.\<close>

definition demo_infile :: local_infile where
  "demo_infile = \<lparr>li_init = (\<lambda>f. ([], False)),
     li_read = (\<lambda>li n. ([1], Some (if li = [] then [65, 66] else []))), li_error = (\<lambda>li. (0, []))\<rparr>"

theorem local_infile_sends_witness:
  "\<exists>m'. handle_local_infile (conn_link ample demo_infile) ample demo_mysql [102, 0] = Some (m', False) \<and>
     outp (vio (c_net (my_net m'))) = [2, 0, 0, 0, 65, 66, 0, 0, 0, 1]"
proof -
  have s: "stream 0 ([[65, 66]] @ [[]]) = [2, 0, 0, 0, 65, 66, 0, 0, 0, 1]"
    by (simp add: frames_less MAX_PACKET_LENGTH_def packet_header_def int3store_def drop_bit_eq_div)
  have d: "pkt_nr (c_net (my_net demo_mysql)) = 0" "sent (c_net (my_net demo_mysql)) = []"
    "write_ok (c_net (my_net demo_mysql))"
    by (simp_all add: demo_mysql_def demo_conn_def sent_def write_ok_def)
  have ready_ten: "ready (c_net (my_net demo_mysql)) (length [2, 0, 0, 0, 65, 66, 0, 0, 0, 1 :: byte])"
    by (simp add: demo_mysql_def demo_conn_def ready_def steady_def list_all_iff effort_def demo_replies_def)
  have f: "li_init demo_infile [102, 0] = ([], False)" "gives_blocks demo_infile n [] [[65, 66]]" for n
    by (simp_all add: demo_infile_def MAX_PACKET_LENGTH_def)
  have "ready (c_net (my_net demo_mysql)) (length (stream (pkt_nr (c_net (my_net demo_mysql))) ([[65, 66]] @ [[]])))"
    unfolding d(1) s by (rule ready_ten)
  then have "\<exists>m'. handle_local_infile (conn_link ample demo_infile) ample demo_mysql [102, 0] = Some (m', False) \<and>
     outp (vio (c_net (my_net m'))) = sent (c_net (my_net demo_mysql)) @ stream (pkt_nr (c_net (my_net demo_mysql))) ([[65, 66]] @ [[]])"
    by (intro local_infile_sends [OF f(1) _ f(2) d(3)]) (simp add: ample_def)
  then show ?thesis unfolding d s append_Nil .
qed

end
