(* ===== verification/Spec2Isabelle.thy ===== *)
theory Spec2Isabelle
  imports Wire Queue HashTable Password Escape LinkedList Qsort DateRows LocalFile
begin

text \<open>
  This library verifies the parts of the repository that carry logic of their own: the C client library of MySQL
  under \<^verbatim>\<open>src/MySQL\<close>, which the Objective-C classes of the framework call.  A program opens a connection
  (\<^verbatim>\<open>client.c\<close>), which computes the reply to the challenge of the server (\<^verbatim>\<open>password.c\<close>, \<^verbatim>\<open>sha1.c\<close>), builds its
  statements with escaped strings (\<^verbatim>\<open>charset.c\<close>, \<^verbatim>\<open>libmysql.c\<close>), sends them as packets (\<^verbatim>\<open>net_serv.cc\<close>,
  \<^verbatim>\<open>pack.c\<close>), reads the fields and rows of the result, and converts their texts to numbers and dates
  (\<^verbatim>\<open>my_strtoll10.c\<close>, \<^verbatim>\<open>str2int.c\<close>, \<^verbatim>\<open>my_time.c\<close>).  Below lie the containers and algorithms of the library (\<^verbatim>\<open>array.c\<close>,
  \<^verbatim>\<open>hash.c\<close>, \<^verbatim>\<open>queues.c\<close>, \<^verbatim>\<open>list.c\<close>, \<^verbatim>\<open>mf_qsort.c\<close>) and the character sets (\<^verbatim>\<open>ctype-*.c\<close>), which the hash table uses for
  its keys and the escaping for the boundaries of characters.

  \<^bold>\<open>Conventions.\<close>  Bytes and the unsigned integers of 16, 32 and 64 bits are words; a size or an
  index in an \<^verbatim>\<open>uint\<close> is a natural number with \<^const>\<open>wrap32\<close> where it can
  wrap around; a conversion to \<^verbatim>\<open>int\<close> that can lose bits is \<^const>\<open>to_int\<close>, a
  computation in \<^verbatim>\<open>int\<close> that can overflow is \<^const>\<open>c_int\<close>.  A buffer is the
  list of its bytes, a pointer into it an index or the rest of the list, a string the list of its characters without
  the terminator.  An access outside a buffer that the code does not check is \<^const>\<open>None\<close>
  (\<^const>\<open>rd\<close>), so that a theorem that gives \<^const>\<open>Some\<close> includes the safety of the
  accesses and the end of all loops.  Where the code looks at bytes in turn and stops at the first that decides
  (\<^verbatim>\<open>ismbchar\<close>, \<^verbatim>\<open>my_utf8_uni\<close>), the model reads them in that order
  (\<^const>\<open>and_then\<close>).  Shared cells that are linked by pointers are a map from addresses
  (\<open>LinkedList\<close>) or a list of slots (\<open>Hash\<close>).  A loop that need not end is a
  \<open>partial_function\<close> and its end is proved; the others are recursive functions with their measures.  Code
  that is not in the repository, or that asks the operating system, is an argument: the allocator, the comparison
  call-backs, the call-backs that read a local file, the results of the calls of a socket, the random generator of the
  4.0 authentication, \<^verbatim>\<open>memcmp\<close>.

  \<^bold>\<open>Theories.\<close>
  \<^item> \<open>Prelude\<close>: machine types, bounded reads, lemmas on options, lists and words.
  \<^item> \<open>Wire\<close> (\<^verbatim>\<open>my_global.h\<close>, \<^verbatim>\<open>pack.c\<close>): the integers of the protocol.  Stores and loads are inverse, and a sequence
    of length-coded integers can be read in one way only.
  \<^item> \<open>DynArray\<close> (\<^verbatim>\<open>array.c\<close>): the growable array refines a list; locale \<open>growable\<close>.
  \<^item> \<open>Queue\<close> (\<^verbatim>\<open>queues.c\<close>, the comparison of \<^verbatim>\<open>thr_alarm.c\<close>): the binary heap; inserting, removing, replacing and
    repairing keep the heap and its elements, and removing all elements sorts them.
  \<^item> \<open>Qsort\<close> (\<^verbatim>\<open>mf_qsort.c\<close>, \<^verbatim>\<open>comp_names\<close> of \<^verbatim>\<open>my_lib.c\<close>): the quicksort with its stack of ranges.  The locale
    \<open>call_back\<close> states what a comparison has to satisfy.  The invariant: two elements that no pending range covers
    are in order; the stack stays short because the smaller part is sorted first.
  \<^item> \<open>LinkedList\<close> (\<^verbatim>\<open>list.c\<close>, \<^verbatim>\<open>mysql_prune_stmt_list\<close>): doubly linked lists in a store of nodes.
  \<^item> \<open>Hash\<close> (\<^verbatim>\<open>hash.c\<close>) with \<open>HashChain\<close>, \<open>HashSplit\<close>, \<open>HashLink\<close>, \<open>HashInsert\<close>, \<open>HashFind\<close>, \<open>HashDelete\<close>,
    \<open>HashUpdate\<close> and \<open>HashTable\<close>: linear hashing.  The invariant says that every record lies in the chain of its hash
    value and that the chains part the array; insertion (with the split of one chain), deletion (which undoes a
    split) and update keep it.  \<open>good_key\<close> is what they need of a key: records whose keys compare equal to it have its
    hash value.  \<open>HashTable\<close> has the contract with the character sets as the locale \<open>key_charset\<close>, which gives
    \<open>good_key\<close> for keys below 2 GB.
  \<^item> \<open>Collation\<close> (\<^verbatim>\<open>ctype-bin.c\<close>, \<^verbatim>\<open>ctype-simple.c\<close>, \<^verbatim>\<open>ctype-utf8.c\<close>, a table of \<^verbatim>\<open>ctype-extra.c\<close>): comparison and
    hashing, with the locale \<open>hash_collation\<close>: equal strings below 2 GB have equal hash values.  The bound is that of
    the conversion of lengths to \<^verbatim>\<open>int\<close> (\<open>strnncoll_binary_wraps\<close>).
  \<^item> \<open>Utf8\<close>, \<open>UnicaseTab\<close>, \<open>Unicase\<close> (\<^verbatim>\<open>ctype-utf8.c\<close>): the decoder (which stays within the string) and
    encoder, the tables of case and weight of all
    pages, case conversion, comparison and sort keys.
  \<^item> \<open>MbCharset\<close> (\<^verbatim>\<open>ctype-gbk.c\<close>, \<^verbatim>\<open>ctype-big5.c\<close>, \<^verbatim>\<open>ctype-sjis.c\<close>, \<^verbatim>\<open>ctype-cp932.c\<close>, \<^verbatim>\<open>ctype-euc_kr.c\<close>, \<^verbatim>\<open>ctype-gb2312.c\<close>,
    \<^verbatim>\<open>ctype-ujis.c\<close>, \<^verbatim>\<open>ctype-eucjpms.c\<close>): where a character ends; locale \<open>mb_charset\<close>, interpreted for every set but
    \<^verbatim>\<open>ucs2\<close>, which reads beyond the end of a string of odd length.
  \<^item> \<open>Escape\<close> (\<^verbatim>\<open>charset.c\<close>): an escaped string ends at its closing quote and reads back, in the
    ten character sets that a connection may use.
  \<^item> \<open>Strtoll10\<close>, \<open>IntStr\<close>, \<open>Str2int\<close> (\<^verbatim>\<open>my_strtoll10.c\<close>, \<^verbatim>\<open>int2str.c\<close>, \<^verbatim>\<open>longlong2str.c\<close>, \<^verbatim>\<open>llstr.c\<close>, \<^verbatim>\<open>str2int.c\<close>): numbers
    and their texts, with the errors and the limits.
  \<^item> \<open>Sha1\<close> (\<^verbatim>\<open>sha1.c\<close>): the incremental digest refines the definition of FIPS 180-1, for a message fed in any
    pieces.  The definition of the standard shares no constant or operation with the code.
  \<^item> \<open>Password\<close> (\<^verbatim>\<open>password.c\<close>): the two authentications; the reply is accepted, and only a reply that shows the
    knowledge of the hash is.
  \<^item> \<open>Net\<close>, \<open>NetRead\<close>, \<open>NetWrite\<close> (\<^verbatim>\<open>net_serv.cc\<close>): the packet layer over a script of the results of the socket calls.
    What a peer sends is split into packets of at most \<^verbatim>\<open>MAX_PACKET_LENGTH\<close> bytes; reading joins them.  Safety is for
    every script and every input; delivery is for a script that supplies enough successful calls.
  \<^item> \<open>LocalFile\<close> (\<^verbatim>\<open>handle_local_infile\<close> of \<^verbatim>\<open>libmysql.c\<close>, whose definition is in \<open>Client\<close>): what the server gets when
    it asks for a file.
  \<^item> \<open>Rows\<close>, \<open>Client\<close> (\<^verbatim>\<open>client.c\<close>, \<^verbatim>\<open>libmysql.c\<close>, \<^verbatim>\<open>errmsg.c\<close>): the text protocol: commands, replies, errors, field
    descriptions in both formats, stored and unbuffered results.  A row that is copied fails with the kind of the
    access outside memory (\<open>fault\<close>).  \<open>ClientLink\<close> has the packet layer as the locale \<open>packet_link\<close>,
    \<open>ClientSync\<close> and \<open>ClientCalls\<close> the invariant of a connection (its status tells which packets are still to come)
    and that each call keeps it, \<open>ClientRun\<close> the step relation \<open>client_step\<close> of a program, and \<open>ClientNet\<close> the
    interpretation of the locales by the packet layer of \<open>Net\<close>, which carries the lemmas over to real packets.
  \<^item> \<open>TimeVal\<close>, \<open>Calendar\<close>, \<open>TimeRead\<close> (\<^verbatim>\<open>my_time.c\<close>): dates and times, their numbers and texts, the day number (an
    \<^verbatim>\<open>int\<close>) as a count of days, the ranges of what is read from any text.
  \<^item> \<open>DateRows\<close> and this theory: a date that travels in a row of a result.

  \<^bold>\<open>Bounds.\<close>  The number of bytes of a packet, of a query and of a row is below \<^verbatim>\<open>MAX_PACKET_LENGTH\<close> where a theorem on
  the client says so (\<open>fits\<close>); the packet layer has no such bound.  The hash table and the array hold less than 2 to
  the 32 elements.  \<open>conn_talks\<close> counts the socket calls that the rest of a conversation may take (\<open>effort\<close>), one for
  each byte at most, and asks the script for as many.  The theorems on the client take a server that keeps to the
  protocol, one result for a query, and memory that is never short (\<open>served\<close>); \<open>store_row_overflow\<close> shows what another
  server can do.  \<open>my_qsort_sorts\<close> needs an array below 2 GB, and \<open>my_qsort_skips\<close> shows why; so do the
  comparisons of strings.  \<open>calc_daynr_days\<close> is for years up to 5,000,000; from 5,883,517 on the sum overflows.

  \<^bold>\<open>Not modelled.\<close>  SQLite (\<^verbatim>\<open>src/SQLite\<close>) is a generated third-party file that the framework only calls; the
  Objective-C classes forward to the two libraries.  Of \<^verbatim>\<open>client.c\<close> and \<^verbatim>\<open>libmysql.c\<close>: connecting (sockets, TLS,
  option files), the automatic reconnection, replication, the default call-backs for a local file (calls of the file system), and
  prepared statements with the binary protocol.  Of
  \<^verbatim>\<open>net_serv.cc\<close>: compression (zlib) and alarms.  Of the character sets: the weight tables of particular languages,
  \<^verbatim>\<open>ctype-uca.c\<close>, the Unicode maps of the multi-byte sets, the LIKE operator, and the parser of the configuration files.
  Of \<^verbatim>\<open>my_time.c\<close>: the time zone of the operating system.  Files, file names, memory arenas, threads, options, error
  messages, tracing and the replacements of C library functions are wrappers of the operating system or of the C
  library and are left to them.
\<close>

section \<open>Properties\<close>

text \<open>C16: From a date in the data base to a date in the program.  When the server answers a query with a column of
  dates or of dates and times of the calendar, fetching the stored result gives one row for each of them, and
  \<^verbatim>\<open>str_to_datetime\<close> reads from its value the date itself, without a warning.\<close>

theorem dates_over_the_wire:
  assumes "usable m" "my_status m = MYSQL_STATUS_READY" "length q \<le> qmax"
    and "conn_talks alloc qmax (my_net m) []
      ((header_packet 1 # map encode_row fds @ eof_packet w s # map encode_row (map date_row ts) @ [eof_packet w' s']) # replies)"
    and "s AND 8 = 0" "s' AND 8 = 0" "length fds = 1" "list_all (ClientLink.row_ok 7) fds" "list_all2 describes fds fs"
    and "list_all real_datetime ts"
  shows "\<exists>m1 m2 res m3 res3 rows. mysql_real_query (conn_link alloc infile) alloc m q = Some (m1, False) \<and>
    mysql_store_result (conn_link alloc infile) alloc new_id m1 = Some (m2, Some res) \<and>
    fetch_rows (conn_link alloc infile) (Suc (length ts)) m2 res = Some (m3, res3, map Some rows @ [None]) \<and>
    map read_date rows = map (\<lambda>t. Some (t_type t, t, 0)) ts \<and>
    usable m3 \<and> my_status m3 = MYSQL_STATUS_READY \<and> conn_talks alloc qmax (my_net m3) [] replies"
proof -
  have al: "alloc_ok 1 alloc" "\<forall>n. alloc n \<noteq> None" using assms(4) by (simp_all add: conn_talks_def)
  have one: "(1 :: nat) < 16777216" by simp
  have rows: "list_all (ClientLink.row_ok 1) (map date_row ts)"
    using assms(10) date_row_ok by (simp add: list_all_iff)
  obtain m1 m2 res m3 res3 where r: "mysql_real_query (conn_link alloc infile) alloc m q = Some (m1, False)" "my_fields m1 = Some fs"
    "mysql_store_result (conn_link alloc infile) alloc new_id m1 = Some (m2, Some res)"
    "fetch_rows (conn_link alloc infile) (Suc (length (map date_row ts))) m2 res = Some (m3, res3, map Some (map date_row ts) @ [None])"
    "usable m3" "my_status m3 = MYSQL_STATUS_READY" "conn_talks alloc qmax (my_net m3) [] replies"
    by (rule conn.query_fetch [OF assms(1-3) al assms(4-6) zero_less_one one assms(7-9) rows insertI1])
  show ?thesis
    by (intro exI conjI) (rule r(1), rule r(3), rule r(4) [unfolded length_map], rule read_date_rows [OF assms(10)], rule r(5), rule r(6), rule r(7))
qed

theorem dates_over_the_wire_witness:
  "\<exists>m1 m2 res m3 res3 rows. mysql_real_query (conn_link ample no_infile) ample date_mysql [115] = Some (m1, False) \<and>
    mysql_store_result (conn_link ample no_infile) ample 1 m1 = Some (m2, Some res) \<and>
    fetch_rows (conn_link ample no_infile) (Suc 1) m2 res = Some (m3, res3, map Some rows @ [None]) \<and>
    map read_date rows = [Some (MYSQL_TIMESTAMP_DATE, leap_day, 0)]"
proof -
  have t: "t_type leap_day = MYSQL_TIMESTAMP_DATE" by (simp add: leap_day_def zero_time_def)
  have "\<exists>m1 m2 res m3 res3 rows. mysql_real_query (conn_link ample no_infile) ample date_mysql [115] = Some (m1, False) \<and>
    mysql_store_result (conn_link ample no_infile) ample 1 m1 = Some (m2, Some res) \<and>
    fetch_rows (conn_link ample no_infile) (Suc (length [leap_day])) m2 res = Some (m3, res3, map Some rows @ [None]) \<and>
    map read_date rows = map (\<lambda>t. Some (t_type t, t, 0)) [leap_day] \<and>
    usable m3 \<and> my_status m3 = MYSQL_STATUS_READY \<and> conn_talks ample 9 (my_net m3) [] []"
    by (rule dates_over_the_wire [OF date_usable _ date_talks [unfolded date_reply_def], of _ "[demo_MYSQL_FIELD]"])
      (use demo_field_ok leap_day_datetime in simp_all)
  then show ?thesis unfolding list.map t list.size by (elim exE conjE) (intro exI conjI, assumption+, simp_all)
qed

end
